(* ===== verification/Prelude.thy ===== *)
theory Prelude
  imports
    Main
    "HOL-Library.Finite_Map"
    "HOL-Library.List_Lexorder"
    "HOL-Library.Char_ord"
    "HOL-Library.Sublist"
begin

text \<open>
  Shared vocabulary of the development: the error values that the Go code returns,
  fallible pure results, Go maps as finite maps with their sorted key list, and the
  generic lemmas on lists and finite maps that the component theories use.

  Go strings and byte slices are lists of bytes (\<open>string\<close> is \<open>char list\<close> and a
  \<open>char\<close> is one byte), ordered lexicographically by byte value as Go orders them.
\<close>

named_theorems go_str \<open>rewrite rules for the models of Go's string functions\<close>

section \<open>Errors\<close>

text \<open>
  \<open>ErrConflict\<close> is \<open>config.ErrConflict\<close>, \<open>ErrNotExist\<close> is \<open>fs.ErrNotExist\<close>,
  \<open>Fault\<close> is any other error of the operating system, of systemd or of D-Bus, \<open>Msg\<close>
  an error made by \<open>fmt.Errorf\<close>, \<open>Wrap\<close> one made with the verb for wrapping, and
  \<open>Join\<close> one made by \<open>errors.Join\<close>.
\<close>

datatype error =
    ErrConflict
  | ErrNotExist
  | Fault
  | Msg string
  | Wrap string error
  | Join error error

fun errors_is :: "error \<Rightarrow> error \<Rightarrow> bool" where
  "errors_is (Wrap s e) t = (Wrap s e = t \<or> errors_is e t)"
| "errors_is (Join a b) t = (Join a b = t \<or> errors_is a t \<or> errors_is b t)"
| "errors_is e t = (e = t)"

type_synonym 'a result = "error + 'a"

definition bind_res :: "'a result \<Rightarrow> ('a \<Rightarrow> 'b result) \<Rightarrow> 'b result" where
  "bind_res r f = (case r of Inl e \<Rightarrow> Inl e | Inr x \<Rightarrow> f x)"

lemma bind_res_simps [simp]:
  "bind_res (Inl e) f = Inl e"
  "bind_res (Inr x) f = f x"
  by (simp_all add: bind_res_def)

lemma bind_res_Inr_iff [simp]:
  "bind_res r f = Inr y \<longleftrightarrow> (\<exists>x. r = Inr x \<and> f x = Inr y)"
  by (cases r) auto

lemma guard_iff: "(if b then Inl e else r) = Inr y \<longleftrightarrow> \<not> b \<and> r = Inr y"
  by simp

abbreviation is_ok :: "'a result \<Rightarrow> bool" where
  "is_ok r \<equiv> \<not> isl r"

lemma is_ok_iff: "is_ok r \<longleftrightarrow> (\<exists>x. r = Inr x)"
  by (cases r) auto

section \<open>Loops that stop at the first error\<close>

fun check_all :: "('a \<Rightarrow> unit result) \<Rightarrow> 'a list \<Rightarrow> unit result" where
  "check_all f [] = Inr ()"
| "check_all f (x # xs) = bind_res (f x) (\<lambda>_. check_all f xs)"

lemma check_all_ok: "check_all f xs = Inr () \<longleftrightarrow> (\<forall>x\<in>set xs. f x = Inr ())"
  by (induction xs) auto

lemma check_all_append:
  "check_all f (xs @ ys) = bind_res (check_all f xs) (\<lambda>_. check_all f ys)"
proof (induction xs)
  case (Cons x xs)
  then show ?case by (cases "f x") auto
qed simp

section \<open>Go maps\<close>

text \<open>
  A Go map is a finite map. Go iterates over a map in an unspecified order; the model
  iterates in the order of the keys, and the theorems about such loops say what does
  not depend on the order.
\<close>

definition sorted_keys :: "('k::linorder, 'v) fmap \<Rightarrow> 'k list" where
  "sorted_keys m = sorted_list_of_fset (fmdom m)"

lemma set_sorted_keys [simp]: "set (sorted_keys m) = fset (fmdom m)"
  by (simp add: sorted_keys_def)

lemma sorted_sorted_keys [simp]: "sorted (sorted_keys m)"
  by (simp add: sorted_keys_def sorted_list_of_fset.rep_eq)

lemma distinct_sorted_keys [simp]: "distinct (sorted_keys m)"
  by (simp add: sorted_keys_def sorted_list_of_fset.rep_eq)

lemma sorted_keys_empty [simp]: "sorted_keys fmempty = []"
  by (simp add: sorted_keys_def sorted_list_of_fset.rep_eq)

lemma sorted_keys_code [code]:
  "sorted_keys (fmap_of_list xs) = sort (remdups (map fst xs))"
  by (simp add: sorted_keys_def sorted_list_of_fset.rep_eq fset_of_list.rep_eq
      sorted_list_of_set_sort_remdups flip: set_map)

lemma sorted_keys_upd:
  "sorted_keys (fmupd k v m) = insort k (sorted_keys (fmdrop k m))"
  by (simp add: sorted_keys_def sorted_list_of_fset.rep_eq sorted_list_of_set_insert_remove)

lemma sorted_keys_upd_new:
  "fmlookup m k = None \<Longrightarrow> sorted_keys (fmupd k v m) = insort k (sorted_keys m)"
  by (simp add: sorted_keys_upd fmdrop_idle fmdom_notI)

lemma fmap_ext_iff: "m = n \<longleftrightarrow> (\<forall>k. fmlookup m k = fmlookup n k)"
  by (auto intro: fmap_ext)

lemma fmlookup_SomeI_dom: "k |\<in>| fmdom m \<Longrightarrow> \<exists>v. fmlookup m k = Some v"
  by (auto simp: fmlookup_dom_iff)

definition fm_get :: "'v \<Rightarrow> ('k, 'v) fmap \<Rightarrow> 'k \<Rightarrow> 'v" where
  "fm_get zero m k = (case fmlookup m k of None \<Rightarrow> zero | Some v \<Rightarrow> v)"

lemma fm_get_simps [simp]:
  "fmlookup m k = Some v \<Longrightarrow> fm_get z m k = v"
  "fmlookup m k = None \<Longrightarrow> fm_get z m k = z"
  by (simp_all add: fm_get_def)

section \<open>Lists\<close>

lemma takeWhile_append_stop:
  "(\<forall>x\<in>set xs. P x) \<Longrightarrow> \<not> P y \<Longrightarrow> takeWhile P (xs @ y # ys) = xs"
  by (induction xs) auto

lemma dropWhile_append_stop:
  "(\<forall>x\<in>set xs. P x) \<Longrightarrow> \<not> P y \<Longrightarrow> dropWhile P (xs @ y # ys) = y # ys"
  by (induction xs) auto

lemma append_stop_eq:
  "c \<notin> set a \<Longrightarrow> c \<notin> set b \<Longrightarrow> a @ c # u = b @ c # v \<longleftrightarrow> a = b \<and> u = v"
proof (induction a arbitrary: b)
  case Nil
  then show ?case by (cases b) auto
next
  case (Cons x a)
  then show ?case by (cases b) auto
qed

lemma sum_list_member_le: "x \<in> set xs \<Longrightarrow> f x \<le> sum_list (map f xs)" for f :: "'a \<Rightarrow> nat"
  by (induction xs) auto

end
