(* ===== verification/GoStd.thy ===== *)
theory GoStd
  imports Prelude "HOL-Library.Word"
begin

text \<open>
  The functions of Go's standard library that the program calls on byte strings:
  \<open>strings\<close> (trimming, cutting, splitting, fields), \<open>path\<close> (cleaning, directory and base
  name), \<open>bufio.Scanner\<close> with line splitting and its token limit, \<open>unicode/utf8\<close>,
  \<open>strconv\<close> for decimal and octal numbers, \<open>encoding/hex\<close> and the time layout that the
  program prints. They are the standard library's behaviour, not the program's, and so
  have no entry in the source map.
\<close>

section \<open>Characters\<close>

definition byte_of :: "char \<Rightarrow> nat" where
  "byte_of c = of_char c"

abbreviation nl :: char where "nl \<equiv> CHR 0x0A"
abbreviation cr :: char where "cr \<equiv> CHR 0x0D"
abbreviation tab :: char where "tab \<equiv> CHR 0x09"
abbreviation nul :: char where "nul \<equiv> CHR 0x00"

lemma byte_of_lt: "byte_of c < 256"
  by (simp add: byte_of_def)

definition is_digit :: "char \<Rightarrow> bool" where
  "is_digit c \<longleftrightarrow> 48 \<le> byte_of c \<and> byte_of c \<le> 57"

definition is_alpha :: "char \<Rightarrow> bool" where
  "is_alpha c \<longleftrightarrow> 65 \<le> byte_of c \<and> byte_of c \<le> 90 \<or> 97 \<le> byte_of c \<and> byte_of c \<le> 122"

definition is_alnum :: "char \<Rightarrow> bool" where
  "is_alnum c \<longleftrightarrow> is_alpha c \<or> is_digit c"

definition lower_char :: "char \<Rightarrow> char" where
  "lower_char c = (if 65 \<le> byte_of c \<and> byte_of c \<le> 90 then char_of (byte_of c + 32) else c)"

text \<open>\<open>strings.ToLower\<close>; the program calls it on ASCII strings only.\<close>

definition to_lower :: "string \<Rightarrow> string" where
  "to_lower s = map lower_char s"

section \<open>Package strings\<close>

definition contains_any :: "string \<Rightarrow> string \<Rightarrow> bool" where
  "contains_any s cs \<longleftrightarrow> list_ex (\<lambda>c. c \<in> set cs) s"

lemma not_contains_any: "\<not> contains_any s cs \<longleftrightarrow> set s \<inter> set cs = {}"
  by (auto simp: contains_any_def list_ex_iff)

text \<open>\<open>strings.Cut\<close> at a one-byte separator: before, after, found.\<close>

definition cut :: "char \<Rightarrow> string \<Rightarrow> string \<times> string \<times> bool" where
  "cut c s = (takeWhile (\<lambda>x. x \<noteq> c) s, tl (dropWhile (\<lambda>x. x \<noteq> c) s), c \<in> set s)"

lemma cut_append [go_str]: "c \<notin> set a \<Longrightarrow> cut c (a @ c # b) = (a, b, True)"
proof -
  assume "c \<notin> set a"
  then have "\<forall>x\<in>set a. x \<noteq> c" by auto
  then show ?thesis
    by (simp add: cut_def takeWhile_append_stop dropWhile_append_stop)
qed

lemma cut_absent [go_str]: "c \<notin> set a \<Longrightarrow> cut c a = (a, [], False)"
proof -
  assume "c \<notin> set a"
  then have "dropWhile (\<lambda>x. x \<noteq> c) a = []" by auto
  with \<open>c \<notin> set a\<close> show ?thesis
    by (auto simp: cut_def takeWhile_eq_all_conv simp del: dropWhile_eq_Nil_conv)
qed

text \<open>\<open>strings.Split\<close> at a one-byte separator.\<close>

fun split_on :: "char \<Rightarrow> string \<Rightarrow> string list" where
  "split_on c [] = [[]]"
| "split_on c (x # xs) =
     (if x = c then [] # split_on c xs
      else case split_on c xs of [] \<Rightarrow> [[x]] | p # ps \<Rightarrow> (x # p) # ps)"

lemma split_on_nonempty [simp]: "split_on c s \<noteq> []"
  by (induction s) (auto split: list.splits)

lemma split_on_parts: "p \<in> set (split_on c s) \<Longrightarrow> c \<notin> set p \<and> set p \<subseteq> set s"
proof (induction s arbitrary: p)
  case (Cons x xs)
  then show ?case
    by (cases "split_on c xs") (fastforce split: if_splits)+
qed simp

text \<open>\<open>strings.Join\<close>.\<close>

fun join_with :: "string \<Rightarrow> string list \<Rightarrow> string" where
  "join_with sep [] = []"
| "join_with sep [s] = s"
| "join_with sep (s # ss) = s @ sep @ join_with sep ss"

definition trim_prefix :: "string \<Rightarrow> string \<Rightarrow> string" where
  "trim_prefix s p = (if prefix p s then drop (length p) s else s)"

definition trim_suffix :: "string \<Rightarrow> string \<Rightarrow> string" where
  "trim_suffix s p = (if suffix p s then take (length s - length p) s else s)"

definition cut_suffix :: "string \<Rightarrow> string \<Rightarrow> string \<times> bool" where
  "cut_suffix s p = (if suffix p s then (take (length s - length p) s, True) else (s, False))"

definition space_seqs :: "string list" where
  "space_seqs =
     [[CHR 0x09], [CHR 0x0A], [CHR 0x0B], [CHR 0x0C], [CHR 0x0D], [CHR 0x20],
      [CHR 0xC2, CHR 0x85], [CHR 0xC2, CHR 0xA0], [CHR 0xE1, CHR 0x9A, CHR 0x80],
      [CHR 0xE2, CHR 0x80, CHR 0x80], [CHR 0xE2, CHR 0x80, CHR 0x81],
      [CHR 0xE2, CHR 0x80, CHR 0x82], [CHR 0xE2, CHR 0x80, CHR 0x83],
      [CHR 0xE2, CHR 0x80, CHR 0x84], [CHR 0xE2, CHR 0x80, CHR 0x85],
      [CHR 0xE2, CHR 0x80, CHR 0x86], [CHR 0xE2, CHR 0x80, CHR 0x87],
      [CHR 0xE2, CHR 0x80, CHR 0x88], [CHR 0xE2, CHR 0x80, CHR 0x89],
      [CHR 0xE2, CHR 0x80, CHR 0x8A], [CHR 0xE2, CHR 0x80, CHR 0xA8],
      [CHR 0xE2, CHR 0x80, CHR 0xA9], [CHR 0xE2, CHR 0x80, CHR 0xAF],
      [CHR 0xE2, CHR 0x81, CHR 0x9F], [CHR 0xE3, CHR 0x80, CHR 0x80]]"

text \<open>
  \<open>unicode.IsSpace\<close> on the UTF-8 form: the byte sequences of the runes that Go counts as
  white space. A lead byte never occurs inside another encoded rune, so stripping these
  sequences byte-wise is what \<open>strings.TrimSpace\<close> does rune-wise.
\<close>

definition space_at :: "string list \<Rightarrow> string \<Rightarrow> nat" where
  "space_at qs s = (case find (\<lambda>q. prefix q s) qs of None \<Rightarrow> 0 | Some q \<Rightarrow> length q)"

function trim_seqs :: "string list \<Rightarrow> string \<Rightarrow> string" where
  "trim_seqs qs s =
     (if space_at qs s = 0 then s else trim_seqs qs (drop (space_at qs s) s))"
  by pat_completeness auto
termination
proof (relation "measure (\<lambda>(qs, s). length s)", goal_cases)
  case (2 qs s)
  then have "s \<noteq> []"
    by (auto simp: space_at_def find_Some_iff split: option.splits)
  with 2 show ?case by simp
qed simp

declare trim_seqs.simps [simp del]

definition trim_left :: "string \<Rightarrow> string" where
  "trim_left s = trim_seqs space_seqs s"

definition trim_right :: "string \<Rightarrow> string" where
  "trim_right s = rev (trim_seqs (map rev space_seqs) (rev s))"

definition trim_space :: "string \<Rightarrow> string" where
  "trim_space s = trim_right (trim_left s)"

text \<open>\<open>strings.Fields\<close>: the maximal runs of bytes that hold no white-space rune.\<close>

function fields_from :: "string \<Rightarrow> string \<Rightarrow> string list" where
  "fields_from cur s =
     (if s = [] then (if cur = [] then [] else [rev cur])
      else if space_at space_seqs s = 0 then fields_from (hd s # cur) (tl s)
      else (if cur = [] then [] else [rev cur]) @
        fields_from [] (drop (space_at space_seqs s) s))"
  by pat_completeness auto
termination
  by (relation "measure (\<lambda>(cur, s). length s)") auto

declare fields_from.simps [simp del]

definition str_fields :: "string \<Rightarrow> string list" where
  "str_fields s = fields_from [] s"


section \<open>bufio.Scanner\<close>

text \<open>
  \<open>bufio.ScanLines\<close>: the lines of the input, without their line feed and one carriage
  return before it; an unterminated last line counts when it is not empty. A scanner
  whose buffer may hold \<open>limit\<close> bytes stops with \<open>bufio.ErrTooLong\<close> at the first line
  of \<open>limit\<close> bytes or more (the buffer is full and holds no line feed).
\<close>

fun raw_lines :: "string \<Rightarrow> string list" where
  "raw_lines [] = []"
| "raw_lines (c # s) =
     (if c = nl then [] # raw_lines s
      else case raw_lines s of [] \<Rightarrow> [[c]] | l # ls \<Rightarrow> (c # l) # ls)"

definition drop_cr :: "string \<Rightarrow> string" where
  "drop_cr l = (if l \<noteq> [] \<and> last l = cr then butlast l else l)"

definition scan_lines :: "nat \<Rightarrow> string \<Rightarrow> string list \<times> bool" where
  "scan_lines limit s =
     (let ls = raw_lines s; short = takeWhile (\<lambda>l. length l < limit) ls
      in (map drop_cr short, length short < length ls))"

section \<open>Package unicode/utf8\<close>

definition cont_byte :: "nat \<Rightarrow> bool" where
  "cont_byte b \<longleftrightarrow> 128 \<le> b \<and> b \<le> 191"

text \<open>
  \<open>utf8.DecodeRuneInString\<close> on a non-empty string: the rune and its width; an invalid
  encoding is the replacement rune 65533 of width 1.
\<close>

fun decode_rune :: "nat list \<Rightarrow> nat \<times> nat" where
  "decode_rune [] = (65533, 0)"
| "decode_rune (a # r) =
     (if a < 128 then (a, 1)
      else case r of
        [] \<Rightarrow> (65533, 1)
      | b # r2 \<Rightarrow>
          if 194 \<le> a \<and> a \<le> 223 then
            (if cont_byte b then ((a - 192) * 64 + (b - 128), 2) else (65533, 1))
          else if 224 \<le> a \<and> a \<le> 239 then
            (case r2 of [] \<Rightarrow> (65533, 1)
             | c # _ \<Rightarrow>
                 if (if a = 224 then 160 \<le> b \<and> b \<le> 191
                     else if a = 237 then 128 \<le> b \<and> b \<le> 159 else cont_byte b)
                    \<and> cont_byte c
                 then ((a - 224) * 4096 + (b - 128) * 64 + (c - 128), 3) else (65533, 1))
          else if 240 \<le> a \<and> a \<le> 244 then
            (case r2 of c # d # _ \<Rightarrow>
                 if (if a = 240 then 144 \<le> b \<and> b \<le> 191
                     else if a = 244 then 128 \<le> b \<and> b \<le> 143 else cont_byte b)
                    \<and> cont_byte c \<and> cont_byte d
                 then ((a - 240) * 262144 + (b - 128) * 4096 + (c - 128) * 64 + (d - 128), 4)
                 else (65533, 1)
             | _ \<Rightarrow> (65533, 1))
          else (65533, 1))"

text \<open>The runes of \<open>for range\<close> over a string, each with its width in bytes.\<close>

function runes_w :: "nat list \<Rightarrow> (nat \<times> nat) list" where
  "runes_w bs =
     (if bs = [] then []
      else (let (r, w) = decode_rune bs in (r, w) # runes_w (drop (max 1 w) bs)))"
  by pat_completeness auto
termination
  by (relation "measure length") auto

declare runes_w.simps [simp del]

definition runes :: "string \<Rightarrow> nat list" where
  "runes s = map fst (runes_w (map byte_of s))"

text \<open>\<open>utf8.ValidString\<close>: no rune is an error of width 1 (a real U+FFFD has width 3).\<close>

definition utf8_valid :: "string \<Rightarrow> bool" where
  "utf8_valid s \<longleftrightarrow> list_all (\<lambda>(r, w). \<not> (r = 65533 \<and> w = 1)) (runes_w (map byte_of s))"

lemma runes_w_ascii:
  "list_all (\<lambda>b. b < 128) bs \<Longrightarrow> runes_w bs = map (\<lambda>b. (b, 1)) bs"
  by (induction bs) (auto simp: runes_w.simps)

lemma runes_ascii:
  assumes "list_all (\<lambda>c. byte_of c < 128) s"
  shows "runes s = map byte_of s" and "utf8_valid s"
proof -
  have "list_all (\<lambda>b. b < 128) (map byte_of s)"
    using assms by (simp add: list.pred_map comp_def)
  from runes_w_ascii [OF this] show "runes s = map byte_of s" "utf8_valid s"
    using assms by (auto simp: runes_def utf8_valid_def list_all_iff)
qed

text \<open>
  What \<open>encoding/json\<close> makes of a string that is written and read back: each invalid
  byte becomes the replacement rune, a valid string is unchanged.
\<close>

function json_string :: "string \<Rightarrow> string" where
  "json_string s =
     (if s = [] then []
      else (let (r, w) = decode_rune (map byte_of s) in
        (if r = 65533 \<and> w = 1 then [CHR 0xEF, CHR 0xBF, CHR 0xBD] else take (max 1 w) s)
        @ json_string (drop (max 1 w) s)))"
  by pat_completeness auto
termination
  by (relation "measure length") auto

declare json_string.simps [simp del]

section \<open>Package path\<close>

text \<open>
  \<open>path.Clean\<close> on the segments between slashes: empty segments and dots vanish, a
  double dot removes the segment before it, and is kept at the start of a relative path.
\<close>

fun clean_segs :: "bool \<Rightarrow> string list \<Rightarrow> string list \<Rightarrow> string list" where
  "clean_segs rooted acc [] = rev acc"
| "clean_segs rooted acc (p # ps) =
     (if p = [] \<or> p = ''.'' then clean_segs rooted acc ps
      else if p = ''..'' then
        (if acc \<noteq> [] \<and> hd acc \<noteq> ''..'' then clean_segs rooted (tl acc) ps
         else if rooted then clean_segs rooted acc ps
         else clean_segs rooted (p # acc) ps)
      else clean_segs rooted (p # acc) ps)"

fun join_segs :: "string list \<Rightarrow> string" where
  "join_segs [] = []"
| "join_segs [p] = p"
| "join_segs (p # ps) = p @ ''/'' @ join_segs ps"

definition path_clean :: "string \<Rightarrow> string" where
  "path_clean p =
     (let rooted = prefix ''/'' p;
          out = join_segs (clean_segs rooted [] (split_on (CHR ''/'') p))
      in if rooted then CHR ''/'' # out else if out = [] then ''.'' else out)"

text \<open>\<open>path.Dir\<close> cleans what is before the last slash, the slash included.\<close>

definition path_dir :: "string \<Rightarrow> string" where
  "path_dir p = path_clean (rev (dropWhile (\<lambda>c. c \<noteq> CHR ''/'') (rev p)))"

definition path_base :: "string \<Rightarrow> string" where
  "path_base p =
     (if p = [] then ''.''
      else let q = rev (dropWhile (\<lambda>c. c = CHR ''/'') (rev p))
      in if q = [] then ''/'' else rev (takeWhile (\<lambda>c. c \<noteq> CHR ''/'') (rev q)))"

definition path_join :: "string \<Rightarrow> string \<Rightarrow> string" where
  "path_join a b =
     (if a = [] \<and> b = [] then []
      else if a = [] then path_clean b
      else if b = [] then path_clean a
      else path_clean (a @ ''/'' @ b))"

section \<open>Numbers\<close>

definition digit_char :: "nat \<Rightarrow> char" where
  "digit_char d = char_of (48 + d)"

fun digits_base :: "nat \<Rightarrow> nat \<Rightarrow> string" where
  "digits_base b n =
     (if b < 2 \<or> n < b then [digit_char n] else digits_base b (n div b) @ [digit_char (n mod b)])"

declare digits_base.simps [simp del]

definition nat_dec :: "nat \<Rightarrow> string" where
  "nat_dec n = digits_base 10 n"

definition nat_oct :: "nat \<Rightarrow> string" where
  "nat_oct n = digits_base 8 n"

definition int_dec :: "int \<Rightarrow> string" where
  "int_dec i = (if i < 0 then CHR ''-'' # nat_dec (nat (- i)) else nat_dec (nat i))"

definition digit_val :: "char \<Rightarrow> nat" where
  "digit_val c = byte_of c - 48"

definition dec_value :: "string \<Rightarrow> nat" where
  "dec_value s = foldl (\<lambda>n c. n * 10 + digit_val c) 0 s"

text \<open>\<open>strconv.ParseUint\<close> with base 10 and 64 bits.\<close>

definition parse_uint64 :: "string \<Rightarrow> nat option" where
  "parse_uint64 s =
     (if s \<noteq> [] \<and> list_all is_digit s \<and> dec_value s < 2 ^ 64 then Some (dec_value s) else None)"

definition hex_char :: "nat \<Rightarrow> char" where
  "hex_char d = (if d < 10 then char_of (48 + d) else char_of (87 + d))"

definition hex_byte :: "nat \<Rightarrow> string" where
  "hex_byte b = [hex_char (b div 16), hex_char (b mod 16)]"

text \<open>\<open>hex.EncodeToString\<close>.\<close>

definition hex_encode :: "string \<Rightarrow> string" where
  "hex_encode s = concat (map (\<lambda>c. hex_byte (byte_of c)) s)"

section \<open>Time\<close>

text \<open>
  A time is its nanoseconds since the Unix epoch; \<open>stamp\<close> prints it in UTC with the
  layout \<open>20060102T150405.000000000Z\<close> (years up to 9999). The calendar date comes
  from the day number by the usual 400-year cycle computation.
\<close>

definition civil :: "nat \<Rightarrow> nat \<times> nat \<times> nat" where
  "civil days =
     (let z = days + 719468; era = z div 146097; doe = z mod 146097;
          yoe = (doe - doe div 1460 + doe div 36524 - doe div 146096) div 365;
          doy = doe - (365 * yoe + yoe div 4 - yoe div 100);
          mp = (5 * doy + 2) div 153;
          d = doy - (153 * mp + 2) div 5 + 1;
          m = (if mp < 10 then mp + 3 else mp - 9)
      in (yoe + era * 400 + (if m \<le> 2 then 1 else 0), m, d))"

fun pad_dec :: "nat \<Rightarrow> nat \<Rightarrow> string" where
  "pad_dec 0 n = []"
| "pad_dec (Suc w) n = pad_dec w (n div 10) @ [digit_char (n mod 10)]"

definition stamp :: "nat \<Rightarrow> string" where
  "stamp t =
     (let ns = t mod 1000000000; s = t div 1000000000; (y, m, d) = civil (s div 86400);
          r = s mod 86400
      in pad_dec 4 y @ pad_dec 2 m @ pad_dec 2 d @ ''T'' @ pad_dec 2 (r div 3600)
         @ pad_dec 2 (r div 60 mod 60) @ pad_dec 2 (r mod 60) @ ''.'' @ pad_dec 9 ns @ ''Z'')"

section \<open>Facts\<close>

subsection \<open>Lines\<close>

lemma raw_lines_line:
  "nl \<notin> set l \<Longrightarrow> raw_lines (l @ nl # s) = l # raw_lines s"
  by (induction l) auto

definition unlines :: "string list \<Rightarrow> string" where
  "unlines ls = concat (map (\<lambda>l. l @ [nl]) ls)"

lemma unlines_simps [simp]:
  "unlines [] = []"
  "unlines (l # ls) = l @ nl # unlines ls"
  "unlines (ls @ ks) = unlines ls @ unlines ks"
  by (simp_all add: unlines_def)

lemma unlines_concat: "unlines (concat lss) = concat (map unlines lss)"
  by (induction lss) auto

lemma raw_lines_unlines:
  "(\<forall>l\<in>set ls. nl \<notin> set l) \<Longrightarrow> raw_lines (unlines ls) = ls"
  by (induction ls) (auto simp: raw_lines_line)

lemma drop_cr_idle: "cr \<notin> set l \<Longrightarrow> drop_cr l = l"
  by (metis drop_cr_def last_in_set)

lemma scan_lines_unlines:
  assumes "\<forall>l\<in>set ls. nl \<notin> set l \<and> cr \<notin> set l \<and> length l < limit"
  shows "scan_lines limit (unlines ls) = (ls, False)"
proof -
  have raw: "raw_lines (unlines ls) = ls"
    using assms by (intro raw_lines_unlines) auto
  have short: "takeWhile (\<lambda>l. length l < limit) ls = ls"
    using assms by (subst takeWhile_eq_all_conv) auto
  have "map drop_cr ls = ls"
    using assms by (simp add: map_idI drop_cr_idle)
  with raw short show ?thesis by (simp only: scan_lines_def raw Let_def short) simp
qed

subsection \<open>White space\<close>

text \<open>A graphic character is printable ASCII other than the blank.\<close>

definition graphic :: "char \<Rightarrow> bool" where
  "graphic c \<longleftrightarrow> 33 \<le> byte_of c \<and> byte_of c \<le> 126"

lemma space_seqs_bytes: "q \<in> set space_seqs \<Longrightarrow> c \<in> set q \<Longrightarrow> \<not> graphic c"
  by (auto simp: space_seqs_def graphic_def byte_of_def)

lemma space_seqs_nonempty: "q \<in> set space_seqs \<Longrightarrow> q \<noteq> []"
  by (auto simp: space_seqs_def)

lemma space_at_eq_0: "[] \<notin> set qs \<Longrightarrow> space_at qs s = 0 \<longleftrightarrow> (\<forall>q\<in>set qs. \<not> prefix q s)"
  unfolding space_at_def
  by (auto split: option.splits simp: find_None_iff find_Some_iff dest: nth_mem)

lemma space_at_0:
  "space_at space_seqs s = 0 \<longleftrightarrow> (\<forall>q\<in>set space_seqs. \<not> prefix q s)"
  using space_seqs_nonempty by (intro space_at_eq_0) auto

lemma space_at_rev_0:
  "space_at (map rev space_seqs) s = 0 \<longleftrightarrow> (\<forall>q\<in>set space_seqs. \<not> prefix (rev q) s)"
  using space_seqs_nonempty by (subst space_at_eq_0) auto

lemma space_at_nil [simp]: "space_at space_seqs [] = 0"
  using space_seqs_nonempty by (auto simp: space_at_0)

lemma space_at_graphic:
  assumes "graphic c"
  shows "space_at space_seqs (c # s) = 0"
  unfolding space_at_0
proof (rule ballI, rule notI)
  fix q assume q: "q \<in> set space_seqs" and p: "prefix q (c # s)"
  from space_seqs_nonempty [OF q] p have "c \<in> set q"
    by (cases q) auto
  with q assms show False by (simp add: space_seqs_bytes)
qed

lemma prefix_stop: "c \<notin> set q \<Longrightarrow> prefix q (u @ c # v) \<longleftrightarrow> prefix q u"
  by (induction u arbitrary: q) (auto simp: prefix_Cons)

lemma space_at_stop:
  "\<forall>q\<in>set qs. c \<notin> set q \<Longrightarrow> space_at qs (u @ c # v) = space_at qs u"
  unfolding space_at_def by (subst find_cong [OF refl, where Q = "\<lambda>q. prefix q u"]) (auto simp: prefix_stop)

lemma space_at_le: "space_at qs s \<le> length s"
  by (auto simp: space_at_def find_Some_iff prefix_length_le split: option.splits)

lemma trim_seqs_stop:
  "\<forall>q\<in>set qs. c \<notin> set q \<Longrightarrow> trim_seqs qs (u @ c # v) = trim_seqs qs u @ c # v"
proof (induction qs u rule: trim_seqs.induct)
  case (1 qs u)
  then show ?case
    using trim_seqs.simps [of qs "u @ c # v"] trim_seqs.simps [of qs u] space_at_le [of qs u]
    by (auto simp: space_at_stop)
qed

lemma trim_seqs_done: "space_at qs (trim_seqs qs s) = 0"
  by (induction qs s rule: trim_seqs.induct) (simp add: trim_seqs.simps)

lemma trim_seqs_suffix: "suffix (trim_seqs qs s) s"
proof (induction qs s rule: trim_seqs.induct)
  case (1 qs s)
  then show ?case
    using trim_seqs.simps [of qs s]
    by (metis suffix_drop suffix_order.trans suffix_order.order_refl)
qed

lemma trim_seqs_idle: "space_at qs s = 0 \<Longrightarrow> trim_seqs qs s = s"
  by (subst trim_seqs.simps) simp

definition trimmed :: "string \<Rightarrow> bool" where
  "trimmed s \<longleftrightarrow> trim_left s = s \<and> trim_right s = s"

lemma trim_left_iff: "trim_left s = s \<longleftrightarrow> space_at space_seqs s = 0"
  by (metis trim_left_def trim_seqs_done trim_seqs_idle)

lemma trim_right_iff: "trim_right s = s \<longleftrightarrow> space_at (map rev space_seqs) (rev s) = 0"
  by (metis rev_rev_ident trim_right_def trim_seqs_done trim_seqs_idle)

lemma trim_space_trimmed: "trimmed s \<Longrightarrow> trim_space s = s"
  by (simp add: trimmed_def trim_space_def)

lemma prefix_trim_right: "prefix (trim_right s) s"
  using trim_seqs_suffix [of "map rev space_seqs" "rev s"]
  by (simp add: trim_right_def suffix_to_prefix)

lemma trimmed_trim_space: "trimmed (trim_space s)"
proof -
  let ?l = "trim_left s"
  have "space_at space_seqs ?l = 0" by (simp add: trim_left_def trim_seqs_done)
  then have "space_at space_seqs (trim_right ?l) = 0"
    using prefix_trim_right [of ?l] unfolding space_at_0 by (meson prefix_order.trans)
  moreover have "space_at (map rev space_seqs) (rev (trim_right ?l)) = 0"
    by (simp add: trim_right_def trim_seqs_done)
  ultimately show ?thesis
    by (simp add: trimmed_def trim_space_def trim_left_iff trim_right_iff)
qed

lemma trimmed_nil [simp]: "trimmed []"
  using space_seqs_nonempty by (auto simp: trimmed_def trim_left_iff trim_right_iff space_at_rev_0)

text \<open>A line \<open>key=value\<close> keeps its key and a trimmed value under trimming.\<close>

lemma trimmed_graphic_ends:
  assumes "s \<noteq> []" "graphic (hd s)" "graphic (last s)"
  shows "trimmed s"
proof -
  obtain c r where s: "s = c # r" using assms(1) by (cases s) auto
  obtain d t where t: "rev s = d # t" using assms(1) by (cases "rev s") auto
  have d: "graphic d" using assms(3) t by (metis hd_rev list.sel(1))
  have "\<forall>q\<in>set (map rev space_seqs). d \<notin> set q"
    using d space_seqs_bytes by auto
  then have "space_at (map rev space_seqs) (rev s) = 0"
    using space_at_stop [of "map rev space_seqs" d "[]" t] t space_seqs_nonempty
    by (simp add: space_at_rev_0)
  then show ?thesis using assms(2) s
    by (simp add: trimmed_def trim_left_iff trim_right_iff space_at_graphic)
qed

lemma trim_space_key_value:
  assumes "k \<noteq> []" "graphic (hd k)" "graphic c" "trim_right v = v"
  shows "trim_space (k @ c # v) = k @ c # v"
proof -
  obtain a k' where k: "k = a # k'" using assms(1) by (cases k) auto
  have l: "trim_left (k @ c # v) = k @ c # v"
    using assms(2) by (simp add: trim_left_iff k space_at_graphic)
  have "\<forall>q\<in>set (map rev space_seqs). c \<notin> set q"
    using assms(3) space_seqs_bytes by auto
  then have "trim_right (k @ c # v) = k @ c # trim_right v"
    by (simp add: trim_right_def trim_seqs_stop)
  then show ?thesis using l assms(4) by (simp add: trim_space_def)
qed

subsection \<open>Fields\<close>

lemma fields_from_graphic:
  "\<forall>c\<in>set a. graphic c \<Longrightarrow> fields_from cur (a @ s) = fields_from (rev a @ cur) s"
proof (induction a arbitrary: cur)
  case (Cons c a)
  then show ?case by (subst fields_from.simps) (simp add: space_at_graphic)
qed simp

lemma fields_from_nil: "fields_from cur [] = (if cur = [] then [] else [rev cur])"
  by (subst fields_from.simps) simp

lemma space_at_tab: "space_at space_seqs (tab # s) = 1"
  by (simp add: space_at_def space_seqs_def)

lemma fields_two:
  assumes "\<forall>c\<in>set a. graphic c" "\<forall>c\<in>set b. graphic c" "a \<noteq> []" "b \<noteq> []"
  shows "str_fields (a @ tab # b) = [a, b]"
proof -
  have "str_fields (a @ tab # b) = fields_from (rev a) (tab # b)"
    using assms(1) by (simp add: str_fields_def fields_from_graphic)
  also have "\<dots> = a # fields_from [] b"
    using assms(3) by (subst fields_from.simps) (simp add: space_at_tab)
  also have "fields_from [] b = [b]"
    using fields_from_graphic [of b "[]" "[]"] assms(2,4) by (simp add: fields_from_nil)
  finally show ?thesis .
qed

end
