(* ===== verification/Netip.thy ===== *)
theory Netip
  imports GoStd
begin

text \<open>
  The part of Go's standard package \<open>net/netip\<close> that the program calls: \<open>ParseAddr\<close>,
  the classification methods and the canonical string of an address. An address is its
  bytes (4 or 16 of them) with a zone.
\<close>

record addr =
  octets :: "nat list"
  zone :: string

section \<open>ParseAddr\<close>

text \<open>
  \<open>parseIPv4Fields\<close>: four decimal octets without leading zeros.
\<close>

definition parse_octet :: "string \<Rightarrow> nat option" where
  "parse_octet s =
     (if s \<noteq> [] \<and> list_all is_digit s \<and> (length s = 1 \<or> hd s \<noteq> CHR ''0'')
         \<and> dec_value s \<le> 255
      then Some (dec_value s) else None)"

definition parse_ipv4 :: "string \<Rightarrow> nat list option" where
  "parse_ipv4 s =
     (case split_on (CHR ''.'') s of
        [a, b, c, d] \<Rightarrow>
          (case (parse_octet a, parse_octet b, parse_octet c, parse_octet d) of
             (Some w, Some x, Some y, Some z) \<Rightarrow> Some [w, x, y, z]
           | _ \<Rightarrow> None)
      | _ \<Rightarrow> None)"

definition is_hex :: "char \<Rightarrow> bool" where
  "is_hex c \<longleftrightarrow> is_digit c \<or> 97 \<le> byte_of c \<and> byte_of c \<le> 102 \<or> 65 \<le> byte_of c \<and> byte_of c \<le> 70"

definition hex_val :: "char \<Rightarrow> nat" where
  "hex_val c =
     (if is_digit c then byte_of c - 48
      else if 97 \<le> byte_of c then byte_of c - 87 else byte_of c - 55)"

definition hex_value :: "string \<Rightarrow> nat" where
  "hex_value s = foldl (\<lambda>n c. n * 16 + hex_val c) 0 s"

text \<open>
  The loop of \<open>parseIPv6\<close>: \<open>ip\<close> holds the bytes read so far (its length is Go's \<open>i\<close>),
  \<open>ell\<close> the position of the ellipsis. The result is the bytes, the ellipsis and the
  text that is left when the loop stops; \<open>None\<close> is an error inside the loop.
\<close>

function ipv6_groups ::
  "nat list \<Rightarrow> nat option \<Rightarrow> string \<Rightarrow> (nat list \<times> nat option \<times> string) option" where
  "ipv6_groups ip ell s =
     (if 16 \<le> length ip then Some (ip, ell, s)
      else
        let g = takeWhile is_hex s; rest = dropWhile is_hex s in
        if length g > 4 \<or> g = [] then None
        else if rest \<noteq> [] \<and> hd rest = CHR ''.'' then
          (if ell = None \<and> length ip \<noteq> 12 then None
           else if length ip + 4 > 16 then None
           else case parse_ipv4 s of None \<Rightarrow> None | Some v \<Rightarrow> Some (ip @ v, ell, []))
        else
          let ip' = ip @ [hex_value g div 256, hex_value g mod 256] in
          if rest = [] then Some (ip', ell, [])
          else if hd rest \<noteq> CHR '':'' then None
          else if tl rest = [] then None
          else if hd (tl rest) = CHR '':'' then
            (if ell \<noteq> None then None
             else if tl (tl rest) = [] then Some (ip', Some (length ip'), [])
             else ipv6_groups ip' (Some (length ip')) (tl (tl rest)))
          else ipv6_groups ip' ell (tl rest))"
  by pat_completeness auto
termination
  by (relation "measure (\<lambda>(ip, ell, s). 16 - length ip)") auto

declare ipv6_groups.simps [simp del]

definition ipv6_finish :: "nat list \<Rightarrow> nat option \<Rightarrow> string \<Rightarrow> nat list option" where
  "ipv6_finish ip ell s =
     (if s \<noteq> [] then None
      else if length ip < 16 then
        (case ell of None \<Rightarrow> None
         | Some e \<Rightarrow> Some (take e ip @ replicate (16 - length ip) 0 @ drop e ip))
      else if ell \<noteq> None then None
      else Some ip)"

definition parse_ipv6 :: "string \<Rightarrow> addr option" where
  "parse_ipv6 full =
     (let (s, z, found) = cut (CHR ''%'') full in
      if found \<and> z = [] then None
      else
        let lead = prefix ''::'' s; s' = (if lead then drop 2 s else s) in
        if lead \<and> s' = [] then Some \<lparr>octets = replicate 16 0, zone = z\<rparr>
        else case ipv6_groups [] (if lead then Some 0 else None) s' of
          None \<Rightarrow> None
        | Some (ip, ell, rest) \<Rightarrow>
            map_option (\<lambda>b. \<lparr>octets = b, zone = z\<rparr>) (ipv6_finish ip ell rest))"

fun addr_kind :: "string \<Rightarrow> char option" where
  "addr_kind [] = None"
| "addr_kind (c # s) =
     (if c = CHR ''.'' \<or> c = CHR '':'' \<or> c = CHR ''%'' then Some c else addr_kind s)"

definition parse_addr :: "string \<Rightarrow> addr option" where
  "parse_addr s =
     (case addr_kind s of
        None \<Rightarrow> None
      | Some c \<Rightarrow>
          if c = CHR ''.'' then map_option (\<lambda>b. \<lparr>octets = b, zone = []\<rparr>) (parse_ipv4 s)
          else if c = CHR '':'' then parse_ipv6 s
          else None)"

section \<open>Classification and printing\<close>

definition is_4in6 :: "addr \<Rightarrow> bool" where
  "is_4in6 a \<longleftrightarrow>
     length (octets a) = 16 \<and> take 12 (octets a) = replicate 10 0 @ [255, 255]"

definition unmap :: "addr \<Rightarrow> addr" where
  "unmap a = (if is_4in6 a then \<lparr>octets = drop 12 (octets a), zone = []\<rparr> else a)"

definition is_unspecified :: "addr \<Rightarrow> bool" where
  "is_unspecified a \<longleftrightarrow>
     a = \<lparr>octets = replicate 4 0, zone = []\<rparr> \<or> a = \<lparr>octets = replicate 16 0, zone = []\<rparr>"

definition is_multicast :: "addr \<Rightarrow> bool" where
  "is_multicast a =
     (let b = octets (unmap a) in
      if length b = 4 then 224 \<le> b ! 0 \<and> b ! 0 \<le> 239 else length b = 16 \<and> b ! 0 = 255)"

definition u16s :: "nat list \<Rightarrow> nat list" where
  "u16s b = map (\<lambda>i. b ! (2 * i) * 256 + b ! (2 * i + 1)) [0..<8]"

definition hex_nat :: "nat \<Rightarrow> string" where
  "hex_nat n = map (\<lambda>c. if 58 \<le> byte_of c then char_of (byte_of c + 39) else c) (digits_base 16 n)"

text \<open>The first longest run of two or more zero groups: its start and its end.\<close>

definition zero_run :: "nat list \<Rightarrow> nat \<Rightarrow> nat" where
  "zero_run g i = length (takeWhile (\<lambda>x. x = 0) (drop i g))"

definition zero_span :: "nat list \<Rightarrow> nat \<times> nat" where
  "zero_span g =
     foldl (\<lambda>(s, e) i. let l = zero_run g i in if 2 \<le> l \<and> e - s < l then (i, i + l) else (s, e))
       (255, 255) [0..<8]"

definition join_hex :: "nat list \<Rightarrow> string" where
  "join_hex g = concat (case map hex_nat g of [] \<Rightarrow> [] | h # hs \<Rightarrow> h # map (\<lambda>x. CHR '':'' # x) hs)"

definition ipv4_string :: "nat list \<Rightarrow> string" where
  "ipv4_string b =
     nat_dec (b ! 0) @ ''.'' @ nat_dec (b ! 1) @ ''.'' @ nat_dec (b ! 2) @ ''.'' @ nat_dec (b ! 3)"

definition addr_string :: "addr \<Rightarrow> string" where
  "addr_string a =
     (let b = octets a in
      (if length b = 4 then ipv4_string b
       else if is_4in6 a then ''::ffff:'' @ ipv4_string (drop 12 b)
       else
         let g = u16s b; (s, e) = zero_span g in
         if s = 255 then join_hex g
         else join_hex (take s g) @ ''::'' @ join_hex (drop e g))
      @ (if zone a = [] then [] else CHR ''%'' # zone a))"

end
