(* ===== verification/Daemon.thy ===== *)
theory Daemon
  imports Netip
begin

text \<open>
  \<open>internal/config/daemon.go\<close>: the parser, the validator and the printer of
  \<open>avahi-daemon.conf\<close>. A \<open>Daemon\<close> is a Go map of maps of strings. The main results: the
  parser accepts no duplicate setting and yields trimmed settings, the validator accepts
  exactly the documents whose every setting satisfies its kind, and printing a parsed
  document and parsing it again gives the same document.
\<close>

type_synonym daemon = "(string, (string, string) fmap) fmap"

section \<open>Domain names and interfaces\<close>

text \<open>The regular expressions \<open>label\<close> and \<open>iface\<close>.\<close>

definition label_ok :: "string \<Rightarrow> bool" where
  "label_ok s \<longleftrightarrow>
     s \<noteq> [] \<and> length s \<le> 63 \<and> is_alnum (hd s) \<and> is_alnum (last s)
     \<and> list_all (\<lambda>c. is_alnum c \<or> c = CHR ''-'') s"

definition iface_rune :: "nat \<Rightarrow> bool" where
  "iface_rune r \<longleftrightarrow> r \<notin> {9, 10, 12, 13, 32, 47, 58, 44, 0}"

definition iface_ok :: "string \<Rightarrow> bool" where
  "iface_ok s = (let rs = runes s in 1 \<le> length rs \<and> length rs \<le> 15 \<and> list_all iface_rune rs)"

definition ValidDomain :: "string \<Rightarrow> bool" where
  "ValidDomain s0 =
     (let s = trim_suffix s0 ''.'' in
      if length s = 0 \<or> length s > 253 then False
      else list_all label_ok (split_on (CHR ''.'') s))"

section \<open>ParseDaemon\<close>

text \<open>One pass of the loop body, on a line that is already trimmed.\<close>

definition daemon_set :: "string \<Rightarrow> string \<Rightarrow> string \<Rightarrow> daemon \<Rightarrow> daemon" where
  "daemon_set sec key val d = fmupd sec (fmupd key val (fm_get fmempty d sec)) d"

definition parse_daemon_line :: "string \<Rightarrow> string \<times> daemon \<Rightarrow> (string \<times> daemon) result" where
  "parse_daemon_line v st =
     (let (sec, d) = st in
      if v = [] \<or> prefix ''#'' v \<or> prefix '';'' v then Inr (sec, d)
      else if prefix ''['' v \<and> suffix '']'' v then
        (let s' = trim_space (butlast (tl v)) in
         if s' = [] then Inl (Msg ''empty section'')
         else Inr (s', if fmlookup d s' = None then fmupd s' fmempty d else d))
      else
        (let (k, x, ok) = cut (CHR ''='') v; key = trim_space k; val = trim_space x in
         if \<not> ok \<or> sec = [] \<or> key = [] then Inl (Msg ''expected section and key=value'')
         else if fmlookup (fm_get fmempty d sec) key \<noteq> None then Inl (Msg ''duplicate setting'')
         else Inr (sec, daemon_set sec key val d)))"

fun parse_daemon_lines :: "string list \<Rightarrow> string \<times> daemon \<Rightarrow> (string \<times> daemon) result" where
  "parse_daemon_lines [] st = Inr st"
| "parse_daemon_lines (l # ls) st =
     bind_res (parse_daemon_line (trim_space l) st) (parse_daemon_lines ls)"

definition daemon_line_limit :: nat where
  "daemon_line_limit = 2 ^ 20"

definition ParseDaemon :: "string \<Rightarrow> daemon result" where
  "ParseDaemon data =
     (let (ls, too_long) = scan_lines (daemon_line_limit) data in
      bind_res (parse_daemon_lines ls ([], fmempty))
        (\<lambda>(sec, d). if too_long then Inl (Msg ''bufio.Scanner: token too long'') else Inr d))"

section \<open>Validate\<close>

definition Kinds :: "(string \<times> (string \<times> string) list) list" where
  "Kinds =
    [(''server'',
       [(''host-name'', ''label''), (''domain-name'', ''domain''),
        (''host-name-from-machine-id'', ''bool''), (''browse-domains'', ''domains''),
        (''use-ipv4'', ''bool''), (''use-ipv6'', ''bool''),
        (''allow-interfaces'', ''interfaces''), (''deny-interfaces'', ''interfaces''),
        (''check-response-ttl'', ''bool''), (''use-iff-running'', ''bool''),
        (''enable-dbus'', ''dbus''), (''disallow-other-stacks'', ''bool''),
        (''allow-point-to-point'', ''bool''), (''cache-entries-max'', ''uint''),
        (''clients-max'', ''uint''), (''objects-per-client-max'', ''uint''),
        (''entries-per-entry-group-max'', ''uint''), (''ratelimit-interval-usec'', ''uint''),
        (''ratelimit-burst'', ''uint'')]),
     (''wide-area'', [(''enable-wide-area'', ''bool'')]),
     (''publish'',
       [(''disable-publishing'', ''bool''), (''disable-user-service-publishing'', ''bool''),
        (''add-service-cookie'', ''bool''), (''publish-addresses'', ''bool''),
        (''publish-hinfo'', ''bool''), (''publish-workstation'', ''bool''),
        (''publish-domain'', ''bool''), (''publish-dns-servers'', ''ips''),
        (''publish-resolv-conf-dns-servers'', ''bool''), (''publish-aaaa-on-ipv4'', ''bool''),
        (''publish-a-on-ipv6'', ''bool'')]),
     (''reflector'',
       [(''enable-reflector'', ''bool''), (''reflect-ipv'', ''bool''),
        (''reflect-filters'', ''text'')]),
     (''rlimits'',
       [(''rlimit-as'', ''uint''), (''rlimit-core'', ''uint''), (''rlimit-data'', ''uint''),
        (''rlimit-fsize'', ''uint''), (''rlimit-nofile'', ''uint''), (''rlimit-stack'', ''uint''),
        (''rlimit-nproc'', ''uint'')])]"

definition list_value_ok :: "(string \<Rightarrow> bool) \<Rightarrow> string \<Rightarrow> bool" where
  "list_value_ok ok value \<longleftrightarrow>
     value = [] \<or> list_all (\<lambda>item. ok (trim_space item)) (split_on (CHR '','') value)"

definition kind_ok :: "string \<Rightarrow> string \<Rightarrow> bool" where
  "kind_ok kind value =
     (if kind = ''bool'' then value = ''yes'' \<or> value = ''no''
      else if kind = ''dbus'' then value = ''yes'' \<or> value = ''no'' \<or> value = ''warn''
      else if kind = ''label'' then label_ok value
      else if kind = ''domain'' then ValidDomain value
      else if kind = ''uint'' then parse_uint64 value \<noteq> None
      else if kind = ''domains'' then list_value_ok ValidDomain value
      else if kind = ''interfaces'' then list_value_ok iface_ok value
      else if kind = ''ips'' then list_value_ok (\<lambda>item. parse_addr item \<noteq> None) value
      else True)"

definition validate_setting ::
  "(string \<times> string) list \<Rightarrow> (string, string) fmap \<Rightarrow> string \<Rightarrow> unit result" where
  "validate_setting kinds entries key =
     (case map_of kinds key of
        None \<Rightarrow> Inl (Msg ''unsupported setting'')
      | Some kind \<Rightarrow>
          let value = fm_get [] entries key in
          if contains_any value [cr, nl, nul] then Inl (Msg ''invalid value'')
          else if kind_ok kind value then Inr ()
          else Inl (Msg ''invalid setting''))"

definition validate_section :: "daemon \<Rightarrow> string \<Rightarrow> unit result" where
  "validate_section d section =
     (case map_of Kinds section of
        None \<Rightarrow> Inl (Msg ''unsupported section'')
      | Some kinds \<Rightarrow>
          let entries = fm_get fmempty d section in
          check_all (validate_setting kinds entries) (sorted_keys entries))"

definition daemon_get :: "daemon \<Rightarrow> string \<Rightarrow> string \<Rightarrow> string" where
  "daemon_get d section key = fm_get [] (fm_get fmempty d section) key"

definition daemon_validate :: "daemon \<Rightarrow> unit result" where
  "daemon_validate d =
     bind_res (check_all (validate_section d) (sorted_keys d)) (\<lambda>_.
       if daemon_get d ''server'' ''use-ipv4'' = ''no'' \<and> daemon_get d ''server'' ''use-ipv6'' = ''no''
       then Inl (Msg ''at least one IP protocol must be enabled'') else Inr ())"

section \<open>Marshal\<close>

definition section_order :: "string list" where
  "section_order = [''server'', ''wide-area'', ''publish'', ''reflector'', ''rlimits'']"

definition setting_line :: "(string, string) fmap \<Rightarrow> string \<Rightarrow> string" where
  "setting_line entries key = key @ ''='' @ fm_get [] entries key @ [nl]"

definition print_section :: "daemon \<Rightarrow> string \<Rightarrow> string" where
  "print_section d section =
     (case fmlookup d section of
        None \<Rightarrow> []
      | Some entries \<Rightarrow>
          ''['' @ section @ '']'' @ [nl]
          @ concat (map (setting_line entries) (sorted_keys entries)) @ [nl])"

definition daemon_marshal :: "daemon \<Rightarrow> string result" where
  "daemon_marshal d =
     bind_res (daemon_validate d) (\<lambda>_. Inr (concat (map (print_section d) section_order)))"

section \<open>What the parser yields\<close>

text \<open>
  The abstract reading of a document: the settings its lines make, in order, each with
  the section it stands in.
\<close>

datatype daemon_line = Blank | Header string | Setting string string | Bad

definition classify :: "string \<Rightarrow> daemon_line" where
  "classify v =
     (if v = [] \<or> prefix ''#'' v \<or> prefix '';'' v then Blank
      else if prefix ''['' v \<and> suffix '']'' v then
        (if trim_space (butlast (tl v)) = [] then Bad else Header (trim_space (butlast (tl v))))
      else (let (k, x, ok) = cut (CHR ''='') v in
        if \<not> ok \<or> trim_space k = [] then Bad else Setting (trim_space k) (trim_space x)))"

definition bad_line :: "string \<Rightarrow> error" where
  "bad_line v =
     (if prefix ''['' v \<and> suffix '']'' v then Msg ''empty section''
      else Msg ''expected section and key=value'')"

fun settings_of :: "string \<Rightarrow> string list \<Rightarrow> (string \<times> string \<times> string) list option" where
  "settings_of sec [] = Some []"
| "settings_of sec (l # ls) =
     (case classify (trim_space l) of
        Blank \<Rightarrow> settings_of sec ls
      | Header s \<Rightarrow> settings_of s ls
      | Setting k v \<Rightarrow>
          if sec = [] then None else map_option (\<lambda>xs. (sec, k, v) # xs) (settings_of sec ls)
      | Bad \<Rightarrow> None)"

fun headers_of :: "string list \<Rightarrow> string list" where
  "headers_of [] = []"
| "headers_of (l # ls) =
     (case classify (trim_space l) of Header s \<Rightarrow> s # headers_of ls | _ \<Rightarrow> headers_of ls)"

definition daemon_lookup :: "daemon \<Rightarrow> string \<Rightarrow> string \<Rightarrow> string option" where
  "daemon_lookup d sec key = fmlookup (fm_get fmempty d sec) key"

lemma daemon_lookup_set [simp]:
  "daemon_lookup (daemon_set sec key v d) s k =
     (if s = sec \<and> k = key then Some v else daemon_lookup d s k)"
  by (auto simp: daemon_lookup_def daemon_set_def fm_get_def split: option.splits)

lemma daemon_lookup_header [simp]:
  "fmlookup d s' = None \<Longrightarrow> daemon_lookup (fmupd s' fmempty d) s k = daemon_lookup d s k"
  by (auto simp: daemon_lookup_def fm_get_def)

lemma parse_daemon_line_classify:
  "parse_daemon_line v (sec, d) =
     (case classify v of
        Blank \<Rightarrow> Inr (sec, d)
      | Header s \<Rightarrow> Inr (s, if fmlookup d s = None then fmupd s fmempty d else d)
      | Setting k x \<Rightarrow>
          if sec = [] then Inl (Msg ''expected section and key=value'')
          else if daemon_lookup d sec k \<noteq> None then Inl (Msg ''duplicate setting'')
          else Inr (sec, daemon_set sec k x d)
      | Bad \<Rightarrow> Inl (bad_line v))"
  by (auto simp: bad_line_def parse_daemon_line_def classify_def daemon_lookup_def Let_def split: prod.splits)

lemma parse_daemon_lines_spec:
  "is_ok (parse_daemon_lines ls (sec, d)) \<longleftrightarrow>
     (\<exists>xs. settings_of sec ls = Some xs \<and> distinct (map (\<lambda>(s, k, v). (s, k)) xs)
        \<and> (\<forall>(s, k, v)\<in>set xs. daemon_lookup d s k = None))"
proof (induction ls arbitrary: sec d)
  case (Cons l ls)
  show ?case
  proof (cases "classify (trim_space l)")
    case Blank
    then show ?thesis by (simp add: Cons.IH parse_daemon_line_classify)
  next
    case (Header s)
    then show ?thesis by (auto simp: Cons.IH parse_daemon_line_classify)
  next
    case (Setting k v)
    then show ?thesis
      by (force simp: Cons.IH parse_daemon_line_classify map_option_case split: option.splits if_splits)
  next
    case Bad
    then show ?thesis by (simp add: parse_daemon_line_classify)
  qed
qed simp

lemma parse_daemon_lines_lookup:
  "parse_daemon_lines ls (sec, d) = Inr (sec', d') \<Longrightarrow> settings_of sec ls = Some xs \<Longrightarrow>
     daemon_lookup d' s k = Some v \<longleftrightarrow> (s, k, v) \<in> set xs \<or> daemon_lookup d s k = Some v"
proof (induction ls arbitrary: sec d xs)
  case (Cons l ls)
  show ?case
  proof (cases "classify (trim_space l)")
    case Blank
    with Cons show ?thesis by (auto simp: parse_daemon_line_classify)
  next
    case (Header s)
    with Cons show ?thesis by (auto simp: parse_daemon_line_classify split: if_splits)
  next
    case (Setting k v)
    with Cons.prems Cons.IH show ?thesis
      by (fastforce simp: parse_daemon_line_classify split: if_splits)
  next
    case Bad
    with Cons.prems show ?thesis by simp
  qed
qed simp

lemma length_trim_space: "length (trim_space s) \<le> length s"
proof -
  have "length (trim_seqs qs x) \<le> length x" for qs x
    by (rule suffix_length_le [OF trim_seqs_suffix])
  then show ?thesis
    unfolding trim_space_def trim_right_def trim_left_def by (metis length_rev order_trans)
qed

text \<open>Every setting of a parsed document is trimmed and came from one short line.\<close>

definition short_settings :: "daemon \<Rightarrow> bool" where
  "short_settings d \<longleftrightarrow>
     (\<forall>s k v. daemon_lookup d s k = Some v \<longrightarrow> trimmed v \<and> Suc (length k + length v) < daemon_line_limit)"

lemma cut_length:
  assumes "cut c v = (k, x, True)"
  shows "Suc (length k + length x) = length v"
proof -
  have "c \<in> set v" using assms by (simp add: cut_def)
  then obtain a b where v: "v = a @ c # b" "c \<notin> set a" by (meson split_list_first)
  with assms show ?thesis by (simp add: cut_append)
qed

lemma settings_of_short:
  "settings_of sec ls = Some xs \<Longrightarrow> \<forall>l\<in>set ls. length l < n \<Longrightarrow> (s, k, v) \<in> set xs \<Longrightarrow>
     trimmed v \<and> Suc (length k + length v) < n"
proof (induction ls arbitrary: sec xs)
  case (Cons l ls)
  show ?case
  proof (cases "classify (trim_space l)")
    case (Setting k' v')
    then obtain a b where ab: "cut (CHR ''='') (trim_space l) = (a, b, True)"
        "k' = trim_space a" "v' = trim_space b"
      by (auto simp: classify_def Let_def split: if_splits prod.splits)
    have "Suc (length k' + length v') \<le> length l"
      using cut_length [OF ab(1)] length_trim_space [of a] length_trim_space [of b]
        length_trim_space [of l] by (simp add: ab(2,3))
    moreover have "trimmed v'" by (simp add: ab(3) trimmed_trim_space)
    ultimately show ?thesis using Cons Setting by (fastforce split: if_splits)
  qed (use Cons in \<open>auto split: if_splits\<close>)
qed simp

lemma scan_lines_short: "l \<in> set (fst (scan_lines n s)) \<Longrightarrow> length l < n"
  by (auto simp: scan_lines_def Let_def drop_cr_def dest!: set_takeWhileD split: if_splits)

lemma ParseDaemon_lines:
  assumes "ParseDaemon data = Inr d"
  obtains sec xs where
    "parse_daemon_lines (fst (scan_lines (daemon_line_limit) data)) ([], fmempty) = Inr (sec, d)"
    "settings_of [] (fst (scan_lines (daemon_line_limit) data)) = Some xs"
    "distinct (map (\<lambda>(s, k, v). (s, k)) xs)"
    "\<And>s k v. daemon_lookup d s k = Some v \<longleftrightarrow> (s, k, v) \<in> set xs"
proof -
  let ?ls = "fst (scan_lines (daemon_line_limit) data)"
  from assms obtain sec where p: "parse_daemon_lines ?ls ([], fmempty) = Inr (sec, d)"
    by (auto simp: ParseDaemon_def split: prod.splits if_splits)
  then have "is_ok (parse_daemon_lines ?ls ([], fmempty))" by simp
  then obtain xs where xs: "settings_of [] ?ls = Some xs" "distinct (map (\<lambda>(s, k, v). (s, k)) xs)"
    unfolding parse_daemon_lines_spec by blast
  have "daemon_lookup d s k = Some v \<longleftrightarrow> (s, k, v) \<in> set xs" for s k v
    using parse_daemon_lines_lookup [OF p xs(1)] by (simp add: daemon_lookup_def fm_get_def)
  with p xs that show ?thesis by blast
qed

lemma ParseDaemon_short: "ParseDaemon data = Inr d \<Longrightarrow> short_settings d"
  unfolding short_settings_def
  by (metis ParseDaemon_lines scan_lines_short settings_of_short)

section \<open>What the validator accepts\<close>

definition known_section :: "string \<Rightarrow> (string, string) fmap \<Rightarrow> bool" where
  "known_section s e \<longleftrightarrow>
     (\<exists>kinds. map_of Kinds s = Some kinds \<and>
        (\<forall>k v. fmlookup e k = Some v \<longrightarrow>
           (\<exists>kind. map_of kinds k = Some kind \<and> \<not> contains_any v [cr, nl, nul] \<and> kind_ok kind v)))"

lemma validate_setting_ok:
  "fmlookup e k = Some v \<Longrightarrow> validate_setting kinds e k = Inr () \<longleftrightarrow>
     (\<exists>kind. map_of kinds k = Some kind \<and> \<not> contains_any v [cr, nl, nul] \<and> kind_ok kind v)"
  by (auto simp: validate_setting_def Let_def split: option.splits)

lemma validate_section_ok:
  assumes "fmlookup d s = Some e"
  shows "validate_section d s = Inr () \<longleftrightarrow> known_section s e"
proof (cases "map_of Kinds s")
  case (Some kinds)
  have "validate_section d s = Inr () \<longleftrightarrow>
      (\<forall>k v. fmlookup e k = Some v \<longrightarrow> validate_setting kinds e k = Inr ())"
    using Some assms by (auto simp: validate_section_def check_all_ok fmlookup_dom_iff)
  then show ?thesis using Some by (auto simp: known_section_def validate_setting_ok)
qed (simp add: validate_section_def known_section_def)

lemma daemon_validate_ok:
  "daemon_validate d = Inr () \<longleftrightarrow>
     (\<forall>s e. fmlookup d s = Some e \<longrightarrow> known_section s e) \<and>
     \<not> (daemon_lookup d ''server'' ''use-ipv4'' = Some ''no'' \<and>
        daemon_lookup d ''server'' ''use-ipv6'' = Some ''no'')"
proof -
  have "check_all (validate_section d) (sorted_keys d) = Inr () \<longleftrightarrow>
      (\<forall>s e. fmlookup d s = Some e \<longrightarrow> known_section s e)"
    unfolding check_all_ok set_sorted_keys by (metis fmdomI fmlookup_SomeI_dom validate_section_ok)
  then show ?thesis
    by (auto simp: daemon_validate_def daemon_get_def daemon_lookup_def fm_get_def
        split: option.splits if_splits)
qed

section \<open>Printing and parsing again\<close>

definition good_key :: "string \<Rightarrow> bool" where
  "good_key k \<longleftrightarrow>
     k \<noteq> [] \<and> list_all graphic k \<and> hd k \<notin> set ''#;['' \<and> CHR ''='' \<notin> set k"

lemma Kinds_check:
  "list_all (\<lambda>(s, kinds). s \<in> set section_order \<and> list_all (\<lambda>(k, kind). good_key k) kinds) Kinds"
  by code_simp

lemma Kinds_good_keys:
  "map_of Kinds s = Some kinds \<Longrightarrow> map_of kinds k = Some kind \<Longrightarrow> good_key k"
  using Kinds_check by (fastforce simp: list_all_iff dest!: map_of_SomeD)

lemma Kinds_sections: "map_of Kinds s = Some kinds \<Longrightarrow> s \<in> set section_order"
  using Kinds_check by (fastforce simp: list_all_iff dest!: map_of_SomeD)

lemma section_order_good:
  "s \<in> set section_order \<Longrightarrow> s \<noteq> [] \<and> list_all graphic s"
  by (auto simp: section_order_def graphic_def byte_of_def)

lemma distinct_section_order: "distinct section_order"
  by (simp add: section_order_def)

lemma list_all_graphic_no_ctrl:
  "list_all graphic s \<Longrightarrow> nl \<notin> set s \<and> cr \<notin> set s"
  by (auto simp: list_all_iff graphic_def byte_of_def)

lemma classify_setting:
  assumes "good_key k" "trimmed v"
  shows "classify (trim_space (k @ CHR ''='' # v)) = Setting k v"
proof -
  have k: "k \<noteq> []" "graphic (hd k)" "graphic (last k)" "CHR ''='' \<notin> set k"
    "hd k \<noteq> CHR ''#''" "hd k \<noteq> CHR '';''" "hd k \<noteq> CHR ''[''"
    using assms(1) by (auto simp: good_key_def list_all_iff)
  have "trim_space (k @ CHR ''='' # v) = k @ CHR ''='' # v"
    using k(1,2) assms(2) by (intro trim_space_key_value) (auto simp: graphic_def byte_of_def trimmed_def)
  moreover have "trim_space k = k" "trim_space v = v"
    using trim_space_trimmed assms(2) trimmed_graphic_ends [OF k(1-3)] by auto
  moreover have "cut (CHR ''='') (k @ CHR ''='' # v) = (k, v, True)"
    using k(4) by (rule cut_append)
  moreover have "\<not> prefix ''#'' (k @ CHR ''='' # v)" "\<not> prefix '';'' (k @ CHR ''='' # v)"
    "\<not> prefix ''['' (k @ CHR ''='' # v)"
    using k by (cases k; auto)+
  ultimately show ?thesis using k(1) by (simp add: classify_def)
qed

lemma classify_header:
  assumes "s \<noteq> []" "list_all graphic s"
  shows "classify (trim_space (''['' @ s @ '']'')) = Header s"
proof -
  have ends: "graphic (CHR ''['')" "graphic (CHR '']'')"
    by (simp_all add: graphic_def byte_of_def)
  have "trim_space (''['' @ s @ '']'') = ''['' @ s @ '']''"
    using ends by (intro trim_space_trimmed trimmed_graphic_ends) auto
  moreover have "trim_space s = s"
    using assms by (intro trim_space_trimmed trimmed_graphic_ends) (auto simp: list_all_iff)
  moreover have "suffix '']'' (''['' @ s @ '']'')"
    by (metis append_assoc suffixI)
  ultimately show ?thesis
    using assms(1) by (simp add: classify_def butlast_append)
qed

lemma classify_blank: "classify (trim_space []) = Blank"
  by (simp add: classify_def trim_space_trimmed)

definition section_lines :: "daemon \<Rightarrow> string \<Rightarrow> string list" where
  "section_lines d s =
     (case fmlookup d s of
        None \<Rightarrow> []
      | Some e \<Rightarrow> (''['' @ s @ '']'') # map (\<lambda>k. k @ CHR ''='' # fm_get [] e k) (sorted_keys e) @ [[]])"

lemma concat_setting_lines:
  "concat (map (setting_line e) ks) = unlines (map (\<lambda>k. k @ CHR ''='' # fm_get [] e k) ks)"
  by (induction ks) (simp_all add: setting_line_def)

lemma print_section_lines: "print_section d s = unlines (section_lines d s)"
  by (simp add: print_section_def section_lines_def concat_setting_lines split: option.splits)

lemma marshal_lines:
  "daemon_marshal d = Inr b \<Longrightarrow> b = unlines (concat (map (section_lines d) section_order))"
proof -
  have "print_section d = (\<lambda>s. unlines (section_lines d s))"
    by (rule ext) (rule print_section_lines)
  moreover assume "daemon_marshal d = Inr b"
  ultimately show ?thesis by (simp add: daemon_marshal_def unlines_concat comp_def)
qed

text \<open>Reading back the settings of one section, then of all sections.\<close>

lemma parse_setting_lines:
  assumes "\<forall>k\<in>set ks. good_key k \<and> trimmed (f k) \<and> daemon_lookup d s k = None"
    and "distinct ks" "s \<noteq> []"
  shows "parse_daemon_lines (map (\<lambda>k. k @ CHR ''='' # f k) ks @ rest) (s, d) =
     parse_daemon_lines rest (s, fold (\<lambda>k. daemon_set s k (f k)) ks d)"
  using assms
proof (induction ks arbitrary: d)
  case (Cons k ks)
  then have "parse_daemon_line (trim_space (k @ CHR ''='' # f k)) (s, d) = Inr (s, daemon_set s k (f k) d)"
    by (simp add: parse_daemon_line_classify classify_setting)
  moreover have "\<forall>k'\<in>set ks. daemon_lookup (daemon_set s k (f k) d) s k' = None"
    using Cons.prems by auto
  ultimately show ?case using Cons by simp
qed simp

lemma fold_daemon_set:
  "fmlookup d s = Some e0 \<Longrightarrow>
     fold (\<lambda>k. daemon_set s k (f k)) ks d = fmupd s (fold (\<lambda>k. fmupd k (f k)) ks e0) d"
proof (induction ks arbitrary: d e0)
  case Nil
  then show ?case by (simp add: fmap_ext_iff)
next
  case (Cons k ks)
  let ?d = "daemon_set s k (f k) d"
  from Cons.prems have d: "?d = fmupd s (fmupd k (f k) e0) d"
    by (simp add: daemon_set_def)
  then have "fmlookup ?d s = Some (fmupd k (f k) e0)" by simp
  from Cons.IH [OF this] show ?case by (simp add: d fmap_ext_iff)
qed

lemma fold_fmupd_all:
  "fold (\<lambda>k. fmupd k (fm_get z e k)) (sorted_keys e) fmempty = e"
proof -
  have "fmlookup (fold (\<lambda>k. fmupd k (fm_get z e k)) ks m) x =
      (if x \<in> set ks then Some (fm_get z e x) else fmlookup m x)" for ks m x
    by (induction ks arbitrary: m) auto
  then show ?thesis
    by (auto simp: fmap_ext_iff fm_get_def fmlookup_dom_iff split: option.splits)
qed

definition put_section :: "daemon \<Rightarrow> string \<Rightarrow> daemon \<Rightarrow> daemon" where
  "put_section d s m = (case fmlookup d s of None \<Rightarrow> m | Some e \<Rightarrow> fmupd s e m)"

lemma known_sectionD:
  "known_section s e \<Longrightarrow> fmlookup e k = Some v \<Longrightarrow> good_key k \<and> \<not> contains_any v [cr, nl, nul]"
  using Kinds_good_keys by (fastforce simp: known_section_def)

lemma short_settingsD:
  "short_settings d \<Longrightarrow> fmlookup d s = Some e \<Longrightarrow> fmlookup e k = Some v \<Longrightarrow>
     trimmed v \<and> Suc (length k + length v) < daemon_line_limit"
  unfolding short_settings_def daemon_lookup_def by (metis fm_get_simps(1))

lemma parse_section_lines:
  assumes "fmlookup d s = Some e" "known_section s e" "\<forall>k v. fmlookup e k = Some v \<longrightarrow> trimmed v"
    and "fmlookup m s = None"
  shows "parse_daemon_lines (section_lines d s @ rest) (sec, m) =
     parse_daemon_lines rest (s, fmupd s e m)"
proof -
  have s: "s \<noteq> []" "list_all graphic s"
    using assms(2) Kinds_sections section_order_good by (auto simp: known_section_def)
  have keys: "\<forall>k\<in>set (sorted_keys e). good_key k \<and> trimmed (fm_get [] e k)
      \<and> daemon_lookup (fmupd s fmempty m) s k = None"
    using known_sectionD [OF assms(2)] assms(3)
    by (auto simp: daemon_lookup_def fmlookup_dom_iff)
  have "fold (\<lambda>k. daemon_set s k (fm_get [] e k)) (sorted_keys e) (fmupd s fmempty m) = fmupd s e m"
    by (subst fold_daemon_set [of _ _ fmempty]) (simp_all add: fold_fmupd_all fmap_ext_iff)
  then have "parse_daemon_lines
      (map (\<lambda>k. k @ CHR ''='' # fm_get [] e k) (sorted_keys e) @ [] # rest) (s, fmupd s fmempty m) =
      parse_daemon_lines rest (s, fmupd s e m)"
    using parse_setting_lines [OF keys distinct_sorted_keys s(1)]
    by (simp add: parse_daemon_line_classify classify_blank)
  moreover have "parse_daemon_line (trim_space (''['' @ s @ '']'')) (sec, m) = Inr (s, fmupd s fmempty m)"
    using classify_header [OF s] assms(4) by (simp only: parse_daemon_line_classify) simp
  ultimately show ?thesis using assms(1) by (simp add: section_lines_def)
qed

lemma parse_all_sections:
  assumes "\<forall>s e. fmlookup d s = Some e \<longrightarrow>
      known_section s e \<and> (\<forall>k v. fmlookup e k = Some v \<longrightarrow> trimmed v)"
    and "distinct ss" "\<forall>s\<in>set ss. fmlookup m s = None"
  shows "\<exists>sec'. parse_daemon_lines (concat (map (section_lines d) ss)) (sec, m) =
     Inr (sec', fold (put_section d) ss m)"
  using assms(2,3)
proof (induction ss arbitrary: sec m)
  case (Cons s ss)
  show ?case
  proof (cases "fmlookup d s")
    case None
    then have "section_lines d s = []" "put_section d s m = m"
      by (simp_all add: section_lines_def put_section_def)
    with Cons show ?thesis by simp
  next
    case (Some e)
    then have p: "put_section d s m = fmupd s e m" by (simp add: put_section_def)
    have "\<forall>s'\<in>set ss. fmlookup (fmupd s e m) s' = None" using Cons.prems by auto
    from Cons.IH [OF _ this] Cons.prems(1)
    obtain sec' where "parse_daemon_lines (concat (map (section_lines d) ss)) (s, fmupd s e m) =
        Inr (sec', fold (put_section d) ss (fmupd s e m))" by auto
    moreover have "parse_daemon_lines (section_lines d s @ concat (map (section_lines d) ss)) (sec, m) =
        parse_daemon_lines (concat (map (section_lines d) ss)) (s, fmupd s e m)"
      using Some assms(1) Cons.prems(2) by (intro parse_section_lines) auto
    ultimately show ?thesis by (simp add: p)
  qed
qed simp

lemma fold_put_section:
  "\<forall>s. fmlookup d s \<noteq> None \<longrightarrow> s \<in> set ss \<Longrightarrow> fold (put_section d) ss fmempty = d"
proof -
  have "fmlookup (fold (put_section d) ss m) x =
      (if x \<in> set ss \<and> fmlookup d x \<noteq> None then fmlookup d x else fmlookup m x)" for ss m x
    by (induction ss arbitrary: m) (auto simp: put_section_def split: option.splits)
  moreover assume "\<forall>s. fmlookup d s \<noteq> None \<longrightarrow> s \<in> set ss"
  ultimately show ?thesis by (force simp: fmap_ext_iff)
qed

lemma section_lines_plain:
  assumes "known_section s e" "fmlookup d s = Some e" "l \<in> set (section_lines d s)"
    and "\<forall>k v. fmlookup e k = Some v \<longrightarrow> trimmed v \<and> Suc (length k + length v) < daemon_line_limit"
  shows "nl \<notin> set l \<and> cr \<notin> set l \<and> length l < daemon_line_limit"
proof -
  obtain kinds where kinds: "map_of Kinds s = Some kinds" using assms(1) by (auto simp: known_section_def)
  have s: "s \<in> set section_order" using kinds by (rule Kinds_sections)
  consider "l = ''['' @ s @ '']''" | "l = []"
    | k v where "fmlookup e k = Some v" "l = k @ CHR ''='' # v"
    using assms(2,3) by (auto simp: section_lines_def fmlookup_dom_iff)
  then show ?thesis
  proof cases
    case 1
    with s show ?thesis by (auto simp: section_order_def daemon_line_limit_def)
  next
    case 3
    then have "good_key k" "\<not> contains_any v [cr, nl, nul]"
      using known_sectionD [OF assms(1)] by auto
    then show ?thesis
      using 3 assms(4) list_all_graphic_no_ctrl [of k]
      by (auto simp: good_key_def not_contains_any)
  qed (simp add: daemon_line_limit_def)
qed

lemma daemon_roundtrip:
  assumes "short_settings d" "daemon_marshal d = Inr b"
  shows "ParseDaemon b = Inr d"
proof -
  have val: "daemon_validate d = Inr ()" using assms(2) by (simp add: daemon_marshal_def)
  have known: "\<forall>s e. fmlookup d s = Some e \<longrightarrow> known_section s e"
    using val by (simp add: daemon_validate_ok)
  note short = short_settingsD [OF assms(1)]
  let ?ls = "concat (map (section_lines d) section_order)"
  have b: "b = unlines ?ls" using assms(2) by (rule marshal_lines)
  have "nl \<notin> set l \<and> cr \<notin> set l \<and> length l < daemon_line_limit" if "l \<in> set ?ls" for l
  proof -
    from that obtain s where s: "l \<in> set (section_lines d s)" by auto
    then obtain e where "fmlookup d s = Some e"
      by (cases "fmlookup d s") (auto simp: section_lines_def)
    with s known short show ?thesis by (intro section_lines_plain) auto
  qed
  then have scan: "scan_lines (daemon_line_limit) b = (?ls, False)"
    unfolding b by (intro scan_lines_unlines) blast
  obtain sec where "parse_daemon_lines ?ls ([], fmempty) = Inr (sec, fold (put_section d) section_order fmempty)"
    using parse_all_sections [of d section_order fmempty "[]"] known short distinct_section_order
    by auto
  moreover have "fold (put_section d) section_order fmempty = d"
    using known Kinds_sections
    by (intro fold_put_section) (metis known_section_def not_Some_eq)
  ultimately show ?thesis by (simp add: ParseDaemon_def scan)
qed

section \<open>Properties\<close>

text \<open>
  \<open>ParseDaemon\<close> accepts a file exactly when no line reaches the scanner's limit of
  one MiB, every line is blank, a comment, a section header or a setting inside a section,
  and no section sets a key twice.
\<close>

theorem parse_daemon_accepts:
  "is_ok (ParseDaemon data) \<longleftrightarrow>
     \<not> snd (scan_lines (daemon_line_limit) data) \<and>
     (\<exists>xs. settings_of [] (fst (scan_lines (daemon_line_limit) data)) = Some xs
        \<and> distinct (map (\<lambda>(s, k, v). (s, k)) xs))"
proof -
  let ?ls = "fst (scan_lines (daemon_line_limit) data)"
  have "is_ok (ParseDaemon data) \<longleftrightarrow>
      \<not> snd (scan_lines (daemon_line_limit) data) \<and> is_ok (parse_daemon_lines ?ls ([], fmempty))"
    by (cases "parse_daemon_lines ?ls ([], fmempty)")
      (auto simp: ParseDaemon_def case_prod_beta)
  then show ?thesis
    by (simp add: parse_daemon_lines_spec daemon_lookup_def)
qed

text \<open>
  A parsed document holds exactly the settings that the lines of the file make, each
  under the section header it stands below.
\<close>

theorem parse_daemon_content:
  assumes "ParseDaemon data = Inr d"
  shows "\<exists>xs. settings_of [] (fst (scan_lines (daemon_line_limit) data)) = Some xs \<and>
     (\<forall>s k v. daemon_lookup d s k = Some v \<longleftrightarrow> (s, k, v) \<in> set xs)"
  using ParseDaemon_lines [OF assms] by metis

theorem parse_daemon_content_witness:
  "\<exists>xs. settings_of [] (fst (scan_lines (daemon_line_limit) [])) = Some xs \<and>
     (\<forall>s k v. daemon_lookup fmempty s k = Some v \<longleftrightarrow> (s, k, v) \<in> set xs)"
  by (rule parse_daemon_content) (simp add: ParseDaemon_def scan_lines_def)

definition sample_daemon :: daemon where
  "sample_daemon =
     fmap_of_list
       [(''server'', fmap_of_list [(''use-ipv4'', ''yes''), (''enable-dbus'', ''warn'')]),
        (''reflector'', fmap_of_list [(''reflect-filters'', ''_a._tcp.local'')])]"

definition sample_text :: string where
  "sample_text = concat (map (print_section sample_daemon) section_order)"

lemma sample_daemon_valid: "daemon_validate sample_daemon = Inr ()"
  by code_simp

lemma sample_marshal: "daemon_marshal sample_daemon = Inr sample_text"
  by (simp add: daemon_marshal_def sample_daemon_valid sample_text_def)

lemma sample_short: "short_settings sample_daemon"
proof -
  have "trimmed ''yes''" "trimmed ''warn''" "trimmed ''_a._tcp.local''"
    by (rule trimmed_graphic_ends; simp add: graphic_def byte_of_def)+
  then show ?thesis
    by (auto simp: short_settings_def daemon_lookup_def fm_get_def sample_daemon_def
        fmlookup_of_list daemon_line_limit_def split: if_splits)
qed

text \<open>
  Parsing a file, printing the document and parsing the result gives the same
  document: a save without edits changes no setting.
\<close>

theorem daemon_reparse:
  assumes "ParseDaemon data = Inr d" and "daemon_marshal d = Inr out"
  shows "ParseDaemon out = Inr d"
  using assms ParseDaemon_short daemon_roundtrip by blast

theorem daemon_reparse_witness:
  "daemon_marshal sample_daemon = Inr sample_text \<and> ParseDaemon sample_text = Inr sample_daemon"
  using daemon_reparse [OF daemon_roundtrip [OF sample_short sample_marshal] sample_marshal]
    sample_marshal by blast

text \<open>
  C40. \<open>Validate\<close> accepts exactly the documents all of whose sections and settings are
  known, whose values satisfy their kinds and hold no line break or NUL, and which leave at
  least one of the two IP protocols enabled. The order in which Go walks the maps does not
  matter for acceptance.
\<close>

theorem daemon_validate_iff:
  "daemon_validate d = Inr () \<longleftrightarrow>
     (\<forall>s e. fmlookup d s = Some e \<longrightarrow> known_section s e) \<and>
     \<not> (daemon_lookup d ''server'' ''use-ipv4'' = Some ''no'' \<and>
        daemon_lookup d ''server'' ''use-ipv6'' = Some ''no'')"
  by (rule daemon_validate_ok)

theorem daemon_validate_iff_witness:
  "\<exists>s e. fmlookup sample_daemon s = Some e \<and> known_section s e"
proof -
  have "fmlookup sample_daemon ''reflector'' = Some (fmap_of_list [(''reflect-filters'', ''_a._tcp.local'')])"
    by (simp add: sample_daemon_def fmlookup_of_list)
  then show ?thesis
    using daemon_validate_iff [of sample_daemon] sample_daemon_valid by blast
qed

end
