(* ===== verification/Hosts.thy ===== *)
theory Hosts
  imports Daemon
begin

text \<open>
  \<open>internal/config/hosts.go\<close>: the static host table. The main results: which tables are
  accepted, that no name is mapped twice to the same address (a mapped IPv4 address counts
  as the IPv4 address, letter case and a final dot of the name do not count), and that a
  printed table parses back to itself.
\<close>

record host =
  Address :: string
  Hostname :: string

section \<open>ValidateHosts\<close>

definition is_fqdn :: "string \<Rightarrow> bool" where
  "is_fqdn name \<longleftrightarrow> ValidDomain name \<and> CHR ''.'' \<in> set (trim_suffix name ''.'')"

definition host_key :: "addr \<Rightarrow> string \<Rightarrow> string" where
  "host_key ip name = addr_string (unmap ip) @ '' '' @ to_lower (trim_suffix name ''.'')"

fun validate_hosts_from :: "string set \<Rightarrow> host list \<Rightarrow> unit result" where
  "validate_hosts_from seen [] = Inr ()"
| "validate_hosts_from seen (h # hs) =
     (case parse_addr (Address h) of
        None \<Rightarrow> Inl (Msg ''invalid host address'')
      | Some ip \<Rightarrow>
          if zone ip \<noteq> [] \<or> is_unspecified ip \<or> is_multicast ip
          then Inl (Msg ''invalid host address'')
          else if \<not> is_fqdn (Hostname h) then Inl (Msg ''hostname must be an FQDN'')
          else
            let key = host_key ip (Hostname h) in
            if key \<in> seen then Inl (Msg ''duplicate host'')
            else validate_hosts_from (insert key seen) hs)"

definition ValidateHosts :: "host list \<Rightarrow> unit result" where
  "ValidateHosts hosts = validate_hosts_from {} hosts"

section \<open>ParseHosts and MarshalHosts\<close>

definition hosts_line_limit :: nat where
  "hosts_line_limit = 64 * 1024"

fun parse_host_lines :: "string list \<Rightarrow> host list result" where
  "parse_host_lines [] = Inr []"
| "parse_host_lines (l # ls) =
     (let (v, after, found) = cut (CHR ''#'') l in
      case str_fields v of
        [] \<Rightarrow> parse_host_lines ls
      | [a, n] \<Rightarrow>
          bind_res (parse_host_lines ls) (\<lambda>hs. Inr (\<lparr>Address = a, Hostname = n\<rparr> # hs))
      | _ \<Rightarrow> Inl (Msg ''expected address and FQDN''))"

definition ParseHosts :: "string \<Rightarrow> host list result" where
  "ParseHosts data =
     (let (ls, too_long) = scan_lines hosts_line_limit data in
      bind_res (parse_host_lines ls) (\<lambda>hosts.
        if too_long then Inl (Msg ''bufio.Scanner: token too long'')
        else bind_res (ValidateHosts hosts) (\<lambda>_. Inr hosts)))"

definition host_line :: "host \<Rightarrow> string" where
  "host_line h = Address h @ [tab] @ Hostname h @ [nl]"

definition MarshalHosts :: "host list \<Rightarrow> string result" where
  "MarshalHosts hosts =
     bind_res (ValidateHosts hosts) (\<lambda>_. Inr (concat (map host_line hosts)))"

section \<open>Acceptance\<close>

definition host_ok :: "host \<Rightarrow> bool" where
  "host_ok h \<longleftrightarrow>
     (\<exists>ip. parse_addr (Address h) = Some ip \<and> zone ip = [] \<and> \<not> is_unspecified ip
        \<and> \<not> is_multicast ip) \<and> is_fqdn (Hostname h)"

definition key_of :: "host \<Rightarrow> string" where
  "key_of h = host_key (the (parse_addr (Address h))) (Hostname h)"

lemma validate_hosts_from_ok:
  "validate_hosts_from seen hs = Inr () \<longleftrightarrow>
     (\<forall>h\<in>set hs. host_ok h) \<and> distinct (map key_of hs) \<and> set (map key_of hs) \<inter> seen = {}"
proof (induction hs arbitrary: seen)
  case (Cons h hs)
  show ?case
  proof (cases "parse_addr (Address h)")
    case None
    then show ?thesis by (simp add: host_ok_def)
  next
    case (Some ip)
    then have key: "key_of h = host_key ip (Hostname h)" by (simp add: key_of_def)
    show ?thesis using Some Cons.IH by (auto simp: host_ok_def key Let_def)
  qed
qed simp

lemma ValidateHosts_ok:
  "ValidateHosts hs = Inr () \<longleftrightarrow> (\<forall>h\<in>set hs. host_ok h) \<and> distinct (map key_of hs)"
  by (simp add: ValidateHosts_def validate_hosts_from_ok)

text \<open>Two entries for the same address and name, however they are written, share a key.\<close>

lemma key_of_same:
  assumes "parse_addr (Address g) = Some a" "parse_addr (Address h) = Some b" "unmap a = unmap b"
    and "to_lower (trim_suffix (Hostname g) ''.'') = to_lower (trim_suffix (Hostname h) ''.'')"
  shows "key_of g = key_of h"
  using assms by (simp add: key_of_def host_key_def)

section \<open>Characters of accepted addresses and names\<close>

definition addr_char :: "char \<Rightarrow> bool" where
  "addr_char c \<longleftrightarrow> is_hex c \<or> c = CHR '':'' \<or> c = CHR ''.''"

lemma addr_char_graphic: "addr_char c \<Longrightarrow> graphic c"
  by (auto simp: addr_char_def is_hex_def is_digit_def graphic_def byte_of_def)


lemma split_on_concat: "s = concat (case split_on c s of p # ps \<Rightarrow> p # map (\<lambda>q. c # q) ps)"
proof (induction s)
  case (Cons x xs)
  then show ?case by (cases "split_on c xs") auto
qed simp

lemma parse_ipv4_chars: "parse_ipv4 s = Some v \<Longrightarrow> \<forall>c\<in>set s. addr_char c"
proof -
  assume "parse_ipv4 s = Some v"
  then obtain a b c d where parts: "split_on (CHR ''.'') s = [a, b, c, d]"
    and "parse_octet a \<noteq> None" "parse_octet b \<noteq> None" "parse_octet c \<noteq> None" "parse_octet d \<noteq> None"
    by (auto simp: parse_ipv4_def split: list.splits option.splits)
  then have "\<forall>x\<in>set (a @ b @ c @ d). is_digit x"
    by (auto simp: parse_octet_def list_all_iff split: if_splits)
  moreover have "set s \<subseteq> set (a @ b @ c @ d) \<union> {CHR ''.''}"
    by (subst split_on_concat [of s "CHR ''.''"]) (auto simp: parts)
  ultimately show ?thesis by (auto simp: addr_char_def is_hex_def)
qed

lemma ipv6_groups_chars:
  "ipv6_groups ip ell s = Some (ip', ell', rest) \<Longrightarrow> rest = [] \<Longrightarrow> \<forall>c\<in>set s. addr_char c"
proof (induction ip ell s rule: ipv6_groups.induct)
  case (1 ip ell s)
  let ?g = "takeWhile is_hex s" and ?r = "dropWhile is_hex s"
  have s: "set s = set ?g \<union> set ?r" by (metis set_append takeWhile_dropWhile_id)
  have g: "\<forall>c\<in>set ?g. addr_char c" by (auto simp: addr_char_def dest: set_takeWhileD)
  show ?case
  proof (cases "16 \<le> length ip")
    case True
    with "1.prems" show ?thesis by (simp add: ipv6_groups.simps [of ip ell s])
  next
    case False
    show ?thesis
    proof (cases "?r \<noteq> [] \<and> hd ?r = CHR ''.''")
      case True
      with "1.prems" False obtain v where "parse_ipv4 s = Some v"
        by (auto simp: ipv6_groups.simps [of ip ell s] Let_def split: if_splits option.splits)
      then show ?thesis by (rule parse_ipv4_chars)
    next
      case nodot: False
      have "\<forall>c\<in>set ?r. addr_char c"
      proof (cases ?r)
        case (Cons x r2)
        with "1.prems" False nodot have x: "x = CHR '':''"
          by (auto simp: ipv6_groups.simps [of ip ell s] Let_def split: if_splits)
        have r: "r2 \<noteq> []"
          using "1.prems" False nodot Cons
          by (auto simp: ipv6_groups.simps [of ip ell s] Let_def split: if_splits)
        then obtain y r3 where r2: "r2 = y # r3" by (cases r2) auto
        show ?thesis
          using "1.prems" False nodot Cons x r2 "1.IH"
          by (auto simp: ipv6_groups.simps [of ip ell s] Let_def addr_char_def split: if_splits)
      qed (simp del: dropWhile_eq_Nil_conv)
      with s g show ?thesis by auto
    qed
  qed
qed

lemma parse_ipv6_chars:
  assumes "parse_ipv6 full = Some ip" "zone ip = []"
  shows "\<forall>c\<in>set full. addr_char c"
proof -
  obtain s z found where cut: "cut (CHR ''%'') full = (s, z, found)" by (cases "cut (CHR ''%'') full")
  have "z = zone ip"
    using assms(1) by (auto simp: parse_ipv6_def cut Let_def split: if_splits option.splits)
  then have z: "z = []" using assms(2) by simp
  then have "\<not> found" using assms(1) by (auto simp: parse_ipv6_def cut)
  then have "CHR ''%'' \<notin> set full" using cut by (simp add: cut_def)
  then have s: "s = full" using cut by (simp add: cut_absent)
  have colon: "addr_char (CHR '':'')" by (simp add: addr_char_def)
  show ?thesis
  proof (cases "prefix ''::'' full")
    case True
    then obtain r where r: "full = ''::'' @ r" by (auto simp: prefix_def)
    have cut': "cut (CHR ''%'') (CHR '':'' # CHR '':'' # r) = (CHR '':'' # CHR '':'' # r, [], False)"
      using cut s z \<open>\<not> found\<close> by (simp add: r)
    show ?thesis
    proof (cases "r = []")
      case False
      with assms(1) obtain ip' e rest where
        "ipv6_groups [] (Some 0) r = Some (ip', e, rest)" "rest = []"
        by (auto simp: parse_ipv6_def r cut' ipv6_finish_def split: option.splits if_splits)
      then show ?thesis using ipv6_groups_chars colon by (auto simp: r)
    qed (use r colon in simp)
  next
    case False
    with assms(1) obtain ip' e rest where
      "ipv6_groups [] None full = Some (ip', e, rest)" "rest = []"
      by (auto simp: parse_ipv6_def cut s z \<open>\<not> found\<close> ipv6_finish_def Let_def split: option.splits if_splits)
    then show ?thesis by (rule ipv6_groups_chars)
  qed
qed

lemma parse_addr_chars:
  assumes "parse_addr s = Some ip" "zone ip = []"
  shows "s \<noteq> [] \<and> (\<forall>c\<in>set s. addr_char c)"
proof -
  have "s \<noteq> []" using assms(1) by (auto simp: parse_addr_def)
  moreover have "\<forall>c\<in>set s. addr_char c"
    using assms parse_ipv4_chars parse_ipv6_chars
    by (auto simp: parse_addr_def split: option.splits if_splits)
  ultimately show ?thesis by blast
qed

definition domain_char :: "char \<Rightarrow> bool" where
  "domain_char c \<longleftrightarrow> is_alnum c \<or> c = CHR ''-'' \<or> c = CHR ''.''"

lemma domain_char_graphic: "domain_char c \<Longrightarrow> graphic c \<and> c \<noteq> CHR ''#''"
  by (auto simp: domain_char_def is_alnum_def is_alpha_def is_digit_def graphic_def byte_of_def)

lemma trim_suffix_set: "set s \<subseteq> set (trim_suffix s p) \<union> set p"
proof (cases "suffix p s")
  case True
  then obtain u where "s = u @ p" by (auto simp: suffix_def)
  then show ?thesis by (simp add: trim_suffix_def)
qed (simp add: trim_suffix_def)

lemma ValidDomain_chars: "ValidDomain s \<Longrightarrow> s \<noteq> [] \<and> (\<forall>c\<in>set s. domain_char c)"
proof -
  assume v: "ValidDomain s"
  let ?t = "trim_suffix s ''.''"
  have "list_all label_ok (split_on (CHR ''.'') ?t)" and ne: "?t \<noteq> []"
    using v by (auto simp: ValidDomain_def Let_def split: if_splits)
  then have "\<forall>p\<in>set (split_on (CHR ''.'') ?t). \<forall>c\<in>set p. domain_char c"
    by (auto simp: list_all_iff label_ok_def domain_char_def)
  moreover have "set ?t \<subseteq> (\<Union>p\<in>set (split_on (CHR ''.'') ?t). set p) \<union> {CHR ''.''}"
    by (subst split_on_concat [of ?t "CHR ''.''"])
      (cases "split_on (CHR ''.'') ?t", auto)
  moreover have "domain_char (CHR ''.'')" by (simp add: domain_char_def)
  ultimately have "\<forall>c\<in>set ?t. domain_char c" by blast
  then have "\<forall>c\<in>set s. domain_char c"
    using trim_suffix_set [of s "''.''"] by (auto simp: domain_char_def)
  moreover have "s \<noteq> []" using ne by (auto simp: trim_suffix_def)
  ultimately show ?thesis by blast
qed

section \<open>Printing and parsing again\<close>

lemma host_ok_chars:
  assumes "host_ok h"
  shows "Address h \<noteq> []" "\<forall>c\<in>set (Address h). graphic c \<and> c \<noteq> CHR ''#''"
    "Hostname h \<noteq> []" "\<forall>c\<in>set (Hostname h). graphic c \<and> c \<noteq> CHR ''#''"
proof -
  obtain ip where ip: "parse_addr (Address h) = Some ip" "zone ip = []"
    using assms by (auto simp: host_ok_def)
  show "Address h \<noteq> []" using parse_addr_chars [OF ip] by blast
  have "\<not> addr_char (CHR ''#'')" by (simp add: addr_char_def is_hex_def is_digit_def byte_of_def)
  then show "\<forall>c\<in>set (Address h). graphic c \<and> c \<noteq> CHR ''#''"
    using parse_addr_chars [OF ip] addr_char_graphic by blast
  have "ValidDomain (Hostname h)" using assms by (simp add: host_ok_def is_fqdn_def)
  from ValidDomain_chars [OF this] domain_char_graphic
  show "Hostname h \<noteq> []" "\<forall>c\<in>set (Hostname h). graphic c \<and> c \<noteq> CHR ''#''" by auto
qed

lemma parse_host_lines_print:
  "\<forall>h\<in>set hs. host_ok h \<Longrightarrow>
     parse_host_lines (map (\<lambda>h. Address h @ tab # Hostname h) hs) = Inr hs"
proof (induction hs)
  case (Cons h hs)
  then have ok: "host_ok h" by simp
  note c = host_ok_chars [OF ok]
  have "CHR ''#'' \<notin> set (Address h @ tab # Hostname h)" using c(2,4) by auto
  then have "cut (CHR ''#'') (Address h @ tab # Hostname h) = (Address h @ tab # Hostname h, [], False)"
    by (rule cut_absent)
  moreover have "str_fields (Address h @ tab # Hostname h) = [Address h, Hostname h]"
    using c by (intro fields_two) auto
  ultimately show ?case using Cons by simp
qed simp

definition short_hosts :: "host list \<Rightarrow> bool" where
  "short_hosts hs \<longleftrightarrow>
     (\<forall>h\<in>set hs. Suc (length (Address h) + length (Hostname h)) < hosts_line_limit)"

lemma hosts_roundtrip:
  assumes "short_hosts hs" "MarshalHosts hs = Inr b"
  shows "ParseHosts b = Inr hs"
proof -
  have v: "ValidateHosts hs = Inr ()" and b: "b = concat (map host_line hs)"
    using assms(2) by (auto simp: MarshalHosts_def)
  have ok: "\<forall>h\<in>set hs. host_ok h" using v by (simp add: ValidateHosts_ok)
  let ?line = "\<lambda>h. Address h @ tab # Hostname h"
  have "concat (map host_line hs) = unlines (map ?line hs)" by (induction hs) (auto simp: host_line_def)
  moreover have "scan_lines hosts_line_limit (unlines (map ?line hs)) = (map ?line hs, False)"
  proof (rule scan_lines_unlines, rule ballI)
    fix l assume "l \<in> set (map ?line hs)"
    then obtain h where h: "h \<in> set hs" "l = ?line h" by auto
    have "\<not> graphic nl" "\<not> graphic cr" by (simp_all add: graphic_def byte_of_def)
    then show "nl \<notin> set l \<and> cr \<notin> set l \<and> length l < hosts_line_limit"
      using h assms(1) ok host_ok_chars [of h] by (auto simp: short_hosts_def)
  qed
  ultimately show ?thesis
    by (simp add: ParseHosts_def b parse_host_lines_print [OF ok] v)
qed

lemma fields_from_length:
  "sum_list (map length (fields_from cur s)) + length (fields_from cur s) \<le> Suc (length cur + length s)"
proof (induction cur s rule: fields_from.induct)
  case (1 cur s)
  let ?n = "space_at space_seqs s"
  have "?n \<le> length s" by (rule space_at_le)
  then show ?case
    using 1 fields_from.simps [of cur s] by (cases s) auto
qed

lemma parse_host_lines_short:
  "parse_host_lines ls = Inr hs \<Longrightarrow> \<forall>l\<in>set ls. length l < n \<Longrightarrow>
     \<forall>h\<in>set hs. Suc (length (Address h) + length (Hostname h)) < n"
proof (induction ls arbitrary: hs)
  case (Cons l ls)
  obtain v a f where cut: "cut (CHR ''#'') l = (v, a, f)" by (cases "cut (CHR ''#'') l")
  then have "length v \<le> length l" by (auto simp: cut_def length_takeWhile_le)
  then have "sum_list (map length (str_fields v)) + length (str_fields v) \<le> Suc (length l)"
    using fields_from_length [of "[]" v] by (simp add: str_fields_def)
  then show ?case
    using Cons by (auto simp: cut split: list.splits)
qed simp

lemma ParseHosts_short: "ParseHosts data = Inr hs \<Longrightarrow> short_hosts hs"
  unfolding short_hosts_def
  by (rule parse_host_lines_short [of "fst (scan_lines hosts_line_limit data)"])
    (auto simp: ParseHosts_def scan_lines_short split: prod.splits if_splits)

section \<open>Properties\<close>

text \<open>
  \<open>ValidateHosts\<close> accepts exactly the tables whose every entry has a unicast,
  specified, zone-free address and a fully qualified name, and in which no two entries
  share their canonical address and name.
\<close>

theorem validate_hosts_iff:
  "ValidateHosts hs = Inr () \<longleftrightarrow> list_all host_ok hs \<and> distinct (map key_of hs)"
  by (simp add: ValidateHosts_ok list_all_iff)

text \<open>
  An accepted table never names one host twice for one address: two entries at
  different positions whose addresses are equal after unmapping IPv4-in-IPv6 have names that
  differ in more than letter case and a final dot.
\<close>

theorem hosts_no_duplicates:
  assumes "ValidateHosts hs = Inr ()" "i < length hs" "j < length hs" "i \<noteq> j"
    and "parse_addr (Address (hs ! i)) = Some a" "parse_addr (Address (hs ! j)) = Some b"
    and "unmap a = unmap b"
  shows "to_lower (trim_suffix (Hostname (hs ! i)) ''.'') \<noteq>
     to_lower (trim_suffix (Hostname (hs ! j)) ''.'')"
proof
  assume "to_lower (trim_suffix (Hostname (hs ! i)) ''.'') =
     to_lower (trim_suffix (Hostname (hs ! j)) ''.'')"
  with assms(5-7) have "key_of (hs ! i) = key_of (hs ! j)" by (rule key_of_same)
  moreover have "distinct (map key_of hs)" using assms(1) by (simp add: ValidateHosts_ok)
  ultimately show False using assms(2-4) by (simp add: distinct_conv_nth)
qed

definition sample_hosts :: "host list" where
  "sample_hosts =
     [\<lparr>Address = ''10.0.0.2'', Hostname = ''nas.local''\<rparr>,
      \<lparr>Address = ''::ffff:10.0.0.2'', Hostname = ''tv.local''\<rparr>]"

lemmas addr_eval = parse_addr_def parse_ipv4_def parse_ipv6_def parse_octet_def ipv6_finish_def
  ipv6_groups.simps is_hex_def hex_val_def hex_value_def is_digit_def dec_value_def digit_val_def
  byte_of_def cut_def Let_def

lemma replicate_zeros:
  "replicate 4 (0::nat) = [0, 0, 0, 0]"
  "replicate 10 (0::nat) = [0, 0, 0, 0, 0, 0, 0, 0, 0, 0]"
  "replicate 16 (0::nat) = [0, 0, 0, 0, 0, 0, 0, 0, 0, 0, 0, 0, 0, 0, 0, 0]"
  by code_simp+

lemma sample_addrs:
  "parse_addr ''10.0.0.2'' = Some \<lparr>octets = [10, 0, 0, 2], zone = []\<rparr>"
  "parse_addr ''::ffff:10.0.0.2'' =
     Some \<lparr>octets = [0, 0, 0, 0, 0, 0, 0, 0, 0, 0, 255, 255, 10, 0, 0, 2], zone = []\<rparr>"
  by (simp_all add: addr_eval replicate_zeros)

lemma sample_unmap:
  "unmap \<lparr>octets = [10, 0, 0, 2], zone = []\<rparr> = \<lparr>octets = [10, 0, 0, 2], zone = []\<rparr>"
  "unmap \<lparr>octets = [0, 0, 0, 0, 0, 0, 0, 0, 0, 0, 255, 255, 10, 0, 0, 2], zone = []\<rparr> =
     \<lparr>octets = [10, 0, 0, 2], zone = []\<rparr>"
  by (simp_all add: unmap_def is_4in6_def replicate_zeros)

lemma sample_class:
  "\<not> is_unspecified \<lparr>octets = [10, 0, 0, 2], zone = []\<rparr>"
  "\<not> is_multicast \<lparr>octets = [10, 0, 0, 2], zone = []\<rparr>"
  "\<not> is_unspecified \<lparr>octets = [0, 0, 0, 0, 0, 0, 0, 0, 0, 0, 255, 255, 10, 0, 0, 2], zone = []\<rparr>"
  "\<not> is_multicast \<lparr>octets = [0, 0, 0, 0, 0, 0, 0, 0, 0, 0, 255, 255, 10, 0, 0, 2], zone = []\<rparr>"
  by (simp_all add: is_unspecified_def is_multicast_def sample_unmap replicate_zeros)

lemma sample_hosts_valid: "ValidateHosts sample_hosts = Inr ()"
proof -
  have "is_fqdn ''nas.local''" "is_fqdn ''tv.local''" by code_simp+
  moreover have "to_lower (trim_suffix ''nas.local'' ''.'') \<noteq> to_lower (trim_suffix ''tv.local'' ''.'')"
    by code_simp
  ultimately show ?thesis
    by (simp add: ValidateHosts_def sample_hosts_def sample_addrs host_key_def sample_unmap
        sample_class Let_def)
qed

theorem hosts_no_duplicates_witness:
  "to_lower (trim_suffix ''nas.local'' ''.'') \<noteq> to_lower (trim_suffix ''tv.local'' ''.'')"
proof -
  have nth: "Address (sample_hosts ! 0) = ''10.0.0.2''" "Address (sample_hosts ! 1) = ''::ffff:10.0.0.2''"
    "Hostname (sample_hosts ! 0) = ''nas.local''" "Hostname (sample_hosts ! 1) = ''tv.local''"
    "0 < length sample_hosts" "1 < length sample_hosts"
    by (simp_all add: sample_hosts_def)
  show ?thesis
    using hosts_no_duplicates [OF sample_hosts_valid nth(5,6)] sample_addrs sample_unmap
    unfolding nth by (metis zero_neq_one)
qed

text \<open>
  Parsing a hosts file, printing the table and parsing the result gives the same
  table.
\<close>

theorem hosts_reparse:
  assumes "ParseHosts data = Inr hs" and "MarshalHosts hs = Inr out"
  shows "ParseHosts out = Inr hs"
  using assms ParseHosts_short hosts_roundtrip by blast

theorem hosts_reparse_witness:
  "\<exists>out. MarshalHosts sample_hosts = Inr out \<and> ParseHosts out = Inr sample_hosts"
proof -
  obtain out where m: "MarshalHosts sample_hosts = Inr out"
    using sample_hosts_valid by (simp add: MarshalHosts_def)
  have "short_hosts sample_hosts"
    by (simp add: short_hosts_def sample_hosts_def hosts_line_limit_def)
  then have "ParseHosts out = Inr sample_hosts" using m by (rule hosts_roundtrip)
  then show ?thesis using hosts_reparse [OF _ m] m by blast
qed


end
