(* ===== verification/Service.thy ===== *)
theory Service
  imports Daemon
begin

unbundle bit_operations_syntax

text \<open>
  \<open>internal/config/service.go\<close>: static service groups. The XML decoder and encoder of
  \<open>encoding/xml\<close> are parameters (the token stream of a document, the decoded group, the
  printed group); the program's own check of the token stream, the validation of a group
  and the random identifiers are modelled. The main results: the stack machine that checks
  the token stream accepts exactly the documents of a recursive grammar, and \<open>Validate\<close>
  accepts exactly the groups that satisfy the declarative rules.
\<close>

record service_name =
  sn_value :: string
  sn_wildcards :: string

record txt_record =
  tx_value :: string
  tx_format :: string

record service =
  sv_protocol :: string
  sv_type :: string
  sv_domain :: string
  sv_host :: string
  sv_port :: "16 word"
  sv_subtypes :: "string list"
  sv_txt :: "txt_record list"

record service_group =
  g_name :: service_name
  g_services :: "service list"

definition empty_group :: service_group where
  "empty_group = \<lparr>g_name = \<lparr>sn_value = [], sn_wildcards = []\<rparr>, g_services = []\<rparr>"

section \<open>Validate\<close>

definition label_rest :: "nat \<Rightarrow> string \<Rightarrow> bool" where
  "label_rest n s \<longleftrightarrow>
     (case s of
        u # a # rest \<Rightarrow> u = CHR ''_'' \<and> is_alnum a \<and> length rest \<le> n
          \<and> list_all (\<lambda>c. is_alnum c \<or> c = CHR ''-'') rest
      | _ \<Rightarrow> False)"

text \<open>The regular expressions \<open>serviceType\<close> and \<open>subtypeLabel\<close>.\<close>

definition service_type_ok :: "string \<Rightarrow> bool" where
  "service_type_ok s \<longleftrightarrow>
     (suffix ''._tcp'' s \<or> suffix ''._udp'' s) \<and> label_rest 62 (take (length s - 5) s)"

definition subtype_label_ok :: "string \<Rightarrow> bool" where
  "subtype_label_ok s = label_rest 61 s"

definition validXMLText :: "string \<Rightarrow> bool" where
  "validXMLText s \<longleftrightarrow>
     utf8_valid s \<and>
     list_all (\<lambda>r. \<not> (r \<noteq> 9 \<and> r \<noteq> 10 \<and> r \<noteq> 13 \<and> (r < 32 \<or> r = 65534 \<or> r = 65535))) (runes s)"

text \<open>\<open>hex.DecodeString\<close>: the decoded bytes, or an error.\<close>

definition hex_digit_val :: "char \<Rightarrow> nat option" where
  "hex_digit_val c =
     (if is_digit c then Some (byte_of c - 48)
      else if 97 \<le> byte_of c \<and> byte_of c \<le> 102 then Some (byte_of c - 87)
      else if 65 \<le> byte_of c \<and> byte_of c \<le> 70 then Some (byte_of c - 55)
      else None)"

fun hex_decode :: "string \<Rightarrow> string option" where
  "hex_decode [] = Some []"
| "hex_decode [c] = None"
| "hex_decode (a # b # s) =
     (case (hex_digit_val a, hex_digit_val b, hex_decode s) of
        (Some x, Some y, Some r) \<Rightarrow> Some (char_of (x * 16 + y) # r)
      | _ \<Rightarrow> None)"

text \<open>
  \<open>base64.StdEncoding.Strict().DecodeString\<close>: line breaks are skipped, padding is
  required, and the unused bits before the padding must be zero.
\<close>

definition b64_val :: "char \<Rightarrow> nat option" where
  "b64_val c =
     (let b = byte_of c in
      if 65 \<le> b \<and> b \<le> 90 then Some (b - 65)
      else if 97 \<le> b \<and> b \<le> 122 then Some (b - 71)
      else if 48 \<le> b \<and> b \<le> 57 then Some (b + 4)
      else if b = 43 then Some 62 else if b = 47 then Some 63 else None)"

fun b64_quads :: "string \<Rightarrow> string option" where
  "b64_quads [] = Some []"
| "b64_quads (a # b # c # d # s) =
     (case (b64_val a, b64_val b) of
        (Some w, Some x) \<Rightarrow>
          (if c = CHR ''='' then
             (if d = CHR ''='' \<and> s = [] \<and> x mod 16 = 0 then Some [char_of (w * 4 + x div 16)] else None)
           else case b64_val c of
             None \<Rightarrow> None
           | Some y \<Rightarrow>
               if d = CHR ''='' then
                 (if s = [] \<and> y mod 4 = 0
                  then Some [char_of (w * 4 + x div 16), char_of (x mod 16 * 16 + y div 4)] else None)
               else case (b64_val d, b64_quads s) of
                 (Some z, Some r) \<Rightarrow>
                   Some (char_of (w * 4 + x div 16) # char_of (x mod 16 * 16 + y div 4)
                     # char_of (y mod 4 * 64 + z) # r)
               | _ \<Rightarrow> None)
      | _ \<Rightarrow> None)"
| "b64_quads _ = None"

definition b64_decode :: "string \<Rightarrow> string option" where
  "b64_decode s = b64_quads (filter (\<lambda>c. c \<noteq> cr \<and> c \<noteq> nl) s)"

text \<open>The TXT loop of \<open>Validate\<close>.\<close>

definition txt_data :: "string \<Rightarrow> string \<Rightarrow> string option" where
  "txt_data fmt val =
     (if fmt = ''binary-hex'' then hex_decode val
      else if fmt = ''binary-base64'' then b64_decode val
      else Some val)"

fun validate_txt :: "string set \<Rightarrow> txt_record list \<Rightarrow> unit result" where
  "validate_txt seen [] = Inr ()"
| "validate_txt seen (t # ts) =
     (if \<not> validXMLText (tx_value t) then Inl (Msg ''TXT contains invalid XML text'')
      else
        let (key, val, has_value) = cut (CHR ''='') (tx_value t); fmt = tx_format t in
        if key = [] then Inl (Msg ''TXT key cannot be empty'')
        else if \<not> list_all (\<lambda>r. 32 \<le> r \<and> r \<le> 126) (runes key)
          then Inl (Msg ''TXT keys must be printable ASCII'')
        else if to_lower key \<in> seen then Inl (Msg ''duplicate TXT key'')
        else if fmt \<notin> {'''', ''text'', ''binary-hex'', ''binary-base64''}
          then Inl (Msg ''invalid TXT format'')
        else case txt_data fmt val of
          None \<Rightarrow> Inl (Msg ''invalid binary TXT value'')
        | Some data \<Rightarrow>
            if fmt \<noteq> '''' \<and> fmt \<noteq> ''text'' \<and> \<not> has_value
            then Inl (Msg ''invalid binary TXT value'')
            else if length key + (if has_value then 1 + length data else 0) > 255
            then Inl (Msg ''TXT record exceeds 255 bytes'')
            else validate_txt (insert (to_lower key) seen) ts)"

definition validate_subtype :: "string \<Rightarrow> string \<Rightarrow> unit result" where
  "validate_subtype typ sub =
     (let (pre, ok) = cut_suffix sub (''._sub.'' @ typ) in
      if \<not> ok \<or> \<not> subtype_label_ok pre then Inl (Msg ''invalid subtype'') else Inr ())"

definition validate_service :: "service \<Rightarrow> unit result" where
  "validate_service s =
     (if \<not> service_type_ok (sv_type s) then Inl (Msg ''invalid service type'')
      else if sv_protocol s \<notin> {'''', ''any'', ''ipv4'', ''ipv6''}
        then Inl (Msg ''invalid service protocol'')
      else if sv_domain s \<noteq> [] \<and> \<not> ValidDomain (sv_domain s) then Inl (Msg ''invalid service domain'')
      else if sv_host s \<noteq> [] \<and>
          (\<not> ValidDomain (sv_host s) \<or> CHR ''.'' \<notin> set (trim_suffix (sv_host s) ''.''))
        then Inl (Msg ''service host must be FQDN'')
      else bind_res (check_all (validate_subtype (sv_type s)) (sv_subtypes s))
        (\<lambda>_. validate_txt {} (sv_txt s)))"

definition group_validate :: "service_group \<Rightarrow> unit result" where
  "group_validate g =
     (let name = sn_value (g_name g); wild = sn_wildcards (g_name g) in
      if \<not> validXMLText name \<or> length name = 0 \<or> length name > 63 \<or> contains_any name [nul, cr, nl]
        then Inl (Msg ''service name must be 1-63 UTF-8 bytes'')
      else if wild \<noteq> '''' \<and> wild \<noteq> ''yes'' \<and> wild \<noteq> ''no'' then Inl (Msg ''invalid replace-wildcards'')
      else if g_services g = [] then Inl (Msg ''service-group requires at least one service'')
      else check_all validate_service (g_services g))"

section \<open>ParseService\<close>

text \<open>
  The tokens of \<open>encoding/xml\<close>. A name is its namespace and its local part; comments,
  processing instructions and directives need no distinction.
\<close>

type_synonym xml_name = "string \<times> string"

datatype xml_token =
    StartElement xml_name "xml_name list"
  | EndElement xml_name
  | CharData string
  | OtherToken

record xml_state =
  xs_stack :: "string list"
  xs_counts :: "(string \<Rightarrow> nat) list"
  xs_roots :: nat

definition xml_init :: xml_state where
  "xml_init = \<lparr>xs_stack = [], xs_counts = [], xs_roots = 0\<rparr>"

definition element_allowed :: "string \<Rightarrow> string \<Rightarrow> bool" where
  "element_allowed parent name \<longleftrightarrow>
     parent = '''' \<and> name = ''service-group''
     \<or> parent = ''service-group'' \<and> (name = ''name'' \<or> name = ''service'')
     \<or> parent = ''service'' \<and>
        sublist (''|'' @ name @ ''|'') ''|type|port|domain-name|host-name|subtype|txt-record|''"

definition repeatable :: "string \<Rightarrow> bool" where
  "repeatable name \<longleftrightarrow> name = ''service'' \<or> name = ''subtype'' \<or> name = ''txt-record''"

definition attr_allowed :: "string \<Rightarrow> string \<Rightarrow> bool" where
  "attr_allowed elem attr \<longleftrightarrow>
     elem = ''name'' \<and> attr = ''replace-wildcards''
     \<or> elem = ''service'' \<and> attr = ''protocol''
     \<or> elem = ''txt-record'' \<and> attr = ''value-format''"

fun check_attrs :: "string \<Rightarrow> string set \<Rightarrow> xml_name list \<Rightarrow> unit result" where
  "check_attrs elem seen [] = Inr ()"
| "check_attrs elem seen (a # as) =
     (if \<not> attr_allowed elem (snd a) \<or> fst a \<noteq> '''' \<or> snd a \<in> seen
      then Inl (Msg ''invalid XML attribute'')
      else check_attrs elem (insert (snd a) seen) as)"

definition xml_panic :: error where
  "xml_panic = Msg ''runtime error: index out of range''"

definition xml_start :: "xml_name \<Rightarrow> xml_name list \<Rightarrow> xml_state \<Rightarrow> xml_state result" where
  "xml_start name attrs st =
     (let parent = (case xs_stack st of [] \<Rightarrow> '''' | p # _ \<Rightarrow> p); local = snd name;
          push = (\<lambda>s. bind_res (check_attrs local {} attrs)
            (\<lambda>_. Inr (s\<lparr>xs_stack := local # xs_stack s, xs_counts := (\<lambda>_. 0) # xs_counts s\<rparr>)))
      in
      if \<not> element_allowed parent local \<or> fst name \<noteq> '''' then Inl (Msg ''unsupported XML element'')
      else if parent = '''' then
        (if xs_roots st + 1 > 1 then Inl (Msg ''multiple XML roots'')
         else push (st\<lparr>xs_roots := xs_roots st + 1\<rparr>))
      else case xs_counts st of
        [] \<Rightarrow> Inl xml_panic
      | c # cs \<Rightarrow>
          let c' = c(local := c local + 1) in
          if c' local > 1 \<and> \<not> repeatable local then Inl (Msg ''duplicate element'')
          else push (st\<lparr>xs_counts := c' # cs\<rparr>))"

definition xml_end :: "xml_name \<Rightarrow> xml_state \<Rightarrow> xml_state result" where
  "xml_end name st =
     (case xs_counts st of
        [] \<Rightarrow> Inl xml_panic
      | c # cs \<Rightarrow>
          if snd name = ''service'' \<and> (c ''type'' \<noteq> 1 \<or> c ''port'' \<noteq> 1)
          then Inl (Msg ''service requires type and port'')
          else Inr (st\<lparr>xs_stack := tl (xs_stack st), xs_counts := cs\<rparr>))"

definition xml_text :: "string \<Rightarrow> xml_state \<Rightarrow> xml_state result" where
  "xml_text s st =
     (if (xs_stack st = [] \<or> hd (xs_stack st) = ''service'' \<or> hd (xs_stack st) = ''service-group'')
         \<and> trim_space s \<noteq> ''''
      then Inl (Msg ''unexpected XML text'') else Inr st)"

fun xml_step :: "xml_token \<Rightarrow> xml_state \<Rightarrow> xml_state result" where
  "xml_step (StartElement n as) st = xml_start n as st"
| "xml_step (EndElement n) st = xml_end n st"
| "xml_step (CharData s) st = xml_text s st"
| "xml_step OtherToken st = Inr st"

fun xml_run :: "xml_token list \<Rightarrow> xml_state \<Rightarrow> xml_state result" where
  "xml_run [] st = Inr st"
| "xml_run (t # ts) st = bind_res (xml_step t st) (xml_run ts)"

text \<open>
  What \<open>encoding/xml\<close> gives for a document: its tokens up to the end or to a syntax
  error, and the decoded group with the error of decoding; and how it prints a group.
\<close>

record xml_codec =
  xml_tokens :: "string \<Rightarrow> xml_token list \<times> error option"
  xml_unmarshal :: "string \<Rightarrow> service_group \<times> error option"
  xml_marshal :: "service_group \<Rightarrow> string result"

definition ParseService :: "xml_codec \<Rightarrow> string \<Rightarrow> service_group \<times> error option" where
  "ParseService X data =
     (let (toks, err) = xml_tokens X data in
      case xml_run toks xml_init of
        Inl e \<Rightarrow> (empty_group, Some e)
      | Inr st \<Rightarrow>
          case err of
            Some e \<Rightarrow> (empty_group, Some e)
          | None \<Rightarrow>
              let (g, err2) = xml_unmarshal X data in
              case err2 of
                Some e \<Rightarrow> (g, Some e)
              | None \<Rightarrow> (g, case group_validate g of Inl e \<Rightarrow> Some e | Inr _ \<Rightarrow> None))"

definition xml_header :: string where
  "xml_header = ''<?xml version='' @ [CHR 0x22] @ ''1.0'' @ [CHR 0x22] @ '' encoding='' @ [CHR 0x22]
     @ ''UTF-8'' @ [CHR 0x22] @ ''?>'' @ [nl]"

definition group_marshal :: "xml_codec \<Rightarrow> service_group \<Rightarrow> string result" where
  "group_marshal X g =
     bind_res (group_validate g) (\<lambda>_.
       bind_res (xml_marshal X g) (\<lambda>b. Inr (xml_header @ b @ [nl])))"

section \<open>Identifiers\<close>

definition byte_char :: "8 word \<Rightarrow> char" where
  "byte_char w = char_of (unat w)"

definition hex_bytes :: "8 word list \<Rightarrow> string" where
  "hex_bytes ws = hex_encode (map byte_char ws)"

definition randomID :: "8 word list \<Rightarrow> string" where
  "randomID b0 =
     (let b1 = b0[6 := (b0 ! 6 AND 15) OR 64]; b = b1[8 := (b1 ! 8 AND 63) OR 128] in
      hex_bytes (take 4 b) @ ''-'' @ hex_bytes (take 2 (drop 4 b)) @ ''-''
      @ hex_bytes (take 2 (drop 6 b)) @ ''-'' @ hex_bytes (take 2 (drop 8 b)) @ ''-''
      @ hex_bytes (drop 10 b))"

definition NewServiceID :: "8 word list \<Rightarrow> string" where
  "NewServiceID b = ''awm-'' @ randomID b @ ''.service''"

section \<open>The grammar behind the token check\<close>

text \<open>
  A document as a forest. \<open>Misc\<close> is a comment, a processing instruction or a directive.
  The decoder of \<open>encoding/xml\<close> yields the flattened form of a forest, since it refuses
  unbalanced tags itself.
\<close>

datatype xml = Elem xml_name "xml_name list" "xml list" | Text string | Misc

fun flatten :: "xml \<Rightarrow> xml_token list" where
  "flatten (Elem n as cs) = StartElement n as # concat (map flatten cs) @ [EndElement n]"
| "flatten (Text s) = [CharData s]"
| "flatten Misc = [OtherToken]"

fun count_elem :: "string \<Rightarrow> xml list \<Rightarrow> nat" where
  "count_elem m [] = 0"
| "count_elem m (Elem n as cs # ds) = (if snd n = m then 1 else 0) + count_elem m ds"
| "count_elem m (d # ds) = count_elem m ds"

fun elems :: "xml list \<Rightarrow> nat" where
  "elems [] = 0"
| "elems (Elem n as cs # ds) = Suc (elems ds)"
| "elems (d # ds) = elems ds"

definition attrs_ok :: "string \<Rightarrow> xml_name list \<Rightarrow> bool" where
  "attrs_ok elem as \<longleftrightarrow>
     list_all (\<lambda>a. attr_allowed elem (snd a) \<and> fst a = '''') as \<and> distinct (map snd as)"

definition children_ok :: "string \<Rightarrow> xml list \<Rightarrow> bool" where
  "children_ok n cs \<longleftrightarrow>
     (\<forall>m. \<not> repeatable m \<longrightarrow> count_elem m cs \<le> 1) \<and>
     (n = ''service'' \<longrightarrow> count_elem ''type'' cs = 1 \<and> count_elem ''port'' cs = 1)"

fun node_ok :: "string \<Rightarrow> xml \<Rightarrow> bool" where
  "node_ok parent (Elem n as cs) \<longleftrightarrow>
     element_allowed parent (snd n) \<and> fst n = '''' \<and> attrs_ok (snd n) as \<and>
     list_all (node_ok (snd n)) cs \<and> children_ok (snd n) cs"
| "node_ok parent (Text s) \<longleftrightarrow>
     parent \<in> {'''', ''service'', ''service-group''} \<longrightarrow> trim_space s = ''''"
| "node_ok parent Misc \<longleftrightarrow> True"

definition document_ok :: "xml list \<Rightarrow> bool" where
  "document_ok ds \<longleftrightarrow> list_all (node_ok '''') ds \<and> elems ds \<le> 1"

lemma xml_run_append: "xml_run (ts @ us) st = bind_res (xml_run ts st) (xml_run us)"
proof (induction ts arbitrary: st)
  case (Cons t ts)
  then show ?case by (cases "xml_step t st") auto
qed simp

lemma check_attrs_ok:
  "check_attrs elem seen as = Inr () \<longleftrightarrow>
     list_all (\<lambda>a. attr_allowed elem (snd a) \<and> fst a = '''') as \<and> distinct (map snd as)
     \<and> seen \<inter> set (map snd as) = {}"
  by (induction as arbitrary: seen) auto

lemma check_attrs_iff: "check_attrs elem {} as = Inr () \<longleftrightarrow> attrs_ok elem as"
  by (simp add: check_attrs_ok attrs_ok_def)

lemma element_allowed_root [simp]: "element_allowed '''' n \<longleftrightarrow> n = ''service-group''"
  by (auto simp: element_allowed_def)

definition inside :: "string \<Rightarrow> string list \<Rightarrow> (string \<Rightarrow> nat) \<Rightarrow> (string \<Rightarrow> nat) list \<Rightarrow> nat \<Rightarrow> xml_state" where
  "inside p ps c cs r = \<lparr>xs_stack = p # ps, xs_counts = c # cs, xs_roots = r\<rparr>"

definition add_counts :: "(string \<Rightarrow> nat) \<Rightarrow> xml list \<Rightarrow> string \<Rightarrow> nat" where
  "add_counts c ds m = c m + count_elem m ds"

definition fits :: "(string \<Rightarrow> nat) \<Rightarrow> xml list \<Rightarrow> bool" where
  "fits c ds \<longleftrightarrow> (\<forall>m. \<not> repeatable m \<longrightarrow> count_elem m ds > 0 \<longrightarrow> c m + count_elem m ds \<le> 1)"

text \<open>
  Running the check over one element below another: it succeeds exactly when the node is
  well formed and its name may still occur, and then only the parent's count has changed.
\<close>

definition node_runs :: "xml \<Rightarrow> bool" where
  "node_runs d \<longleftrightarrow> (\<forall>p ps c cs r. p \<noteq> '''' \<longrightarrow>
     (if node_ok p d \<and> fits c [d]
      then xml_run (flatten d) (inside p ps c cs r) = Inr (inside p ps (add_counts c [d]) cs r)
      else \<not> is_ok (xml_run (flatten d) (inside p ps c cs r))))"

lemma add_counts_nil [simp]: "add_counts c [] = c"
  by (simp add: add_counts_def fun_eq_iff)

lemma count_elem_Cons: "count_elem m (d # ds) = count_elem m [d] + count_elem m ds"
  by (cases d) auto

lemma add_counts_Cons: "add_counts c (d # ds) = add_counts (add_counts c [d]) ds"
  by (simp add: add_counts_def fun_eq_iff count_elem_Cons [of _ d ds])

lemma fits_Cons: "fits c (d # ds) \<longleftrightarrow> fits c [d] \<and> fits (add_counts c [d]) ds"
proof -
  have "(count_elem m (d # ds) > 0 \<longrightarrow> c m + count_elem m (d # ds) \<le> 1) \<longleftrightarrow>
      (count_elem m [d] > 0 \<longrightarrow> c m + count_elem m [d] \<le> 1) \<and>
      (count_elem m ds > 0 \<longrightarrow> add_counts c [d] m + count_elem m ds \<le> 1)" for m
    unfolding count_elem_Cons [of m d ds] add_counts_def by arith
  then show ?thesis unfolding fits_def by blast
qed

lemma forest_runs:
  assumes "\<forall>d\<in>set ds. node_runs d" "p \<noteq> ''''"
  shows "if list_all (node_ok p) ds \<and> fits c ds
    then xml_run (concat (map flatten ds)) (inside p ps c cs r) = Inr (inside p ps (add_counts c ds) cs r)
    else \<not> is_ok (xml_run (concat (map flatten ds)) (inside p ps c cs r))"
  using assms(1)
proof (induction ds arbitrary: c)
  case Nil
  then show ?case by (simp add: fits_def)
next
  case (Cons d ds)
  let ?st = "inside p ps c cs r"
  have d: "if node_ok p d \<and> fits c [d]
      then xml_run (flatten d) ?st = Inr (inside p ps (add_counts c [d]) cs r)
      else \<not> is_ok (xml_run (flatten d) ?st)"
    using Cons.prems assms(2) by (auto simp: node_runs_def)
  show ?case
  proof (cases "node_ok p d \<and> fits c [d]")
    case True
    with d have "xml_run (flatten d) ?st = Inr (inside p ps (add_counts c [d]) cs r)" by simp
    then show ?thesis
      using Cons.IH [of "add_counts c [d]"] Cons.prems True
      by (simp add: xml_run_append fits_Cons [of c d ds] add_counts_Cons [of c d ds])
  next
    case False
    with d obtain e where "xml_run (flatten d) ?st = Inl e"
      by (cases "xml_run (flatten d) ?st") auto
    then show ?thesis using False by (auto simp: xml_run_append fits_Cons [of c d ds])
  qed
qed

lemma allowed_nonempty: "element_allowed p n \<Longrightarrow> n \<noteq> ''''"
proof -
  have "\<not> sublist ''||'' ''|type|port|domain-name|host-name|subtype|txt-record|''" by code_simp
  then show "element_allowed p n \<Longrightarrow> n \<noteq> ''''" by (auto simp: element_allowed_def)
qed

lemma fits_zero: "fits (\<lambda>_. 0) ds \<longleftrightarrow> (\<forall>m. \<not> repeatable m \<longrightarrow> count_elem m ds \<le> 1)"
  unfolding fits_def by (metis add_0 gr0I zero_le)

lemma fits_elem: "fits c [Elem n as ds] \<longleftrightarrow> (repeatable (snd n) \<or> c (snd n) = 0)"
  by (auto simp: fits_def)

lemma add_counts_elem: "add_counts c [Elem n as ds] = c(snd n := c (snd n) + 1)"
  by (simp add: add_counts_def fun_eq_iff)

lemma bind_res_assoc: "bind_res (bind_res r f) g = bind_res r (\<lambda>x. bind_res (f x) g)"
  by (cases r) auto

lemma xml_run_elem:
  "xml_run (flatten (Elem n as ds)) st =
     bind_res (xml_start n as st) (\<lambda>s. bind_res (xml_run (concat (map flatten ds)) s) (xml_end n))"
proof -
  have e: "xml_run [EndElement n] = xml_end n"
  proof
    fix s show "xml_run [EndElement n] s = xml_end n s"
      by (cases "xml_end n s") auto
  qed
  have "xml_run (ts @ [EndElement n]) = (\<lambda>s. bind_res (xml_run ts s) (xml_end n))" for ts
    by (rule ext) (simp only: xml_run_append e)
  then show ?thesis by simp
qed

lemma node_runs_all: "node_runs d"
proof (induction d)
  case (Elem n as ds)
  then have IH: "\<forall>d\<in>set ds. node_runs d" by blast
  show ?case
    unfolding node_runs_def
  proof (intro allI impI)
    fix p :: string and ps c cs r assume p: "p \<noteq> ''''"
    let ?l = "snd n" and ?st = "inside p ps c cs r"
    let ?c = "add_counts c [Elem n as ds]"
    let ?in = "inside ?l (p # ps) (\<lambda>_. 0) (?c # cs) r"
    let ?out = "inside ?l (p # ps) (add_counts (\<lambda>_. 0) ds) (?c # cs) r"
    have start: "xml_start n as ?st = Inr ?in"
      if "element_allowed p ?l" "fst n = ''''" "fits c [Elem n as ds]" "attrs_ok ?l as"
      using that p by (auto simp: xml_start_def inside_def fits_elem add_counts_elem Let_def simp flip: check_attrs_iff)
    have no_start: "\<not> is_ok (xml_start n as ?st)"
      if "\<not> (element_allowed p ?l \<and> fst n = '''' \<and> fits c [Elem n as ds] \<and> attrs_ok ?l as)"
      using that p by (cases "check_attrs ?l {} as")
        (auto simp: xml_start_def inside_def fits_elem Let_def simp flip: check_attrs_iff)
    have finish: "xml_end n ?out =
        (if ?l = ''service'' \<and> (count_elem ''type'' ds \<noteq> 1 \<or> count_elem ''port'' ds \<noteq> 1)
         then Inl (Msg ''service requires type and port'') else Inr (inside p ps ?c cs r))"
      by (simp add: xml_end_def inside_def add_counts_def)
    show "if node_ok p (Elem n as ds) \<and> fits c [Elem n as ds]
      then xml_run (flatten (Elem n as ds)) ?st = Inr (inside p ps ?c cs r)
      else \<not> is_ok (xml_run (flatten (Elem n as ds)) ?st)"
    proof (cases "element_allowed p ?l \<and> fst n = '''' \<and> fits c [Elem n as ds] \<and> attrs_ok ?l as")
      case False
      then obtain e where "xml_start n as ?st = Inl e"
        using no_start by (cases "xml_start n as ?st") auto
      then show ?thesis using False by (auto simp: xml_run_elem simp del: flatten.simps)
    next
      case True
      then have s: "xml_start n as ?st = Inr ?in" using start by blast
      have "?l \<noteq> ''''" using True allowed_nonempty by blast
      note body = forest_runs [OF IH this, of "\<lambda>_. 0" "p # ps" "?c # cs" r]
      show ?thesis
      proof (cases "list_all (node_ok ?l) ds \<and> fits (\<lambda>_. 0) ds")
        case ok: True
        with body have "xml_run (concat (map flatten ds)) ?in = Inr ?out" by simp
        then have "xml_run (flatten (Elem n as ds)) ?st = xml_end n ?out"
          by (simp add: xml_run_elem s del: flatten.simps)
        moreover have "node_ok p (Elem n as ds) \<longleftrightarrow>
            (?l = ''service'' \<longrightarrow> count_elem ''type'' ds = 1 \<and> count_elem ''port'' ds = 1)"
          using True ok by (simp add: children_ok_def fits_zero)
        ultimately show ?thesis using True finish by (simp del: flatten.simps node_ok.simps)
      next
        case bad: False
        with body have "\<not> is_ok (xml_run (concat (map flatten ds)) ?in)" by metis
        then obtain e where "xml_run (concat (map flatten ds)) ?in = Inl e"
          by (cases "xml_run (concat (map flatten ds)) ?in") simp_all
        moreover have "\<not> node_ok p (Elem n as ds)"
          using bad by (auto simp: children_ok_def fits_zero)
        ultimately show ?thesis by (simp add: xml_run_elem s del: flatten.simps node_ok.simps)
      qed
    qed
  qed
next
  case (Text s)
  then show ?case by (auto simp: node_runs_def xml_text_def inside_def fits_def add_counts_def)
next
  case Misc
  then show ?case by (auto simp: node_runs_def inside_def fits_def add_counts_def)
qed

definition outside :: "nat \<Rightarrow> xml_state" where
  "outside r = \<lparr>xs_stack = [], xs_counts = [], xs_roots = r\<rparr>"

lemma root_elem_runs:
  "if node_ok '''' (Elem n as ds) \<and> r = 0
   then xml_run (flatten (Elem n as ds)) (outside r) = Inr (outside 1)
   else \<not> is_ok (xml_run (flatten (Elem n as ds)) (outside r))"
proof -
  let ?l = "snd n" and ?in = "inside (snd n) [] (\<lambda>_. 0) [] 1"
  show ?thesis
  proof (cases "?l = ''service-group'' \<and> fst n = '''' \<and> r = 0 \<and> attrs_ok ?l as")
    case False
    then have "\<not> is_ok (xml_start n as (outside r))"
      by (cases "check_attrs ?l {} as")
        (auto simp: xml_start_def outside_def Let_def simp flip: check_attrs_iff)
    then obtain e where "xml_start n as (outside r) = Inl e"
      by (cases "xml_start n as (outside r)") auto
    then show ?thesis using False by (auto simp: xml_run_elem simp del: flatten.simps)
  next
    case True
    then have s: "xml_start n as (outside r) = Inr ?in"
      by (auto simp: xml_start_def outside_def inside_def Let_def simp flip: check_attrs_iff)
    have f: "xml_end n (inside ?l [] c [] 1) = Inr (outside 1)" for c
      using True by (simp add: xml_end_def inside_def outside_def)
    note f' = f [unfolded One_nat_def]
    have "\<forall>d\<in>set ds. node_runs d" and "?l \<noteq> ''''" using node_runs_all True by auto
    note body = forest_runs [OF this, of "\<lambda>_. 0" "[]" "[]" 1]
    show ?thesis
    proof (cases "list_all (node_ok ?l) ds \<and> fits (\<lambda>_. 0) ds")
      case ok: True
      with body have "xml_run (concat (map flatten ds)) ?in =
          Inr (inside ?l [] (add_counts (\<lambda>_. 0) ds) [] 1)" by simp
      then have "xml_run (flatten (Elem n as ds)) (outside r) = Inr (outside 1)"
        by (simp add: xml_run_elem s f' del: flatten.simps)
      moreover have "node_ok '''' (Elem n as ds)"
        using True ok by (auto simp: children_ok_def fits_zero)
      ultimately show ?thesis using True by (simp del: flatten.simps node_ok.simps)
    next
      case bad: False
      with body have "\<not> is_ok (xml_run (concat (map flatten ds)) ?in)" by metis
      then obtain e where "xml_run (concat (map flatten ds)) ?in = Inl e"
        by (cases "xml_run (concat (map flatten ds)) ?in") simp_all
      moreover have "\<not> node_ok '''' (Elem n as ds)"
        using bad by (auto simp: children_ok_def fits_zero)
      ultimately show ?thesis by (simp add: xml_run_elem s del: flatten.simps node_ok.simps)
    qed
  qed
qed

lemma xml_text_outside:
  "xml_text s (outside r) = (if trim_space s \<noteq> [] then Inl (Msg ''unexpected XML text'') else Inr (outside r))"
  by (simp add: xml_text_def outside_def)

lemma root_runs:
  "r \<le> 1 \<Longrightarrow>
   (if list_all (node_ok '''') ds \<and> elems ds + r \<le> 1
    then xml_run (concat (map flatten ds)) (outside r) = Inr (outside (r + elems ds))
    else \<not> is_ok (xml_run (concat (map flatten ds)) (outside r)))"
proof (induction ds arbitrary: r)
  case (Cons d ds)
  show ?case
  proof (cases d)
    case (Elem n as cs)
    show ?thesis
    proof (cases "node_ok '''' d \<and> r = 0")
      case True
      then have "xml_run (flatten d) (outside r) = Inr (outside 1)"
        using root_elem_runs [of n as cs r] Elem by metis
      then have "xml_run (concat (map flatten (d # ds))) (outside r) =
          xml_run (concat (map flatten ds)) (outside 1)"
        by (simp add: xml_run_append del: flatten.simps)
      moreover have "list_all (node_ok '''') (d # ds) \<and> elems (d # ds) + r \<le> 1 \<longleftrightarrow>
          list_all (node_ok '''') ds \<and> elems ds + 1 \<le> 1"
        using True Elem by auto
      moreover have "r + elems (d # ds) = 1 + elems ds"
        using True Elem by simp
      ultimately show ?thesis using Cons.IH [of 1, OF order_refl] by (simp only:)
    next
      case False
      then have "\<not> is_ok (xml_run (flatten d) (outside r))"
        using root_elem_runs [of n as cs r] Elem by metis
      then obtain e where "xml_run (flatten d) (outside r) = Inl e"
        by (cases "xml_run (flatten d) (outside r)") auto
      then have "\<not> is_ok (xml_run (concat (map flatten (d # ds))) (outside r))"
        by (simp add: xml_run_append del: flatten.simps)
      moreover have "\<not> (list_all (node_ok '''') (d # ds) \<and> elems (d # ds) + r \<le> 1)"
        using False Elem Cons.prems by auto
      ultimately show ?thesis by (simp only: if_False simp_thms)
    qed
  next
    case (Text s)
    then show ?thesis using Cons.IH [OF Cons.prems] by (auto simp: xml_text_outside split: if_splits)
  next
    case Misc
    then show ?thesis using Cons by simp
  qed
qed simp

lemma token_check_document:
  "is_ok (xml_run (concat (map flatten ds)) xml_init) \<longleftrightarrow> document_ok ds"
proof -
  have "xml_init = outside 0" by (simp add: xml_init_def outside_def)
  then show ?thesis using root_runs [of 0 ds] by (auto simp: document_ok_def split: if_splits)
qed

section \<open>What Validate accepts\<close>

definition txt_key :: "txt_record \<Rightarrow> string" where
  "txt_key t = fst (cut (CHR ''='') (tx_value t))"

definition txt_size :: "txt_record \<Rightarrow> nat" where
  "txt_size t =
     (let (key, val, has_value) = cut (CHR ''='') (tx_value t) in
      case txt_data (tx_format t) val of
        None \<Rightarrow> 0
      | Some data \<Rightarrow> length key + (if has_value then 1 + length data else 0))"

definition txt_ok :: "txt_record \<Rightarrow> bool" where
  "txt_ok t \<longleftrightarrow>
     (let (key, val, has_value) = cut (CHR ''='') (tx_value t) in
      validXMLText (tx_value t) \<and> key \<noteq> [] \<and> list_all (\<lambda>r. 32 \<le> r \<and> r \<le> 126) (runes key)
      \<and> tx_format t \<in> {'''', ''text'', ''binary-hex'', ''binary-base64''}
      \<and> txt_data (tx_format t) val \<noteq> None
      \<and> (tx_format t \<notin> {'''', ''text''} \<longrightarrow> has_value)
      \<and> txt_size t \<le> 255)"

lemma validate_txt_ok:
  "validate_txt seen ts = Inr () \<longleftrightarrow>
     list_all txt_ok ts \<and> distinct (map (\<lambda>t. to_lower (txt_key t)) ts) \<and>
     seen \<inter> set (map (\<lambda>t. to_lower (txt_key t)) ts) = {}"
proof (induction ts arbitrary: seen)
  case (Cons t ts)
  obtain key val has where c: "cut (CHR ''='') (tx_value t) = (key, val, has)"
    by (cases "cut (CHR ''='') (tx_value t)")
  have key: "txt_key t = key" by (simp add: txt_key_def c)
  show ?case
  proof (cases "txt_data (tx_format t) val")
    case None
    then show ?thesis by (auto simp: txt_ok_def c Let_def)
  next
    case (Some data)
    have ok: "txt_ok t \<longleftrightarrow> validXMLText (tx_value t) \<and> key \<noteq> [] \<and>
        list_all (\<lambda>r. 32 \<le> r \<and> r \<le> 126) (runes key) \<and>
        tx_format t \<in> {'''', ''text'', ''binary-hex'', ''binary-base64''} \<and>
        (tx_format t \<notin> {'''', ''text''} \<longrightarrow> has) \<and>
        length key + (if has then 1 + length data else 0) \<le> 255"
      by (simp add: txt_ok_def txt_size_def c Some)
    have "validate_txt seen (t # ts) = Inr () \<longleftrightarrow>
        txt_ok t \<and> to_lower key \<notin> seen \<and> validate_txt (insert (to_lower key) seen) ts = Inr ()"
      by (simp only: validate_txt.simps c Some Let_def prod.case option.case guard_iff ok not_not
          de_Morgan_conj not_less) blast
    then show ?thesis unfolding Cons.IH by (auto simp: key)
  qed
qed simp

definition service_ok :: "service \<Rightarrow> bool" where
  "service_ok s \<longleftrightarrow>
     service_type_ok (sv_type s) \<and> sv_protocol s \<in> {'''', ''any'', ''ipv4'', ''ipv6''} \<and>
     (sv_domain s = [] \<or> ValidDomain (sv_domain s)) \<and>
     (sv_host s = [] \<or> ValidDomain (sv_host s) \<and> CHR ''.'' \<in> set (trim_suffix (sv_host s) ''.'')) \<and>
     list_all (\<lambda>sub. \<exists>l. subtype_label_ok l \<and> sub = l @ ''._sub.'' @ sv_type s) (sv_subtypes s) \<and>
     list_all txt_ok (sv_txt s) \<and> distinct (map (\<lambda>t. to_lower (txt_key t)) (sv_txt s))"

lemma validate_subtype_ok:
  "validate_subtype typ sub = Inr () \<longleftrightarrow> (\<exists>l. subtype_label_ok l \<and> sub = l @ ''._sub.'' @ typ)"
proof -
  let ?t = "''._sub.'' @ typ"
  have "validate_subtype typ sub = Inr () \<longleftrightarrow>
      suffix ?t sub \<and> subtype_label_ok (take (length sub - length ?t) sub)"
    by (simp add: validate_subtype_def cut_suffix_def)
  also have "\<dots> \<longleftrightarrow> (\<exists>l. subtype_label_ok l \<and> sub = l @ ?t)"
    by (auto simp: suffix_def)
  finally show ?thesis .
qed

lemma validate_service_ok: "validate_service s = Inr () \<longleftrightarrow> service_ok s"
proof -
  have "check_all (validate_subtype (sv_type s)) (sv_subtypes s) = Inr () \<longleftrightarrow>
      list_all (\<lambda>sub. \<exists>l. subtype_label_ok l \<and> sub = l @ ''._sub.'' @ sv_type s) (sv_subtypes s)"
    by (simp only: check_all_ok validate_subtype_ok list_all_iff)
  then show ?thesis
    unfolding validate_service_def service_ok_def by (auto simp: validate_txt_ok split: if_splits)
qed

definition group_ok :: "service_group \<Rightarrow> bool" where
  "group_ok g \<longleftrightarrow>
     (let name = sn_value (g_name g) in
      validXMLText name \<and> 1 \<le> length name \<and> length name \<le> 63 \<and> set name \<inter> {nul, cr, nl} = {}) \<and>
     sn_wildcards (g_name g) \<in> {'''', ''yes'', ''no''} \<and>
     g_services g \<noteq> [] \<and> list_all service_ok (g_services g)"

lemma group_validate_ok: "group_validate g = Inr () \<longleftrightarrow> group_ok g"
proof -
  have "check_all validate_service (g_services g) = Inr () \<longleftrightarrow> list_all service_ok (g_services g)"
    by (simp only: check_all_ok validate_service_ok list_all_iff)
  then show ?thesis
    unfolding group_validate_def group_ok_def
    by (auto simp: Let_def contains_any_def list_ex_iff Suc_le_eq)
qed

section \<open>Properties\<close>

text \<open>C37. The check of the token stream that precedes decoding (a stack of element names
  with counts per level) accepts the tokens of a document exactly when the document has no
  root but \<open>service-group\<close> and at most one, each element occurs only under its parent, non-repeatable elements
  at most once, only the known attributes and each at most once, every \<open>service\<close> has one
  \<open>type\<close> and one \<open>port\<close>, and no text stands directly in a \<open>service\<close> or the root.\<close>

theorem service_tokens_document:
  "is_ok (xml_run (concat (map flatten ds)) xml_init) = document_ok ds"
  by (rule token_check_document)

text \<open>\<open>ServiceGroup.Validate\<close> accepts exactly the groups that satisfy the declarative
  rules: a name of 1 to 63 bytes without NUL or line breaks, at least one service, and for
  each service the rules for type, protocol, domain, host, subtypes and TXT records, where
  TXT keys are distinct up to case and each record has at most 255 bytes.\<close>

theorem group_validate_iff: "group_validate g = Inr () \<longleftrightarrow> group_ok g"
  by (rule group_validate_ok)

definition sample_service_tokens :: "xml_token list" where
  "sample_service_tokens =
     [StartElement ('''', ''service-group'') [], StartElement ('''', ''name'') [], CharData ''x'',
      EndElement ('''', ''name''), StartElement ('''', ''service'') [],
      StartElement ('''', ''type'') [], CharData ''_http._tcp'', EndElement ('''', ''type''),
      StartElement ('''', ''port'') [], CharData ''80'', EndElement ('''', ''port''),
      EndElement ('''', ''service''), EndElement ('''', ''service-group'')]"

definition sample_group :: service_group where
  "sample_group = \<lparr>g_name = \<lparr>sn_value = ''x'', sn_wildcards = []\<rparr>,
     g_services = [\<lparr>sv_protocol = [], sv_type = ''_http._tcp'', sv_domain = [], sv_host = [],
       sv_port = 80, sv_subtypes = [], sv_txt = [\<lparr>tx_value = ''path=/'', tx_format = []\<rparr>]\<rparr>]\<rparr>"

definition sample_codec :: xml_codec where
  "sample_codec = \<lparr>xml_tokens = (\<lambda>_. (sample_service_tokens, None)),
     xml_unmarshal = (\<lambda>_. (sample_group, None)), xml_marshal = (\<lambda>_. Inr [])\<rparr>"

lemma sublist_type: "sublist ''|type|'' ''|type|port|domain-name|host-name|subtype|txt-record|''"
  by code_simp

lemma sublist_port: "sublist ''|port|'' ''|type|port|domain-name|host-name|subtype|txt-record|''"
  by code_simp

lemma sample_tokens_run: "xml_run sample_service_tokens xml_init = Inr (xml_init\<lparr>xs_roots := 1\<rparr>)"
  by (simp add: sample_service_tokens_def xml_init_def xml_start_def xml_end_def xml_text_def
      element_allowed_def repeatable_def sublist_type sublist_port
      Let_def trim_space_def trim_left_def trim_right_def)

lemma sample_group_valid: "group_validate sample_group = Inr ()"
  by (simp add: group_validate_def sample_group_def validate_service_def service_type_ok_def
      label_rest_def validXMLText_def runes_ascii txt_data_def contains_any_def Let_def suffix_def
      is_alnum_def is_alpha_def is_digit_def cut_def byte_of_def)

definition lower_hex :: "char \<Rightarrow> bool" where
  "lower_hex c \<longleftrightarrow> is_digit c \<or> 97 \<le> byte_of c \<and> byte_of c \<le> 102"

lemma lower_hex_char: "n < 16 \<Longrightarrow> lower_hex (hex_char n)"
  by (auto simp: lower_hex_def hex_char_def is_digit_def byte_of_def)

lemma hex_bytes_Cons:
  "hex_bytes (w # ws) = [hex_char (unat w div 16), hex_char (unat w mod 16)] @ hex_bytes ws"
proof -
  have "unat w < 256" using unsigned_less [of w] by simp
  then show ?thesis by (simp add: hex_bytes_def hex_encode_def hex_byte_def byte_char_def byte_of_def)
qed

lemma hex_bytes_Nil [simp]: "hex_bytes [] = []"
  by (simp add: hex_bytes_def hex_encode_def)

lemma hex_bytes_lower: "list_all lower_hex (hex_bytes ws)"
proof (induction ws)
  case (Cons w ws)
  have "unat w < 256" using unsigned_less [of w] by simp
  then show ?case using Cons by (simp add: hex_bytes_Cons lower_hex_char)
qed simp

lemma length_hex_bytes: "length (hex_bytes ws) = 2 * length ws"
  by (induction ws) (simp_all add: hex_bytes_Cons)

lemma hex_chars:
  "hex_char 8 = CHR ''8''" "hex_char 9 = CHR ''9''" "hex_char 10 = CHR ''a''" "hex_char 11 = CHR ''b''"
  by code_simp+

text \<open>The version nibble is 4 and the variant bits are 10, whatever the random byte.\<close>

lemma version_byte: "unat ((w AND 15) OR 64 :: 8 word) div 16 = 4"
proof -
  have "drop_bit 4 ((w AND 15) OR 64 :: 8 word) = 4"
    by (simp add: drop_bit_or drop_bit_and)
  then have "unat (drop_bit 4 ((w AND 15) OR 64 :: 8 word)) = 4" by (simp only:) simp
  then show ?thesis by (simp add: drop_bit_eq_div unat_div)
qed

lemma variant_byte: "unat ((w AND 63) OR 128 :: 8 word) div 16 \<in> {8, 9, 10, 11}"
proof -
  let ?v = "(w AND 63) OR 128 :: 8 word"
  have "drop_bit 6 ?v = 2" by (simp add: drop_bit_or drop_bit_and)
  then have "unat (drop_bit 6 ?v) = 2" by (simp only:) simp
  then have "unat ?v div 64 = 2" by (simp add: drop_bit_eq_div unat_div)
  then have "unat ?v div 16 = 8 \<or> unat ?v div 16 = 9 \<or> unat ?v div 16 = 10 \<or> unat ?v div 16 = 11"
    by arith
  then show ?thesis by simp
qed

definition uuid_v4 :: "string \<Rightarrow> bool" where
  "uuid_v4 s \<longleftrightarrow>
     (\<exists>p q r t u v. s = p @ ''-'' @ q @ ''-4'' @ r @ ''-'' @ [v] @ t @ ''-'' @ u \<and> v \<in> set ''89ab'' \<and>
        list_all lower_hex (p @ q @ r @ t @ u) \<and>
        map length [p, q, r, t, u] = [8, 4, 3, 3, 12])"

lemma random_id_uuid:
  assumes "length b = 16"
  shows "uuid_v4 (randomID b)"
proof -
  obtain b0 b1 b2 b3 b4 b5 b6 b7 b8 b9 bs where b: "b = [b0, b1, b2, b3, b4, b5, b6, b7, b8, b9] @ bs"
    and bs: "length bs = 6"
    using assms by (auto simp: length_Suc_conv numeral_eq_Suc)
  let ?m = "(b6 AND 15) OR 64" and ?n = "(b8 AND 63) OR 128"
  have m: "hex_char (unat ?m div 16) = CHR ''4''" by (simp add: version_byte) code_simp
  have n: "hex_char (unat ?n div 16) \<in> set ''89ab''"
    using variant_byte [of b8] by (elim insertE) (simp_all add: hex_chars)
  have low: "lower_hex (hex_char (unat w mod 16))" for w :: "8 word" by (simp add: lower_hex_char)
  have "randomID b = hex_bytes [b0, b1, b2, b3] @ ''-'' @ hex_bytes [b4, b5] @ ''-4'' @
      (hex_char (unat ?m mod 16) # hex_bytes [b7]) @ ''-'' @ [hex_char (unat ?n div 16)] @
      (hex_char (unat ?n mod 16) # hex_bytes [b9]) @ ''-'' @ hex_bytes bs"
    using m by (simp add: randomID_def b Let_def hex_bytes_Cons)
  then show ?thesis
    unfolding uuid_v4_def using n low hex_bytes_lower bs
    by (intro exI conjI) (assumption | simp add: length_hex_bytes)+
qed

text \<open>\<open>randomID\<close> gives a version 4 UUID from any 16 random bytes: lower case
  hexadecimal groups of 8, 4, 4, 4 and 12 digits separated by dashes, the version digit 4
  and a variant digit in 8, 9, a, b.\<close>

theorem random_id_format:
  assumes "length b = 16"
  shows "uuid_v4 (randomID b)"
  using assms by (rule random_id_uuid)

lemma random_id_format_witness: "uuid_v4 (randomID (replicate 16 255))"
  by (rule random_id_format) simp

end
