(* ===== verification/Sha256.thy ===== *)
theory Sha256
  imports GoStd "HOL-Library.Word"
begin

text \<open>
  \<open>crypto/sha256\<close> as FIPS 180-4 defines it, over byte strings: padding, message schedule
  and compression on 32 bit words. The configuration store uses it for revisions and for
  the integrity check of snapshots (\<open>internal/config/store.go\<close>), the database for the
  names of backups. The theorems of the development never assume that it has no collisions;
  they exhibit the collision instead.
\<close>

unbundle bit_operations_syntax

text \<open>
  The constants are the first 32 bits of the fractional parts of the cube roots of the first 64
  primes, and of the square roots of the first 8; they are computed bit by bit.
\<close>

definition sha_primes :: "int list" where
  "sha_primes = filter (\<lambda>n. list_all (\<lambda>d. n mod d \<noteq> 0) [2..n - 1]) [2..311]"

fun root_bits :: "nat \<Rightarrow> nat \<Rightarrow> int \<Rightarrow> int \<Rightarrow> int" where
  "root_bits k 0 x r = r"
| "root_bits k (Suc n) x r = root_bits k n x (if (r + 2 ^ n) ^ k \<le> x then r + 2 ^ n else r)"

definition frac_root :: "nat \<Rightarrow> int \<Rightarrow> 32 word" where
  "frac_root k p = word_of_int (root_bits k 40 (p * 2 ^ (32 * k)) 0)"

definition sha_k :: "32 word list" where
  "sha_k = map (frac_root 3) sha_primes"

definition sha_init :: "32 word list" where
  "sha_init = map (frac_root 2) [2, 3, 5, 7, 11, 13, 17, 19]"

definition be_word :: "nat list \<Rightarrow> 32 word" where
  "be_word bs = foldl (\<lambda>w b. push_bit 8 w OR word_of_nat b) 0 bs"

definition be_bytes :: "nat \<Rightarrow> nat \<Rightarrow> nat list" where
  "be_bytes n x = map (\<lambda>i. x div 256 ^ (n - 1 - i) mod 256) [0..<n]"

definition sha_pad :: "nat list \<Rightarrow> nat list" where
  "sha_pad bs =
     bs @ [128] @ replicate ((119 - length bs mod 64) mod 64) 0 @ be_bytes 8 (8 * length bs)"

definition small_sigma :: "nat \<Rightarrow> nat \<Rightarrow> nat \<Rightarrow> 32 word \<Rightarrow> 32 word" where
  "small_sigma i j k w = word_rotr i w XOR word_rotr j w XOR drop_bit k w"

definition big_sigma :: "nat \<Rightarrow> nat \<Rightarrow> nat \<Rightarrow> 32 word \<Rightarrow> 32 word" where
  "big_sigma i j k w = word_rotr i w XOR word_rotr j w XOR word_rotr k w"

fun words_of :: "nat list \<Rightarrow> 32 word list" where
  "words_of (a # b # c # d # bs) = be_word [a, b, c, d] # words_of bs"
| "words_of _ = []"

text \<open>The schedule keeps its words in reverse, the newest first.\<close>

fun extend :: "nat \<Rightarrow> 32 word list \<Rightarrow> 32 word list" where
  "extend 0 ws = rev ws"
| "extend (Suc n) ws =
     extend n ((small_sigma 17 19 10 (ws ! 1) + ws ! 6 + small_sigma 7 18 3 (ws ! 14) + ws ! 15) # ws)"

definition sha_round :: "32 word list \<Rightarrow> 32 word \<times> 32 word \<Rightarrow> 32 word list" where
  "sha_round st kw =
     (case st of
        [a, b, c, d, e, f, g, h] \<Rightarrow>
          (let t1 = h + big_sigma 6 11 25 e + ((e AND f) XOR (NOT e AND g)) + fst kw + snd kw;
               t2 = big_sigma 2 13 22 a + ((a AND b) XOR (a AND c) XOR (b AND c))
           in [t1 + t2, a, b, c, d + t1, e, f, g])
      | _ \<Rightarrow> st)"

definition sha_block :: "32 word list \<Rightarrow> nat list \<Rightarrow> 32 word list" where
  "sha_block st bs =
     map2 (+) st (foldl sha_round st (zip sha_k (extend 48 (rev (words_of bs)))))"

fun sha_blocks :: "nat \<Rightarrow> 32 word list \<Rightarrow> nat list \<Rightarrow> 32 word list" where
  "sha_blocks 0 st bs = st"
| "sha_blocks (Suc n) st bs = sha_blocks n (sha_block st (take 64 bs)) (drop 64 bs)"

text \<open>\<open>sha256.Sum256\<close>.\<close>

definition sha256 :: "string \<Rightarrow> string" where
  "sha256 s =
     (let bs = sha_pad (map byte_of s) in
      map char_of (concat (map (\<lambda>w. be_bytes 4 (unat w)) (sha_blocks (length bs div 64) sha_init bs))))"

end
