(* ===== verification/Image.thy ===== *)
theory Image
  imports Hosts Service Sha256
begin

text \<open>
  The values of \<open>internal/config/store.go\<close> and the pure part of
  \<open>internal/config/apply.go\<close>: files, images, managed paths, revisions, validation and the
  action that a change needs. The main results: the revision of an image determines the
  image up to an exhibited SHA-256 collision, a managed path names a direct child of
  \<open>services\<close> or one of two files, validation and the action do not depend on the order of
  Go's map iteration.
\<close>

section \<open>Data\<close>

record cfile =
  f_data :: string
  f_mode :: "32 word"
  f_uid :: int
  f_gid :: int

definition zero_file :: cfile where
  "zero_file = \<lparr>f_data = [], f_mode = 0, f_uid = 0, f_gid = 0\<rparr>"

type_synonym image = "(string, cfile) fmap"

definition MaxFileSize :: nat where
  "MaxFileSize = 1048576"

definition MaxTotalSize :: nat where
  "MaxTotalSize = 16777216"

definition conf_path :: string where
  "conf_path = ''avahi-daemon.conf''"

definition hosts_path :: string where
  "hosts_path = ''hosts''"

definition validPath :: "string \<Rightarrow> bool" where
  "validPath p \<longleftrightarrow>
     p = conf_path \<or> p = hosts_path \<or>
     prefix ''services/'' p \<and> path_dir p = ''services'' \<and> suffix ''.service'' p \<and>
     length (path_base p) > 8 \<and> \<not> contains_any p [CHR 0x5C, nul, cr, nl]"

definition digest :: "string \<Rightarrow> string" where
  "digest data = hex_encode (sha256 data)"

text \<open>What \<open>Image.Revision\<close> writes to the hash for one path, and for the image.\<close>

definition revision_line :: "string \<Rightarrow> cfile \<Rightarrow> string" where
  "revision_line p f =
     p @ [nul] @ digest (f_data f) @ [nul] @ nat_oct (unat (f_mode f)) @ '':'' @ int_dec (f_uid f)
     @ '':'' @ int_dec (f_gid f) @ [nl]"

definition revision_text :: "image \<Rightarrow> string" where
  "revision_text im =
     concat (map (\<lambda>p. revision_line p (fm_get zero_file im p)) (sorted_keys im))"

definition Revision :: "image \<Rightarrow> string" where
  "Revision im = hex_encode (sha256 (revision_text im))"

section \<open>Validation\<close>

definition validate_file :: "xml_codec \<Rightarrow> string \<Rightarrow> string \<Rightarrow> unit result" where
  "validate_file X p data =
     (if p = conf_path then bind_res (ParseDaemon data) daemon_validate
      else if p = hosts_path then bind_res (ParseHosts data) (\<lambda>_. Inr ())
      else case snd (ParseService X data) of Some e \<Rightarrow> Inl e | None \<Rightarrow> Inr ())"

fun validate_files :: "xml_codec \<Rightarrow> image \<Rightarrow> nat \<Rightarrow> string list \<Rightarrow> unit result" where
  "validate_files X im acc [] = Inr ()"
| "validate_files X im acc (p # ps) =
     (if \<not> validPath p then Inl (Msg ''invalid configuration path'')
      else
        let f = fm_get zero_file im p; acc' = acc + length (f_data f) in
        if length (f_data f) > MaxFileSize \<or> acc' > MaxTotalSize
        then Inl (Msg ''configuration too large'')
        else case validate_file X p (f_data f) of
          Inl e \<Rightarrow> Inl (Wrap p e)
        | Inr _ \<Rightarrow> validate_files X im acc' ps)"

definition ValidateImage :: "xml_codec \<Rightarrow> image \<Rightarrow> unit result" where
  "ValidateImage X im =
     (if fmlookup im conf_path = None then Inl (Msg ''avahi-daemon.conf is required'')
      else validate_files X im 0 (sorted_keys im))"

section \<open>The action of a change\<close>

datatype action = NoAction | Reload | Restart

definition same_entry :: "image \<Rightarrow> image \<Rightarrow> string \<Rightarrow> bool" where
  "same_entry old new p \<longleftrightarrow>
     (let b = fm_get zero_file old p; n = fm_get zero_file new p in
      (fmlookup old p \<noteq> None) = (fmlookup new p \<noteq> None) \<and> f_data b = f_data n \<and>
      f_mode b = f_mode n \<and> f_uid b = f_uid n \<and> f_gid b = f_gid n)"

fun change_from :: "image \<Rightarrow> image \<Rightarrow> action \<Rightarrow> string list \<Rightarrow> action" where
  "change_from old new a [] = a"
| "change_from old new a (p # ps) =
     (if same_entry old new p then change_from old new a ps
      else if p = conf_path \<or> p = hosts_path then Restart
      else change_from old new Reload ps)"

definition ChangeAction :: "image \<Rightarrow> image \<Rightarrow> action" where
  "ChangeAction old new = change_from old new NoAction (sorted_keys (old ++\<^sub>f new))"

section \<open>Printed numbers determine the number\<close>

lemma digit_val_char: "d < 10 \<Longrightarrow> digit_val (digit_char d) = d"
  by (simp add: digit_val_def digit_char_def byte_of_def)

lemma is_digit_digit_char: "d < 10 \<Longrightarrow> is_digit (digit_char d)"
  by (simp add: is_digit_def digit_char_def byte_of_def)

lemma length_pad_dec [simp]: "length (pad_dec w n) = w"
  by (induction w arbitrary: n) simp_all

lemma pad_dec_digits: "c \<in> set (pad_dec w n) \<Longrightarrow> is_digit c"
  by (induction w arbitrary: n) (auto simp: is_digit_digit_char)

lemma digits_base_value:
  "2 \<le> b \<Longrightarrow> b \<le> 10 \<Longrightarrow> foldl (\<lambda>n c. n * b + digit_val c) 0 (digits_base b n) = n"
proof (induction b n rule: digits_base.induct)
  case (1 b n)
  have "n mod b < 10" using 1 by (meson mod_less_divisor le_trans not_le zero_less_numeral less_le_trans order.strict_trans1)
  then show ?case using 1 by (auto simp: digits_base.simps [of b n] digit_val_char)
qed

lemma digits_base_digits:
  "2 \<le> b \<Longrightarrow> b \<le> 10 \<Longrightarrow> list_all is_digit (digits_base b n)"
proof (induction b n rule: digits_base.induct)
  case (1 b n)
  have "n mod b < 10" using 1 by (meson mod_less_divisor le_trans not_le zero_less_numeral less_le_trans order.strict_trans1)
  then show ?case using 1 by (auto simp: digits_base.simps [of b n] is_digit_digit_char)
qed

lemma nat_dec_inj: "nat_dec m = nat_dec n \<longleftrightarrow> m = n"
  using digits_base_value [of 10] by (metis nat_dec_def numeral_le_iff order_refl semiring_norm(68,69,71))

lemma nat_oct_inj: "nat_oct m = nat_oct n \<longleftrightarrow> m = n"
proof -
  have "foldl (\<lambda>n c. n * 8 + digit_val c) 0 (digits_base 8 k) = k" for k
    by (rule digits_base_value) simp_all
  then show ?thesis by (metis nat_oct_def)
qed

lemma nat_dec_digits: "list_all is_digit (nat_dec n)"
  by (simp add: nat_dec_def digits_base_digits)

lemma nat_oct_digits: "list_all is_digit (nat_oct n)"
  by (simp add: nat_oct_def digits_base_digits)

lemma nat_dec_minus: "nat_dec m \<noteq> CHR ''-'' # s"
  using nat_dec_digits [of m] by (auto simp: is_digit_def byte_of_def)

lemma int_dec_inj: "int_dec i = int_dec j \<longleftrightarrow> i = j"
  using nat_dec_minus by (auto simp: int_dec_def nat_dec_inj split: if_splits) (metis)+

lemma int_dec_chars: "c \<in> set (int_dec i) \<Longrightarrow> is_digit c \<or> c = CHR ''-''"
  using nat_dec_digits by (auto simp: int_dec_def list_all_iff split: if_splits)

lemma hex_char_inj: "m < 16 \<Longrightarrow> n < 16 \<Longrightarrow> hex_char m = hex_char n \<longleftrightarrow> m = n"
  by (auto simp: hex_char_def)

lemma byte_of_inj: "byte_of c = byte_of d \<longleftrightarrow> c = d"
  by (simp add: byte_of_def)

lemma hex_byte_inj:
  assumes "m < 256" "n < 256"
  shows "hex_byte m = hex_byte n \<longleftrightarrow> m = n"
proof
  assume "hex_byte m = hex_byte n"
  then have "m div 16 = n div 16" "m mod 16 = n mod 16"
    using assms by (auto simp: hex_byte_def hex_char_inj)
  then show "m = n" by (metis div_mult_mod_eq)
qed simp

lemma hex_encode_simps [simp]:
  "hex_encode [] = []"
  "hex_encode (c # s) = hex_byte (byte_of c) @ hex_encode s"
  by (simp_all add: hex_encode_def)

lemma length_hex_byte [simp]: "length (hex_byte n) = 2"
  by (simp add: hex_byte_def)

lemma length_hex_encode [simp]: "length (hex_encode s) = 2 * length s"
  by (induction s) simp_all

lemma hex_encode_inj: "hex_encode s = hex_encode t \<longleftrightarrow> s = t"
proof (induction s arbitrary: t)
  case Nil
  then show ?case by (cases t) (auto simp: hex_byte_def)
next
  case (Cons c s)
  show ?case
  proof (cases t)
    case Nil
    then show ?thesis by (simp add: hex_byte_def)
  next
    case (Cons d u)
    then show ?thesis
      using Cons.IH by (simp add: append_eq_append_conv hex_byte_inj byte_of_lt byte_of_inj)
  qed
qed

lemma hex_encode_chars: "c \<in> set (hex_encode s) \<Longrightarrow> lower_hex c"
  by (induction s) (auto simp: hex_byte_def lower_hex_char byte_of_lt less_mult_imp_div_less)

section \<open>Revisions\<close>

lemma revision_line_prefix:
  assumes "nul \<notin> set p" "nul \<notin> set q"
  shows "revision_line p f @ s = revision_line q g @ t \<longleftrightarrow>
    p = q \<and> sha256 (f_data f) = sha256 (f_data g) \<and> f_mode f = f_mode g \<and> f_uid f = f_uid g \<and>
    f_gid f = f_gid g \<and> s = t"
proof -
  have d: "nul \<notin> set (digest x)" for x
    using hex_encode_chars by (force simp: digest_def lower_hex_def is_digit_def byte_of_def)
  have o: "CHR '':'' \<notin> set (nat_oct n)" for n
    using nat_oct_digits [of n] by (auto simp: list_all_iff is_digit_def byte_of_def)
  have i: "CHR '':'' \<notin> set (int_dec n)" "nl \<notin> set (int_dec n)" for n
    using int_dec_chars [of _ n] by (force simp: is_digit_def byte_of_def)+
  show ?thesis
    unfolding revision_line_def
    by (simp add: append_stop_eq assms d o i nat_oct_inj int_dec_inj) (auto simp: digest_def hex_encode_inj word_unat_eq_iff)
qed

text \<open>Two images whose texts agree have the same paths and, path by path, the same
  attributes and the same digest.\<close>

definition same_up_to_hash :: "cfile \<Rightarrow> cfile \<Rightarrow> bool" where
  "same_up_to_hash f g \<longleftrightarrow>
     sha256 (f_data f) = sha256 (f_data g) \<and> f_mode f = f_mode g \<and> f_uid f = f_uid g \<and> f_gid f = f_gid g"

lemma revision_lines_eq:
  assumes "\<forall>p\<in>set ps. nul \<notin> set p" "\<forall>p\<in>set qs. nul \<notin> set p"
  shows "concat (map (\<lambda>p. revision_line p (h p)) ps) = concat (map (\<lambda>p. revision_line p (k p)) qs) \<Longrightarrow>
    ps = qs \<and> (\<forall>p\<in>set ps. same_up_to_hash (h p) (k p))"
  using assms
proof (induction ps arbitrary: qs)
  case Nil
  then show ?case by (cases qs) (auto simp: revision_line_def)
next
  case (Cons p ps)
  show ?case
  proof (cases qs)
    case Nil
    then show ?thesis using Cons.prems by (auto simp: revision_line_def)
  next
    case (Cons q qs')
    then show ?thesis
      using Cons.prems Cons.IH [of qs'] by (auto simp: revision_line_prefix same_up_to_hash_def)
  qed
qed

definition nul_free :: "image \<Rightarrow> bool" where
  "nul_free im \<longleftrightarrow> list_all (\<lambda>p. nul \<notin> set p) (sorted_keys im)"

lemma revision_text_eq:
  assumes "nul_free a" "nul_free b" "revision_text a = revision_text b"
  shows "sorted_keys a = sorted_keys b"
    and "fmlookup a p = Some f \<Longrightarrow> \<exists>g. fmlookup b p = Some g \<and> same_up_to_hash f g"
proof -
  have *: "sorted_keys a = sorted_keys b \<and>
      (\<forall>p\<in>set (sorted_keys a). same_up_to_hash (fm_get zero_file a p) (fm_get zero_file b p))"
    using assms by (intro revision_lines_eq) (auto simp: nul_free_def list_all_iff revision_text_def)
  then show "sorted_keys a = sorted_keys b" by blast
  assume p: "fmlookup a p = Some f"
  then have "p |\<in>| fmdom a" by (rule fmdomI)
  then have "p \<in> set (sorted_keys a)" by simp
  moreover from this * have "same_up_to_hash (fm_get zero_file a p) (fm_get zero_file b p)" by blast
  ultimately have "p \<in> set (sorted_keys b)" "same_up_to_hash f (fm_get zero_file b p)"
    using p * by simp_all
  then show "\<exists>g. fmlookup b p = Some g \<and> same_up_to_hash f g"
    using fmlookup_SomeI_dom [of p b] by auto
qed

text \<open>C36. The revision of an image determines its paths and every file's contents, mode and
  owner, unless the run exhibits two different byte strings with the same SHA-256 value:
  the two texts that were hashed, or the contents of one path. (Paths without NUL, as the
  file system and \<open>validPath\<close> give them.)\<close>

theorem revision_injective:
  assumes "nul_free a" "nul_free b" "Revision a = Revision b"
  shows "a = b
    \<or> revision_text a \<noteq> revision_text b \<and> sha256 (revision_text a) = sha256 (revision_text b)
    \<or> (\<exists>p f g. fmlookup a p = Some f \<and> fmlookup b p = Some g \<and> f_data f \<noteq> f_data g \<and>
         sha256 (f_data f) = sha256 (f_data g))"
proof (rule ccontr)
  assume no: "\<not> ?thesis"
  have "sha256 (revision_text a) = sha256 (revision_text b)"
    using assms(3) by (simp add: Revision_def hex_encode_inj)
  with no have t: "revision_text a = revision_text b" by blast
  have "fmlookup a p = fmlookup b p" for p
  proof (cases "fmlookup a p")
    case (Some f)
    with revision_text_eq(2) [OF assms(1,2) t] obtain g where g: "fmlookup b p = Some g" "same_up_to_hash f g"
      by blast
    with no Some have "f_data f = f_data g" by (auto simp: same_up_to_hash_def)
    then have "f = g" using g(2) by (simp add: same_up_to_hash_def)
    with g Some show ?thesis by simp
  next
    case None
    then have "p \<notin> set (sorted_keys b)"
      using revision_text_eq(1) [OF assms(1,2) t] by (metis fmdom_notI set_sorted_keys)
    with None show ?thesis by (simp add: fmdom_notD)
  qed
  with no show False by (auto simp: fmap_ext_iff)
qed

definition sample_image :: image where
  "sample_image = fmap_of_list [(conf_path, \<lparr>f_data = ''[server]'', f_mode = 420, f_uid = 0, f_gid = 0\<rparr>)]"

lemma sample_image_keys: "sorted_keys sample_image = [conf_path]"
  by (simp add: sample_image_def sorted_keys_upd)

lemma revision_injective_witness:
  "sample_image = sample_image
    \<or> revision_text sample_image \<noteq> revision_text sample_image \<and>
      sha256 (revision_text sample_image) = sha256 (revision_text sample_image)
    \<or> (\<exists>p f g. fmlookup sample_image p = Some f \<and> fmlookup sample_image p = Some g \<and>
         f_data f \<noteq> f_data g \<and> sha256 (f_data f) = sha256 (f_data g))"
  by (rule revision_injective) (simp_all add: nul_free_def sample_image_keys conf_path_def)

section \<open>Managed paths\<close>

lemma split_on_append: "split_on c (u @ c # v) = split_on c u @ split_on c v"
proof (induction u)
  case (Cons x u)
  then show ?case by (cases "split_on c u") auto
qed simp

lemma split_on_single: "c \<notin> set s \<Longrightarrow> split_on c s = [s]"
  by (induction s) auto

lemma clean_segs_append:
  "clean_segs r acc (ps @ qs) = clean_segs r (rev (clean_segs r acc ps)) qs"
  by (induction r acc ps rule: clean_segs.induct) auto

lemma join_segs_snoc: "ps \<noteq> [] \<Longrightarrow> join_segs (ps @ [q]) = join_segs ps @ ''/'' @ q"
proof (induction ps)
  case (Cons p ps)
  then show ?case by (cases ps) simp_all
qed simp

text \<open>A path with a proper last segment: \<open>Dir\<close> and \<open>Base\<close> split it, \<open>Clean\<close> keeps them.\<close>

lemma path_split:
  assumes "CHR ''/'' \<notin> set b" "b \<noteq> []"
  shows "path_base (d @ ''/'' @ b) = b" and "path_dir (d @ ''/'' @ b) = path_clean (d @ ''/'')"
proof -
  have n: "\<forall>x\<in>set (rev b). x \<noteq> CHR ''/''" using assms by auto
  have last: "last b \<noteq> CHR ''/''" using assms last_in_set by metis
  have "dropWhile (\<lambda>c. c = CHR ''/'') (rev (d @ ''/'' @ b)) = rev (d @ ''/'' @ b)"
    using last assms by (cases b rule: rev_cases) auto
  then show "path_base (d @ ''/'' @ b) = b"
    using n takeWhile_append_stop [of "rev b" "\<lambda>c. c \<noteq> CHR ''/''" "CHR ''/''" "rev d"]
    by (simp add: path_base_def)
  show "path_dir (d @ ''/'' @ b) = path_clean (d @ ''/'')"
    using n dropWhile_append_stop [of "rev b" "\<lambda>c. c \<noteq> CHR ''/''" "CHR ''/''" "rev d"]
    by (simp add: path_dir_def)
qed

lemma path_clean_dir_base:
  assumes "CHR ''/'' \<notin> set b" "b \<noteq> []" "b \<noteq> ''.''" "b \<noteq> ''..''" and d: "path_clean (d @ ''/'') = ''services''"
  shows "path_clean (d @ ''/'' @ b) = ''services/'' @ b"
proof -
  have nr: "\<not> prefix ''/'' (d @ ''/'')" using d by (auto simp: path_clean_def Let_def)
  then have "d \<noteq> []" by auto
  with nr have nr': "\<not> prefix ''/'' d" "\<not> prefix ''/'' (d @ ''/'' @ b)" by (cases d; simp)+
  let ?s = "clean_segs False [] (split_on (CHR ''/'') d)"
  have s: "split_on (CHR ''/'') (d @ ''/'') = split_on (CHR ''/'') d @ [[]]"
    using split_on_append [of "CHR ''/''" d "[]"] by simp
  have j: "join_segs ?s = ''services''"
    using d nr by (auto simp: path_clean_def Let_def s clean_segs_append split: if_splits)
  then have ne: "?s \<noteq> []" by auto
  have "clean_segs False [] (split_on (CHR ''/'') (d @ ''/'' @ b)) = ?s @ [b]"
    using assms split_on_append [of "CHR ''/''" d b] split_on_single [OF assms(1)]
    by (simp add: clean_segs_append)
  then show ?thesis using nr' j ne by (simp add: path_clean_def Let_def join_segs_snoc)
qed

text \<open>The canonical spelling of a managed path.\<close>

definition managed_path :: "string \<Rightarrow> bool" where
  "managed_path p \<longleftrightarrow>
     p = conf_path \<or> p = hosts_path \<or>
     (\<exists>name. p = ''services/'' @ name @ ''.service'' \<and> name \<noteq> [] \<and>
        set name \<inter> {CHR ''/'', CHR 0x5C, nul, cr, nl} = {})"

lemma clean_conf_hosts: "path_clean conf_path = conf_path" "path_clean hosts_path = hosts_path"
  by code_simp+

lemma validPath_split:
  assumes "validPath p" "p \<noteq> conf_path" "p \<noteq> hosts_path"
  obtains d b where "p = d @ ''/'' @ b" "path_clean (d @ ''/'') = ''services''"
    "CHR ''/'' \<notin> set b" "suffix ''.service'' b" "length b > 8" "set p \<inter> {CHR 0x5C, nul, cr, nl} = {}"
proof -
  have p: "prefix ''services/'' p" "path_dir p = ''services''" "suffix ''.service'' p"
    "length (path_base p) > 8" "set p \<inter> {CHR 0x5C, nul, cr, nl} = {}"
    using assms by (auto simp: validPath_def not_contains_any)
  have "CHR ''/'' \<in> set p" using p(1) by (auto simp: prefix_def)
  then obtain d b where db: "p = d @ CHR ''/'' # b" "CHR ''/'' \<notin> set b"
    using split_list_last by metis
  have "suffix ''.service'' b \<or> suffix (CHR ''/'' # b) ''.service''"
    using p(3) suffix_same_cases [of "''.service''" p "CHR ''/'' # b"] db(1)
    by (auto simp: suffix_def Cons_eq_append_conv)
  moreover have "\<not> suffix (CHR ''/'' # b) ''.service''"
    using set_mono_suffix by fastforce
  ultimately have s: "suffix ''.service'' b" by blast
  then have "b \<noteq> []" by (auto simp: suffix_def)
  then show ?thesis
    using that [of d b] p db s path_split [of b d] by simp
qed

lemma validPath_clean: "validPath p \<Longrightarrow> managed_path (path_clean p)"
proof (cases "p = conf_path \<or> p = hosts_path")
  case True
  then show ?thesis by (auto simp: managed_path_def clean_conf_hosts)
next
  case False
  assume "validPath p"
  then obtain d b where db: "p = d @ ''/'' @ b" "path_clean (d @ ''/'') = ''services''"
    "CHR ''/'' \<notin> set b" "suffix ''.service'' b" "length b > 8" "set p \<inter> {CHR 0x5C, nul, cr, nl} = {}"
    using False validPath_split by metis
  obtain name where b: "b = name @ ''.service''" using db(4) by (auto simp: suffix_def)
  have "path_clean p = ''services/'' @ b"
    unfolding db(1) by (rule path_clean_dir_base) (use db b in auto)
  then show ?thesis using db b unfolding managed_path_def by (intro disjI2 exI [of _ name]) auto
qed

lemma managed_path_valid:
  assumes "managed_path p"
  shows "validPath p" and "path_clean p = p"
proof -
  have "validPath p \<and> path_clean p = p"
  proof (cases "p = conf_path \<or> p = hosts_path")
    case True
    then show ?thesis by (auto simp: validPath_def clean_conf_hosts)
  next
    case False
    with assms obtain name where n: "p = ''services/'' @ name @ ''.service''" "name \<noteq> []"
        "set name \<inter> {CHR ''/'', CHR 0x5C, nul, cr, nl} = {}"
      by (auto simp: managed_path_def)
    let ?b = "name @ ''.service''"
    have d: "path_clean (''services'' @ ''/'') = ''services''" by code_simp
    have p: "p = ''services'' @ ''/'' @ ?b" using n by simp
    have sl: "CHR ''/'' \<notin> set ?b" using n by auto
    have "path_base p = ?b" "path_dir p = ''services''"
      unfolding p using path_split [OF sl, of "''services''"] d by simp_all
    moreover have "path_clean p = p"
      unfolding p using path_clean_dir_base [OF sl _ _ _ d] n by (simp add: append_eq_Cons_conv)
    ultimately show ?thesis
      using n by (auto simp: validPath_def not_contains_any suffix_def)
  qed
  then show "validPath p" "path_clean p = p" by blast+
qed

text \<open>C39. A path that \<open>validPath\<close> accepts, from the web client or from a manifest, resolves
  to \<open>avahi-daemon.conf\<close>, \<open>hosts\<close> or a file \<open>services/<name>.service\<close> whose name has no
  separator, backslash, NUL or line break; and every such canonical path is accepted.\<close>

theorem valid_path_confined:
  "(validPath p \<longrightarrow> managed_path (path_clean p)) \<and> (managed_path p \<longrightarrow> validPath p \<and> path_clean p = p)"
  using validPath_clean managed_path_valid by blast

lemma valid_path_confined_witness:
  "validPath ''services//a.service'' \<and> managed_path (path_clean ''services//a.service'') \<and>
    managed_path ''services/a.service'' \<and> validPath ''services/a.service'' \<and>
    path_clean ''services/a.service'' = ''services/a.service''"
proof -
  have a: "validPath ''services//a.service''" "path_clean ''services//a.service'' = ''services/a.service''"
    by code_simp+
  have m: "managed_path ''services/a.service''"
    unfolding managed_path_def by (intro disjI2 exI [of _ "''a''"]) simp
  show ?thesis
    using valid_path_confined [of "''services//a.service''"] valid_path_confined [of "''services/a.service''"] a m
    by blast
qed

lemma uuid_v4_chars:
  assumes "uuid_v4 s" "c \<in> set s"
  shows "lower_hex c \<or> c = CHR ''-''"
proof -
  have "\<forall>c\<in>set ''489ab''. lower_hex c" by (simp add: lower_hex_def is_digit_def byte_of_def)
  then show ?thesis using assms unfolding uuid_v4_def list_all_iff by auto
qed

lemma lower_hex_safe:
  "lower_hex c \<or> c = CHR ''-'' \<Longrightarrow> c \<notin> {CHR ''/'', CHR 0x5C, nul, cr, nl, CHR ''Z'', CHR ''.''}"
  by (auto simp: lower_hex_def is_digit_def byte_of_def)

lemma fresh_service_managed:
  assumes "uuid_v4 i"
  shows "managed_path (''services/'' @ ''awm-'' @ i @ ''.service'')"
proof -
  have "set (''awm-'' @ i) \<inter> {CHR ''/'', CHR 0x5C, nul, cr, nl} = {}"
    using uuid_v4_chars [OF assms] lower_hex_safe by fastforce
  then show ?thesis
    unfolding managed_path_def by (intro disjI2 exI [of _ "''awm-'' @ i"]) simp
qed

text \<open>The identifier that \<open>NewServiceID\<close> gives is the name of a managed file.\<close>

theorem new_service_id_managed:
  assumes "length b = 16"
  shows "managed_path (''services/'' @ NewServiceID b)"
  using fresh_service_managed [OF random_id_uuid [OF assms]] by (simp add: NewServiceID_def)

lemma new_service_id_managed_witness: "managed_path (''services/'' @ NewServiceID (replicate 16 0))"
  by (rule new_service_id_managed) simp

section \<open>What ValidateImage accepts\<close>

definition image_size :: "image \<Rightarrow> nat" where
  "image_size im = (\<Sum>p\<leftarrow>sorted_keys im. length (f_data (fm_get zero_file im p)))"

definition file_ok :: "xml_codec \<Rightarrow> string \<Rightarrow> string \<Rightarrow> bool" where
  "file_ok X p data \<longleftrightarrow>
     (if p = conf_path then \<exists>d. ParseDaemon data = Inr d \<and> daemon_validate d = Inr ()
      else if p = hosts_path then \<exists>hs. ParseHosts data = Inr hs
      else \<exists>g. ParseService X data = (g, None))"

definition image_ok :: "xml_codec \<Rightarrow> image \<Rightarrow> bool" where
  "image_ok X im \<longleftrightarrow>
     fmlookup im conf_path \<noteq> None \<and> image_size im \<le> MaxTotalSize \<and>
     (\<forall>p f. fmlookup im p = Some f \<longrightarrow>
        validPath p \<and> length (f_data f) \<le> MaxFileSize \<and> file_ok X p (f_data f))"

lemma validate_file_ok: "validate_file X p data = Inr () \<longleftrightarrow> file_ok X p data"
proof (cases "p = conf_path \<or> p = hosts_path")
  case True
  then show ?thesis by (auto simp: validate_file_def file_ok_def conf_path_def hosts_path_def)
next
  case False
  then show ?thesis
    by (cases "ParseService X data") (auto simp: validate_file_def file_ok_def split: option.splits)
qed

lemma validate_files_ok:
  "validate_files X im n ps = Inr () \<longleftrightarrow>
     (\<forall>p\<in>set ps. validPath p \<and> length (f_data (fm_get zero_file im p)) \<le> MaxFileSize \<and>
        file_ok X p (f_data (fm_get zero_file im p))) \<and>
     (ps = [] \<or> n + (\<Sum>p\<leftarrow>ps. length (f_data (fm_get zero_file im p))) \<le> MaxTotalSize)"
proof (induction ps arbitrary: n)
  case (Cons p ps)
  let ?f = "fm_get zero_file im p"
  have "validate_files X im n (p # ps) = Inr () \<longleftrightarrow>
      validPath p \<and> length (f_data ?f) \<le> MaxFileSize \<and> n + length (f_data ?f) \<le> MaxTotalSize \<and>
      validate_file X p (f_data ?f) = Inr () \<and> validate_files X im (n + length (f_data ?f)) ps = Inr ()"
    by (simp add: Let_def guard_iff split: sum.split) (auto simp: not_less)
  then show ?case unfolding Cons.IH validate_file_ok by (cases "ps = []") (auto simp: add.assoc)
qed simp

lemma all_keys_iff:
  "(\<forall>p\<in>set (sorted_keys im). P p (fm_get z im p)) \<longleftrightarrow> (\<forall>p f. fmlookup im p = Some f \<longrightarrow> P p f)"
proof -
  have "p \<in> set (sorted_keys im) \<longleftrightarrow> (\<exists>f. fmlookup im p = Some f)" for p
    by (simp add: fmlookup_dom_iff)
  then show ?thesis by (metis fm_get_simps(1))
qed

lemma validate_image_ok: "ValidateImage X im = Inr () \<longleftrightarrow> image_ok X im"
proof -
  have "validate_files X im 0 (sorted_keys im) = Inr () \<longleftrightarrow>
      image_size im \<le> MaxTotalSize \<and> (\<forall>p f. fmlookup im p = Some f \<longrightarrow>
        validPath p \<and> length (f_data f) \<le> MaxFileSize \<and> file_ok X p (f_data f))"
    unfolding validate_files_ok all_keys_iff [where P = "\<lambda>p f. validPath p \<and> length (f_data f) \<le> MaxFileSize \<and>
        file_ok X p (f_data f)"]
    by (auto simp: image_size_def)
  then show ?thesis by (simp add: ValidateImage_def image_ok_def guard_iff del: not_None_eq)
qed

text \<open>C38. \<open>ValidateImage\<close>, whose loop runs over a Go map, accepts exactly the images with an
  \<open>avahi-daemon.conf\<close>, at most \<open>MaxTotalSize\<close> bytes in all, and in each file a managed path,
  at most \<open>MaxFileSize\<close> bytes and contents that the parser of its kind accepts; the order
  of the iteration does not matter.\<close>

theorem validate_image_iff:
  assumes "set ps = set (sorted_keys im)" "distinct ps"
  shows "(ValidateImage X im = Inr () \<longleftrightarrow> image_ok X im) \<and>
    (validate_files X im 0 ps = Inr () \<longleftrightarrow> validate_files X im 0 (sorted_keys im) = Inr ())"
proof -
  have "(\<Sum>p\<leftarrow>ps. h p) = (\<Sum>p\<leftarrow>sorted_keys im. h p)" for h :: "string \<Rightarrow> nat"
    using assms by (simp only: sum_list_distinct_conv_sum_set distinct_sorted_keys)
  moreover have "ps = [] \<longleftrightarrow> sorted_keys im = []" using assms(1) by (metis set_empty)
  ultimately show ?thesis by (simp only: validate_image_ok validate_files_ok assms(1))
qed

lemma validate_image_iff_witness:
  "(ValidateImage sample_codec sample_image = Inr () \<longleftrightarrow> image_ok sample_codec sample_image) \<and>
    (validate_files sample_codec sample_image 0 [conf_path] = Inr () \<longleftrightarrow>
     validate_files sample_codec sample_image 0 (sorted_keys sample_image) = Inr ())"
  by (rule validate_image_iff) (simp_all add: sample_image_keys)

section \<open>What ChangeAction returns\<close>

lemma same_entry_iff: "same_entry a b p \<longleftrightarrow> fmlookup a p = fmlookup b p"
  by (cases "fmlookup a p"; cases "fmlookup b p") (auto simp: same_entry_def Let_def intro: cfile.equality)

definition changed :: "image \<Rightarrow> image \<Rightarrow> string set" where
  "changed a b = {p. fmlookup a p \<noteq> fmlookup b p}"

lemma change_from_spec:
  "change_from a b act ps =
     (if changed a b \<inter> set ps \<inter> {conf_path, hosts_path} \<noteq> {} then Restart
      else if changed a b \<inter> set ps \<noteq> {} then Reload else act)"
  by (induction ps arbitrary: act) (auto simp: same_entry_iff changed_def)

lemma changed_keys: "changed a b \<subseteq> set (sorted_keys (a ++\<^sub>f b))"
  by (auto simp: changed_def) (metis fmdom_notD)+

lemma change_action_cases:
  "ChangeAction a b =
     (if a = b then NoAction
      else if changed a b \<inter> {conf_path, hosts_path} = {} then Reload else Restart)"
proof -
  have "changed a b \<inter> set (sorted_keys (a ++\<^sub>f b)) = changed a b" using changed_keys by blast
  moreover have "changed a b = {} \<longleftrightarrow> a = b" by (auto simp: changed_def fmap_ext_iff)
  ultimately show ?thesis unfolding ChangeAction_def change_from_spec by auto
qed

text \<open>\<open>ChangeAction\<close> returns none exactly for equal images, restart exactly when
  \<open>avahi-daemon.conf\<close> or \<open>hosts\<close> differs (in contents, mode, owner or presence) and reload
  otherwise, in whatever order the map of paths is visited.\<close>

theorem change_action_spec:
  "ChangeAction a b =
     (if a = b then NoAction
      else if fmlookup a conf_path = fmlookup b conf_path \<and> fmlookup a hosts_path = fmlookup b hosts_path
      then Reload else Restart)
   \<and> (set ps = set (sorted_keys (a ++\<^sub>f b)) \<longrightarrow> change_from a b NoAction ps = ChangeAction a b)"
proof (intro conjI impI)
  have "changed a b \<inter> {conf_path, hosts_path} = {} \<longleftrightarrow>
      fmlookup a conf_path = fmlookup b conf_path \<and> fmlookup a hosts_path = fmlookup b hosts_path"
    by (auto simp: changed_def)
  then show "ChangeAction a b =
     (if a = b then NoAction
      else if fmlookup a conf_path = fmlookup b conf_path \<and> fmlookup a hosts_path = fmlookup b hosts_path
      then Reload else Restart)"
    by (simp only: change_action_cases)
  assume "set ps = set (sorted_keys (a ++\<^sub>f b))"
  then show "change_from a b NoAction ps = ChangeAction a b"
    by (simp only: ChangeAction_def change_from_spec)
qed

lemma change_action_spec_witness:
  "ChangeAction sample_image fmempty =
     (if sample_image = fmempty then NoAction
      else if fmlookup sample_image conf_path = fmlookup fmempty conf_path \<and>
        fmlookup sample_image hosts_path = fmlookup fmempty hosts_path
      then Reload else Restart)
   \<and> change_from sample_image fmempty NoAction [conf_path] = ChangeAction sample_image fmempty"
  using change_action_spec [of sample_image fmempty "[conf_path]"] sample_image_keys by fastforce

end
