(* ===== verification/World.thy ===== *)
theory World
  imports Image
begin

text \<open>
  The effects of the configuration store: a file system with the configuration directory,
  the backup directory and its snapshot directories; system calls that may fail, a process
  that may die between any two of them, and edits of the configuration by other programs.

  A computation maps a world to an outcome and a world. Every system call is one step: it
  first lets the edits scheduled before it happen, then consumes one event of the schedule,
  which lets it run, makes it fail without effect, or kills the process. An empty schedule
  lets every call run. A completed call is durable: the death of the process is modelled,
  the loss of data that was not flushed is not. Files with JSON documents hold the encoded
  value; \<open>doc_text\<close> is the text that \<open>encoding/json\<close> writes for it, whose length counts
  for the size limit, and reading gives the value with its strings made valid UTF-8. Other
  contents never parse as such a document.
\<close>

section \<open>Documents\<close>

record filemeta =
  me_sha :: string
  me_mode :: "32 word"
  me_uid :: int
  me_gid :: int

record manifest =
  m_id :: string
  m_reason :: string
  m_created :: nat
  m_files :: "(string, filemeta) fmap"

text \<open>\<open>PointerDoc\<close> is \<open>baselinePointer\<close>, \<open>PendingDoc\<close> has the snapshot and the baseline.\<close>

datatype doc = ManifestDoc manifest | PointerDoc string | PendingDoc string string

definition json_escape :: "nat \<Rightarrow> string" where
  "json_escape b =
     (if b = 34 then [CHR 0x5C, CHR 0x22] else if b = 92 then [CHR 0x5C, CHR 0x5C]
      else if b = 8 then [CHR 0x5C, CHR ''b''] else if b = 12 then [CHR 0x5C, CHR ''f'']
      else if b = 10 then [CHR 0x5C, CHR ''n''] else if b = 13 then [CHR 0x5C, CHR ''r'']
      else if b = 9 then [CHR 0x5C, CHR ''t'']
      else if b < 32 \<or> b = 60 \<or> b = 62 \<or> b = 38 then CHR 0x5C # ''u00'' @ hex_byte b
      else [char_of b])"

function json_chars :: "string \<Rightarrow> string" where
  "json_chars s =
     (if s = [] then []
      else (let (r, w) = decode_rune (map byte_of s) in
        (if r < 128 then json_escape r
         else if r = 65533 \<and> w = 1 then CHR 0x5C # ''ufffd''
         else if r = 8232 then CHR 0x5C # ''u2028'' else if r = 8233 then CHR 0x5C # ''u2029''
         else take (max 1 w) s)
        @ json_chars (drop (max 1 w) s)))"
  by pat_completeness auto
termination
  by (relation "measure length") auto

declare json_chars.simps [simp del]

definition json_quote :: "string \<Rightarrow> string" where
  "json_quote s = CHR 0x22 # json_chars s @ [CHR 0x22]"

text \<open>The time format of \<open>encoding/json\<close>: seconds with the fraction's trailing zeros cut.\<close>

definition json_time :: "nat \<Rightarrow> string" where
  "json_time t =
     (let ns = t mod 1000000000; s = t div 1000000000; (y, m, d) = civil (s div 86400);
          r = s mod 86400;
          frac = rev (dropWhile (\<lambda>c. c = CHR ''0'') (rev (pad_dec 9 ns)))
      in [CHR 0x22] @ pad_dec 4 y @ ''-'' @ pad_dec 2 m @ ''-'' @ pad_dec 2 d @ ''T''
         @ pad_dec 2 (r div 3600) @ '':'' @ pad_dec 2 (r div 60 mod 60) @ '':'' @ pad_dec 2 (r mod 60)
         @ (if frac = [] then [] else CHR ''.'' # frac) @ ''Z'' @ [CHR 0x22])"

text \<open>An object as \<open>MarshalIndent\<close> prints it at a depth of two spaces per level.\<close>

definition json_object :: "nat \<Rightarrow> (string \<times> string) list \<Rightarrow> string" where
  "json_object depth kvs =
     (if kvs = [] then ''{}''
      else ''{'' @ [nl]
        @ join_with ('','' @ [nl])
            (map (\<lambda>(k, v). replicate (2 * depth + 2) (CHR '' '') @ json_quote k @ '': '' @ v) kvs)
        @ [nl] @ replicate (2 * depth) (CHR '' '') @ ''}'')"

definition meta_json :: "filemeta \<Rightarrow> string" where
  "meta_json m = json_object 2
     [(''sha256'', json_quote (me_sha m)), (''mode'', nat_dec (unat (me_mode m))),
      (''uid'', int_dec (me_uid m)), (''gid'', int_dec (me_gid m))]"

definition manifest_json :: "manifest \<Rightarrow> string" where
  "manifest_json m = json_object 0
     [(''id'', json_quote (m_id m)), (''reason'', json_quote (m_reason m)),
      (''createdAt'', json_time (m_created m)),
      (''files'', json_object 1
         (map (\<lambda>p. (p, case fmlookup (m_files m) p of None \<Rightarrow> [] | Some e \<Rightarrow> meta_json e))
           (sorted_keys (m_files m))))]"

fun doc_text :: "doc \<Rightarrow> string" where
  "doc_text (ManifestDoc m) = manifest_json m"
| "doc_text (PointerDoc i) = ''{'' @ json_quote ''id'' @ '':'' @ json_quote i @ ''}''"
| "doc_text (PendingDoc s b) =
     ''{'' @ json_quote ''snapshotId'' @ '':'' @ json_quote s
     @ (if b = [] then [] else '','' @ json_quote ''baselineId'' @ '':'' @ json_quote b) @ ''}''"

definition json_manifest :: "manifest \<Rightarrow> manifest" where
  "json_manifest m = m\<lparr>m_id := json_string (m_id m), m_reason := json_string (m_reason m),
     m_files := fmap_of_list (rev (map (\<lambda>p. (json_string p, the (fmlookup (m_files m) p)))
       (sorted_keys (m_files m))))\<rparr>"

text \<open>\<open>json.Unmarshal\<close> of the text of a document.\<close>

fun json_doc :: "doc \<Rightarrow> doc" where
  "json_doc (ManifestDoc m) = ManifestDoc (json_manifest m)"
| "json_doc (PointerDoc i) = PointerDoc (json_string i)"
| "json_doc (PendingDoc s b) = PendingDoc (json_string s) (json_string b)"

section \<open>The file system\<close>

datatype content = Bytes string | Doc doc

text \<open>\<open>Special\<close> is a symbolic link, FIFO, socket or device, \<open>Subdir\<close> a directory.\<close>

datatype node = File content "32 word" int int | Special | Subdir

datatype dirstate = NoDir | IsDir | NotDir

text \<open>
  A directory with its entries by canonical relative path, and the state of its
  subdirectory \<open>services\<close>, whose entries are keyed \<open>services/<name>\<close>.
\<close>

record tree =
  t_nodes :: "(string, node) fmap"
  t_services :: dirstate

definition empty_tree :: tree where
  "empty_tree = \<lparr>t_nodes = fmempty, t_services = NoDir\<rparr>"

record disk =
  d_conf :: tree
  d_top :: tree
  d_snaps :: "(string, tree) fmap"

text \<open>An open directory (\<open>os.Root\<close>): the configuration, the backups, one snapshot.\<close>

datatype droot = Conf | Top | Snap string

fun get_tree :: "droot \<Rightarrow> disk \<Rightarrow> tree option" where
  "get_tree Conf d = Some (d_conf d)"
| "get_tree Top d = Some (d_top d)"
| "get_tree (Snap i) d = fmlookup (d_snaps d) i"

fun put_tree :: "droot \<Rightarrow> tree \<Rightarrow> disk \<Rightarrow> disk" where
  "put_tree Conf t d = d\<lparr>d_conf := t\<rparr>"
| "put_tree Top t d = d\<lparr>d_top := t\<rparr>"
| "put_tree (Snap i) t d = d\<lparr>d_snaps := fmupd i t (d_snaps d)\<rparr>"

text \<open>
  The system message bus: a call to systemd or Avahi, or the choice of a \<open>select\<close> between a
  timer and the end of the context, is answered by a function of the calls made so far.
\<close>

datatype bus_call =
    ConnectSystemd
  | ConnectAvahi
  | UnitJob string string
  | UnitProps string
  | EnableUnits "string list"
  | DisableUnits "string list"
  | ReloadManager
  | AvahiCall string
  | Select

datatype reply =
    ReplyOk
  | ReplyJob string
  | ReplyProps "(string, string) fmap"
  | ReplyInt int
  | ReplyText string
  | ReplyError string

record bus =
  b_calls :: "bus_call list"
  b_answer :: "bus_call list \<Rightarrow> bus_call \<Rightarrow> reply"

datatype event = Pass | Fails | Dies | Edit string "node option" | EditServices dirstate

record world =
  w_disk :: disk
  w_sched :: "event list"
  w_euid :: int
  w_egid :: int
  w_rand :: "nat \<Rightarrow> nat \<Rightarrow> 8 word"
  w_clock :: "nat \<Rightarrow> nat"
  w_tick :: nat
  w_limit :: nat
  w_bus :: bus
  w_writes :: "string list"

section \<open>Computations\<close>

datatype 'a outcome = Done 'a | Failed error | Crashed

type_synonym 'a io = "world \<Rightarrow> 'a outcome \<times> world"

definition return :: "'a \<Rightarrow> 'a io" where
  "return x = (\<lambda>w. (Done x, w))"

definition fail :: "error \<Rightarrow> 'a io" where
  "fail e = (\<lambda>w. (Failed e, w))"

definition bind_io :: "'a io \<Rightarrow> ('a \<Rightarrow> 'b io) \<Rightarrow> 'b io" where
  "bind_io m k = (\<lambda>w. case m w of
     (Done x, w') \<Rightarrow> k x w' | (Failed e, w') \<Rightarrow> (Failed e, w') | (Crashed, w') \<Rightarrow> (Crashed, w'))"

definition then_io :: "'a io \<Rightarrow> 'b io \<Rightarrow> 'b io" where
  "then_io m k = bind_io m (\<lambda>_. k)"

text \<open>The error as a value, for code that inspects it.\<close>

definition try_io :: "'a io \<Rightarrow> 'a result io" where
  "try_io m = (\<lambda>w. case m w of
     (Done x, w') \<Rightarrow> (Done (Inr x), w') | (Failed e, w') \<Rightarrow> (Done (Inl e), w')
   | (Crashed, w') \<Rightarrow> (Crashed, w'))"

definition lift_res :: "'a result \<Rightarrow> 'a io" where
  "lift_res r = (case r of Inl e \<Rightarrow> fail e | Inr x \<Rightarrow> return x)"

definition guard_io :: "bool \<Rightarrow> string \<Rightarrow> unit io" where
  "guard_io b msg = (if b then return () else fail (Msg msg))"

text \<open>A deferred call whose error is dropped: always, or only when the body fails.\<close>

definition finally_io :: "'a io \<Rightarrow> unit io \<Rightarrow> 'a io" where
  "finally_io m c = bind_io (try_io m) (\<lambda>r. bind_io (try_io c) (\<lambda>_. lift_res r))"

definition cleanup_io :: "'a io \<Rightarrow> unit io \<Rightarrow> 'a io" where
  "cleanup_io m c =
     bind_io (try_io m) (\<lambda>r. case r of Inr x \<Rightarrow> return x | Inl e \<Rightarrow> bind_io (try_io c) (\<lambda>_. fail e))"

text \<open>\<open>errors.Is(err, fs.ErrNotExist)\<close> selects the second computation.\<close>

definition or_missing :: "'a io \<Rightarrow> 'b io \<Rightarrow> ('a \<Rightarrow> 'b io) \<Rightarrow> 'b io" where
  "or_missing m absent k =
     bind_io (try_io m) (\<lambda>r. case r of
       Inl e \<Rightarrow> if errors_is e ErrNotExist then absent else fail e
     | Inr x \<Rightarrow> k x)"

text \<open>\<open>errors.Join\<close> of two calls that are both made.\<close>

definition join_io :: "unit io \<Rightarrow> unit io \<Rightarrow> unit io" where
  "join_io a b =
     bind_io (try_io a) (\<lambda>r. bind_io (try_io b) (\<lambda>s. case (r, s) of
       (Inr _, Inr _) \<Rightarrow> return ()
     | (Inl e, Inr _) \<Rightarrow> fail e
     | (Inr _, Inl e) \<Rightarrow> fail e
     | (Inl e, Inl f) \<Rightarrow> fail (Join e f)))"

fun for_io :: "('a \<Rightarrow> unit io) \<Rightarrow> 'a list \<Rightarrow> unit io" where
  "for_io f [] = return ()"
| "for_io f (x # xs) = then_io (f x) (for_io f xs)"

section \<open>System calls\<close>

definition edit_conf :: "event \<Rightarrow> disk \<Rightarrow> disk" where
  "edit_conf e d =
     (case e of
        Edit p None \<Rightarrow> d\<lparr>d_conf := (d_conf d)\<lparr>t_nodes := fmdrop p (t_nodes (d_conf d))\<rparr>\<rparr>
      | Edit p (Some n) \<Rightarrow> d\<lparr>d_conf := (d_conf d)\<lparr>t_nodes := fmupd p n (t_nodes (d_conf d))\<rparr>\<rparr>
      | EditServices s \<Rightarrow> d\<lparr>d_conf := (d_conf d)\<lparr>t_services := s\<rparr>\<rparr>
      | _ \<Rightarrow> d)"

text \<open>One system call: the edits before it, then its event, then its effect on the disk.\<close>

fun sys_call :: "event list \<Rightarrow> (disk \<Rightarrow> 'a result \<times> disk) \<Rightarrow> 'a io" where
  "sys_call [] f w =
     (case f (w_disk w) of
        (Inl e, d) \<Rightarrow> (Failed e, w\<lparr>w_disk := d, w_sched := []\<rparr>)
      | (Inr x, d) \<Rightarrow> (Done x, w\<lparr>w_disk := d, w_sched := []\<rparr>))"
| "sys_call (Pass # es) f w =
     (case f (w_disk w) of
        (Inl e, d) \<Rightarrow> (Failed e, w\<lparr>w_disk := d, w_sched := es\<rparr>)
      | (Inr x, d) \<Rightarrow> (Done x, w\<lparr>w_disk := d, w_sched := es\<rparr>))"
| "sys_call (Fails # es) f w = (Failed Fault, w\<lparr>w_sched := es\<rparr>)"
| "sys_call (Dies # es) f w = (Crashed, w\<lparr>w_sched := es\<rparr>)"
| "sys_call (Edit p n # es) f w = sys_call es f (w\<lparr>w_disk := edit_conf (Edit p n) (w_disk w)\<rparr>)"
| "sys_call (EditServices s # es) f w =
     sys_call es f (w\<lparr>w_disk := edit_conf (EditServices s) (w_disk w)\<rparr>)"

definition sys :: "(disk \<Rightarrow> 'a result \<times> disk) \<Rightarrow> 'a io" where
  "sys f = (\<lambda>w. sys_call (w_sched w) f w)"

text \<open>A call in a directory: an entry below \<open>services\<close> needs that directory.\<close>

definition parent_error :: "tree \<Rightarrow> string \<Rightarrow> error option" where
  "parent_error t p =
     (if prefix ''services/'' p then
        (case t_services t of NoDir \<Rightarrow> Some ErrNotExist | NotDir \<Rightarrow> Some Fault | IsDir \<Rightarrow> None)
      else None)"

definition in_tree :: "droot \<Rightarrow> (tree \<Rightarrow> 'a result \<times> tree) \<Rightarrow> disk \<Rightarrow> 'a result \<times> disk" where
  "in_tree r f d =
     (case get_tree r d of
        None \<Rightarrow> (Inl ErrNotExist, d)
      | Some t \<Rightarrow> (let (x, t') = f t in (x, put_tree r t' d)))"

definition look :: "string \<Rightarrow> tree \<Rightarrow> node result" where
  "look p t =
     (case parent_error t (path_clean p) of
        Some e \<Rightarrow> Inl e
      | None \<Rightarrow> (case fmlookup (t_nodes t) (path_clean p) of None \<Rightarrow> Inl ErrNotExist | Some n \<Rightarrow> Inr n))"

definition set_node :: "string \<Rightarrow> node \<Rightarrow> tree \<Rightarrow> tree" where
  "set_node p n t = t\<lparr>t_nodes := fmupd (path_clean p) n (t_nodes t)\<rparr>"

definition del_node :: "string \<Rightarrow> tree \<Rightarrow> tree" where
  "del_node p t = t\<lparr>t_nodes := fmdrop (path_clean p) (t_nodes t)\<rparr>"

text \<open>\<open>Lstat\<close> and \<open>OpenFile\<close> for reading give the node; a link is not followed.\<close>

definition io_lstat :: "droot \<Rightarrow> string \<Rightarrow> node io" where
  "io_lstat r p = sys (in_tree r (\<lambda>t. (look p t, t)))"

definition io_open :: "droot \<Rightarrow> string \<Rightarrow> node io" where
  "io_open r p = sys (in_tree r (\<lambda>t. (case look p t of Inr Special \<Rightarrow> Inl Fault | x \<Rightarrow> x, t)))"

text \<open>\<open>Fstat\<close> and \<open>ReadAll\<close> on the open file.\<close>

definition io_fread :: "node \<Rightarrow> node io" where
  "io_fread n = sys (\<lambda>d. (Inr n, d))"

text \<open>\<open>OpenFile\<close> with \<open>O_CREATE\<close> and \<open>O_EXCL\<close>, mode 0600.\<close>

definition io_create :: "droot \<Rightarrow> string \<Rightarrow> int \<Rightarrow> int \<Rightarrow> unit io" where
  "io_create r p uid gid =
     sys (in_tree r (\<lambda>t. case look p t of
       Inr _ \<Rightarrow> (Inl Fault, t)
     | Inl e \<Rightarrow>
         if parent_error t (path_clean p) = None
         then (Inr (), set_node p (File (Bytes []) 384 uid gid) t) else (Inl e, t)))"

fun with_content :: "content \<Rightarrow> node \<Rightarrow> node" where
  "with_content c (File _ m u g) = File c m u g"
| "with_content c n = n"

fun with_owner :: "int \<Rightarrow> int \<Rightarrow> node \<Rightarrow> node" where
  "with_owner u g (File c m _ _) = File c m u g"
| "with_owner u g n = n"

fun with_mode :: "32 word \<Rightarrow> node \<Rightarrow> node" where
  "with_mode m (File c _ u g) = File c m u g"
| "with_mode m n = n"

text \<open>\<open>Write\<close>, \<open>Chown\<close>, \<open>Chmod\<close> through the handle; \<open>Sync\<close> and \<open>Close\<close> can only fail.\<close>

definition io_fchange :: "droot \<Rightarrow> string \<Rightarrow> (node \<Rightarrow> node) \<Rightarrow> unit io" where
  "io_fchange r p f =
     sys (in_tree r (\<lambda>t. (Inr (), case look p t of Inr n \<Rightarrow> set_node p (f n) t | Inl _ \<Rightarrow> t)))"

definition io_flush :: "unit io" where
  "io_flush = sys (\<lambda>d. (Inr (), d))"

definition log_write :: "droot \<Rightarrow> string \<Rightarrow> unit io" where
  "log_write r p = (\<lambda>w. (Done (), if r = Conf then w\<lparr>w_writes := w_writes w @ [p]\<rparr> else w))"

definition io_rename :: "droot \<Rightarrow> string \<Rightarrow> string \<Rightarrow> unit io" where
  "io_rename r a b =
     then_io (log_write r b)
      (sys (in_tree r (\<lambda>t. case (look a t, parent_error t (path_clean b)) of
         (Inl e, _) \<Rightarrow> (Inl e, t)
       | (_, Some e) \<Rightarrow> (Inl e, t)
       | (Inr n, None) \<Rightarrow>
           if look b t = Inr Subdir then (Inl Fault, t) else (Inr (), set_node b n (del_node a t)))))"

definition io_unlink :: "droot \<Rightarrow> string \<Rightarrow> unit io" where
  "io_unlink r p =
     sys (in_tree r (\<lambda>t. case look p t of
       Inl e \<Rightarrow> (Inl e, t)
     | Inr Subdir \<Rightarrow> (Inl Fault, t)
     | Inr _ \<Rightarrow> (Inr (), del_node p t)))"

text \<open>\<open>Remove\<close> of a configuration file, a write to the configuration.\<close>

definition io_remove :: "droot \<Rightarrow> string \<Rightarrow> unit io" where
  "io_remove r p = then_io (log_write r p) (io_unlink r p)"

text \<open>\<open>syncDir\<close> opens the directory and flushes it.\<close>

definition syncDir :: "droot \<Rightarrow> string \<Rightarrow> unit io" where
  "syncDir r p =
     then_io (sys (in_tree r (\<lambda>t. (case parent_error t (p @ ''/'') of Some e \<Rightarrow> Inl e | None \<Rightarrow> Inr (), t))))
       io_flush"

text \<open>\<open>MkdirAll\<close> of \<open>services\<close> or of the directory itself.\<close>

definition io_mkdir_all :: "droot \<Rightarrow> string \<Rightarrow> unit io" where
  "io_mkdir_all r p =
     sys (in_tree r (\<lambda>t.
       if p = ''services'' then
         (case t_services t of
            NoDir \<Rightarrow> (Inr (), t\<lparr>t_services := IsDir\<rparr>)
          | IsDir \<Rightarrow> (Inr (), t)
          | NotDir \<Rightarrow> (Inl Fault, t))
       else (Inr (), t)))"

definition io_services :: "droot \<Rightarrow> dirstate io" where
  "io_services r = sys (in_tree r (\<lambda>t.
     (case t_services t of NoDir \<Rightarrow> Inl ErrNotExist | s \<Rightarrow> Inr s, t)))"

text \<open>The names in \<open>services\<close>.\<close>

definition service_names :: "tree \<Rightarrow> string list" where
  "service_names t = map (drop 9) (filter (prefix ''services/'') (sorted_keys (t_nodes t)))"

definition io_readdir :: "droot \<Rightarrow> string list io" where
  "io_readdir r = sys (in_tree r (\<lambda>t. (Inr (service_names t), t)))"

definition io_mkdir_snap :: "string \<Rightarrow> unit io" where
  "io_mkdir_snap i = sys (\<lambda>d.
     if fmlookup (d_snaps d) i = None \<and> fmlookup (t_nodes (d_top d)) i = None
     then (Inr (), d\<lparr>d_snaps := fmupd i empty_tree (d_snaps d)\<rparr>) else (Inl Fault, d))"

text \<open>
  \<open>RemoveAll\<close> of a snapshot: each entry, with what is below it, going on after an entry that cannot be
  removed; then the directory, which stays while an entry is left. The answer is the first error.
\<close>

definition io_entries :: "string \<Rightarrow> string list io" where
  "io_entries i = sys (\<lambda>d. (Inr (case fmlookup (d_snaps d) i of
     None \<Rightarrow> [] | Some t \<Rightarrow> sorted_keys (t_nodes t)), d))"

definition io_remove_entry :: "droot \<Rightarrow> string \<Rightarrow> unit io" where
  "io_remove_entry r p = sys (in_tree r (\<lambda>t. case look p t of
     Inl e \<Rightarrow> (if errors_is e ErrNotExist then Inr () else Inl e, t)
   | Inr _ \<Rightarrow> (Inr (), del_node p t)))"

definition io_rmdir :: "string \<Rightarrow> unit io" where
  "io_rmdir i = sys (\<lambda>d. case fmlookup (d_snaps d) i of
     None \<Rightarrow> (Inr (), d)
   | Some t \<Rightarrow> if sorted_keys (t_nodes t) = [] then (Inr (), d\<lparr>d_snaps := fmdrop i (d_snaps d)\<rparr>) else (Inl Fault, d))"

fun remove_entries :: "string \<Rightarrow> string list \<Rightarrow> error option io" where
  "remove_entries i [] = return None"
| "remove_entries i (p # ps) =
     bind_io (try_io (io_remove_entry (Snap i) p)) (\<lambda>r.
     bind_io (remove_entries i ps) (\<lambda>e. return (case r of Inl x \<Rightarrow> Some x | Inr _ \<Rightarrow> e)))"

definition removeAll :: "string \<Rightarrow> unit io" where
  "removeAll i =
     bind_io (io_entries i) (\<lambda>ps.
     bind_io (remove_entries i ps) (\<lambda>first.
     bind_io (try_io (io_rmdir i)) (\<lambda>r.
       case r of Inr _ \<Rightarrow> return () | Inl e \<Rightarrow> fail (case first of Some x \<Rightarrow> x | None \<Rightarrow> e))))"

text \<open>\<open>crypto/rand\<close> and \<open>time.Now\<close>.\<close>

definition random_bytes :: "world \<Rightarrow> nat \<Rightarrow> 8 word list" where
  "random_bytes w t = map (w_rand w t) [0..<16]"

text \<open>A source that no longer answers (from the tick \<open>w_limit\<close> on) kills the process.\<close>

definition fresh_id :: "string io" where
  "fresh_id = (\<lambda>w.
     if w_tick w < w_limit w then (Done (randomID (random_bytes w (w_tick w))), w\<lparr>w_tick := Suc (w_tick w)\<rparr>)
     else (Crashed, w))"

definition now :: "nat io" where
  "now = (\<lambda>w. (Done (w_clock w (w_tick w)), w\<lparr>w_tick := Suc (w_tick w)\<rparr>))"

definition geteuid :: "int io" where
  "geteuid = (\<lambda>w. (Done (w_euid w), w))"

definition getegid :: "int io" where
  "getegid = (\<lambda>w. (Done (w_egid w), w))"

end
