(* ===== verification/Store.thy ===== *)
theory Store
  imports World
begin

text \<open>
  \<open>internal/config/store.go\<close> and \<open>internal/config/baseline.go\<close>: reading the configuration
  directory, staging and renaming files, snapshots with their manifests, the retention of
  snapshots and the baseline pointer, as computations over the world of system calls.
\<close>

section \<open>Reading\<close>

fun content_text :: "content \<Rightarrow> string" where
  "content_text (Bytes s) = s"
| "content_text (Doc d) = doc_text d"

fun is_regular :: "node \<Rightarrow> bool" where
  "is_regular (File _ _ _ _) = True"
| "is_regular _ = False"

text \<open>\<open>readFile\<close>; the contents of the file are its bytes or the document they encode.\<close>

definition opened_file :: "node \<Rightarrow> (content \<times> cfile) result" where
  "opened_file n =
     (case n of
        File c m u g \<Rightarrow>
          if length (content_text c) > MaxFileSize then Inl (Msg ''file exceeds size limit'')
          else Inr (c, \<lparr>f_data = content_text c, f_mode = m AND 511, f_uid = u, f_gid = g\<rparr>)
      | _ \<Rightarrow> Inl (Msg ''not regular''))"

definition readNode :: "droot \<Rightarrow> string \<Rightarrow> (content \<times> cfile) io" where
  "readNode r p =
     bind_io (io_lstat r p) (\<lambda>i.
     then_io (guard_io (is_regular i) ''must be a regular file (symlinks are not managed)'')
     (bind_io (io_open r p) (\<lambda>h.
      bind_io (io_fread h) (\<lambda>h.
      bind_io (io_fread h) (\<lambda>h. lift_res (opened_file h))))))"

definition readFile :: "droot \<Rightarrow> string \<Rightarrow> cfile io" where
  "readFile r p = bind_io (readNode r p) (\<lambda>(c, f). return f)"

text \<open>\<open>readFile\<close> followed by \<open>json.Unmarshal\<close>.\<close>

definition readDoc :: "droot \<Rightarrow> string \<Rightarrow> doc io" where
  "readDoc r p = bind_io (readNode r p) (\<lambda>(c, f).
     case c of Doc d \<Rightarrow> return (json_doc d) | Bytes _ \<Rightarrow> fail (Msg ''invalid JSON''))"

definition service_files :: "string list \<Rightarrow> string list" where
  "service_files ns = map ((@) ''services/'') (filter (suffix ''.service'') ns)"

fun read_files :: "string list \<Rightarrow> nat \<Rightarrow> image \<Rightarrow> image io" where
  "read_files [] acc im = return im"
| "read_files (p # ps) acc im =
     or_missing (readFile Conf p) (read_files ps acc im) (\<lambda>f.
       if acc + length (f_data f) > MaxTotalSize
       then fail (Msg ''configuration exceeds total size limit'')
       else read_files ps (acc + length (f_data f)) (fmupd p f im))"

definition list_services :: "string list io" where
  "list_services =
     or_missing (io_services Conf) (return []) (\<lambda>s.
       then_io (guard_io (s = IsDir) ''services must be a directory, not a symlink'')
       (then_io (io_services Conf) (io_readdir Conf)))"

definition read :: "image io" where
  "read = bind_io list_services (\<lambda>ns.
     read_files ([conf_path, hosts_path] @ service_files ns) 0 fmempty)"

section \<open>Writing\<close>

definition tmp_path :: "string \<Rightarrow> string \<Rightarrow> string" where
  "tmp_path p i = path_join (path_dir p) (''.awm-'' @ i @ ''.tmp'')"

definition stage :: "droot \<Rightarrow> string \<Rightarrow> content \<Rightarrow> cfile \<Rightarrow> bool \<Rightarrow> string io" where
  "stage r p c f owner =
     bind_io fresh_id (\<lambda>i. bind_io geteuid (\<lambda>eu. bind_io getegid (\<lambda>eg.
       let tmp = tmp_path p i in
       then_io (io_create r tmp eu eg)
         (cleanup_io
           (then_io (io_fchange r tmp (with_content c))
           (then_io (if owner \<and> eu = 0 then io_fchange r tmp (with_owner (f_uid f) (f_gid f)) else return ())
           (then_io (io_fchange r tmp (with_mode (f_mode f AND 511)))
           (then_io io_flush (then_io io_flush (return tmp))))))
           (io_unlink r tmp)))))"

definition backup_file :: cfile where
  "backup_file = \<lparr>f_data = [], f_mode = 384, f_uid = 0, f_gid = 0\<rparr>"

definition atomicFile :: "droot \<Rightarrow> string \<Rightarrow> content \<Rightarrow> unit io" where
  "atomicFile r p c =
     bind_io (stage r p c backup_file False) (\<lambda>tmp.
       finally_io (then_io (io_rename r tmp p) (syncDir r (path_dir p))) (io_unlink r tmp))"

section \<open>Snapshots\<close>

definition io_open_snap :: "string \<Rightarrow> unit io" where
  "io_open_snap i = sys (\<lambda>d. (case fmlookup (d_snaps d) i of None \<Rightarrow> Inl ErrNotExist | Some _ \<Rightarrow> Inr (), d))"

definition meta_of :: "cfile \<Rightarrow> filemeta" where
  "meta_of f = \<lparr>me_sha = digest (f_data f), me_mode = f_mode f, me_uid = f_uid f, me_gid = f_gid f\<rparr>"

fun snapshot_files :: "image \<Rightarrow> string list \<Rightarrow> manifest \<Rightarrow> manifest io" where
  "snapshot_files im [] m = return m"
| "snapshot_files im (p # ps) m =
     (let f = fm_get zero_file im p in
      then_io (guard_io (validPath p) ''invalid snapshot path'')
      (then_io (io_mkdir_all (Snap (m_id m)) (path_dir p))
      (then_io (atomicFile (Snap (m_id m)) p (Bytes (f_data f)))
        (snapshot_files im ps (m\<lparr>m_files := fmupd p (meta_of f) (m_files m)\<rparr>)))))"

definition new_manifest :: "string \<Rightarrow> manifest io" where
  "new_manifest reason =
     bind_io now (\<lambda>t0. bind_io fresh_id (\<lambda>rid. bind_io now (\<lambda>t1.
       return \<lparr>m_id = stamp t0 @ ''-'' @ rid, m_reason = reason, m_created = t1, m_files = fmempty\<rparr>)))"

definition manifest_path :: string where
  "manifest_path = ''manifest.json''"

definition snapshot :: "image \<Rightarrow> string \<Rightarrow> manifest io" where
  "snapshot im reason =
     bind_io (new_manifest reason) (\<lambda>m.
     then_io (guard_io (length reason \<le> 512) ''snapshot reason too long'')
     (then_io (io_mkdir_snap (m_id m))
     (cleanup_io
       (then_io (io_open_snap (m_id m))
       (bind_io (snapshot_files im (sorted_keys im) m) (\<lambda>m.
        then_io (atomicFile (Snap (m_id m)) manifest_path (Doc (ManifestDoc m)))
        (then_io (syncDir Top ''.'') (return m)))))
       (removeAll (m_id m)))))"

definition validSnapshotID :: "string \<Rightarrow> bool" where
  "validSnapshotID i \<longleftrightarrow>
     length i > 30 \<and> length i < 100 \<and> path_base i = i \<and> \<not> contains_any i [CHR ''/'', CHR 0x5C, nul] \<and>
     sublist ''Z-'' i"

fun load_files :: "string \<Rightarrow> manifest \<Rightarrow> string list \<Rightarrow> nat \<Rightarrow> image \<Rightarrow> image io" where
  "load_files i m [] acc im = return im"
| "load_files i m (p # ps) acc im =
     (case fmlookup (m_files m) p of
        None \<Rightarrow> load_files i m ps acc im
      | Some e \<Rightarrow>
          then_io (guard_io (validPath p \<and> me_mode e AND NOT 511 = 0) ''invalid snapshot entry'')
          (bind_io (readFile (Snap i) p) (\<lambda>f.
           then_io (guard_io (digest (f_data f) = me_sha e) ''snapshot integrity failure'')
           (then_io (guard_io (acc + length (f_data f) \<le> MaxTotalSize) ''snapshot too large'')
           (load_files i m ps (acc + length (f_data f))
             (fmupd p (f\<lparr>f_mode := me_mode e, f_uid := me_uid e, f_gid := me_gid e\<rparr>) im))))))"

definition io_lstat_snap :: "string \<Rightarrow> bool io" where
  "io_lstat_snap i = sys (\<lambda>d.
     (case fmlookup (d_snaps d) i of
        Some _ \<Rightarrow> Inr True
      | None \<Rightarrow> (case fmlookup (t_nodes (d_top d)) i of Some _ \<Rightarrow> Inr False | None \<Rightarrow> Inl ErrNotExist), d))"

definition loadSnapshot :: "string \<Rightarrow> (manifest \<times> image) io" where
  "loadSnapshot i =
     then_io (guard_io (validSnapshotID i) ''invalid snapshot ID'')
     (bind_io (io_lstat_snap i) (\<lambda>dir.
      then_io (guard_io dir ''invalid snapshot directory'')
      (then_io (io_open_snap i)
      (bind_io (readDoc (Snap i) manifest_path) (\<lambda>d.
       case d of
         ManifestDoc m \<Rightarrow>
           then_io (guard_io (m_id m = i) ''snapshot ID mismatch'')
             (bind_io (load_files i m (sorted_keys (m_files m)) 0 fmempty) (\<lambda>im. return (m, im)))
       | _ \<Rightarrow> fail (Msg ''invalid JSON''))))))"

text \<open>The directories in the backup directory.\<close>

definition io_list_snaps :: "string list io" where
  "io_list_snaps = sys (\<lambda>d. (Inr (sorted_keys (d_snaps d)), d))"

fun load_all :: "string list \<Rightarrow> manifest list io" where
  "load_all [] = return []"
| "load_all (i # is) =
     (if \<not> validSnapshotID i then load_all is
      else bind_io (loadSnapshot i) (\<lambda>(m, im). bind_io (load_all is) (\<lambda>ms. return (m # ms))))"

definition snapshots :: "manifest list io" where
  "snapshots = then_io io_flush (bind_io io_list_snaps (\<lambda>ns. bind_io (load_all ns) (\<lambda>ms.
     return (sort_key (\<lambda>m. - int (m_created m)) ms))))"

section \<open>Baseline and retention\<close>

definition baseline_path :: string where
  "baseline_path = ''baseline.json''"

definition pending_path :: string where
  "pending_path = ''pending.json''"

definition baselineID :: "string io" where
  "baselineID =
     or_missing (readNode Top baseline_path) (return []) (\<lambda>(c, f).
       case c of
         Doc d \<Rightarrow> (case json_doc d of
             PointerDoc i \<Rightarrow> then_io (guard_io (validSnapshotID i) ''invalid baseline pointer'') (return i)
           | _ \<Rightarrow> fail (Msg ''invalid JSON''))
       | Bytes _ \<Rightarrow> fail (Msg ''invalid JSON''))"

definition setBaseline :: "string \<Rightarrow> unit io" where
  "setBaseline i =
     (if i = [] then
        then_io (or_missing (io_unlink Top baseline_path) (return ()) return) (syncDir Top ''.'')
      else
        then_io (loadSnapshot i) (atomicFile Top baseline_path (Doc (PointerDoc i))))"

definition recordBaseline :: "image \<Rightarrow> string \<Rightarrow> manifest io" where
  "recordBaseline im reason =
     bind_io (snapshot im reason) (\<lambda>m. then_io (setBaseline (m_id m)) (return m))"

definition noPending :: "unit io" where
  "noPending = or_missing (io_lstat Top pending_path) (return ())
     (\<lambda>_. fail (Msg ''transaction recovery required''))"

fun prune_loop :: "nat \<Rightarrow> string \<Rightarrow> nat \<Rightarrow> string list \<Rightarrow> unit io" where
  "prune_loop keep pinned remaining [] = return ()"
| "prune_loop keep pinned remaining (i # is) =
     (if remaining \<le> keep then return ()
      else if i = pinned then prune_loop keep pinned remaining is
      else
        then_io (guard_io (validSnapshotID i \<and> path_base i = i) ''invalid snapshot ID'')
        (then_io (removeAll i) (prune_loop keep pinned (remaining - 1) is)))"

definition prune :: "nat \<Rightarrow> unit io" where
  "prune keep =
     bind_io snapshots (\<lambda>ms. bind_io baselineID (\<lambda>pinned.
       then_io (prune_loop keep pinned (length ms) (rev (map m_id ms))) (syncDir Top ''.'')))"

section \<open>Operations of the store\<close>

definition Snapshot :: "string \<Rightarrow> manifest io" where
  "Snapshot reason =
     bind_io read (\<lambda>im.
     or_missing (io_lstat Top pending_path)
       (bind_io (snapshot im reason) (\<lambda>m. then_io (prune 20) (return m)))
       (\<lambda>_. fail (Msg ''transaction recovery pending'')))"

definition DeleteSnapshot :: "string \<Rightarrow> unit io" where
  "DeleteSnapshot i =
     bind_io baselineID (\<lambda>pinned.
     if i = pinned then fail (Msg ''cannot delete the current managed baseline'')
     else or_missing (io_lstat Top pending_path)
       (then_io (loadSnapshot i) (join_io (removeAll i) (syncDir Top ''.'')))
       (\<lambda>_. fail (Msg ''transaction recovery pending'')))"

definition Baseline :: "(manifest \<times> image) io" where
  "Baseline =
     then_io noPending (bind_io baselineID (\<lambda>i.
       if i \<noteq> [] then loadSnapshot i
       else bind_io read (\<lambda>im. bind_io (recordBaseline im ''Initial takeover'') (\<lambda>m. return (m, im)))))"

definition AcceptDisk :: "string \<Rightarrow> (manifest \<times> image) io" where
  "AcceptDisk expected =
     then_io noPending (bind_io read (\<lambda>im.
       if expected = [] \<or> expected \<noteq> Revision im then fail ErrConflict
       else bind_io (recordBaseline im ''Reload from disk'') (\<lambda>m. then_io (prune 20) (return (m, im)))))"

end
