(* ===== verification/Apply.thy ===== *)
theory Apply
  imports Store
begin

text \<open>
  \<open>internal/config/apply.go\<close>: replacing the configuration under a durable journal, rollback
  when a step fails, recovery after the death of the process, and restoring a snapshot. The
  runtime controller is a pair of computations; what the transaction needs of it is the
  locale below.
\<close>

section \<open>Operations\<close>

record controller =
  c_apply :: "action \<Rightarrow> unit io"
  c_healthy :: "unit io"

record apply_result =
  ar_action :: action
  ar_snapshot :: string
  ar_revision :: string
  ar_warning :: string

fun stage_all :: "image \<Rightarrow> image \<Rightarrow> string list \<Rightarrow> (string \<times> string) list
    \<Rightarrow> ((string \<times> string) list \<times> error option) io" where
  "stage_all old new [] staged = return (staged, None)"
| "stage_all old new (p # ps) staged =
     (let f = fm_get zero_file new p in
      if fmlookup old p \<noteq> None \<and> same_entry old new p then stage_all old new ps staged
      else bind_io (try_io (stage Conf p (Bytes (f_data f)) f True)) (\<lambda>r. case r of
          Inl e \<Rightarrow> return (staged, Some e)
        | Inr tmp \<Rightarrow> stage_all old new ps (staged @ [(p, tmp)])))"

definition remove_gone :: "image \<Rightarrow> string \<Rightarrow> unit io" where
  "remove_gone new p =
     (if fmlookup new p = None then or_missing (io_remove Conf p) (return ()) return else return ())"

definition remove_temps :: "(string \<times> string) list \<Rightarrow> unit io" where
  "remove_temps staged = for_io (\<lambda>(p, tmp). bind_io (try_io (io_unlink Conf tmp)) (\<lambda>_. return ())) staged"

definition switch :: "image \<Rightarrow> image \<Rightarrow> (string \<times> string) list \<Rightarrow> unit io" where
  "switch old new staged =
     then_io (for_io (\<lambda>(p, tmp). io_rename Conf tmp p) staged)
     (then_io (for_io (remove_gone new) (sorted_keys old))
       (join_io (syncDir Conf ''services'') (syncDir Conf ''.'')))"

definition replace :: "image \<Rightarrow> image \<Rightarrow> unit io" where
  "replace old new =
     then_io (io_mkdir_all Conf ''services'')
     (bind_io (io_services Conf) (\<lambda>s.
      then_io (guard_io (s = IsDir) ''services must be a real directory'')
      (bind_io (stage_all old new (sorted_keys new) []) (\<lambda>(staged, err).
        finally_io
          (case err of Some e \<Rightarrow> fail e | None \<Rightarrow> switch old new staged)
          (remove_temps staged)))))"

definition clearPending :: "unit io" where
  "clearPending = then_io (io_unlink Top pending_path) (syncDir Top ''.'')"

definition recover_from :: "controller \<Rightarrow> string \<Rightarrow> string \<Rightarrow> unit io" where
  "recover_from c snap base =
     bind_io (loadSnapshot snap) (\<lambda>(_, old).
     bind_io read (\<lambda>current.
     then_io (replace current old)
     (then_io (c_apply c Restart)
     (then_io (c_healthy c)
     (then_io (setBaseline base) clearPending)))))"

definition recover :: "controller option \<Rightarrow> unit io" where
  "recover c =
     or_missing (readNode Top pending_path) (return ()) (\<lambda>(ct, _).
       case c of
         None \<Rightarrow> fail (Msg ''runtime controller required for recovery'')
       | Some c \<Rightarrow>
           (case ct of
              Doc d \<Rightarrow> (case json_doc d of
                  PendingDoc snap base \<Rightarrow> recover_from c snap base
                | _ \<Rightarrow> fail (Msg ''invalid JSON''))
            | Bytes _ \<Rightarrow> fail (Msg ''invalid JSON'')))"

definition Recover :: "controller option \<Rightarrow> unit io" where
  "Recover c = recover c"

text \<open>An early return with the result so far and the error.\<close>

definition or_return :: "'r \<Rightarrow> 'a io \<Rightarrow> ('a \<Rightarrow> ('r \<times> error option) io) \<Rightarrow> ('r \<times> error option) io" where
  "or_return r m k =
     bind_io (try_io m) (\<lambda>x. case x of Inl e \<Rightarrow> return (r, Some e) | Inr v \<Rightarrow> k v)"

definition accept_unchanged :: "image \<Rightarrow> apply_result \<Rightarrow> (apply_result \<times> error option) io" where
  "accept_unchanged new res =
     or_return res baselineID (\<lambda>i.
     or_return res (if i \<noteq> [] then bind_io (loadSnapshot i) (\<lambda>(_, im). return im) else return fmempty) (\<lambda>base.
     if i = [] \<or> Revision base \<noteq> Revision new then
       or_return res (recordBaseline new ''Managed configuration'') (\<lambda>_.
       or_return res (prune 20) (\<lambda>_. return (res, None)))
     else return (res, None)))"

definition transact :: "image \<Rightarrow> image \<Rightarrow> action \<Rightarrow> controller \<Rightarrow> unit io" where
  "transact old new act c =
     then_io (replace old new)
     (then_io (c_apply c act)
     (then_io (c_healthy c)
     (bind_io (recordBaseline new ''Managed configuration'') (\<lambda>_. return ()))))"

definition rollback :: "controller \<Rightarrow> error \<Rightarrow> apply_result \<Rightarrow> (apply_result \<times> error option) io" where
  "rollback c e res =
     bind_io (try_io (recover (Some c))) (\<lambda>r. return (res, Some (case r of
         Inl re \<Rightarrow> Join e (Wrap ''rollback failed; recovery remains pending'' re)
       | Inr _ \<Rightarrow> Wrap ''apply failed; previous configuration restored'' e)))"

definition commit :: "image \<Rightarrow> apply_result \<Rightarrow> (apply_result \<times> error option) io" where
  "commit new res =
     bind_io (try_io clearPending) (\<lambda>r. case r of
         Inl e \<Rightarrow> return (res, Some (Wrap ''configuration applied but commit journal failed'' e))
       | Inr _ \<Rightarrow>
           bind_io (try_io (prune 20)) (\<lambda>r. return
             (res\<lparr>ar_revision := Revision new,
                ar_warning := (case r of Inl _ \<Rightarrow> ''Configuration committed; snapshot retention failed''
                                | Inr _ \<Rightarrow> [])\<rparr>, None)))"

definition journalled :: "string \<Rightarrow> image \<Rightarrow> image \<Rightarrow> controller \<Rightarrow> apply_result \<Rightarrow> string
    \<Rightarrow> (apply_result \<times> error option) io" where
  "journalled expected old new c res reason =
     or_return res (snapshot old reason) (\<lambda>m.
     let res = res\<lparr>ar_snapshot := m_id m\<rparr> in
     or_return res read (\<lambda>current.
     if Revision current \<noteq> expected then return (res, Some ErrConflict)
     else
       or_return res baselineID (\<lambda>base.
       or_return res (atomicFile Top pending_path (Doc (PendingDoc (m_id m) base))) (\<lambda>_.
       bind_io (try_io (transact old new (ar_action res) c)) (\<lambda>r. case r of
           Inl e \<Rightarrow> rollback c e res
         | Inr _ \<Rightarrow> commit new res)))))"

text \<open>\<open>cancelled\<close> is the error of the request's context on entry.\<close>

definition apply_tx :: "xml_codec \<Rightarrow> bool \<Rightarrow> string \<Rightarrow> image \<Rightarrow> image \<Rightarrow> string \<Rightarrow> controller option
    \<Rightarrow> (apply_result \<times> error option) io" where
  "apply_tx X cancelled expected old new reason c =
     (let act = ChangeAction old new;
          res = \<lparr>ar_action = act, ar_snapshot = [], ar_revision = Revision old, ar_warning = []\<rparr>
      in
      if expected = [] \<or> expected \<noteq> Revision old then return (res, Some ErrConflict)
      else
        or_return res noPending (\<lambda>_.
        or_return res (lift_res (ValidateImage X new)) (\<lambda>_.
        if act = NoAction then accept_unchanged new res
        else case c of
          None \<Rightarrow> return (res, Some (Msg ''runtime controller required''))
        | Some c \<Rightarrow>
            if cancelled then return (res, Some (Msg ''context canceled''))
            else journalled expected old new c res reason)))"

fun change_image :: "int \<Rightarrow> int \<Rightarrow> image \<Rightarrow> (string, string option) fmap \<Rightarrow> string list \<Rightarrow> image \<Rightarrow> image result" where
  "change_image eu eg old changes [] new = Inr new"
| "change_image eu eg old changes (p # ps) new =
     (if \<not> validPath p then Inl (Msg ''invalid configuration path'')
      else case fm_get None changes p of
        None \<Rightarrow> change_image eu eg old changes ps (fmdrop p new)
      | Some data \<Rightarrow>
          let f = (case fmlookup old p of
                     None \<Rightarrow> \<lparr>f_data = [], f_mode = 420, f_uid = eu, f_gid = eg\<rparr>
                   | Some f \<Rightarrow> f)
          in change_image eu eg old changes ps (fmupd p (f\<lparr>f_data := data\<rparr>) new))"

definition empty_result :: apply_result where
  "empty_result = \<lparr>ar_action = NoAction, ar_snapshot = [], ar_revision = [], ar_warning = []\<rparr>"

definition Apply :: "xml_codec \<Rightarrow> bool \<Rightarrow> string \<Rightarrow> (string, string option) fmap \<Rightarrow> controller option
    \<Rightarrow> (apply_result \<times> error option) io" where
  "Apply X cancelled expected changes c =
     or_return empty_result read (\<lambda>old.
     bind_io geteuid (\<lambda>eu. bind_io getegid (\<lambda>eg.
     or_return empty_result (lift_res (change_image eu eg old changes (sorted_keys changes) old)) (\<lambda>new.
       apply_tx X cancelled expected old new ''Save & Apply'' c))))"

definition Restore :: "xml_codec \<Rightarrow> bool \<Rightarrow> string \<Rightarrow> string \<Rightarrow> controller option
    \<Rightarrow> (apply_result \<times> error option) io" where
  "Restore X cancelled i expected c =
     or_return empty_result (loadSnapshot i) (\<lambda>(_, new).
     or_return empty_result read (\<lambda>old.
       apply_tx X cancelled expected old new (''Restore '' @ i) c))"

end
