(* ===== verification/Logic.thy ===== *)
theory Logic
  imports World
begin

text \<open>
  Proof rules for computations over the world. A live world has no scheduled edits and a
  privileged process; in a quiet one (\<open>q\<close>) every system call runs and the random names to come are
  unused. \<open>hoare q P m Q E C\<close> bounds what \<open>m\<close> can do to the disk: \<open>Q\<close> after it returns, \<open>E\<close>
  after an error, \<open>C\<close> if the process dies inside. \<open>ro m\<close> says that \<open>m\<close> only reads, and
  \<open>pure m d\<close> is what it returns on disk \<open>d\<close> when nothing fails.
\<close>

section \<open>Live worlds\<close>

fun is_edit :: "event \<Rightarrow> bool" where
  "is_edit (Edit p n) = True"
| "is_edit (EditServices s) = True"
| "is_edit _ = False"

definition calm :: "world \<Rightarrow> bool" where
  "calm w \<longleftrightarrow> (\<forall>e\<in>set (w_sched w). \<not> is_edit e)"

definition tmp_base :: "string \<Rightarrow> string" where
  "tmp_base i = ''.awm-'' @ i @ ''.tmp''"

definition tree_keys :: "disk \<Rightarrow> string set" where
  "tree_keys d = {p. \<exists>r t. get_tree r d = Some t \<and> p |\<in>| fmdom (t_nodes t)}"

text \<open>The names of staged files that exist.\<close>

definition temps :: "disk \<Rightarrow> string set" where
  "temps d = {p \<in> tree_keys d. suffix ''.tmp'' p}"

definition nth_id :: "world \<Rightarrow> nat \<Rightarrow> string" where
  "nth_id w n = randomID (random_bytes w n)"

definition unused :: "world \<Rightarrow> bool" where
  "unused w \<longleftrightarrow> inj_on (nth_id w) {w_tick w..<w_limit w} \<and>
     (\<forall>n\<in>{w_tick w..<w_limit w}. \<forall>p\<in>temps (w_disk w). \<not> suffix (tmp_base (nth_id w n)) p)"

text \<open>A bus on which systemd's jobs finish and the daemon is up.\<close>

fun good_reply :: "bus_call \<Rightarrow> reply \<Rightarrow> bool" where
  "good_reply (UnitJob m u) r = (r = ReplyJob ''done'')"
| "good_reply (UnitProps u) r =
     (case r of ReplyProps p \<Rightarrow> fmlookup p ''ActiveState'' = Some ''active'' | _ \<Rightarrow> False)"
| "good_reply (AvahiCall m) r =
     (if m = ''GetState'' then r = ReplyInt 2 else (case r of ReplyText _ \<Rightarrow> True | _ \<Rightarrow> False))"
| "good_reply Select r = True"
| "good_reply _ r = (r = ReplyOk)"

definition obliging :: "bus \<Rightarrow> bool" where
  "obliging b \<longleftrightarrow> (\<forall>cs c. good_reply c (b_answer b cs c))"

definition live :: "bool \<Rightarrow> world \<Rightarrow> bool" where
  "live q w \<longleftrightarrow> calm w \<and> w_euid w = 0 \<and> w_egid w = 0 \<and> (q \<longrightarrow> w_sched w = [] \<and> unused w \<and> obliging (w_bus w))"

section \<open>Triples\<close>

definition post :: "bool \<Rightarrow> ('a \<Rightarrow> disk \<Rightarrow> bool) \<Rightarrow> (error \<Rightarrow> disk \<Rightarrow> bool) \<Rightarrow> (disk \<Rightarrow> bool)
    \<Rightarrow> 'a outcome \<times> world \<Rightarrow> bool" where
  "post q Q E C r \<longleftrightarrow> live q (snd r) \<and>
     (case fst r of
        Done x \<Rightarrow> Q x (w_disk (snd r))
      | Failed e \<Rightarrow> E e (w_disk (snd r))
      | Crashed \<Rightarrow> (q \<longrightarrow> w_limit (snd r) \<le> w_tick (snd r)) \<and> C (w_disk (snd r)))"

definition hoare :: "bool \<Rightarrow> (disk \<Rightarrow> bool) \<Rightarrow> 'a io \<Rightarrow> ('a \<Rightarrow> disk \<Rightarrow> bool)
    \<Rightarrow> (error \<Rightarrow> disk \<Rightarrow> bool) \<Rightarrow> (disk \<Rightarrow> bool) \<Rightarrow> bool" where
  "hoare q P m Q E C \<longleftrightarrow> (\<forall>w. live q w \<longrightarrow> P (w_disk w) \<longrightarrow> post q Q E C (m w))"

named_theorems hoare_rules

lemma post_simps [simp]:
  "post q Q E C (Done x, w) \<longleftrightarrow> live q w \<and> Q x (w_disk w)"
  "post q Q E C (Failed e, w) \<longleftrightarrow> live q w \<and> E e (w_disk w)"
  "post q Q E C (Crashed, w) \<longleftrightarrow> live q w \<and> (q \<longrightarrow> w_limit w \<le> w_tick w) \<and> C (w_disk w)"
  by (simp_all add: post_def)

lemma hoareD: "hoare q P m Q E C \<Longrightarrow> live q w \<Longrightarrow> P (w_disk w) \<Longrightarrow> post q Q E C (m w)"
  by (simp add: hoare_def)

lemma hoare_conseq:
  assumes "hoare q P m Q E C"
    and "\<And>d. P' d \<Longrightarrow> P d" "\<And>x d. Q x d \<Longrightarrow> Q' x d" "\<And>e d. E e d \<Longrightarrow> E' e d"
    and "\<And>d. C d \<Longrightarrow> C' d"
  shows "hoare q P' m Q' E' C'"
  unfolding hoare_def
proof (intro allI impI)
  fix w assume "live q w" "P' (w_disk w)"
  then have "post q Q E C (m w)" using assms(1,2) by (simp add: hoare_def)
  then show "post q Q' E' C' (m w)" using assms(3-5) by (auto simp: post_def split: outcome.splits)
qed

lemma hoare_pre: "hoare q P m Q E C \<Longrightarrow> (\<And>d. P' d \<Longrightarrow> P d) \<Longrightarrow> hoare q P' m Q E C"
  unfolding hoare_def by blast

lemma hoare_false [simp]: "hoare q (\<lambda>_. False) m Q E C"
  by (simp add: hoare_def)

text \<open>A precondition that fixes the disk.\<close>

lemma hoare_fix: "(\<And>d0. P d0 \<Longrightarrow> hoare q (\<lambda>d. d = d0) m Q E C) \<Longrightarrow> hoare q P m Q E C"
  by (simp add: hoare_def)

lemma hoare_imp: "(b \<Longrightarrow> hoare q P m Q E C) \<Longrightarrow> hoare q (\<lambda>d. b \<and> P d) m Q E C"
  by (simp add: hoare_def)

lemma hoare_return: "hoare q (Q x) (return x) Q E C"
  by (simp add: hoare_def return_def)

lemma hoare_fail: "hoare q (E e) (fail e) Q E C"
  by (simp add: hoare_def fail_def)

lemma post_bind:
  assumes "post q R E C (m w)" "\<And>x. hoare q (R x) (k x) Q E C"
  shows "post q Q E C (bind_io m k w)"
proof (cases "m w")
  case (Pair o' w')
  then show ?thesis
    using assms by (cases o') (auto simp: bind_io_def hoare_def)
qed

lemma hoare_bind:
  assumes "hoare q P m R E C" "\<And>x. hoare q (R x) (k x) Q E C"
  shows "hoare q P (bind_io m k) Q E C"
  using assms post_bind unfolding hoare_def [of q P] by blast

lemma hoare_then:
  assumes "hoare q P m (\<lambda>_. R) E C" "hoare q R k Q E C"
  shows "hoare q P (then_io m k) Q E C"
  unfolding then_io_def using assms by (rule hoare_bind)

lemma hoare_try:
  assumes "hoare q P m (\<lambda>x. Q (Inr x)) (\<lambda>e. Q (Inl e)) C"
  shows "hoare q P (try_io m) Q E C"
  unfolding hoare_def
proof (intro allI impI)
  fix w assume "live q w" "P (w_disk w)"
  then have m: "post q (\<lambda>x. Q (Inr x)) (\<lambda>e. Q (Inl e)) C (m w)" using assms by (simp add: hoare_def)
  then show "post q Q E C (try_io m w)"
    by (cases "m w") (auto simp: try_io_def post_def split: outcome.splits)
qed

lemma hoare_if:
  "(b \<Longrightarrow> hoare q P m Q E C) \<Longrightarrow> (\<not> b \<Longrightarrow> hoare q P n Q E C) \<Longrightarrow> hoare q P (if b then m else n) Q E C"
  by simp

lemma hoare_guard: "hoare q (\<lambda>d. if b then Q () d else E (Msg s) d) (guard_io b s) Q E C"
  by (simp add: hoare_def guard_io_def return_def fail_def)

lemma hoare_lift: "hoare q (\<lambda>d. case r of Inl e \<Rightarrow> E e d | Inr x \<Rightarrow> Q x d) (lift_res r) Q E C"
  by (simp add: hoare_def lift_res_def return_def fail_def split: sum.splits)

lemma hoare_finally:
  assumes "hoare q P m R S C"
    and "\<And>x. hoare q (R x) c (\<lambda>_. Q x) (\<lambda>_. Q x) C"
    and "\<And>e. hoare q (S e) c (\<lambda>_. E e) (\<lambda>_. E e) C"
  shows "hoare q P (finally_io m c) Q E C"
  unfolding finally_io_def
proof (rule hoare_bind [OF hoare_try])
  let ?R = "\<lambda>r. case r of Inl e \<Rightarrow> S e | Inr x \<Rightarrow> R x"
  show "hoare q P m (\<lambda>x. ?R (Inr x)) (\<lambda>e. ?R (Inl e)) C" using assms(1) by simp
  fix r :: "'a result"
  show "hoare q (?R r) (bind_io (try_io c) (\<lambda>_. lift_res r)) Q E C"
  proof (rule hoare_bind [OF hoare_try])
    show "hoare q (?R r) c (\<lambda>_ d. case r of Inl e \<Rightarrow> E e d | Inr x \<Rightarrow> Q x d)
        (\<lambda>_ d. case r of Inl e \<Rightarrow> E e d | Inr x \<Rightarrow> Q x d) C"
      using assms(2,3) by (cases r) simp_all
    show "hoare q (\<lambda>d. case r of Inl e \<Rightarrow> E e d | Inr x \<Rightarrow> Q x d) (lift_res r) Q E C" for x :: "unit result"
      by (rule hoare_lift)
  qed
qed

lemma hoare_cleanup:
  assumes "hoare q P m Q S C" and "\<And>e. hoare q (S e) c (\<lambda>_. E e) (\<lambda>_. E e) C"
  shows "hoare q P (cleanup_io m c) Q E C"
  unfolding cleanup_io_def
proof (rule hoare_bind [OF hoare_try])
  let ?R = "\<lambda>r. case r of Inl e \<Rightarrow> S e | Inr x \<Rightarrow> Q x"
  show "hoare q P m (\<lambda>x. ?R (Inr x)) (\<lambda>e. ?R (Inl e)) C" using assms(1) by simp
  fix r :: "'a result"
  show "hoare q (?R r) (case r of Inr x \<Rightarrow> return x | Inl e \<Rightarrow> bind_io (try_io c) (\<lambda>_. fail e)) Q E C"
  proof (cases r)
    case (Inl e)
    then show ?thesis using assms(2) by (auto intro!: hoare_bind [OF hoare_try] hoare_fail)
  next
    case (Inr x)
    then show ?thesis by (simp add: hoare_return)
  qed
qed

lemma hoare_or_missing:
  assumes "hoare q P m R S C" and "\<And>x. hoare q (R x) (k x) Q E C"
    and "\<And>e. errors_is e ErrNotExist \<Longrightarrow> hoare q (S e) a Q E C"
    and "\<And>e d. \<not> errors_is e ErrNotExist \<Longrightarrow> S e d \<Longrightarrow> E e d"
  shows "hoare q P (or_missing m a k) Q E C"
  unfolding or_missing_def
proof (rule hoare_bind [OF hoare_try])
  let ?R = "\<lambda>r. case r of Inl e \<Rightarrow> S e | Inr x \<Rightarrow> R x"
  show "hoare q P m (\<lambda>x. ?R (Inr x)) (\<lambda>e. ?R (Inl e)) C" using assms(1) by simp
  fix r :: "'a result"
  show "hoare q (?R r) (case r of Inl e \<Rightarrow> if errors_is e ErrNotExist then a else fail e | Inr x \<Rightarrow> k x) Q E C"
  proof (cases r)
    case (Inl e)
    then show ?thesis
      using assms(3,4) by (auto intro: hoare_pre [OF hoare_fail])
  qed (simp add: assms(2))
qed

lemma hoare_join:
  assumes "hoare q P a (\<lambda>_. R) (\<lambda>e. S e) C"
    and "hoare q R b Q E C"
    and "\<And>e. hoare q (S e) b (\<lambda>_. E e) (\<lambda>f. E (Join e f)) C"
  shows "hoare q P (join_io a b) Q E C"
  unfolding join_io_def
proof (rule hoare_bind [OF hoare_try])
  let ?R = "\<lambda>r. case r of Inl e \<Rightarrow> S e | Inr x \<Rightarrow> R"
  show "hoare q P a (\<lambda>x. ?R (Inr x)) (\<lambda>e. ?R (Inl e)) C" using assms(1) by simp
  fix r :: "unit result"
  let ?T = "\<lambda>s. case (r, s) of (Inr _, Inr _) \<Rightarrow> Q () | (Inl e, Inr _) \<Rightarrow> E e
    | (Inr _, Inl e) \<Rightarrow> E e | (Inl e, Inl f) \<Rightarrow> E (Join e f)"
  show "hoare q (?R r) (bind_io (try_io b) (\<lambda>s. case (r, s) of
      (Inr _, Inr _) \<Rightarrow> return () | (Inl e, Inr _) \<Rightarrow> fail e
    | (Inr _, Inl e) \<Rightarrow> fail e | (Inl e, Inl f) \<Rightarrow> fail (Join e f))) Q E C"
  proof (rule hoare_bind [OF hoare_try])
    show "hoare q (?R r) b (\<lambda>x. ?T (Inr x)) (\<lambda>e. ?T (Inl e)) C"
      using assms(2,3) by (cases r) simp_all
    show "hoare q (?T s) (case (r, s) of
      (Inr _, Inr _) \<Rightarrow> return () | (Inl e, Inr _) \<Rightarrow> fail e
    | (Inr _, Inl e) \<Rightarrow> fail e | (Inl e, Inl f) \<Rightarrow> fail (Join e f)) Q E C" for s
      by (cases r; cases s) (simp_all add: hoare_fail hoare_return)
  qed
qed

text \<open>A loop with an invariant over the part of the list that is done.\<close>

lemma hoare_for:
  assumes "\<And>ys x zs. xs = ys @ x # zs \<Longrightarrow> hoare q (I ys) (f x) (\<lambda>_. I (ys @ [x])) E C"
  shows "hoare q (I []) (for_io f xs) (\<lambda>_. I xs) E C"
proof -
  have "xs = ys @ zs \<Longrightarrow> hoare q (I ys) (for_io f zs) (\<lambda>_. I xs) E C" for ys zs
  proof (induction zs arbitrary: ys)
    case (Cons z zs)
    then show ?case
      using assms [of ys z zs] by (auto intro!: hoare_then)
  qed (auto intro: hoare_return)
  from this [of "[]" xs] show ?thesis by simp
qed

lemma hoare_for_inv:
  "(\<And>x. x \<in> set xs \<Longrightarrow> hoare q I (f x) (\<lambda>_. I) E C) \<Longrightarrow> hoare q I (for_io f xs) (\<lambda>_. I) E C"
  using hoare_for [of xs q "\<lambda>_. I" f E C] by auto

section \<open>System calls\<close>

lemma set_tl: "x \<in> set (tl xs) \<Longrightarrow> x \<in> set xs"
  by (cases xs) auto

lemma sys_call_calm:
  "\<forall>e\<in>set es. \<not> is_edit e \<Longrightarrow> w_sched w = es \<Longrightarrow>
   sys_call es f w =
     (case es of
        Fails # es' \<Rightarrow> (Failed Fault, w\<lparr>w_sched := es'\<rparr>)
      | Dies # es' \<Rightarrow> (Crashed, w\<lparr>w_sched := es'\<rparr>)
      | _ \<Rightarrow> (case f (w_disk w) of
          (Inl e, d) \<Rightarrow> (Failed e, w\<lparr>w_disk := d, w_sched := tl es\<rparr>)
        | (Inr x, d) \<Rightarrow> (Done x, w\<lparr>w_disk := d, w_sched := tl es\<rparr>)))"
  by (cases "(es, f, w)" rule: sys_call.cases) (auto split: prod.splits sum.splits)

lemma live_step:
  "live q w \<Longrightarrow> temps d \<subseteq> temps (w_disk w) \<Longrightarrow> live q (w\<lparr>w_disk := d, w_sched := tl (w_sched w)\<rparr>)"
  unfolding live_def calm_def unused_def nth_id_def random_bytes_def
  by (auto dest: set_tl)

lemma live_sched: "live q w \<Longrightarrow> live q (w\<lparr>w_sched := tl (w_sched w)\<rparr>)"
  unfolding live_def calm_def unused_def nth_id_def random_bytes_def
  by (auto dest: set_tl)

text \<open>The rule of a system call: fault, death, and the call's own result.\<close>

lemma hoare_sys:
  assumes "\<And>d. P d \<Longrightarrow> temps (snd (f d)) \<subseteq> temps d"
    and "\<And>d. P d \<Longrightarrow> \<not> q \<Longrightarrow> E Fault d \<and> C d"
    and "\<And>d. P d \<Longrightarrow> (case fst (f d) of Inl e \<Rightarrow> E e (snd (f d)) | Inr x \<Rightarrow> Q x (snd (f d)))"
  shows "hoare q P (sys f) Q E C"
  unfolding hoare_def
proof (intro allI impI)
  fix w assume w: "live q w" "P (w_disk w)"
  let ?d = "snd (f (w_disk w))" and ?es = "w_sched w"
  have calm: "\<forall>e\<in>set ?es. \<not> is_edit e" and q: "q \<Longrightarrow> ?es = []" using w(1) by (auto simp: live_def calm_def)
  have l: "live q (w\<lparr>w_disk := ?d, w_sched := tl ?es\<rparr>)" "live q (w\<lparr>w_sched := tl ?es\<rparr>)"
    using live_step live_sched w assms(1) by blast+
  have r: "case fst (f (w_disk w)) of Inl e \<Rightarrow> E e ?d | Inr x \<Rightarrow> Q x ?d" using assms(3) w(2) by blast
  have run: "post q Q E C (case f (w_disk w) of
          (Inl e, d) \<Rightarrow> (Failed e, w\<lparr>w_disk := d, w_sched := tl ?es\<rparr>)
        | (Inr x, d) \<Rightarrow> (Done x, w\<lparr>w_disk := d, w_sched := tl ?es\<rparr>))"
    using l(1) r by (cases "f (w_disk w)") (auto split: sum.splits)
  have "\<not> q \<Longrightarrow> E Fault (w_disk w) \<and> C (w_disk w)" using assms(2) w(2) by blast
  then show "post q Q E C (sys f w)"
    unfolding sys_def sys_call_calm [OF calm refl]
    using run q l(2) by (cases ?es) (auto split: event.splits)
qed

section \<open>Computations that only read\<close>

definition still :: "disk \<Rightarrow> world" where
  "still d = \<lparr>w_disk = d, w_sched = [], w_euid = 0, w_egid = 0, w_rand = (\<lambda>_ _. 0), w_clock = (\<lambda>_. 0),
     w_tick = 0, w_limit = 0, w_bus = \<lparr>b_calls = [], b_answer = (\<lambda>_ _. ReplyOk)\<rparr>, w_writes = []\<rparr>"

definition pure :: "'a io \<Rightarrow> disk \<Rightarrow> 'a outcome" where
  "pure m d = fst (m (still d))"

definition faulted :: "'a outcome \<Rightarrow> bool" where
  "faulted r \<longleftrightarrow> r = Failed Fault \<or> r = Crashed"

definition ro :: "'a io \<Rightarrow> bool" where
  "ro m \<longleftrightarrow> (\<forall>d. pure m d \<noteq> Crashed) \<and>
     (\<forall>w. calm w \<longrightarrow> (\<exists>s. set s \<subseteq> set (w_sched w) \<and> snd (m w) = w\<lparr>w_sched := s\<rparr> \<and>
        (fst (m w) = pure m (w_disk w) \<or> w_sched w \<noteq> [] \<and> faulted (fst (m w)))))"

named_theorems ro_rules

lemma still_simps [simp]:
  "w_disk (still d) = d" "w_sched (still d) = []" "calm (still d)"
  by (simp_all add: still_def calm_def)

lemma roD:
  assumes "ro m" "calm w"
  obtains s where "set s \<subseteq> set (w_sched w)" "snd (m w) = w\<lparr>w_sched := s\<rparr>"
    "fst (m w) = pure m (w_disk w) \<or> w_sched w \<noteq> [] \<and> faulted (fst (m w))"
  using assms unfolding ro_def by blast

lemma ro_still: "ro m \<Longrightarrow> m (still d) = (pure m d, still d)"
proof -
  assume "ro m"
  then obtain s where s: "set s \<subseteq> set (w_sched (still d))" "snd (m (still d)) = (still d)\<lparr>w_sched := s\<rparr>"
    using roD [of m "still d"] by auto
  then have "snd (m (still d)) = still d" by (simp add: still_def)
  then show ?thesis by (simp add: pure_def prod_eq_iff)
qed

lemma ro_not_crashed: "ro m \<Longrightarrow> pure m d \<noteq> Crashed"
  by (simp add: ro_def)

lemma pure_return [simp]: "pure (return x) d = Done x"
  by (simp add: pure_def return_def)

lemma pure_fail [simp]: "pure (fail e) d = Failed e"
  by (simp add: pure_def fail_def)

lemma pure_bind:
  "ro m \<Longrightarrow> pure (bind_io m k) d =
     (case pure m d of Done x \<Rightarrow> pure (k x) d | Failed e \<Rightarrow> Failed e | Crashed \<Rightarrow> Crashed)"
  unfolding pure_def [of "bind_io m k"]
  by (cases "pure m d") (simp_all add: bind_io_def ro_still, simp add: pure_def)

lemma pure_then:
  "ro m \<Longrightarrow> pure (then_io m k) d =
     (case pure m d of Done x \<Rightarrow> pure k d | Failed e \<Rightarrow> Failed e | Crashed \<Rightarrow> Crashed)"
  by (simp add: then_io_def pure_bind)

lemma pure_or_missing:
  "ro m \<Longrightarrow> pure (or_missing m a k) d =
     (case pure m d of
        Done x \<Rightarrow> pure (k x) d
      | Failed e \<Rightarrow> if errors_is e ErrNotExist then pure a d else Failed e
      | Crashed \<Rightarrow> Crashed)"
  unfolding pure_def [of "or_missing m a k"]
  by (cases "pure m d")
    (simp_all add: or_missing_def bind_io_def try_io_def ro_still fail_def, simp_all add: pure_def)

lemma pure_guard [simp]: "pure (guard_io b s) d = (if b then Done () else Failed (Msg s))"
  by (simp add: guard_io_def)

lemma pure_lift [simp]: "pure (lift_res r) d = (case r of Inl e \<Rightarrow> Failed e | Inr x \<Rightarrow> Done x)"
  by (simp add: lift_res_def split: sum.splits)

lemma pure_sys: "pure (sys f) d = (case fst (f d) of Inl e \<Rightarrow> Failed e | Inr x \<Rightarrow> Done x)"
  by (simp add: pure_def sys_def split: prod.splits sum.splits)

lemma ro_const: "(\<And>w. m w = (r, w)) \<Longrightarrow> r \<noteq> Crashed \<Longrightarrow> ro m"
  unfolding ro_def pure_def by (metis (no_types) fst_conv snd_conv order_refl world.surjective world.update_convs(2))

lemma ro_return [ro_rules]: "ro (return x)"
  by (rule ro_const [of _ "Done x"]) (simp_all add: return_def)

lemma ro_fail [ro_rules]: "ro (fail e)"
  by (rule ro_const [of _ "Failed e"]) (simp_all add: fail_def)

lemma ro_guard [ro_rules]: "ro (guard_io b s)"
  by (simp add: guard_io_def ro_return ro_fail)

lemma ro_lift [ro_rules]: "ro (lift_res r)"
  by (simp add: lift_res_def ro_return ro_fail split: sum.splits)

lemma ro_sys [ro_rules]: "(\<And>d. snd (f d) = d) \<Longrightarrow> ro (sys f)"
proof -
  assume f: "\<And>d. snd (f d) = d"
  have "\<exists>s. set s \<subseteq> set (w_sched w) \<and> snd (sys f w) = w\<lparr>w_sched := s\<rparr> \<and>
        (fst (sys f w) = pure (sys f) (w_disk w) \<or> w_sched w \<noteq> [] \<and> faulted (fst (sys f w)))"
    if "calm w" for w
  proof -
    have calm: "\<forall>e\<in>set (w_sched w). \<not> is_edit e" using that by (simp add: calm_def)
    have d: "snd (f (w_disk w)) = w_disk w" by (rule f)
    show ?thesis
      unfolding pure_sys unfolding sys_def sys_call_calm [OF calm refl]
      by (rule exI [of _ "tl (w_sched w)"], cases "f (w_disk w)", cases "w_sched w")
        (use d in \<open>auto simp: faulted_def set_tl split: event.splits sum.splits\<close>)
  qed
  moreover have "pure (sys f) d \<noteq> Crashed" for d by (simp add: pure_sys split: sum.splits)
  ultimately show ?thesis unfolding ro_def by blast
qed

lemma calm_shrink: "calm w \<Longrightarrow> set s \<subseteq> set (w_sched w) \<Longrightarrow> calm (w\<lparr>w_sched := s\<rparr>)"
  by (auto simp: calm_def)

lemma ro_bind [ro_rules]:
  assumes "ro m" "\<And>x. ro (k x)"
  shows "ro (bind_io m k)"
  unfolding ro_def
proof (intro conjI allI impI)
  show "pure (bind_io m k) d \<noteq> Crashed" for d
    using assms ro_not_crashed [OF assms(1), of d] ro_not_crashed [OF assms(2), of _ d]
    by (cases "pure m d") (simp_all add: pure_bind)
  fix w assume w: "calm w"
  obtain s where s: "set s \<subseteq> set (w_sched w)" "snd (m w) = w\<lparr>w_sched := s\<rparr>"
      "fst (m w) = pure m (w_disk w) \<or> w_sched w \<noteq> [] \<and> faulted (fst (m w))"
    using roD [OF assms(1) w] .
  show "\<exists>s. set s \<subseteq> set (w_sched w) \<and> snd (bind_io m k w) = w\<lparr>w_sched := s\<rparr> \<and>
      (fst (bind_io m k w) = pure (bind_io m k) (w_disk w) \<or>
       w_sched w \<noteq> [] \<and> faulted (fst (bind_io m k w)))"
  proof (cases "fst (m w)")
    case (Done x)
    then have p: "pure m (w_disk w) = Done x" using s(3) by (auto simp: faulted_def)
    have e: "bind_io m k w = k x (w\<lparr>w_sched := s\<rparr>)"
      using Done s(2) by (cases "m w") (simp add: bind_io_def)
    obtain s' where s': "set s' \<subseteq> set s" "snd (k x (w\<lparr>w_sched := s\<rparr>)) = w\<lparr>w_sched := s'\<rparr>"
      "fst (k x (w\<lparr>w_sched := s\<rparr>)) = pure (k x) (w_disk w) \<or> s \<noteq> [] \<and> faulted (fst (k x (w\<lparr>w_sched := s\<rparr>)))"
      using roD [OF assms(2) [of x] calm_shrink [OF w s(1)]] by auto
    show ?thesis
      unfolding e pure_bind [OF assms(1)] p using s(1) s' by (intro exI [of _ s']) auto
  next
    case (Failed e)
    then have "bind_io m k w = (Failed e, w\<lparr>w_sched := s\<rparr>)"
      using s(2) by (cases "m w") (simp add: bind_io_def)
    moreover have "pure (bind_io m k) (w_disk w) = Failed e" if "pure m (w_disk w) = Failed e"
      using that by (simp add: pure_bind [OF assms(1)])
    ultimately show ?thesis
      using s Failed by (intro exI [of _ s]) (auto simp: faulted_def)
  next
    case Crashed
    then have "bind_io m k w = (Crashed, w\<lparr>w_sched := s\<rparr>)"
      using s(2) by (cases "m w") (simp add: bind_io_def)
    then show ?thesis
      using s Crashed ro_not_crashed [OF assms(1), of "w_disk w"] by (intro exI [of _ s]) (auto simp: faulted_def)
  qed
qed

lemma ro_then [ro_rules]: "ro m \<Longrightarrow> ro k \<Longrightarrow> ro (then_io m k)"
  by (simp add: then_io_def ro_bind)

lemma ro_or_missing [ro_rules]:
  assumes "ro m" "\<And>x. ro (k x)" "ro a"
  shows "ro (or_missing m a k)"
  unfolding ro_def
proof (intro conjI allI impI)
  show "pure (or_missing m a k) d \<noteq> Crashed" for d
    using assms ro_not_crashed [OF assms(1), of d] ro_not_crashed [OF assms(2), of _ d]
      ro_not_crashed [OF assms(3), of d]
    by (cases "pure m d") (simp_all add: pure_or_missing)
  fix w assume w: "calm w"
  obtain s where s: "set s \<subseteq> set (w_sched w)" "snd (m w) = w\<lparr>w_sched := s\<rparr>"
      "fst (m w) = pure m (w_disk w) \<or> w_sched w \<noteq> [] \<and> faulted (fst (m w))"
    using roD [OF assms(1) w] .
  have run: "or_missing m a k w =
      (case fst (m w) of
         Done x \<Rightarrow> k x (w\<lparr>w_sched := s\<rparr>)
       | Failed e \<Rightarrow> if errors_is e ErrNotExist then a (w\<lparr>w_sched := s\<rparr>) else (Failed e, w\<lparr>w_sched := s\<rparr>)
       | Crashed \<Rightarrow> (Crashed, w\<lparr>w_sched := s\<rparr>))"
    using s(2) by (cases "m w")
      (simp add: or_missing_def bind_io_def try_io_def fail_def split: outcome.splits)
  have step: "\<exists>s'. set s' \<subseteq> set (w_sched w) \<and> snd (n (w\<lparr>w_sched := s\<rparr>)) = w\<lparr>w_sched := s'\<rparr> \<and>
      (fst (n (w\<lparr>w_sched := s\<rparr>)) = pure n (w_disk w) \<or>
       w_sched w \<noteq> [] \<and> faulted (fst (n (w\<lparr>w_sched := s\<rparr>))))" if n: "ro n" for n :: "'b io"
  proof -
    obtain s' where "set s' \<subseteq> set s" "snd (n (w\<lparr>w_sched := s\<rparr>)) = w\<lparr>w_sched := s'\<rparr>"
      "fst (n (w\<lparr>w_sched := s\<rparr>)) = pure n (w_disk w) \<or> s \<noteq> [] \<and> faulted (fst (n (w\<lparr>w_sched := s\<rparr>)))"
      using roD [OF n calm_shrink [OF w s(1)]] by auto
    then show ?thesis using s(1) by (intro exI [of _ s']) auto
  qed
  show "\<exists>s. set s \<subseteq> set (w_sched w) \<and> snd (or_missing m a k w) = w\<lparr>w_sched := s\<rparr> \<and>
      (fst (or_missing m a k w) = pure (or_missing m a k) (w_disk w) \<or>
       w_sched w \<noteq> [] \<and> faulted (fst (or_missing m a k w)))"
  proof (cases "fst (m w)")
    case (Done x)
    then have "pure m (w_disk w) = Done x" using s(3) by (auto simp: faulted_def)
    then show ?thesis using step [OF assms(2) [of x]] Done unfolding run pure_or_missing [OF assms(1)] by simp
  next
    case (Failed e)
    then consider "pure m (w_disk w) = Failed e" | "e = Fault" "w_sched w \<noteq> []"
      using s(3) by (auto simp: faulted_def)
    then show ?thesis
    proof cases
      case 1
      then show ?thesis
        using step [OF assms(3)] Failed s(1) unfolding run pure_or_missing [OF assms(1)]
        by (cases "errors_is e ErrNotExist") auto
    next
      case 2
      then show ?thesis using Failed s(1) unfolding run by (intro exI [of _ s]) (auto simp: faulted_def)
    qed
  next
    case Crashed
    then show ?thesis using s ro_not_crashed [OF assms(1), of "w_disk w"] unfolding run
      by (intro exI [of _ s]) (auto simp: faulted_def)
  qed
qed

lemma live_shrink: "live q w \<Longrightarrow> set s \<subseteq> set (w_sched w) \<Longrightarrow> live q (w\<lparr>w_sched := s\<rparr>)"
  unfolding live_def calm_def unused_def nth_id_def random_bytes_def by auto

lemma hoare_ro:
  assumes "ro m"
    and "\<And>d x. P d \<Longrightarrow> pure m d = Done x \<Longrightarrow> Q x d"
    and "\<And>d e. P d \<Longrightarrow> pure m d = Failed e \<Longrightarrow> E e d"
    and "\<And>d. P d \<Longrightarrow> \<not> q \<Longrightarrow> E Fault d \<and> C d"
  shows "hoare q P m Q E C"
  unfolding hoare_def
proof (intro allI impI)
  fix w assume w: "live q w" "P (w_disk w)"
  have "calm w" using w by (simp add: live_def)
  then obtain s where s: "set s \<subseteq> set (w_sched w)" "snd (m w) = w\<lparr>w_sched := s\<rparr>"
      "fst (m w) = pure m (w_disk w) \<or> w_sched w \<noteq> [] \<and> faulted (fst (m w))"
    using roD [OF assms(1)] by blast
  have l: "live q (w\<lparr>w_sched := s\<rparr>)" using live_shrink w(1) s(1) by blast
  have q: "w_sched w \<noteq> [] \<Longrightarrow> \<not> q" using w(1) by (auto simp: live_def)
  show "post q Q E C (m w)"
    using s(3)
  proof
    assume "fst (m w) = pure m (w_disk w)"
    then show ?thesis
      using s(2) l assms(2,3) w(2) ro_not_crashed [OF assms(1), of "w_disk w"]
      by (cases "pure m (w_disk w)") (auto simp: post_def)
  next
    assume "w_sched w \<noteq> [] \<and> faulted (fst (m w))"
    then show ?thesis using s(2) l q assms(4) w(2) by (auto simp: post_def faulted_def)
  qed
qed

end
