(* ===== verification/StoreLaws.thy ===== *)
theory StoreLaws
  imports Store Logic
begin

text \<open>
  What the operations of the store do to the disk, for every schedule of failures: which
  operations only read and what they read, how staging and renaming change one file, and
  what snapshots and their loading guarantee.
\<close>

section \<open>The operations that only read\<close>

lemma put_get: "get_tree r d = Some t \<Longrightarrow> put_tree r t d = d"
  by (cases r) (auto intro!: disk.equality fmap_ext)

lemma snd_in_tree [simp]: "(\<And>t. snd (f t) = t) \<Longrightarrow> snd (in_tree r f d) = d"
  by (auto simp: in_tree_def put_get split: option.splits prod.splits dest: arg_cong [where f = snd])

lemma pure_in_tree:
  "(\<And>t. snd (f t) = t) \<Longrightarrow> pure (sys (in_tree r f)) d =
     (case get_tree r d of
        None \<Rightarrow> Failed ErrNotExist
      | Some t \<Rightarrow> (case fst (f t) of Inl e \<Rightarrow> Failed e | Inr x \<Rightarrow> Done x))"
  by (simp add: pure_sys in_tree_def split: option.splits prod.splits)

lemma ro_calls [ro_rules]:
  "ro (io_lstat r p)" "ro (io_open r p)" "ro (io_fread n)" "ro io_flush" "ro (io_services r)"
  "ro (io_readdir r)" "ro (io_open_snap i)" "ro (io_lstat_snap i)" "ro io_list_snaps"
  unfolding io_lstat_def io_open_def io_fread_def io_flush_def io_services_def io_readdir_def
    io_open_snap_def io_lstat_snap_def io_list_snaps_def
  by (auto intro!: ro_sys)

lemma ro_readNode [ro_rules]: "ro (readNode r p)"
  unfolding readNode_def by (intro ro_rules)

lemma ro_prod [ro_rules]: "(\<And>a b. ro (k a b)) \<Longrightarrow> ro (case x of (a, b) \<Rightarrow> k a b)"
  by (cases x) simp

lemma ro_readFile [ro_rules]: "ro (readFile r p)"
  unfolding readFile_def by (intro ro_rules)

lemma ro_readDoc [ro_rules]: "ro (readDoc r p)"
  unfolding readDoc_def by (auto intro!: ro_rules split: content.split)

lemma ro_read_files [ro_rules]: "ro (read_files ps n im)"
  by (induction ps n im rule: read_files.induct) (auto intro!: ro_rules)

lemma ro_list_services [ro_rules]: "ro list_services"
  unfolding list_services_def by (intro ro_rules)

lemma ro_read [ro_rules]: "ro read"
  unfolding read_def by (intro ro_rules)

lemma ro_load_files [ro_rules]: "ro (load_files i m ps n im)"
  by (induction i m ps n im rule: load_files.induct) (auto intro!: ro_rules split: option.split)

lemma ro_loadSnapshot [ro_rules]: "ro (loadSnapshot i)"
  unfolding loadSnapshot_def by (auto intro!: ro_rules split: doc.split)

lemma ro_load_all [ro_rules]: "ro (load_all is)"
  by (induction "is") (auto intro!: ro_rules)

lemma ro_snapshots [ro_rules]: "ro snapshots"
  unfolding snapshots_def by (intro ro_rules)

lemma ro_baselineID [ro_rules]: "ro baselineID"
  unfolding baselineID_def by (auto intro!: ro_rules split: content.split doc.split)

lemma ro_noPending [ro_rules]: "ro noPending"
  unfolding noPending_def by (intro ro_rules)

lemma pure_readNode:
  "pure (readNode r p) d =
     (case get_tree r d of
        None \<Rightarrow> Failed ErrNotExist
      | Some t \<Rightarrow> (case look p t of
          Inl e \<Rightarrow> Failed e
        | Inr n \<Rightarrow> if \<not> is_regular n then Failed (Msg ''must be a regular file (symlinks are not managed)'')
            else case opened_file n of Inl e \<Rightarrow> Failed e | Inr x \<Rightarrow> Done x))"
proof -
  have f: "pure (io_fread n) d = Done n" for n by (simp add: io_fread_def pure_sys)
  have l: "pure (io_lstat r p) d = (case get_tree r d of None \<Rightarrow> Failed ErrNotExist
      | Some t \<Rightarrow> (case look p t of Inl e \<Rightarrow> Failed e | Inr n \<Rightarrow> Done n))"
    by (simp add: io_lstat_def pure_in_tree split: option.split)
  have o': "pure (io_open r p) d = (case get_tree r d of None \<Rightarrow> Failed ErrNotExist
      | Some t \<Rightarrow> (case look p t of Inl e \<Rightarrow> Failed e | Inr Special \<Rightarrow> Failed Fault | Inr n \<Rightarrow> Done n))"
    by (auto simp: io_open_def pure_in_tree split: option.split sum.split node.split)
  show ?thesis
    unfolding readNode_def
    by (auto simp: pure_bind pure_then ro_rules f l o' split: option.split sum.split node.split)
qed

lemma pure_readFile:
  "pure (readFile r p) d = (case pure (readNode r p) d of Done (c, f) \<Rightarrow> Done f | Failed e \<Rightarrow> Failed e | Crashed \<Rightarrow> Crashed)"
  unfolding readFile_def by (auto simp: pure_bind ro_rules split: outcome.split)

section \<open>What reading the configuration gives\<close>

definition service_key :: "string \<Rightarrow> bool" where
  "service_key p \<longleftrightarrow> prefix ''services/'' p \<and> suffix ''.service'' (drop 9 p)"

definition config_path :: "string \<Rightarrow> bool" where
  "config_path p \<longleftrightarrow> p = conf_path \<or> p = hosts_path \<or> service_key p"

definition wf_tree :: "tree \<Rightarrow> bool" where
  "wf_tree t \<longleftrightarrow> (\<forall>p. p |\<in>| fmdom (t_nodes t) \<longrightarrow>
     path_clean p = p \<and> (prefix ''services/'' p \<longrightarrow> t_services t = IsDir))"

definition cfg :: "tree \<Rightarrow> string \<Rightarrow> cfile option" where
  "cfg t p =
     (if config_path p then
        (case fmlookup (t_nodes t) p of
           None \<Rightarrow> None
         | Some n \<Rightarrow> (case opened_file n of Inl _ \<Rightarrow> None | Inr (c, f) \<Rightarrow> Some f))
      else None)"

definition readable :: "tree \<Rightarrow> bool" where
  "readable t \<longleftrightarrow> t_services t \<noteq> NotDir \<and>
     (\<forall>p n. config_path p \<longrightarrow> fmlookup (t_nodes t) p = Some n \<longrightarrow> is_ok (opened_file n))"

lemma opened_regular: "is_ok (opened_file n) \<Longrightarrow> is_regular n"
  by (cases n) (auto simp: opened_file_def)

lemma opened_error: "opened_file n = Inl e \<Longrightarrow> \<not> errors_is e ErrNotExist"
  by (auto simp: opened_file_def split: node.splits if_splits)

lemma wf_look:
  assumes "wf_tree t" "path_clean p = p"
  shows "look p t = (case fmlookup (t_nodes t) p of Some n \<Rightarrow> Inr n
     | None \<Rightarrow> Inl (case parent_error t p of Some e \<Rightarrow> e | None \<Rightarrow> ErrNotExist))"
proof (cases "fmlookup (t_nodes t) p")
  case None
  then show ?thesis using assms(2) by (simp add: look_def split: option.split)
next
  case (Some n)
  then have "prefix ''services/'' p \<longrightarrow> t_services t = IsDir"
    using assms(1) unfolding wf_tree_def by (metis fmdomI)
  then show ?thesis using Some assms(2) by (auto simp: look_def parent_error_def)
qed

text \<open>A path that the reader visits: one of the two files or an entry of \<open>services\<close>.\<close>

definition visited :: "tree \<Rightarrow> string \<Rightarrow> bool" where
  "visited t p \<longleftrightarrow> p = conf_path \<or> p = hosts_path \<or> service_key p \<and> p |\<in>| fmdom (t_nodes t)"

lemma not_services_conf: "\<not> prefix ''services/'' conf_path" "\<not> prefix ''services/'' hosts_path"
  by (simp_all add: conf_path_def hosts_path_def)

lemma readFile_visited:
  assumes "wf_tree (d_conf d)" "visited (d_conf d) p"
  shows "pure (readFile Conf p) d =
     (case fmlookup (t_nodes (d_conf d)) p of
        None \<Rightarrow> Failed ErrNotExist
      | Some n \<Rightarrow> if \<not> is_regular n then Failed (Msg ''must be a regular file (symlinks are not managed)'')
          else case opened_file n of Inl e \<Rightarrow> Failed e | Inr (c, f) \<Rightarrow> Done f)"
proof -
  have c: "path_clean p = p"
    using assms clean_conf_hosts by (auto simp: visited_def wf_tree_def)
  have "fmlookup (t_nodes (d_conf d)) p = None \<Longrightarrow> parent_error (d_conf d) p = None"
    using assms(2) not_services_conf by (auto simp: visited_def parent_error_def fmdomI fmdom_notI)
  then show ?thesis
    by (auto simp: pure_readFile pure_readNode wf_look [OF assms(1) c] split: option.split sum.split)
qed

definition csize :: "tree \<Rightarrow> string \<Rightarrow> nat" where
  "csize t p = (case cfg t p of None \<Rightarrow> 0 | Some f \<Rightarrow> length (f_data f))"

lemma visited_config: "visited t p \<Longrightarrow> config_path p"
  by (auto simp: visited_def config_path_def)

lemma pure_read_files:
  assumes "wf_tree (d_conf d)"
  shows "(\<forall>p\<in>set ps. visited (d_conf d) p) \<Longrightarrow> acc \<le> MaxTotalSize \<Longrightarrow>
    pure (read_files ps acc im) d = Done im' \<longleftrightarrow>
      (\<forall>p\<in>set ps. \<forall>n. fmlookup (t_nodes (d_conf d)) p = Some n \<longrightarrow> is_ok (opened_file n)) \<and>
      acc + (\<Sum>p\<leftarrow>ps. csize (d_conf d) p) \<le> MaxTotalSize \<and>
      im' = foldl (\<lambda>im p. case cfg (d_conf d) p of None \<Rightarrow> im | Some f \<Rightarrow> fmupd p f im) im ps"
proof (induction ps arbitrary: acc im)
  case (Cons p ps)
  let ?n = "fmlookup (t_nodes (d_conf d)) p"
  have vis: "visited (d_conf d) p" and cp: "config_path p"
    using Cons.prems visited_config by auto
  have unfold: "pure (read_files (p # ps) acc im) d =
      (case pure (readFile Conf p) d of
         Done f \<Rightarrow> pure (if acc + length (f_data f) > MaxTotalSize then fail (Msg ''configuration exceeds total size limit'')
            else read_files ps (acc + length (f_data f)) (fmupd p f im)) d
       | Failed e \<Rightarrow> if errors_is e ErrNotExist then pure (read_files ps acc im) d else Failed e
       | Crashed \<Rightarrow> Crashed)"
    by (simp add: pure_or_missing ro_rules)
  show ?case
  proof (cases ?n)
    case None
    then have "pure (readFile Conf p) d = Failed ErrNotExist"
      using readFile_visited [OF assms vis] by simp
    moreover have "cfg (d_conf d) p = None" using None by (simp add: cfg_def)
    ultimately show ?thesis
      unfolding unfold using Cons None by (simp add: csize_def)
  next
    case (Some n)
    show ?thesis
    proof (cases "opened_file n")
      case (Inl e)
      then have "pure (readFile Conf p) d = Failed e \<or>
          pure (readFile Conf p) d = Failed (Msg ''must be a regular file (symlinks are not managed)'')"
        using readFile_visited [OF assms vis] Some by auto
      then show ?thesis unfolding unfold using Some Inl opened_error [OF Inl] by auto
    next
      case (Inr cf)
      obtain c f where cf: "cf = (c, f)" by fastforce
      have "pure (readFile Conf p) d = Done f"
        using readFile_visited [OF assms vis] Some Inr cf opened_regular [of n] by simp
      moreover have "cfg (d_conf d) p = Some f" using Some Inr cf cp by (simp add: cfg_def)
      ultimately show ?thesis
        unfolding unfold using Cons.IH [of "acc + length (f_data f)" "fmupd p f im"] Cons.prems Some Inr
        by (auto simp: csize_def)
    qed
  qed
qed auto

lemma foldl_cfg:
  "fmlookup (foldl (\<lambda>im p. case g p of None \<Rightarrow> im | Some f \<Rightarrow> fmupd p f im) im ps) p =
     (if p \<in> set ps \<and> g p \<noteq> None then g p else fmlookup im p)"
  by (induction ps arbitrary: im) (auto split: option.split)

definition read_list :: "tree \<Rightarrow> string list" where
  "read_list t = [conf_path, hosts_path] @ service_files (service_names t)"

lemma service_files_names:
  "service_files (service_names t) = filter service_key (sorted_keys (t_nodes t))"
proof -
  have "map ((@) ''services/'') (filter (suffix ''.service'') (map (drop 9) (filter (prefix ''services/'') ps))) =
      filter service_key ps" for ps
    by (induction ps) (auto simp: service_key_def prefix_def)
  then show ?thesis by (simp add: service_files_def service_names_def)
qed

lemma set_read_list: "set (read_list t) = {p. visited t p}"
  by (auto simp: read_list_def service_files_names visited_def)

lemma distinct_read_list: "distinct (read_list t)"
  by (auto simp: read_list_def service_files_names service_key_def not_services_conf)
    (simp add: conf_path_def hosts_path_def)

lemma cfg_visited: "cfg t p \<noteq> None \<Longrightarrow> visited t p"
  by (auto simp: cfg_def visited_def config_path_def intro: fmdomI split: if_splits option.splits)

lemma sum_cfg:
  assumes "\<forall>p. fmlookup im p = cfg t p"
  shows "(\<Sum>p\<leftarrow>read_list t. csize t p) = image_size im"
proof -
  have fin: "finite (set (read_list t))" by simp
  have sub: "fset (fmdom im) \<subseteq> set (read_list t)"
    using assms cfg_visited by (force simp: set_read_list fmlookup_dom_iff)
  have "(\<Sum>p\<leftarrow>read_list t. csize t p) = (\<Sum>p\<in>set (read_list t). csize t p)"
    by (simp add: sum_list_distinct_conv_sum_set distinct_read_list)
  also have "\<dots> = (\<Sum>p\<in>fset (fmdom im). csize t p)"
    by (rule sum.mono_neutral_right [OF fin sub])
      (use assms in \<open>auto simp: csize_def split: option.split dest: fmdom_notD fmdomI\<close>)
  also have "\<dots> = (\<Sum>p\<in>fset (fmdom im). length (f_data (fm_get zero_file im p)))"
    by (rule sum.cong) (use assms in \<open>auto simp: csize_def fmlookup_dom_iff split: option.split\<close>)
  also have "\<dots> = image_size im"
    by (simp add: image_size_def sum_list_distinct_conv_sum_set)
  finally show ?thesis .
qed

lemma pure_list_services:
  "pure list_services d =
     (case t_services (d_conf d) of
        NoDir \<Rightarrow> Done []
      | NotDir \<Rightarrow> Failed (Msg ''services must be a directory, not a symlink'')
      | IsDir \<Rightarrow> Done (service_names (d_conf d)))"
proof -
  have s: "pure (io_services Conf) d = (case t_services (d_conf d) of NoDir \<Rightarrow> Failed ErrNotExist | s \<Rightarrow> Done s)"
    by (auto simp: io_services_def pure_in_tree split: dirstate.split)
  have r: "pure (io_readdir Conf) d = Done (service_names (d_conf d))"
    by (simp add: io_readdir_def pure_in_tree)
  show ?thesis
    unfolding list_services_def
    by (auto simp: pure_or_missing pure_then ro_rules s r split: dirstate.split)
qed

lemma wf_no_services: "wf_tree t \<Longrightarrow> t_services t \<noteq> IsDir \<Longrightarrow> service_names t = []"
  by (auto simp: service_names_def wf_tree_def filter_empty_conv)

lemma readable_visited:
  "readable t \<longleftrightarrow> t_services t \<noteq> NotDir \<and>
     (\<forall>p\<in>set (read_list t). \<forall>n. fmlookup (t_nodes t) p = Some n \<longrightarrow> is_ok (opened_file n))"
  by (auto simp: readable_def set_read_list visited_def config_path_def intro: fmdomI)

lemma pure_read:
  assumes "wf_tree (d_conf d)"
  shows "pure read d = Done im \<longleftrightarrow>
    readable (d_conf d) \<and> (\<forall>p. fmlookup im p = cfg (d_conf d) p) \<and> image_size im \<le> MaxTotalSize"
proof (cases "t_services (d_conf d) = NotDir")
  case True
  then show ?thesis by (simp add: read_def pure_bind ro_rules pure_list_services readable_def)
next
  case False
  let ?t = "d_conf d"
  let ?fold = "foldl (\<lambda>im p. case cfg ?t p of None \<Rightarrow> im | Some f \<Rightarrow> fmupd p f im) fmempty (read_list ?t)"
  have run: "pure read d = pure (read_files (read_list ?t) 0 fmempty) d"
  proof -
    have "pure list_services d = Done (service_names ?t)"
      using False wf_no_services [OF assms] by (cases "t_services ?t") (simp_all add: pure_list_services)
    then show ?thesis by (simp add: read_def read_list_def pure_bind ro_rules del: read_files.simps)
  qed
  have fold: "fmlookup ?fold p = cfg ?t p" for p
    unfolding foldl_cfg using cfg_visited [of ?t p] by (cases "cfg ?t p") (auto simp: set_read_list)
  then have eq: "im = ?fold \<longleftrightarrow> (\<forall>p. fmlookup im p = cfg ?t p)" by (auto simp: fmap_ext_iff)
  have "pure read d = Done im \<longleftrightarrow>
      readable ?t \<and> (\<Sum>p\<leftarrow>read_list ?t. csize ?t p) \<le> MaxTotalSize \<and> im = ?fold"
    unfolding run readable_visited
    using False pure_read_files [OF assms, of "read_list ?t" 0 fmempty im] by (simp add: set_read_list)
  then show ?thesis using eq sum_cfg by auto
qed

lemma read_image_paths:
  assumes "wf_tree (d_conf d)" "pure read d = Done im" "fmlookup im p = Some f"
  shows "config_path p" "path_clean p = p" "f_mode f AND 511 = f_mode f" "length (f_data f) \<le> MaxFileSize"
    "\<exists>n. fmlookup (t_nodes (d_conf d)) p = Some n \<and> (\<exists>c. opened_file n = Inr (c, f))"
proof -
  have c: "cfg (d_conf d) p = Some f" using assms by (simp add: pure_read)
  then show n: "\<exists>n. fmlookup (t_nodes (d_conf d)) p = Some n \<and> (\<exists>c. opened_file n = Inr (c, f))"
    and "config_path p"
    by (auto simp: cfg_def split: if_splits option.splits sum.splits)
  then show "path_clean p = p" using assms(1) by (auto simp: wf_tree_def intro: fmdomI)
  from n obtain n c where "opened_file n = Inr (c, f)" by blast
  then show "f_mode f AND 511 = f_mode f" "length (f_data f) \<le> MaxFileSize"
    by (auto simp: opened_file_def and.assoc split: node.splits if_splits)
qed

section \<open>Staging\<close>

lemma length_uuid: "uuid_v4 s \<Longrightarrow> length s = 36"
  by (auto simp: uuid_v4_def)

lemma nth_id_length: "length (nth_id w n) = 36"
  using length_uuid random_id_uuid [of "random_bytes w n"] by (simp add: nth_id_def random_bytes_def)

lemma tmp_base_suffix:
  assumes "length i = length j" "suffix (tmp_base i) (u @ tmp_base j)"
  shows "i = j"
proof -
  have "suffix (tmp_base i) (tmp_base j)"
    using assms suffix_same_cases [OF assms(2), of "tmp_base j"] suffix_length_le
    by (auto simp: suffix_def tmp_base_def)
  moreover have "length (tmp_base i) = length (tmp_base j)" using assms(1) by (simp add: tmp_base_def)
  ultimately have "tmp_base i = tmp_base j" by (auto simp: suffix_def)
  then show ?thesis by (simp add: tmp_base_def)
qed

lemma keys_set_node:
  "t_nodes (set_node p n t) = fmupd (path_clean p) n (t_nodes t)" "t_services (set_node p n t) = t_services t"
  by (simp_all add: set_node_def)

lemma get_put [simp]: "get_tree r d \<noteq> None \<Longrightarrow> get_tree r (put_tree r t d) = Some t"
  by (cases r) auto

lemma get_put_other [simp]: "r \<noteq> s \<Longrightarrow> get_tree r (put_tree s t d) = get_tree r d"
  by (cases r; cases s) auto

lemma put_put [simp]: "put_tree r t (put_tree r u d) = put_tree r t d"
  by (cases r) auto

lemma temps_put:
  assumes "get_tree r d = Some u" "{p. p |\<in>| fmdom (t_nodes t) \<and> suffix ''.tmp'' p} \<subseteq> X \<union> {p. p |\<in>| fmdom (t_nodes u)}"
  shows "temps (put_tree r t d) \<subseteq> temps d \<union> X"
proof
  fix p assume "p \<in> temps (put_tree r t d)"
  then obtain s v where s: "get_tree s (put_tree r t d) = Some v" "p |\<in>| fmdom (t_nodes v)" "suffix ''.tmp'' p"
    by (auto simp: temps_def tree_keys_def)
  show "p \<in> temps d \<union> X"
  proof (cases "s = r")
    case True
    then show ?thesis using s assms by (auto simp: temps_def tree_keys_def)
  next
    case False
    then show ?thesis using s by (auto simp: temps_def tree_keys_def)
  qed
qed

lemma live_tick:
  assumes "live q w" "temps d \<subseteq> temps (w_disk w) \<union> {u @ tmp_base (nth_id w (w_tick w))}"
  shows "live q (w\<lparr>w_tick := Suc (w_tick w), w_disk := d, w_sched := tl (w_sched w)\<rparr>)"
proof -
  let ?w = "w\<lparr>w_tick := Suc (w_tick w), w_disk := d, w_sched := tl (w_sched w)\<rparr>"
  have n: "nth_id ?w = nth_id w" by (simp add: nth_id_def random_bytes_def fun_eq_iff)
  have "unused ?w" if u: "unused w"
  proof -
    have "inj_on (nth_id w) {Suc (w_tick w)..<w_limit w}"
      using u inj_on_subset [of "nth_id w" "{w_tick w..<w_limit w}" "{Suc (w_tick w)..<w_limit w}"]
      by (auto simp: unused_def)
    moreover have "\<not> suffix (tmp_base (nth_id w k)) p"
      if k: "k \<in> {Suc (w_tick w)..<w_limit w}" and p: "p \<in> temps d" for k p
    proof
      assume s: "suffix (tmp_base (nth_id w k)) p"
      then have "p = u @ tmp_base (nth_id w (w_tick w))"
        using u k p assms(2) by (auto simp: unused_def)
      then have "nth_id w k = nth_id w (w_tick w)"
        using s tmp_base_suffix nth_id_length by metis
      then have "k = w_tick w" using u k by (auto simp: unused_def inj_on_def)
      then show False using k by simp
    qed
    ultimately show ?thesis unfolding unused_def n by simp
  qed
  then show ?thesis using assms(1) by (auto simp: live_def calm_def dest: set_tl)
qed

text \<open>Creating a staged file: the name is new, or the call fails and then the world is not quiet.\<close>

lemma hoare_create:
  assumes t: "get_tree r d0 = Some t"
    and par: "\<And>i. uuid_v4 i \<Longrightarrow> parent_error t (path_clean (tmp_path p i)) = None"
    and base: "\<And>i. uuid_v4 i \<Longrightarrow> \<exists>u. path_clean (tmp_path p i) = u @ tmp_base i"
    and k: "\<And>i eg. uuid_v4 i \<Longrightarrow> fmlookup (t_nodes t) (path_clean (tmp_path p i)) = None \<Longrightarrow>
      hoare q (\<lambda>d. d = put_tree r (set_node (tmp_path p i) (File (Bytes []) 384 0 eg) t) d0) (k i 0 eg) Q E C"
    and f: "C d0" "\<not> q \<Longrightarrow> E Fault d0"
  shows "hoare q (\<lambda>d. d = d0) (bind_io fresh_id (\<lambda>i. bind_io geteuid (\<lambda>eu. bind_io getegid (\<lambda>eg.
      then_io (io_create r (tmp_path p i) eu eg) (k i eu eg))))) Q E C"
  unfolding hoare_def
proof (intro allI impI)
  fix w assume w: "live q w" "w_disk w = d0"
  let ?all = "bind_io fresh_id (\<lambda>i. bind_io geteuid (\<lambda>eu. bind_io getegid (\<lambda>eg.
      then_io (io_create r (tmp_path p i) eu eg) (k i eu eg)))) w"
  show "post q Q E C ?all"
  proof (cases "w_tick w < w_limit w")
    case False
    then have "?all = (Crashed, w)" by (simp add: bind_io_def fresh_id_def)
    then show ?thesis using False w f(1) by simp
  next
  case lim: True
  let ?i = "nth_id w (w_tick w)"
  let ?p = "path_clean (tmp_path p ?i)"
  let ?w = "w\<lparr>w_tick := Suc (w_tick w)\<rparr>"
  let ?m = "io_create r (tmp_path p ?i) 0 (w_egid w)"
  let ?d = "put_tree r (set_node (tmp_path p ?i) (File (Bytes []) 384 0 (w_egid w)) t) d0"
  have run: "bind_io fresh_id (\<lambda>i. bind_io geteuid (\<lambda>eu. bind_io getegid (\<lambda>eg.
      then_io (io_create r (tmp_path p i) eu eg) (k i eu eg)))) w = then_io ?m (k ?i 0 (w_egid w)) ?w"
    using w(1) lim by (simp add: bind_io_def fresh_id_def geteuid_def getegid_def nth_id_def live_def random_bytes_def)
  have calm: "\<forall>e\<in>set (w_sched ?w). \<not> is_edit e" and q: "q \<Longrightarrow> w_sched w = []"
    using w(1) by (auto simp: live_def calm_def)
  have uuid: "uuid_v4 ?i" by (simp add: nth_id_def random_bytes_def random_id_uuid)
  obtain u where u: "?p = u @ tmp_base ?i" using base [OF uuid] by blast
  have same: "live q (w\<lparr>w_tick := Suc (w_tick w), w_disk := d0, w_sched := tl (w_sched w)\<rparr>)"
    by (rule live_tick [OF w(1), of _ u]) (use w(2) in auto)
  have new: "live q (w\<lparr>w_tick := Suc (w_tick w), w_disk := ?d, w_sched := tl (w_sched w)\<rparr>)"
  proof (rule live_tick [OF w(1), of _ u])
    show "temps ?d \<subseteq> temps (w_disk w) \<union> {u @ tmp_base ?i}"
      unfolding w(2) by (rule temps_put [OF t]) (auto simp: keys_set_node u)
  qed
  have q_new: "fmlookup (t_nodes t) ?p = None" if q
  proof (rule ccontr)
    assume "fmlookup (t_nodes t) ?p \<noteq> None"
    then have "?p \<in> tree_keys d0" using t by (auto simp: tree_keys_def intro: fmdomI)
    moreover have "suffix ''.tmp'' ?p" by (simp add: u tmp_base_def suffix_def)
    ultimately have "?p \<in> temps (w_disk w)" using w(2) by (simp add: temps_def)
    moreover have "suffix (tmp_base ?i) ?p" by (simp add: u suffix_def)
    ultimately show False using w(1) \<open>q\<close> lim unfolding live_def unused_def
      by (meson atLeastLessThan_iff order_refl)
  qed
  let ?f = "in_tree r (\<lambda>t. case look (tmp_path p ?i) t of
       Inr _ \<Rightarrow> (Inl Fault, t)
     | Inl e \<Rightarrow>
         if parent_error t (path_clean (tmp_path p ?i)) = None
         then (Inr (), set_node (tmp_path p ?i) (File (Bytes []) 384 0 (w_egid w)) t) else (Inl e, t))"
  have f_new: "?f d0 = (if fmlookup (t_nodes t) ?p = None then (Inr (), ?d) else (Inl Fault, d0))"
    using par [OF uuid] put_get [OF t] by (auto simp: in_tree_def t look_def split: option.split)
  have step: "?m ?w =
     (case w_sched w of
        Fails # es' \<Rightarrow> (Failed Fault, ?w\<lparr>w_sched := es'\<rparr>)
      | Dies # es' \<Rightarrow> (Crashed, ?w\<lparr>w_sched := es'\<rparr>)
      | _ \<Rightarrow> (if fmlookup (t_nodes t) ?p = None
          then (Done (), w\<lparr>w_tick := Suc (w_tick w), w_disk := ?d, w_sched := tl (w_sched w)\<rparr>)
          else (Failed Fault, w\<lparr>w_tick := Suc (w_tick w), w_disk := d0, w_sched := tl (w_sched w)\<rparr>)))"
    unfolding io_create_def sys_def sys_call_calm [OF calm refl]
    using w(2) by (simp add: f_new split: list.split event.split)
  have "post q (\<lambda>_ d. d = ?d \<and> fmlookup (t_nodes t) ?p = None) E C (?m ?w)"
  proof (cases q)
    case True
    then show ?thesis unfolding step using new q q_new by simp
  next
    case False
    then show ?thesis unfolding step using same new f w(2)
      by (cases "w_sched w") (auto split: event.split)
  qed
  then show "post q Q E C ?all"
    unfolding run unfolding then_io_def
  proof (rule post_bind)
    show "hoare q (\<lambda>d. d = ?d \<and> fmlookup (t_nodes t) ?p = None) (k ?i 0 (w_egid w)) Q E C" for x :: unit
      using k [OF uuid, of "w_egid w"] by (simp add: hoare_def)
  qed
  qed
qed

lemma tmp_base_clean:
  assumes "uuid_v4 i"
  shows "CHR ''/'' \<notin> set (tmp_base i)" "tmp_base i \<noteq> []" "tmp_base i \<noteq> ''.''" "tmp_base i \<noteq> ''..''"
  using uuid_v4_chars [OF assms] lower_hex_safe by (auto simp: tmp_base_def)

lemma path_clean_name:
  assumes "CHR ''/'' \<notin> set b" "b \<noteq> []" "b \<noteq> ''.''" "b \<noteq> ''..''"
  shows "path_clean b = b" "path_clean (''./'' @ b) = b" "path_clean (''services/'' @ b) = ''services/'' @ b"
proof -
  have p: "\<not> prefix ''/'' b" using assms(1) by (cases b) auto
  show "path_clean b = b"
    using assms p by (simp add: path_clean_def split_on_single Let_def)
  show "path_clean (''./'' @ b) = b"
    using assms split_on_single [OF assms(1)] by (simp add: path_clean_def Let_def)
  show "path_clean (''services/'' @ b) = ''services/'' @ b"
  proof -
    have "path_clean (''services'' @ ''/'') = ''services''" by code_simp
    from path_clean_dir_base [OF assms this] show ?thesis by simp
  qed
qed

definition dir_ok :: "tree \<Rightarrow> string \<Rightarrow> bool" where
  "dir_ok t p \<longleftrightarrow> path_dir p = ''.'' \<or> path_dir p = ''services'' \<and> t_services t = IsDir"

lemma tmp_path_ok:
  assumes "uuid_v4 i" "dir_ok t p"
  shows "path_clean (tmp_path p i) = tmp_path p i" "parent_error t (tmp_path p i) = None"
    "\<exists>u. tmp_path p i = u @ tmp_base i" "suffix ''.tmp'' (tmp_path p i)"
    "prefix ''services/'' (tmp_path p i) \<longrightarrow> t_services t = IsDir"
proof -
  note b = path_clean_name [OF tmp_base_clean [OF assms(1)]]
  have "tmp_path p i = (if path_dir p = ''.'' then tmp_base i else ''services/'' @ tmp_base i)"
  proof -
    have "tmp_path p i = path_join (path_dir p) (tmp_base i)" by (simp add: tmp_path_def tmp_base_def)
    then show ?thesis
      using assms(2) b tmp_base_clean(2) [OF assms(1)] by (auto simp: dir_ok_def path_join_def)
  qed
  moreover have "\<not> prefix ''services/'' (tmp_base i)" by (simp add: tmp_base_def)
  ultimately show "path_clean (tmp_path p i) = tmp_path p i" "parent_error t (tmp_path p i) = None"
    "\<exists>u. tmp_path p i = u @ tmp_base i" "suffix ''.tmp'' (tmp_path p i)"
    "prefix ''services/'' (tmp_path p i) \<longrightarrow> t_services t = IsDir"
    using b assms(2) by (auto simp: dir_ok_def parent_error_def suffix_def tmp_base_def)
qed

text \<open>Trees and disks that differ in staged files only.\<close>

definition junk_tree :: "tree \<Rightarrow> tree \<Rightarrow> bool" where
  "junk_tree t t' \<longleftrightarrow> t_services t' = t_services t \<and>
     (\<forall>p. \<not> suffix ''.tmp'' p \<longrightarrow> fmlookup (t_nodes t') p = fmlookup (t_nodes t) p) \<and>
     (wf_tree t \<longrightarrow> wf_tree t')"

definition junk :: "droot \<Rightarrow> disk \<Rightarrow> disk \<Rightarrow> bool" where
  "junk r d d' \<longleftrightarrow> (\<exists>t t'. get_tree r d = Some t \<and> d' = put_tree r t' d \<and> junk_tree t t')"

lemma junk_tree_refl [simp]: "junk_tree t t"
  by (simp add: junk_tree_def)

lemma junk_tree_trans: "junk_tree t u \<Longrightarrow> junk_tree u v \<Longrightarrow> junk_tree t v"
  by (simp add: junk_tree_def)

lemma junk_refl: "get_tree r d = Some t \<Longrightarrow> junk r d d"
  unfolding junk_def by (metis junk_tree_refl put_get)

lemma junk_trans: "junk r a b \<Longrightarrow> junk r b c \<Longrightarrow> junk r a c"
  unfolding junk_def using junk_tree_trans by fastforce

lemma wf_set_node:
  assumes "wf_tree t" "path_clean p = p" "prefix ''services/'' p \<longrightarrow> t_services t = IsDir"
  shows "wf_tree (set_node p n t)"
  using assms by (auto simp: wf_tree_def keys_set_node)

lemma junk_tmp:
  assumes "get_tree r d = Some t" "uuid_v4 i" "dir_ok t p"
  shows "junk_tree t (set_node (tmp_path p i) n t)" "junk r d (put_tree r (set_node (tmp_path p i) n t) d)"
proof -
  show *: "junk_tree t (set_node (tmp_path p i) n t)"
    using tmp_path_ok [OF assms(2,3)] wf_set_node by (auto simp: junk_tree_def keys_set_node)
  show "junk r d (put_tree r (set_node (tmp_path p i) n t) d)"
    using * assms(1) by (auto simp: junk_def)
qed

lemma set_set_node [simp]: "set_node p n (set_node p m t) = set_node p n t"
  by (simp add: set_node_def)

lemma look_set_node:
  "parent_error t (path_clean p) = None \<Longrightarrow> look p (set_node p n t) = Inr n"
  by (simp add: look_def set_node_def parent_error_def split: if_splits dirstate.splits)

lemma temps_same:
  assumes "get_tree r d = Some t" "fset (fmdom (t_nodes u)) \<subseteq> fset (fmdom (t_nodes t))"
  shows "temps (put_tree r u d) \<subseteq> temps d"
  using temps_put [OF assms(1), of u "{}"] assms(2) by auto

lemma hoare_fchange:
  assumes "get_tree r d0 = Some t" "parent_error t (path_clean p) = None"
    and "\<not> q \<Longrightarrow> E Fault (put_tree r (set_node p n t) d0) \<and> C (put_tree r (set_node p n t) d0)"
  shows "hoare q (\<lambda>d. d = put_tree r (set_node p n t) d0) (io_fchange r p f)
    (\<lambda>_ d. d = put_tree r (set_node p (f n) t) d0) E C"
  unfolding io_fchange_def
proof (rule hoare_sys)
  let ?g = "in_tree r (\<lambda>t. (Inr (), case look p t of Inr n \<Rightarrow> set_node p (f n) t | Inl _ \<Rightarrow> t))"
  fix d assume d: "d = put_tree r (set_node p n t) d0"
  have g: "?g d = (Inr (), put_tree r (set_node p (f n) t) d0)"
    using assms(1,2) by (simp add: d in_tree_def look_set_node)
  have "temps (put_tree r (set_node p (f n) t) d) \<subseteq> temps d"
    by (rule temps_same [of _ _ "set_node p n t"]) (use assms(1) in \<open>auto simp: d keys_set_node\<close>)
  then show "temps (snd (?g d)) \<subseteq> temps d" unfolding g by (simp add: d)
  show "\<not> q \<Longrightarrow> E Fault d \<and> C d" using assms(3) d by blast
  show "case fst (?g d) of Inl e \<Rightarrow> E e (snd (?g d)) | Inr x \<Rightarrow> snd (?g d) = put_tree r (set_node p (f n) t) d0"
    unfolding g by simp
qed

lemma hoare_flush: "(\<And>d. P d \<Longrightarrow> \<not> q \<Longrightarrow> E Fault d \<and> C d) \<Longrightarrow> hoare q P io_flush (\<lambda>_. P) E C"
  unfolding io_flush_def by (rule hoare_sys) auto

definition staged_node :: "content \<Rightarrow> cfile \<Rightarrow> bool \<Rightarrow> node \<Rightarrow> bool" where
  "staged_node c f owner n \<longleftrightarrow>
     (\<exists>u g. n = File c (f_mode f AND 511) u g \<and> (owner \<longrightarrow> u = f_uid f \<and> g = f_gid f))"

lemma hoare_unlink_junk:
  assumes "get_tree r d0 = Some t" "suffix ''.tmp'' (path_clean p)"
  shows "hoare q (\<lambda>d. junk r d0 d) (io_unlink r p) (\<lambda>_ d. junk r d0 d) (\<lambda>e d. junk r d0 d) (\<lambda>d. junk r d0 d)"
  unfolding io_unlink_def
proof (rule hoare_sys)
  fix d assume "junk r d0 d"
  then obtain t' where t': "d = put_tree r t' d0" "junk_tree t t'" using assms(1) by (auto simp: junk_def)
  let ?f = "in_tree r (\<lambda>t. case look p t of Inl e \<Rightarrow> (Inl e, t)
      | Inr n \<Rightarrow> (case n of Subdir \<Rightarrow> (Inl Fault, t) | _ \<Rightarrow> (Inr (), del_node p t)))"
  have g: "get_tree r d = Some t'" using t'(1) assms(1) by simp
  have del: "junk_tree t' (del_node p t')" using assms(2) by (auto simp: junk_tree_def del_node_def wf_tree_def)
  have j: "junk r d0 (put_tree r (del_node p t') d)" "junk r d0 (put_tree r t' d)"
    using t' assms(1) del junk_tree_trans by (auto simp: junk_def)
  have k: "temps (put_tree r (del_node p t') d) \<subseteq> temps d" "temps (put_tree r t' d) \<subseteq> temps d"
    by (rule temps_same [OF g]; auto simp: del_node_def)+
  show "temps (snd (?f d)) \<subseteq> temps d"
    using k by (auto simp: in_tree_def g split: sum.split node.split)
  show "case fst (?f d) of Inl e \<Rightarrow> junk r d0 (snd (?f d)) | Inr x \<Rightarrow> junk r d0 (snd (?f d))"
    using j by (auto simp: in_tree_def g split: sum.split node.split)
qed simp

lemma hoare_stage:
  assumes t: "get_tree r d0 = Some t" and dir: "dir_ok t p"
  shows "hoare q (\<lambda>d. d = d0) (stage r p c f owner)
    (\<lambda>tmp d. \<exists>i n. uuid_v4 i \<and> tmp = tmp_path p i \<and> fmlookup (t_nodes t) tmp = None \<and>
       staged_node c f owner n \<and> d = put_tree r (set_node tmp n t) d0)
    (\<lambda>e d. \<not> q \<and> junk r d0 d) (\<lambda>d. junk r d0 d)"
  unfolding stage_def Let_def
proof (rule hoare_create [OF t])
  show "junk r d0 d0" "\<not> q \<Longrightarrow> \<not> q \<and> junk r d0 d0" using junk_refl [OF t] by simp_all
next
  fix i assume i: "uuid_v4 i"
  note ok = tmp_path_ok [OF i dir]
  let ?p = "tmp_path p i"
  show "parent_error t (path_clean ?p) = None" "\<exists>u. path_clean ?p = u @ tmp_base i" using ok by simp_all
  fix eg assume new: "fmlookup (t_nodes t) (path_clean ?p) = None"
  let ?S = "\<lambda>n d. d = put_tree r (set_node ?p n t) d0" and ?E = "\<lambda>e d. \<not> q \<and> junk r d0 d"
  have par: "parent_error t (path_clean ?p) = None" using ok by simp
  have j: "junk r d0 (put_tree r (set_node ?p n t) d0)" for n using junk_tmp [OF t i dir] by blast
  have ch: "hoare q (?S n) (io_fchange r ?p g) (\<lambda>_. ?S (g n)) ?E (junk r d0)" for n g
    by (rule hoare_fchange [OF t par]) (use j in auto)
  have fl: "hoare q (?S n) io_flush (\<lambda>_. ?S n) ?E (junk r d0)" for n
    by (rule hoare_flush) (use j in auto)
  let ?n0 = "File (Bytes []) 384 0 eg" and ?n1 = "File c 384 0 eg"
  let ?n2 = "if owner then File c 384 (f_uid f) (f_gid f) else ?n1"
  let ?n3 = "with_mode (f_mode f AND 511) ?n2"
  have c1: "hoare q (?S ?n0) (io_fchange r ?p (with_content c)) (\<lambda>_. ?S ?n1) ?E (junk r d0)"
    using ch [of ?n0 "with_content c"] by simp
  have c2: "hoare q (?S ?n1) (if owner \<and> (0::int) = 0 then io_fchange r ?p (with_owner (f_uid f) (f_gid f)) else return ())
      (\<lambda>_. ?S ?n2) ?E (junk r d0)"
    using ch [of ?n1 "with_owner (f_uid f) (f_gid f)"] hoare_return [of q "\<lambda>_. ?S ?n1" "()"] by simp
  have n3: "staged_node c f owner ?n3" by (simp add: staged_node_def)
  show "hoare q (?S ?n0)
     (cleanup_io
       (then_io (io_fchange r ?p (with_content c))
         (then_io (if owner \<and> (0::int) = 0 then io_fchange r ?p (with_owner (f_uid f) (f_gid f)) else return ())
           (then_io (io_fchange r ?p (with_mode (f_mode f AND 511)))
             (then_io io_flush (then_io io_flush (return ?p))))))
       (io_unlink r ?p))
     (\<lambda>tmp d. \<exists>i n. uuid_v4 i \<and> tmp = tmp_path p i \<and> fmlookup (t_nodes t) tmp = None \<and>
       staged_node c f owner n \<and> d = put_tree r (set_node tmp n t) d0) ?E (junk r d0)"
  proof (rule hoare_cleanup)
    show "hoare q (?E e) (io_unlink r ?p) (\<lambda>_. ?E e) (\<lambda>_. ?E e) (junk r d0)" for e
      by (rule hoare_imp, rule hoare_conseq [OF hoare_unlink_junk [OF t]]) (use ok in auto)
    show "hoare q (?S ?n0) (then_io (io_fchange r ?p (with_content c))
         (then_io (if owner \<and> (0::int) = 0 then io_fchange r ?p (with_owner (f_uid f) (f_gid f)) else return ())
           (then_io (io_fchange r ?p (with_mode (f_mode f AND 511)))
             (then_io io_flush (then_io io_flush (return ?p))))))
       (\<lambda>tmp d. \<exists>i n. uuid_v4 i \<and> tmp = tmp_path p i \<and> fmlookup (t_nodes t) tmp = None \<and>
       staged_node c f owner n \<and> d = put_tree r (set_node tmp n t) d0) ?E (junk r d0)"
    proof (rule hoare_then [OF c1], rule hoare_then [OF c2], rule hoare_then [OF ch],
        rule hoare_then [OF fl], rule hoare_then [OF fl], rule hoare_pre [OF hoare_return])
      fix d assume "?S ?n3 d"
      then show "\<exists>j n. uuid_v4 j \<and> ?p = tmp_path p j \<and> fmlookup (t_nodes t) ?p = None \<and>
          staged_node c f owner n \<and> ?S n d"
        using i new n3 ok(1) by (intro exI [of _ i] exI [of _ ?n3]) simp
    qed
  qed
qed

section \<open>Renaming and atomic replacement of one file\<close>

lemma hoare_log: "hoare q P (log_write r p) (\<lambda>_. P) E C"
proof -
  have "nth_id (w\<lparr>w_writes := x\<rparr>) = nth_id w" for w x
    by (simp add: nth_id_def random_bytes_def fun_eq_iff)
  then have "live q (w\<lparr>w_writes := x\<rparr>) = live q w" for w x
    by (simp add: live_def calm_def unused_def)
  then show ?thesis by (simp add: hoare_def log_write_def)
qed

lemma lookup_look:
  "path_clean p = p \<Longrightarrow> parent_error t p = None \<Longrightarrow>
   look p t = (case fmlookup (t_nodes t) p of None \<Rightarrow> Inl ErrNotExist | Some n \<Rightarrow> Inr n)"
  by (simp add: look_def)

lemma hoare_rename:
  assumes "get_tree r d0 \<noteq> None" "path_clean a = a" "path_clean b = b" "parent_error t a = None"
    "parent_error t b = None" "fmlookup (t_nodes t) a = Some n" "fmlookup (t_nodes t) b \<noteq> Some Subdir"
    "\<not> suffix ''.tmp'' b"
    and "\<not> q \<Longrightarrow> E Fault (put_tree r t d0) \<and> C (put_tree r t d0)"
  shows "hoare q (\<lambda>d. d = put_tree r t d0) (io_rename r a b)
    (\<lambda>_ d. d = put_tree r (set_node b n (del_node a t)) d0) E C"
  unfolding io_rename_def
proof (rule hoare_then [OF hoare_log], rule hoare_sys)
  let ?f = "in_tree r (\<lambda>t. case (look a t, parent_error t (path_clean b)) of
         (Inl e, _) \<Rightarrow> (Inl e, t)
       | (_, Some e) \<Rightarrow> (Inl e, t)
       | (Inr n, None) \<Rightarrow>
           if look b t = Inr Subdir then (Inl Fault, t) else (Inr (), set_node b n (del_node a t)))"
  let ?t = "set_node b n (del_node a t)"
  fix d assume d: "d = put_tree r t d0"
  have f: "?f d = (Inr (), put_tree r ?t d0)"
    using assms by (auto simp: d in_tree_def lookup_look split: option.split)
  have g: "get_tree r d = Some t" using assms(1) d by simp
  have "temps (put_tree r ?t d) \<subseteq> temps d \<union> {}"
  proof (rule subset_trans)
    show "temps (put_tree r ?t d) \<subseteq> temps d"
    proof
      fix p assume "p \<in> temps (put_tree r ?t d)"
      then obtain s v where s: "get_tree s (put_tree r ?t d) = Some v" "p |\<in>| fmdom (t_nodes v)" "suffix ''.tmp'' p"
        by (auto simp: temps_def tree_keys_def)
      show "p \<in> temps d"
      proof (cases "s = r")
        case True
        then have "v = ?t" using s(1) g by simp
        then have "p |\<in>| fmdom (t_nodes t)" using s(2,3) assms(3,8) by (auto simp: keys_set_node del_node_def)
        then show ?thesis using g s(3) by (auto simp: temps_def tree_keys_def)
      next
        case False
        then show ?thesis using s by (auto simp: temps_def tree_keys_def)
      qed
    qed
  qed simp
  then show "temps (snd (?f d)) \<subseteq> temps d" unfolding f by (simp add: d)
  show "\<not> q \<Longrightarrow> E Fault d \<and> C d" using assms(9) d by blast
  show "case fst (?f d) of Inl e \<Rightarrow> E e (snd (?f d)) | Inr x \<Rightarrow> snd (?f d) = put_tree r ?t d0"
    unfolding f by simp
qed

definition wrote :: "droot \<Rightarrow> string \<Rightarrow> content \<Rightarrow> disk \<Rightarrow> disk \<Rightarrow> bool" where
  "wrote r p c d d' \<longleftrightarrow> (\<exists>t t' n. get_tree r d = Some t \<and> d' = put_tree r t' d \<and>
     staged_node c backup_file False n \<and> junk_tree (set_node p n t) t')"

lemma wrote_junk: "wrote r p c d d' \<Longrightarrow> junk r d' d'' \<Longrightarrow> wrote r p c d d''"
  unfolding wrote_def junk_def using junk_tree_trans by fastforce

lemma ro_syncDir [ro_rules]: "ro (syncDir r p)"
  unfolding syncDir_def by (intro ro_rules snd_in_tree) simp

lemma pure_syncDir:
  "pure (syncDir r p) d =
     (case get_tree r d of None \<Rightarrow> Failed ErrNotExist
      | Some t \<Rightarrow> (case parent_error t (p @ ''/'') of Some e \<Rightarrow> Failed e | None \<Rightarrow> Done ()))"
proof -
  have "pure io_flush d = Done ()" by (simp add: io_flush_def pure_sys)
  moreover have "ro (sys (in_tree r (\<lambda>t. (case parent_error t (p @ ''/'') of Some e \<Rightarrow> Inl e | None \<Rightarrow> Inr (), t))))"
    by (intro ro_rules snd_in_tree) simp
  ultimately show ?thesis
    unfolding syncDir_def
    by (auto simp: pure_then pure_in_tree split: option.split)
qed

text \<open>The path of a file whose directory exists.\<close>

definition plain_path :: "tree \<Rightarrow> string \<Rightarrow> bool" where
  "plain_path t p \<longleftrightarrow> path_clean p = p \<and> parent_error t p = None \<and> dir_ok t p \<and> \<not> suffix ''.tmp'' p \<and>
     (prefix ''services/'' p \<longrightarrow> t_services t = IsDir)"

lemma junk_del_tmp:
  "suffix ''.tmp'' p \<Longrightarrow> path_clean p = p \<Longrightarrow> junk_tree t (del_node p t)"
  by (auto simp: junk_tree_def del_node_def wf_tree_def)

lemma junk_set_node:
  assumes "junk_tree t u" "path_clean p = p" "\<not> suffix ''.tmp'' p"
    "prefix ''services/'' p \<longrightarrow> t_services t = IsDir"
  shows "junk_tree (set_node p n t) (set_node p n u)"
  unfolding junk_tree_def
proof (intro conjI impI allI)
  show "t_services (set_node p n u) = t_services (set_node p n t)"
    using assms(1) by (simp add: keys_set_node junk_tree_def)
  show "\<And>k. \<not> suffix ''.tmp'' k \<Longrightarrow>
      fmlookup (t_nodes (set_node p n u)) k = fmlookup (t_nodes (set_node p n t)) k"
    using assms(1) by (simp add: keys_set_node junk_tree_def)
  assume wf: "wf_tree (set_node p n t)"
  show "wf_tree (set_node p n u)"
  proof -
    have "wf_tree t" if "p |\<notin>| fmdom (t_nodes t) \<or> True"
      using wf by (auto simp: wf_tree_def keys_set_node)
    then have "wf_tree u" using assms(1) by (simp add: junk_tree_def)
    moreover have "t_services u = t_services t" using assms(1) by (simp add: junk_tree_def)
    ultimately show ?thesis using assms(2,4) wf_set_node by simp
  qed
qed

lemma hoare_atomic:
  assumes t: "get_tree r d0 = Some t" and p: "plain_path t p" and nd: "fmlookup (t_nodes t) p \<noteq> Some Subdir"
  shows "hoare q (\<lambda>d. d = d0) (atomicFile r p c) (\<lambda>_. wrote r p c d0)
    (\<lambda>e d. \<not> q \<and> (junk r d0 d \<or> wrote r p c d0 d)) (\<lambda>d. junk r d0 d \<or> wrote r p c d0 d)"
  unfolding atomicFile_def
proof (rule hoare_bind)
  let ?W = "wrote r p c d0" and ?J = "junk r d0"
  let ?S = "\<lambda>tmp d. \<exists>i n. uuid_v4 i \<and> tmp = tmp_path p i \<and> fmlookup (t_nodes t) tmp = None \<and>
       staged_node c backup_file False n \<and> d = put_tree r (set_node tmp n t) d0"
  have dir: "dir_ok t p" and pc: "path_clean p = p" and pe: "parent_error t p = None"
    and ps: "\<not> suffix ''.tmp'' p" and sv: "prefix ''services/'' p \<longrightarrow> t_services t = IsDir"
    using p by (auto simp: plain_path_def)
  show "hoare q (\<lambda>d. d = d0) (stage r p c backup_file False) ?S
      (\<lambda>e d. \<not> q \<and> (?J d \<or> ?W d)) (\<lambda>d. ?J d \<or> ?W d)"
    by (rule hoare_conseq [OF hoare_stage [OF t dir]]) auto
  fix tmp
  show "hoare q (?S tmp) (finally_io (then_io (io_rename r tmp p) (syncDir r (path_dir p))) (io_unlink r tmp))
      (\<lambda>_. ?W) (\<lambda>e d. \<not> q \<and> (?J d \<or> ?W d)) (\<lambda>d. ?J d \<or> ?W d)"
  proof (rule hoare_fix)
    fix d assume "?S tmp d"
    then obtain i n where i: "uuid_v4 i" "tmp = tmp_path p i" "staged_node c backup_file False n"
      and d: "d = put_tree r (set_node tmp n t) d0" by blast
    note ok = tmp_path_ok [OF i(1) dir, folded i(2)]
    let ?t = "set_node tmp n t"
    let ?t' = "set_node p n (del_node tmp ?t)"
    have par: "parent_error ?t x = parent_error t x" for x by (simp add: parent_error_def keys_set_node)
    have tp: "tmp \<noteq> p" using ok(4) ps by auto
    have j: "junk_tree t (del_node tmp ?t)"
      using junk_tmp(1) [OF t i(1) dir, of n] junk_del_tmp [OF ok(4,1), of ?t] i(2) junk_tree_trans by blast
    have w: "?W (put_tree r ?t' d0)"
      unfolding wrote_def using t i(3) junk_set_node [OF j pc ps sv, of n] by blast
    have jd: "?J d" using junk_tmp(2) [OF t i(1) dir, of n] d i(2) by simp
    let ?D = "\<lambda>x. x = put_tree r ?t' d0"
    show "hoare q (\<lambda>x. x = d) (finally_io (then_io (io_rename r tmp p) (syncDir r (path_dir p))) (io_unlink r tmp))
      (\<lambda>_. ?W) (\<lambda>e d. \<not> q \<and> (?J d \<or> ?W d)) (\<lambda>d. ?J d \<or> ?W d)"
    proof (rule hoare_finally)
      show "hoare q (\<lambda>x. x = d) (then_io (io_rename r tmp p) (syncDir r (path_dir p)))
          (\<lambda>_. ?D) (\<lambda>e x. \<not> q \<and> (x = d \<or> ?D x)) (\<lambda>d. ?J d \<or> ?W d)"
      proof (rule hoare_then)
        show "hoare q (\<lambda>x. x = d) (io_rename r tmp p) (\<lambda>_. ?D)
            (\<lambda>e x. \<not> q \<and> (x = d \<or> ?D x)) (\<lambda>d. ?J d \<or> ?W d)"
          unfolding d
          by (rule hoare_rename) (use t ok pc pe ps nd tp jd d in \<open>auto simp: par keys_set_node\<close>)
        have sy: "pure (syncDir r (path_dir p)) (put_tree r ?t' d0) = Done ()"
          using t dir by (auto simp: pure_syncDir dir_ok_def parent_error_def keys_set_node del_node_def)
        show "hoare q ?D (syncDir r (path_dir p)) (\<lambda>_. ?D) (\<lambda>e x. \<not> q \<and> (x = d \<or> ?D x)) (\<lambda>d. ?J d \<or> ?W d)"
          by (rule hoare_ro) (use sy w in \<open>auto intro: ro_rules\<close>)
      qed
      have un: "hoare q (\<lambda>x. junk r e x) (io_unlink r tmp) (\<lambda>_. junk r e) (\<lambda>_. junk r e) (junk r e)"
        if "get_tree r e = Some u" for e u
        by (rule hoare_conseq [OF hoare_unlink_junk [OF that]]) (use ok in auto)
      have gd: "get_tree r (put_tree r v d0) = Some v" for v using t by simp
      have un2: "hoare q ?D (io_unlink r tmp) (\<lambda>_. ?W) (\<lambda>_. ?W) ?W"
        by (rule hoare_conseq [OF un [OF gd, of ?t']]) (use junk_refl [OF gd] wrote_junk w in auto)
      show "hoare q ?D (io_unlink r tmp) (\<lambda>_. ?W) (\<lambda>_. ?W) (\<lambda>d. ?J d \<or> ?W d)"
        by (rule hoare_conseq [OF un2]) auto
      show "hoare q (\<lambda>x. \<not> q \<and> (x = d \<or> ?D x)) (io_unlink r tmp)
          (\<lambda>_ d. \<not> q \<and> (?J d \<or> ?W d)) (\<lambda>_ d. \<not> q \<and> (?J d \<or> ?W d)) (\<lambda>d. ?J d \<or> ?W d)"
      proof (rule hoare_imp, rule hoare_fix)
        fix x assume nq: "\<not> q" and "x = d \<or> ?D x"
        then consider "x = d" | "?D x" by blast
        then show "hoare q (\<lambda>y. y = x) (io_unlink r tmp)
          (\<lambda>_ d. \<not> q \<and> (?J d \<or> ?W d)) (\<lambda>_ d. \<not> q \<and> (?J d \<or> ?W d)) (\<lambda>d. ?J d \<or> ?W d)"
        proof cases
          case 1
          then show ?thesis
            by (intro hoare_conseq [OF un [OF t]]) (use jd nq in auto)
        next
          case 2
          then show ?thesis by (intro hoare_conseq [OF un2]) (use nq in auto)
        qed
      qed
    qed
  qed
qed

end
