(* ===== verification/SnapLaws.thy ===== *)
theory SnapLaws
  imports StoreLaws
begin

text \<open>
  Snapshots of \<open>internal/config/store.go\<close>: what \<open>snapshot\<close> writes under every schedule of
  failures, that \<open>loadSnapshot\<close> reads it back, and what \<open>removeAll\<close> leaves.
\<close>

section \<open>JSON strings\<close>

lemma decode_rune_ascii: "a < 128 \<Longrightarrow> decode_rune (a # r) = (a, 1)"
  by simp

lemma json_string_valid: "utf8_valid s \<Longrightarrow> json_string s = s"
proof (induction s rule: json_string.induct)
  case (1 s)
  show ?case
  proof (cases "s = []")
    case True
    then show ?thesis by (simp add: json_string.simps)
  next
    case False
    obtain r w where rw: "decode_rune (map byte_of s) = (r, w)" by fastforce
    have v: "\<not> (r = 65533 \<and> w = 1)" and rest: "utf8_valid (drop (max 1 w) s)"
      using 1(2) False rw by (auto simp: utf8_valid_def runes_w.simps [of "map byte_of s"] drop_map)
    have "json_string (drop (max 1 w) s) = drop (max 1 w) s"
      using 1(1) [OF False rw [symmetric] refl] rest by simp
    then show ?thesis using False rw v by (subst json_string.simps) (auto simp: Let_def)
  qed
qed

section \<open>Snapshot identifiers\<close>

lemma stamp_shape: "\<exists>u. stamp t = u @ ''Z'' \<and> length u = 25 \<and> (\<forall>c\<in>set u. is_digit c \<or> c \<in> {CHR ''T'', CHR ''.''})"
  using pad_dec_digits by (auto simp: stamp_def Let_def split: prod.split)

definition id_char :: "char \<Rightarrow> bool" where
  "id_char c \<longleftrightarrow> is_digit c \<or> lower_hex c \<or> c \<in> {CHR ''T'', CHR ''.'', CHR ''Z'', CHR ''-''}"

lemma id_char_safe: "id_char c \<Longrightarrow> byte_of c < 128 \<and> c \<notin> {CHR ''/'', CHR 0x5C, nul}"
  by (auto simp: id_char_def is_digit_def lower_hex_def byte_of_def)

lemma path_base_name:
  assumes "CHR ''/'' \<notin> set b" "b \<noteq> []"
  shows "path_base b = b"
proof -
  have "hd (rev b) \<noteq> CHR ''/''" using assms hd_in_set [of "rev b"] by auto
  then have "dropWhile (\<lambda>c. c = CHR ''/'') (rev b) = rev b" by (simp add: dropWhile_eq_self_iff)
  moreover have "takeWhile (\<lambda>c. c \<noteq> CHR ''/'') (rev b) = rev b"
    using assms(1) by (auto simp: takeWhile_eq_all_conv)
  ultimately show ?thesis
    using assms(2) by (simp only: path_base_def Let_def rev_rev_ident rev_is_Nil_conv if_False)
qed

lemma snapshot_id_ok:
  assumes "uuid_v4 r"
  shows "validSnapshotID (stamp t @ ''-'' @ r)" "utf8_valid (stamp t @ ''-'' @ r)" "stamp t @ ''-'' @ r \<noteq> []"
proof -
  let ?i = "stamp t @ ''-'' @ r"
  obtain u where u: "stamp t = u @ ''Z''" "length u = 25" "\<forall>c\<in>set u. is_digit c \<or> c \<in> {CHR ''T'', CHR ''.''}"
    using stamp_shape by blast
  have "\<forall>c\<in>set ?i. id_char c"
    using u uuid_v4_chars [OF assms] by (auto simp: id_char_def)
  then have safe: "\<forall>c\<in>set ?i. byte_of c < 128 \<and> c \<notin> {CHR ''/'', CHR 0x5C, nul}"
    using id_char_safe by blast
  then show "utf8_valid ?i" by (intro runes_ascii) (auto simp: list_all_iff)
  show "?i \<noteq> []" using u by simp
  have "sublist ''Z-'' ?i"
    unfolding u(1) sublist_def by (rule exI [of _ u], rule exI [of _ r]) simp
  moreover have "path_base ?i = ?i"
    using path_base_name [of ?i] safe \<open>?i \<noteq> []\<close> by blast
  ultimately show "validSnapshotID ?i"
    using u assms length_uuid safe by (auto simp: validSnapshotID_def not_contains_any)
qed

section \<open>Loading a snapshot\<close>

text \<open>What loading needs of one manifest entry.\<close>

definition entry_ok :: "tree \<Rightarrow> string \<Rightarrow> filemeta \<Rightarrow> cfile \<Rightarrow> bool" where
  "entry_ok t p e f \<longleftrightarrow> validPath p \<and> me_mode e AND NOT 511 = 0 \<and>
     (\<exists>n c g. look p t = Inr n \<and> opened_file n = Inr (c, g) \<and> digest (f_data g) = me_sha e \<and>
        f = g\<lparr>f_mode := me_mode e, f_uid := me_uid e, f_gid := me_gid e\<rparr>)"

lemma pure_load_files:
  assumes "fmlookup (d_snaps d) i = Some t"
  shows "(\<forall>p\<in>set ps. \<exists>e. fmlookup (m_files m) p = Some e \<and> entry_ok t p e (fm_get zero_file im' p)) \<Longrightarrow>
    acc + (\<Sum>p\<leftarrow>ps. length (f_data (fm_get zero_file im' p))) \<le> MaxTotalSize \<Longrightarrow>
    pure (load_files i m ps acc im) d = Done (foldl (\<lambda>im p. fmupd p (fm_get zero_file im' p) im) im ps)"
proof (induction ps arbitrary: acc im)
  case (Cons p ps)
  let ?f = "fm_get zero_file im' p"
  obtain e where e: "fmlookup (m_files m) p = Some e" "entry_ok t p e ?f" using Cons.prems by auto
  then obtain n c g where n: "look p t = Inr n" "opened_file n = Inr (c, g)" "digest (f_data g) = me_sha e"
      and f: "?f = g\<lparr>f_mode := me_mode e, f_uid := me_uid e, f_gid := me_gid e\<rparr>"
    by (auto simp: entry_ok_def)
  have "is_regular n" using n(2) opened_regular by simp
  then have rd: "pure (readFile (Snap i) p) d = Done g"
    using n assms by (simp add: pure_readFile pure_readNode)
  have len: "f_data g = f_data ?f" using f by simp
  have vp: "validPath p \<and> me_mode e AND NOT 511 = 0" using e(2) by (simp add: entry_ok_def)
  have le: "acc + length (f_data g) \<le> MaxTotalSize" using Cons.prems(2) len by simp
  have "pure (load_files i m (p # ps) acc im) d =
      pure (load_files i m ps (acc + length (f_data g)) (fmupd p ?f im)) d"
    using vp by (simp add: e(1) pure_then pure_bind ro_rules rd n(3) le flip: f)
  then show ?case using Cons.IH [of "acc + length (f_data g)"] Cons.prems len by (simp add: add.assoc)
qed simp

section \<open>Writing a snapshot\<close>

definition kept :: "disk \<Rightarrow> string \<Rightarrow> disk \<Rightarrow> bool" where
  "kept d0 i d \<longleftrightarrow> d_conf d = d_conf d0 \<and> d_top d = d_top d0 \<and>
     (\<forall>j. j \<noteq> i \<longrightarrow> fmlookup (d_snaps d) j = fmlookup (d_snaps d0) j)"

lemma kept_put: "kept d0 i d \<Longrightarrow> kept d0 i (put_tree (Snap i) t d)"
  by (simp add: kept_def)

lemma kept_junk: "kept d0 i d \<Longrightarrow> junk (Snap i) d d' \<Longrightarrow> kept d0 i d'"
  using kept_put unfolding junk_def by blast

lemma kept_wrote: "kept d0 i d \<Longrightarrow> wrote (Snap i) p c d d' \<Longrightarrow> kept d0 i d'"
  using kept_put unfolding wrote_def by blast

definition canonical :: "image \<Rightarrow> bool" where
  "canonical im \<longleftrightarrow> (\<forall>p\<in>set (sorted_keys im). path_clean p = p)"

text \<open>A snapshot tree that holds the contents of the paths \<open>ps\<close> and nothing else.\<close>

definition files_in :: "image \<Rightarrow> string list \<Rightarrow> tree \<Rightarrow> bool" where
  "files_in im ps t \<longleftrightarrow> wf_tree t \<and> t_services t \<noteq> NotDir \<and>
     (\<forall>p. \<not> suffix ''.tmp'' p \<longrightarrow>
        (if p \<in> set ps then \<exists>u g. fmlookup (t_nodes t) p = Some (File (Bytes (f_data (fm_get zero_file im p))) 384 u g)
         else fmlookup (t_nodes t) p = None))"

definition snap_state :: "disk \<Rightarrow> string \<Rightarrow> (tree \<Rightarrow> bool) \<Rightarrow> disk \<Rightarrow> bool" where
  "snap_state d0 i X d \<longleftrightarrow> kept d0 i d \<and> (\<exists>t. fmlookup (d_snaps d) i = Some t \<and> X t)"

lemma snap_state_kept: "snap_state d0 i X d \<Longrightarrow> kept d0 i d"
  by (simp add: snap_state_def)

lemma staged_backup: "staged_node c backup_file False n \<longleftrightarrow> (\<exists>u g. n = File c 384 u g)"
proof -
  have "(384 :: 32 word) AND 511 = 384" by simp
  then show ?thesis by (auto simp: staged_node_def backup_file_def)
qed

lemma files_in_add:
  assumes "files_in im ps t" "managed_path p" "prefix ''services/'' p \<longrightarrow> t_services t = IsDir"
    and "staged_node (Bytes (f_data (fm_get zero_file im p))) backup_file False n"
    and "junk_tree (set_node p n t) t'"
  shows "files_in im (ps @ [p]) t'"
proof -
  have pc: "path_clean p = p" using managed_path_valid(2) [OF assms(2)] .
  have wf: "wf_tree (set_node p n t)" using assms(1,3) pc wf_set_node by (auto simp: files_in_def)
  have look: "fmlookup (t_nodes t') k = (if k = p then Some n else fmlookup (t_nodes t) k)" if "\<not> suffix ''.tmp'' k" for k
    using assms(5) that pc by (simp add: junk_tree_def keys_set_node)
  have "wf_tree t'" "t_services t' = t_services t"
    using assms(5) wf by (auto simp: junk_tree_def keys_set_node)
  then show ?thesis
    using assms(1,4) look unfolding files_in_def staged_backup by (auto split: if_splits)
qed

definition metas :: "image \<Rightarrow> string list \<Rightarrow> (string, filemeta) fmap" where
  "metas im ps = foldl (\<lambda>M p. fmupd p (meta_of (fm_get zero_file im p)) M) fmempty ps"

lemma metas_snoc: "metas im (ps @ [p]) = fmupd p (meta_of (fm_get zero_file im p)) (metas im ps)"
  by (simp add: metas_def)

lemma metas_lookup: "fmlookup (metas im ps) p = (if p \<in> set ps then Some (meta_of (fm_get zero_file im p)) else None)"
  by (induction ps rule: rev_induct) (auto simp: metas_snoc metas_def)

lemma managed_dir:
  assumes "managed_path p"
  shows "path_dir p = ''.'' \<and> \<not> prefix ''services/'' p \<or> path_dir p = ''services''"
proof (cases "p = conf_path \<or> p = hosts_path")
  case True
  moreover have "path_dir conf_path = ''.''" "path_dir hosts_path = ''.''" by code_simp+
  ultimately show ?thesis using not_services_conf by auto
next
  case False
  then have "validPath p" using managed_path_valid(1) assms(1) by blast
  then show ?thesis using False by (auto simp: validPath_def)
qed

lemma managed_config: "managed_path p \<Longrightarrow> config_path p"
  by (auto simp: managed_path_def config_path_def service_key_def suffix_def)

lemma managed_not_tmp: "managed_path p \<Longrightarrow> \<not> suffix ''.tmp'' p"
proof
  assume m: "managed_path p" and s: "suffix ''.tmp'' p"
  then obtain u where u: "p = u @ ''.tmp''" by (auto simp: suffix_def)
  have l: "last p = CHR ''p''" using u by simp
  show False using m unfolding managed_path_def conf_path_def hosts_path_def
    using l by auto
qed

lemma hoare_mkdir:
  assumes "managed_path p"
  shows "hoare q (snap_state d0 i (files_in im ps)) (io_mkdir_all (Snap i) (path_dir p))
    (\<lambda>_. snap_state d0 i (\<lambda>t. files_in im ps t \<and> plain_path t p)) (\<lambda>e. kept d0 i) (kept d0 i)"
  unfolding io_mkdir_all_def
proof (rule hoare_sys)
  let ?f = "in_tree (Snap i) (\<lambda>t. if path_dir p = ''services'' then
         (case t_services t of NoDir \<Rightarrow> (Inr (), t\<lparr>t_services := IsDir\<rparr>) | IsDir \<Rightarrow> (Inr (), t)
          | NotDir \<Rightarrow> (Inl Fault, t)) else (Inr (), t))"
  fix d assume d: "snap_state d0 i (files_in im ps) d"
  then obtain t where t: "fmlookup (d_snaps d) i = Some t" "files_in im ps t" and k: "kept d0 i d"
    by (auto simp: snap_state_def)
  let ?t = "t\<lparr>t_services := IsDir\<rparr>"
  have g: "get_tree (Snap i) d = Some t" using t by simp
  have pc: "path_clean p = p" using managed_path_valid(2) [OF assms] .
  have f: "?f d = (Inr (), d) \<and> path_dir p = ''.'' \<and> \<not> prefix ''services/'' p
      \<or> ?f d = (Inr (), d) \<and> path_dir p = ''services'' \<and> t_services t = IsDir
      \<or> ?f d = (Inr (), put_tree (Snap i) ?t d) \<and> path_dir p = ''services''"
    using managed_dir [OF assms] t(2) put_get [OF g]
    by (cases "t_services t") (auto simp: in_tree_def g t(1) files_in_def simp del: put_tree.simps get_tree.simps)
  have plain: "plain_path u p" if "path_dir p = ''.'' \<and> \<not> prefix ''services/'' p \<or> path_dir p = ''services'' \<and> t_services u = IsDir" for u
    using that pc managed_not_tmp [OF assms] by (auto simp: plain_path_def dir_ok_def parent_error_def)
  have "temps (put_tree (Snap i) ?t d) \<subseteq> temps d"
    by (rule temps_same [OF g]) simp
  then show "temps (snd (?f d)) \<subseteq> temps d" using f by auto
  show "kept d0 i d \<and> kept d0 i d" using k by simp
  have "files_in im ps ?t" using t(2) by (auto simp: files_in_def wf_tree_def)
  then show "case fst (?f d) of Inl e \<Rightarrow> kept d0 i (snd (?f d))
      | Inr x \<Rightarrow> snap_state d0 i (\<lambda>t. files_in im ps t \<and> plain_path t p) (snd (?f d))"
    using f t k plain kept_put [OF k, of ?t] by (auto simp: snap_state_def)
qed

lemma hoare_snapshot_files:
  assumes "canonical im"
  shows "set ps \<subseteq> set (sorted_keys im) \<Longrightarrow> m_files m = metas im ys \<Longrightarrow>
    hoare q (snap_state d0 (m_id m) (files_in im ys)) (snapshot_files im ps m)
      (\<lambda>m' d. snap_state d0 (m_id m) (files_in im (ys @ ps)) d \<and>
         m' = m\<lparr>m_files := metas im (ys @ ps)\<rparr> \<and> (\<forall>p\<in>set ps. validPath p))
      (\<lambda>e. kept d0 (m_id m)) (kept d0 (m_id m))"
proof (induction ps arbitrary: m ys)
  case Nil
  have "m = m\<lparr>m_files := metas im ys\<rparr>" using Nil.prems by simp
  then show ?case by (auto intro!: hoare_pre [OF hoare_return])
next
  case (Cons p ps)
  let ?i = "m_id m" and ?f = "fm_get zero_file im p"
  let ?m = "m\<lparr>m_files := fmupd p (meta_of ?f) (m_files m)\<rparr>"
  have run: "snapshot_files im (p # ps) m =
      then_io (guard_io (validPath p) ''invalid snapshot path'')
      (then_io (io_mkdir_all (Snap ?i) (path_dir p))
      (then_io (atomicFile (Snap ?i) p (Bytes (f_data ?f))) (snapshot_files im ps ?m)))"
    by (simp add: Let_def)
  let ?Q = "\<lambda>m' d. snap_state d0 ?i (files_in im (ys @ p # ps)) d \<and>
         m' = m\<lparr>m_files := metas im (ys @ p # ps)\<rparr> \<and> (\<forall>p\<in>set (p # ps). validPath p)"
  show ?case
  proof (cases "validPath p")
    case False
    then show ?thesis
      unfolding run
      by (intro hoare_then [where R = "\<lambda>_. False"] hoare_pre [OF hoare_guard]) (auto dest: snap_state_kept)
  next
    case True
    have pc: "path_clean p = p" using assms Cons.prems by (auto simp: canonical_def)
    then have m: "managed_path p" using validPath_clean [OF True] by simp
    have gd: "hoare q (snap_state d0 ?i (files_in im ys)) (guard_io (validPath p) ''invalid snapshot path'')
        (\<lambda>_. snap_state d0 ?i (files_in im ys)) (\<lambda>e. kept d0 ?i) (kept d0 ?i)"
      by (rule hoare_pre [OF hoare_guard]) (simp add: True)
    have at: "hoare q (snap_state d0 ?i (\<lambda>t. files_in im ys t \<and> plain_path t p)) (atomicFile (Snap ?i) p (Bytes (f_data ?f)))
        (\<lambda>_. snap_state d0 ?i (files_in im (ys @ [p]))) (\<lambda>e. kept d0 ?i) (kept d0 ?i)"
    proof (rule hoare_fix)
      fix d assume "snap_state d0 ?i (\<lambda>t. files_in im ys t \<and> plain_path t p) d"
      then obtain t where t: "fmlookup (d_snaps d) ?i = Some t" "files_in im ys t" "plain_path t p" and k: "kept d0 ?i d"
        by (auto simp: snap_state_def)
      have g: "get_tree (Snap ?i) d = Some t" using t by simp
      have nd: "fmlookup (t_nodes t) p \<noteq> Some Subdir"
        using t(2) managed_not_tmp [OF m] by (auto simp: files_in_def split: if_splits)
      show "hoare q (\<lambda>x. x = d) (atomicFile (Snap ?i) p (Bytes (f_data ?f)))
        (\<lambda>_. snap_state d0 ?i (files_in im (ys @ [p]))) (\<lambda>e. kept d0 ?i) (kept d0 ?i)"
      proof (rule hoare_conseq [OF hoare_atomic [OF g t(3) nd]])
        fix x assume w: "wrote (Snap ?i) p (Bytes (f_data ?f)) d x"
        then obtain u t' n where u: "get_tree (Snap ?i) d = Some u" "x = put_tree (Snap ?i) t' d"
            "staged_node (Bytes (f_data ?f)) backup_file False n" "junk_tree (set_node p n u) t'"
          by (auto simp: wrote_def)
        have "u = t" using u(1) g by simp
        then have "files_in im (ys @ [p]) t'"
          using files_in_add [OF t(2) m _ u(3), of t'] u(4) t(3) by (simp add: plain_path_def)
        then show "snap_state d0 ?i (files_in im (ys @ [p])) x"
          using u(2) kept_put [OF k] by (simp add: snap_state_def)
      qed (use k kept_junk [OF k] kept_wrote [OF k] in blast)+
    qed
    have rest: "hoare q (snap_state d0 ?i (files_in im (ys @ [p]))) (snapshot_files im ps ?m) ?Q
        (\<lambda>e. kept d0 ?i) (kept d0 ?i)"
      using Cons.prems True
      by (intro hoare_conseq [OF Cons.IH [of ?m "ys @ [p]"]]) (auto simp: metas_snoc)
    show ?thesis
      unfolding run by (rule hoare_then [OF gd hoare_then [OF hoare_mkdir [OF m] hoare_then [OF at rest]]])
  qed
qed

section \<open>A written snapshot can be loaded\<close>

text \<open>What an image must satisfy for its snapshot to be readable again.\<close>

definition loadable :: "image \<Rightarrow> bool" where
  "loadable im \<longleftrightarrow> image_size im \<le> MaxTotalSize \<and> canonical im \<and>
     (\<forall>p f. fmlookup im p = Some f \<longrightarrow>
        utf8_valid p \<and> length (f_data f) \<le> MaxFileSize \<and> f_mode f AND NOT 511 = 0)"

definition manifest_for :: "image \<Rightarrow> string \<Rightarrow> manifest \<Rightarrow> bool" where
  "manifest_for im i m \<longleftrightarrow> m_id m = i \<and> m_files m = metas im (sorted_keys im)"

lemma map_of_rev_keys:
  "distinct ks \<Longrightarrow> map_of (rev (map (\<lambda>p. (p, f p)) ks)) p = (if p \<in> set ks then Some (f p) else None)"
  by (induction ks) (auto simp: map_add_def split: option.split)

lemma json_manifest_files:
  assumes "loadable im" "manifest_for im i m" "utf8_valid i"
  shows "m_id (json_manifest m) = i" "fmlookup (m_files (json_manifest m)) = fmlookup (m_files m)"
proof -
  show "m_id (json_manifest m) = i"
    using assms(2,3) json_string_valid by (simp add: json_manifest_def manifest_for_def)
  let ?ks = "sorted_keys (m_files m)"
  have dom: "p \<in> set (sorted_keys im) \<longleftrightarrow> fmlookup (m_files m) p \<noteq> None" for p
    using assms(2) by (simp add: manifest_for_def metas_lookup)
  have ks: "p \<in> set ?ks \<longleftrightarrow> fmlookup (m_files m) p \<noteq> None" for p
    by (simp add: fmlookup_dom_iff)
  have j: "json_string p = p" if "p \<in> set ?ks" for p
  proof -
    have "p \<in> set (sorted_keys im)" using that dom ks by blast
    then have "utf8_valid p" using assms(1) by (auto simp: loadable_def fmlookup_dom_iff)
    then show ?thesis by (rule json_string_valid)
  qed
  have "map_of (rev (map (\<lambda>p. (json_string p, the (fmlookup (m_files m) p))) ?ks)) p = fmlookup (m_files m) p" for p
  proof -
    have "map (\<lambda>p. (json_string p, the (fmlookup (m_files m) p))) ?ks = map (\<lambda>p. (p, the (fmlookup (m_files m) p))) ?ks"
      by (rule map_cong [OF refl]) (simp only: j)
    moreover have "map_of (rev (map (\<lambda>p. (p, the (fmlookup (m_files m) p))) ?ks)) p = fmlookup (m_files m) p"
      using ks [of p] by (cases "fmlookup (m_files m) p") (auto simp: map_of_rev_keys)
    ultimately show ?thesis by (simp only:)
  qed
  then show "fmlookup (m_files (json_manifest m)) = fmlookup (m_files m)"
    by (simp add: json_manifest_def fmlookup_of_list fun_eq_iff)
qed

definition snapshot_tree :: "image \<Rightarrow> manifest \<Rightarrow> tree \<Rightarrow> bool" where
  "snapshot_tree im m t \<longleftrightarrow>
     (\<forall>p\<in>set (sorted_keys im). \<exists>u g. look p t = Inr (File (Bytes (f_data (fm_get zero_file im p))) 384 u g)) \<and>
     (\<exists>u g. look manifest_path t = Inr (File (Doc (ManifestDoc m)) 384 u g))"

lemma foldl_fmupd:
  "fmlookup (foldl (\<lambda>M p. fmupd p (g p) M) M ps) p = (if p \<in> set ps then Some (g p) else fmlookup M p)"
  by (induction ps arbitrary: M) auto

lemma foldl_upd_all:
  "foldl (\<lambda>M p. fmupd p (fm_get zero_file im p) M) fmempty (sorted_keys im) = im" for im :: image
proof (rule fmap_ext)
  fix p
  show "fmlookup (foldl (\<lambda>M p. fmupd p (fm_get zero_file im p) M) fmempty (sorted_keys im)) p = fmlookup im p"
    by (cases "fmlookup im p") (auto simp: foldl_fmupd intro: fmdomI dest: fmdom_notI)
qed

lemma loads_snapshot:
  assumes im: "loadable im" and valid: "\<forall>p\<in>set (sorted_keys im). validPath p"
    and i: "validSnapshotID i" "utf8_valid i"
    and m: "manifest_for im i m" "length (manifest_json m) \<le> MaxFileSize"
    and t: "fmlookup (d_snaps d) i = Some t" "snapshot_tree im m t"
  shows "pure (loadSnapshot i) d = Done (json_manifest m, im)"
proof -
  let ?m = "json_manifest m"
  note jm = json_manifest_files [OF im m(1) i(2)]
  have files: "fmlookup (m_files ?m) p = (if p \<in> set (sorted_keys im) then Some (meta_of (fm_get zero_file im p)) else None)" for p
    using jm(2) m(1) by (simp add: manifest_for_def metas_lookup)
  have "fmdom (m_files ?m) = fmdom im"
    using files by (intro fset_eqI) (auto simp: fmlookup_dom_iff split: if_splits)
  then have keys: "sorted_keys (m_files ?m) = sorted_keys im" by (simp add: sorted_keys_def)
  have entry: "entry_ok t p (meta_of (fm_get zero_file im p)) (fm_get zero_file im p)"
    if p: "p \<in> set (sorted_keys im)" for p
  proof -
    let ?f = "fm_get zero_file im p"
    obtain f where f: "fmlookup im p = Some f" using p by (auto simp: fmlookup_dom_iff)
    obtain u g where n: "look p t = Inr (File (Bytes (f_data f)) 384 u g)"
      using t(2) p f by (auto simp: snapshot_tree_def)
    have len: "length (f_data f) \<le> MaxFileSize" and mode: "f_mode f AND NOT 511 = 0"
      using im f unfolding loadable_def by blast+
    have o': "opened_file (File (Bytes (f_data f)) 384 u g) =
        Inr (Bytes (f_data f), \<lparr>f_data = f_data f, f_mode = 384 AND 511, f_uid = u, f_gid = g\<rparr>)"
      using len by (simp add: opened_file_def)
    show ?thesis
      unfolding entry_ok_def
      using n o' mode valid p f
      by (intro conjI exI [of _ "File (Bytes (f_data f)) 384 u g"] exI [of _ "Bytes (f_data f)"]
          exI [of _ "\<lparr>f_data = f_data f, f_mode = 384 AND 511, f_uid = u, f_gid = g\<rparr>"])
        (auto simp: meta_of_def)
  qed
  have load: "pure (load_files i ?m (sorted_keys (m_files ?m)) 0 fmempty) d = Done im"
    unfolding keys
    using pure_load_files [OF t(1), of "sorted_keys im" ?m im 0 fmempty] entry files im
    by (simp add: foldl_upd_all loadable_def image_size_def)
  have ls: "pure (io_lstat_snap i) d = Done True" "pure (io_open_snap i) d = Done ()"
    using t(1) by (simp_all add: io_lstat_snap_def io_open_snap_def pure_sys)
  obtain u g where mn: "look manifest_path t = Inr (File (Doc (ManifestDoc m)) 384 u g)"
    using t(2) by (auto simp: snapshot_tree_def)
  have rd: "pure (readDoc (Snap i) manifest_path) d = Done (ManifestDoc ?m)"
    unfolding readDoc_def
    using t(1) mn m(2) by (simp add: pure_bind ro_rules pure_readNode opened_file_def)
  show ?thesis
    unfolding loadSnapshot_def
    using i(1) by (simp add: pure_then pure_bind ro_rules ls rd jm(1) load)
qed

lemma live_next: "live q w \<Longrightarrow> live q (w\<lparr>w_tick := Suc (w_tick w)\<rparr>)"
proof -
  assume l: "live q w"
  have n: "nth_id (w\<lparr>w_tick := Suc (w_tick w)\<rparr>) = nth_id w"
    by (simp add: nth_id_def random_bytes_def fun_eq_iff)
  have "inj_on (nth_id w) {w_tick w..<w_limit w} \<Longrightarrow> inj_on (nth_id w) {Suc (w_tick w)..<w_limit w}"
    by (rule inj_on_subset) auto
  then show ?thesis using l by (simp add: live_def calm_def unused_def n)
qed

lemma hoare_now: "hoare q P now (\<lambda>_. P) E C"
  using live_next by (auto simp: hoare_def now_def)

lemma hoare_fresh: "(\<And>d. P d \<Longrightarrow> C d) \<Longrightarrow> hoare q P fresh_id (\<lambda>r d. uuid_v4 r \<and> P d) E C"
  using live_next by (auto simp: hoare_def fresh_id_def random_bytes_def intro!: random_id_uuid)

lemma hoare_new_manifest:
  assumes "\<And>d. P d \<Longrightarrow> C d"
  shows "hoare q P (new_manifest reason)
    (\<lambda>m d. (\<exists>t r. uuid_v4 r \<and> m_id m = stamp t @ ''-'' @ r) \<and> m_files m = fmempty \<and> m_reason m = reason \<and> P d) E C"
  unfolding new_manifest_def
proof (rule hoare_bind [OF hoare_now], rule hoare_bind [OF hoare_fresh [OF assms]])
  fix t0 r
  let ?m = "\<lambda>t1. \<lparr>m_id = stamp t0 @ ''-'' @ r, m_reason = reason, m_created = t1, m_files = fmempty\<rparr>"
  show "hoare q (\<lambda>d. uuid_v4 r \<and> P d) (bind_io now (\<lambda>t1. return (?m t1)))
    (\<lambda>m d. (\<exists>t r. uuid_v4 r \<and> m_id m = stamp t @ ''-'' @ r) \<and> m_files m = fmempty \<and> m_reason m = reason \<and> P d) E C"
    by (rule hoare_bind [OF hoare_now], rule hoare_pre [OF hoare_return]) auto
qed simp

lemma hoare_io_remove_entry:
  "hoare q (kept d0 i) (io_remove_entry (Snap i) p) (\<lambda>_. kept d0 i) (\<lambda>e. kept d0 i) (kept d0 i)"
  unfolding io_remove_entry_def
proof (rule hoare_sys)
  let ?f = "in_tree (Snap i) (\<lambda>t. case look p t of
     Inl e \<Rightarrow> (if errors_is e ErrNotExist then Inr () else Inl e, t) | Inr _ \<Rightarrow> (Inr (), del_node p t))"
  fix d assume k: "kept d0 i d"
  show "temps (snd (?f d)) \<subseteq> temps d"
  proof (cases "get_tree (Snap i) d")
    case None
    then show ?thesis by (simp add: in_tree_def)
  next
    case (Some t)
    have "temps (put_tree (Snap i) (del_node p t) d) \<subseteq> temps d" "temps (put_tree (Snap i) t d) \<subseteq> temps d"
      by (rule temps_same [OF Some]; auto simp: del_node_def)+
    then show ?thesis using Some by (auto simp: in_tree_def split: sum.split)
  qed
  have "kept d0 i (snd (?f d))"
    using k kept_put [OF k] by (auto simp: in_tree_def split: option.split sum.split)
  then show "case fst (?f d) of Inl e \<Rightarrow> kept d0 i (snd (?f d)) | Inr x \<Rightarrow> kept d0 i (snd (?f d))"
    by (simp split: sum.split)
qed simp

lemma hoare_remove_entries:
  "hoare q (kept d0 i) (remove_entries i ps) (\<lambda>_. kept d0 i) (\<lambda>e. kept d0 i) (kept d0 i)"
proof (induction ps)
  case (Cons p ps)
  have t: "hoare q (kept d0 i) (try_io (io_remove_entry (Snap i) p)) (\<lambda>_. kept d0 i) (\<lambda>e. kept d0 i) (kept d0 i)"
    by (rule hoare_try [OF hoare_io_remove_entry])
  show ?case
    unfolding remove_entries.simps
    by (rule hoare_bind [OF t hoare_bind [OF Cons hoare_pre [OF hoare_return]]])
qed (auto intro: hoare_pre [OF hoare_return])

lemma hoare_rmdir:
  "hoare q (kept d0 i) (io_rmdir i) (\<lambda>_ d. kept d0 i d \<and> fmlookup (d_snaps d) i = None)
    (\<lambda>e. kept d0 i) (kept d0 i)"
  unfolding io_rmdir_def
proof (rule hoare_sys)
  let ?f = "\<lambda>d. case fmlookup (d_snaps d) i of
     None \<Rightarrow> (Inr () :: unit result, d)
   | Some t \<Rightarrow> if sorted_keys (t_nodes t) = [] then (Inr (), d\<lparr>d_snaps := fmdrop i (d_snaps d)\<rparr>) else (Inl Fault, d)"
  fix d
  have "temps (d\<lparr>d_snaps := fmdrop i (d_snaps d)\<rparr>) \<subseteq> temps d"
  proof
    fix p assume "p \<in> temps (d\<lparr>d_snaps := fmdrop i (d_snaps d)\<rparr>)"
    then obtain s v where s: "get_tree s (d\<lparr>d_snaps := fmdrop i (d_snaps d)\<rparr>) = Some v" "p |\<in>| fmdom (t_nodes v)" "suffix ''.tmp'' p"
      by (auto simp: temps_def tree_keys_def)
    then have "get_tree s d = Some v" by (cases s) (auto split: if_splits)
    then show "p \<in> temps d" using s by (auto simp: temps_def tree_keys_def)
  qed
  then show "temps (snd (?f d)) \<subseteq> temps d" by (auto split: option.split)
  assume "kept d0 i d"
  then show "case fst (?f d) of Inl e \<Rightarrow> kept d0 i (snd (?f d))
      | Inr x \<Rightarrow> kept d0 i (snd (?f d)) \<and> fmlookup (d_snaps (snd (?f d))) i = None"
    by (auto simp: kept_def split: option.split)
qed simp

lemma hoare_removeAll:
  "hoare q (kept d0 i) (removeAll i) (\<lambda>_ d. kept d0 i d \<and> fmlookup (d_snaps d) i = None)
    (\<lambda>e. kept d0 i) (kept d0 i)"
  unfolding removeAll_def
proof (rule hoare_bind)
  have "ro (io_entries i)" unfolding io_entries_def by (rule ro_sys) simp
  then show "hoare q (kept d0 i) (io_entries i) (\<lambda>_. kept d0 i) (\<lambda>e. kept d0 i) (kept d0 i)"
    by (rule hoare_ro) auto
  fix ps
  let ?N = "\<lambda>r d. case r of Inl e \<Rightarrow> kept d0 i d | Inr u \<Rightarrow> kept d0 i d \<and> fmlookup (d_snaps d) i = None"
  have t: "hoare q (kept d0 i) (try_io (io_rmdir i)) ?N (\<lambda>e. kept d0 i) (kept d0 i)"
    by (rule hoare_try) (simp add: hoare_rmdir)
  have e: "hoare q (?N r) (case r of Inr _ \<Rightarrow> return () | Inl e \<Rightarrow> fail (case f of Some x \<Rightarrow> x | None \<Rightarrow> e))
      (\<lambda>_ d. kept d0 i d \<and> fmlookup (d_snaps d) i = None) (\<lambda>e. kept d0 i) (kept d0 i)" for r f
    by (cases r) (auto intro: hoare_pre [OF hoare_fail] hoare_pre [OF hoare_return])
  show "hoare q (kept d0 i) (bind_io (remove_entries i ps) (\<lambda>first. bind_io (try_io (io_rmdir i)) (\<lambda>r.
       case r of Inr _ \<Rightarrow> return () | Inl e \<Rightarrow> fail (case first of Some x \<Rightarrow> x | None \<Rightarrow> e))))
      (\<lambda>_ d. kept d0 i d \<and> fmlookup (d_snaps d) i = None) (\<lambda>e. kept d0 i) (kept d0 i)"
    by (rule hoare_bind [OF hoare_remove_entries hoare_bind [OF t e]])
qed

definition manifest_bound :: "image \<Rightarrow> string \<Rightarrow> bool" where
  "manifest_bound im reason \<longleftrightarrow>
     (\<forall>m. m_files m = metas im (sorted_keys im) \<longrightarrow> m_reason m = reason \<longrightarrow>
        validSnapshotID (m_id m) \<longrightarrow> utf8_valid (m_id m) \<longrightarrow> length (manifest_json m) \<le> MaxFileSize)"

text \<open>The disk after a snapshot: one new directory, from which the image loads.\<close>

definition snapshot_made :: "disk \<Rightarrow> image \<Rightarrow> string \<Rightarrow> manifest \<Rightarrow> disk \<Rightarrow> bool" where
  "snapshot_made d0 im reason m d \<longleftrightarrow>
     kept d0 (m_id m) d \<and> fmlookup (d_snaps d0) (m_id m) = None \<and> m_reason m = reason \<and>
     validSnapshotID (m_id m) \<and> utf8_valid (m_id m) \<and> m_id m \<noteq> [] \<and> (\<forall>p\<in>set (sorted_keys im). validPath p) \<and>
     (\<exists>t. fmlookup (d_snaps d) (m_id m) = Some t \<and> snapshot_tree im m t) \<and>
     m_files m = metas im (sorted_keys im)"

lemma snapshot_made_loads:
  assumes "snapshot_made d0 im reason m d" "loadable im" "manifest_bound im reason"
  shows "pure (loadSnapshot (m_id m)) d = Done (json_manifest m, im)"
proof -
  obtain t where "fmlookup (d_snaps d) (m_id m) = Some t" "snapshot_tree im m t"
    using assms(1) by (auto simp: snapshot_made_def)
  then show ?thesis
    using assms by (intro loads_snapshot) (auto simp: snapshot_made_def manifest_for_def manifest_bound_def)
qed

text \<open>The old snapshots, the configuration and the journal are untouched.\<close>

definition backups_kept :: "disk \<Rightarrow> disk \<Rightarrow> bool" where
  "backups_kept d0 d \<longleftrightarrow> d_conf d = d_conf d0 \<and> d_top d = d_top d0 \<and>
     (\<forall>j. fmlookup (d_snaps d0) j \<noteq> None \<longrightarrow> fmlookup (d_snaps d) j = fmlookup (d_snaps d0) j)"

lemma kept_backups: "kept d0 i d \<Longrightarrow> fmlookup (d_snaps d0) i = None \<Longrightarrow> backups_kept d0 d"
  unfolding kept_def backups_kept_def by (metis option.distinct(1))

lemma temps_new_snap:
  "temps (d\<lparr>d_snaps := fmupd i empty_tree (d_snaps d)\<rparr>) \<subseteq> temps d"
proof
  fix p assume "p \<in> temps (d\<lparr>d_snaps := fmupd i empty_tree (d_snaps d)\<rparr>)"
  then obtain s v where s: "get_tree s (d\<lparr>d_snaps := fmupd i empty_tree (d_snaps d)\<rparr>) = Some v"
      "p |\<in>| fmdom (t_nodes v)" "suffix ''.tmp'' p"
    by (auto simp: temps_def tree_keys_def)
  then have "get_tree s d = Some v" by (cases s) (auto simp: empty_tree_def split: if_splits)
  then show "p \<in> temps d" using s by (auto simp: temps_def tree_keys_def)
qed

lemma hoare_mkdir_snap:
  "hoare q (\<lambda>d. d = d0) (io_mkdir_snap i)
    (\<lambda>_ d. fmlookup (d_snaps d0) i = None \<and> snap_state d0 i (files_in im []) d) (\<lambda>e. backups_kept d0) (backups_kept d0)"
  unfolding io_mkdir_snap_def
proof (rule hoare_sys)
  fix d assume d: "d = d0"
  have "files_in im [] empty_tree" by (simp add: files_in_def empty_tree_def wf_tree_def)
  then show "case fst (if fmlookup (d_snaps d) i = None \<and> fmlookup (t_nodes (d_top d)) i = None
          then (Inr (), d\<lparr>d_snaps := fmupd i empty_tree (d_snaps d)\<rparr>) else (Inl Fault, d)) of
      Inl e \<Rightarrow> backups_kept d0 (snd (if fmlookup (d_snaps d) i = None \<and> fmlookup (t_nodes (d_top d)) i = None
          then (Inr (), d\<lparr>d_snaps := fmupd i empty_tree (d_snaps d)\<rparr>) else (Inl Fault, d)))
    | Inr x \<Rightarrow> fmlookup (d_snaps d0) i = None \<and> snap_state d0 i (files_in im [])
        (snd (if fmlookup (d_snaps d) i = None \<and> fmlookup (t_nodes (d_top d)) i = None
          then (Inr (), d\<lparr>d_snaps := fmupd i empty_tree (d_snaps d)\<rparr>) else (Inl Fault, d)))"
    using d by (auto simp: snap_state_def kept_def backups_kept_def)
qed (use temps_new_snap in \<open>auto simp: backups_kept_def\<close>)

lemma manifest_plain: "plain_path t manifest_path"
proof -
  have "path_clean manifest_path = manifest_path" "path_dir manifest_path = ''.''"
    "\<not> suffix ''.tmp'' manifest_path" "\<not> prefix ''services/'' manifest_path" by code_simp+
  then show ?thesis by (simp add: plain_path_def dir_ok_def parent_error_def)
qed

lemma files_in_snapshot_tree:
  assumes fi: "files_in im (sorted_keys im) t" and can: "canonical im" and valid: "\<forall>p\<in>set (sorted_keys im). validPath p"
    and n: "staged_node (Doc (ManifestDoc m)) backup_file False n" and j: "junk_tree (set_node manifest_path n t) t'"
  shows "snapshot_tree im m t'"
proof -
  have mc: "path_clean manifest_path = manifest_path" and mt: "\<not> suffix ''.tmp'' manifest_path"
    and mp: "\<not> prefix ''services/'' manifest_path"
    by code_simp+
  have wf: "wf_tree (set_node manifest_path n t)"
    using fi mc mp wf_set_node by (auto simp: files_in_def)
  have wf': "wf_tree t'" using j wf by (simp add: junk_tree_def)
  have look: "fmlookup (t_nodes t') k = (if k = manifest_path then Some n else fmlookup (t_nodes t) k)"
    if "\<not> suffix ''.tmp'' k" for k
    using j that mc by (simp add: junk_tree_def keys_set_node)
  have files: "\<exists>u g. look p t' = Inr (File (Bytes (f_data (fm_get zero_file im p))) 384 u g)"
    if p: "p \<in> set (sorted_keys im)" for p
  proof -
    have pc: "path_clean p = p" using can p by (simp add: canonical_def)
    have m: "managed_path p" using validPath_clean [of p] valid p pc by auto
    have "p \<noteq> manifest_path"
      using managed_config [OF m] by (auto simp: config_path_def service_key_def manifest_path_def conf_path_def hosts_path_def)
    then have "fmlookup (t_nodes t') p = fmlookup (t_nodes t) p"
      using look [OF managed_not_tmp [OF m]] by simp
    moreover have "if p \<in> set (sorted_keys im)
        then \<exists>u g. fmlookup (t_nodes t) p = Some (File (Bytes (f_data (fm_get zero_file im p))) 384 u g)
        else fmlookup (t_nodes t) p = None"
      using fi managed_not_tmp [OF m] unfolding files_in_def by blast
    ultimately show ?thesis using p wf_look [OF wf' pc] by auto
  qed
  have "\<exists>u g. look manifest_path t' = Inr (File (Doc (ManifestDoc m)) 384 u g)"
    using look [OF mt] wf_look [OF wf' mc] n by (auto simp: staged_backup)
  then show ?thesis using files by (simp add: snapshot_tree_def)
qed

lemma hoare_snapshot:
  assumes can: "canonical im"
  shows "hoare q (\<lambda>d. d = d0) (snapshot im reason) (\<lambda>m. snapshot_made d0 im reason m)
    (\<lambda>e. backups_kept d0) (backups_kept d0)"
  unfolding snapshot_def
proof (rule hoare_bind [OF hoare_new_manifest], simp add: backups_kept_def, rule hoare_fix)
  fix m :: manifest and d
  let ?i = "m_id m" and ?keys = "sorted_keys im"
  assume "(\<exists>t r. uuid_v4 r \<and> m_id m = stamp t @ ''-'' @ r) \<and> m_files m = fmempty \<and> m_reason m = reason \<and> d = d0"
  then have d: "d = d0" and mf: "m_files m = metas im []" and mr: "m_reason m = reason"
    and ids: "validSnapshotID ?i" "utf8_valid ?i" "?i \<noteq> []"
    using snapshot_id_ok by (auto simp: metas_def)
  let ?B = "backups_kept d0" and ?Q = "snapshot_made d0 im reason"
  have B0: "?B d0" by (simp add: backups_kept_def)
  have gd: "hoare q (\<lambda>x. x = d) (guard_io (length reason \<le> 512) ''snapshot reason too long'') (\<lambda>_ x. x = d0) (\<lambda>e. ?B) ?B"
    by (rule hoare_pre [OF hoare_guard]) (simp add: d B0)
  have body: "hoare q (snap_state d0 ?i (files_in im []))
      (then_io (io_open_snap ?i)
       (bind_io (snapshot_files im ?keys m) (\<lambda>m.
        then_io (atomicFile (Snap (m_id m)) manifest_path (Doc (ManifestDoc m)))
        (then_io (syncDir Top ''.'') (return m)))))
      ?Q (\<lambda>e. kept d0 ?i) (kept d0 ?i)" if new: "fmlookup (d_snaps d0) ?i = None"
  proof (rule hoare_then)
    show "hoare q (snap_state d0 ?i (files_in im [])) (io_open_snap ?i) (\<lambda>_. snap_state d0 ?i (files_in im []))
        (\<lambda>e. kept d0 ?i) (kept d0 ?i)"
      by (rule hoare_ro) (auto intro: ro_rules dest: snap_state_kept)
    show "hoare q (snap_state d0 ?i (files_in im [])) (bind_io (snapshot_files im ?keys m) (\<lambda>m.
        then_io (atomicFile (Snap (m_id m)) manifest_path (Doc (ManifestDoc m)))
        (then_io (syncDir Top ''.'') (return m)))) ?Q (\<lambda>e. kept d0 ?i) (kept d0 ?i)"
    proof (rule hoare_bind [OF hoare_snapshot_files [OF can subset_refl mf]], rule hoare_fix)
      fix m' d1
      assume "snap_state d0 ?i (files_in im ([] @ ?keys)) d1 \<and> m' = m\<lparr>m_files := metas im ([] @ ?keys)\<rparr> \<and>
          (\<forall>p\<in>set ?keys. validPath p)"
      then obtain t where t: "fmlookup (d_snaps d1) ?i = Some t" "files_in im ?keys t" and k: "kept d0 ?i d1"
        and m': "m' = m\<lparr>m_files := metas im ?keys\<rparr>" and valid: "\<forall>p\<in>set ?keys. validPath p"
        by (auto simp: snap_state_def)
      have i': "m_id m' = ?i" using m' by simp
      have g: "get_tree (Snap ?i) d1 = Some t" using t by simp
      have mt: "\<not> suffix ''.tmp'' manifest_path" by code_simp
      have "\<not> validPath manifest_path" by code_simp
      then have "manifest_path \<notin> set ?keys" using valid by blast
      then have nd: "fmlookup (t_nodes t) manifest_path \<noteq> Some Subdir"
        using t(2) mt by (auto simp: files_in_def split: if_splits)
      have at: "hoare q (\<lambda>x. x = d1) (atomicFile (Snap ?i) manifest_path (Doc (ManifestDoc m')))
          (\<lambda>_. ?Q m') (\<lambda>e. kept d0 ?i) (kept d0 ?i)"
      proof (rule hoare_conseq [OF hoare_atomic [OF g manifest_plain nd]])
        fix x assume w: "wrote (Snap ?i) manifest_path (Doc (ManifestDoc m')) d1 x"
        then obtain u t' n where u: "get_tree (Snap ?i) d1 = Some u" "x = put_tree (Snap ?i) t' d1"
            "staged_node (Doc (ManifestDoc m')) backup_file False n" "junk_tree (set_node manifest_path n u) t'"
          by (auto simp: wrote_def)
        have "snapshot_tree im m' t'"
          using files_in_snapshot_tree [OF t(2) can valid u(3)] u(1,4) g by simp
        then show "?Q m' x"
          using ids mr m' valid new kept_put [OF k, of t'] u(2) by (simp add: snapshot_made_def)
      qed (use k kept_junk [OF k] kept_wrote [OF k] in blast)+
      have kq: "kept d0 ?i x" if "?Q m' x" for x using that i' by (simp add: snapshot_made_def)
      have sy: "hoare q (?Q m') (then_io (syncDir Top ''.'') (return m')) ?Q (\<lambda>e. kept d0 ?i) (kept d0 ?i)"
      proof (rule hoare_then)
        show "hoare q (?Q m') (syncDir Top ''.'') (\<lambda>_. ?Q m') (\<lambda>e. kept d0 ?i) (kept d0 ?i)"
          by (rule hoare_ro) (use kq in \<open>auto intro: ro_rules\<close>)
      qed (rule hoare_return)
      show "hoare q (\<lambda>x. x = d1) (then_io (atomicFile (Snap (m_id m')) manifest_path (Doc (ManifestDoc m')))
        (then_io (syncDir Top ''.'') (return m'))) ?Q (\<lambda>e. kept d0 ?i) (kept d0 ?i)"
        unfolding i' by (rule hoare_then [OF at sy])
    qed
  qed
  have cl: "hoare q (\<lambda>d. fmlookup (d_snaps d0) ?i = None \<and> snap_state d0 ?i (files_in im []) d)
      (cleanup_io (then_io (io_open_snap ?i)
       (bind_io (snapshot_files im ?keys m) (\<lambda>m.
        then_io (atomicFile (Snap (m_id m)) manifest_path (Doc (ManifestDoc m)))
        (then_io (syncDir Top ''.'') (return m))))) (removeAll ?i)) ?Q (\<lambda>e. ?B) ?B"
  proof (rule hoare_imp)
    assume new: "fmlookup (d_snaps d0) ?i = None"
    have kb: "?B x" if "kept d0 ?i x" for x using kept_backups [OF that new] .
    show "hoare q (snap_state d0 ?i (files_in im []))
      (cleanup_io (then_io (io_open_snap ?i)
       (bind_io (snapshot_files im ?keys m) (\<lambda>m.
        then_io (atomicFile (Snap (m_id m)) manifest_path (Doc (ManifestDoc m)))
        (then_io (syncDir Top ''.'') (return m))))) (removeAll ?i)) ?Q (\<lambda>e. ?B) ?B"
    proof (rule hoare_cleanup)
      show "hoare q (snap_state d0 ?i (files_in im [])) (then_io (io_open_snap ?i)
       (bind_io (snapshot_files im ?keys m) (\<lambda>m.
        then_io (atomicFile (Snap (m_id m)) manifest_path (Doc (ManifestDoc m)))
        (then_io (syncDir Top ''.'') (return m))))) ?Q (\<lambda>e. kept d0 ?i) ?B"
        by (rule hoare_conseq [OF body [OF new]]) (use kb in auto)
      show "hoare q (kept d0 ?i) (removeAll ?i) (\<lambda>_. ?B) (\<lambda>_. ?B) ?B" for e :: error
        by (rule hoare_conseq [OF hoare_removeAll]) (use kb in auto)
    qed
  qed
  show "hoare q (\<lambda>x. x = d) (then_io (guard_io (length reason \<le> 512) ''snapshot reason too long'')
     (then_io (io_mkdir_snap ?i) (cleanup_io (then_io (io_open_snap ?i)
       (bind_io (snapshot_files im ?keys m) (\<lambda>m.
        then_io (atomicFile (Snap (m_id m)) manifest_path (Doc (ManifestDoc m)))
        (then_io (syncDir Top ''.'') (return m))))) (removeAll ?i)))) ?Q (\<lambda>e. ?B) ?B"
    by (rule hoare_then [OF gd hoare_then [OF hoare_mkdir_snap cl]])
qed

end
