(* ===== verification/ApplyLaws.thy ===== *)
theory ApplyLaws
  imports Apply SnapLaws
begin

text \<open>
  The transaction of the configuration store under every schedule of failures and deaths of the
  process: what replacing the files does, what the journal guarantees at each point, and
  what rollback and recovery restore.
\<close>

section \<open>Replacing the configuration\<close>

definition good :: "tree \<Rightarrow> bool" where
  "good t \<longleftrightarrow> wf_tree t \<and> readable t"

definition new_ok :: "image \<Rightarrow> bool" where
  "new_ok im \<longleftrightarrow> (\<forall>p f. fmlookup im p = Some f \<longrightarrow>
     managed_path p \<and> f_mode f AND 511 = f_mode f \<and> length (f_data f) \<le> MaxFileSize)"

definition mixed :: "image \<Rightarrow> image \<Rightarrow> tree \<Rightarrow> bool" where
  "mixed old new t \<longleftrightarrow> good t \<and> (\<forall>p. cfg t p = fmlookup old p \<or> cfg t p = fmlookup new p)"

definition holds :: "image \<Rightarrow> tree \<Rightarrow> bool" where
  "holds im t \<longleftrightarrow> good t \<and> (\<forall>p. cfg t p = fmlookup im p)"

definition others :: "disk \<Rightarrow> disk \<Rightarrow> bool" where
  "others d0 d \<longleftrightarrow> d_top d = d_top d0 \<and> d_snaps d = d_snaps d0"

lemma others_refl [simp]: "others d d"
  by (simp add: others_def)

lemma others_put [simp]: "others d0 (put_tree Conf t d) = others d0 d"
  by (simp add: others_def)

lemma config_not_tmp: "config_path p \<Longrightarrow> \<not> suffix ''.tmp'' p"
proof
  assume c: "config_path p" and s: "suffix ''.tmp'' p"
  obtain u where u: "p = u @ ''.tmp''" using s by (auto simp: suffix_def)
  have "\<not> service_key p"
  proof
    assume "service_key p"
    then obtain v where v: "drop 9 p = v @ ''.service''" by (auto simp: service_key_def suffix_def)
    have "p = take 9 p @ v @ ''.service''" using append_take_drop_id [of 9 p] by (simp only: v)
    moreover have "last (take 9 p @ v @ ''.service'') = CHR ''e''" "last (u @ ''.tmp'') = CHR ''p''"
      by simp_all
    ultimately show False using u by simp
  qed
  moreover have "p \<noteq> conf_path" "p \<noteq> hosts_path"
    using s by (auto simp: conf_path_def hosts_path_def suffix_def dest: arg_cong [where f = last])
  ultimately show False using c by (simp add: config_path_def)
qed

lemma cfg_config: "cfg t p \<noteq> None \<Longrightarrow> config_path p"
  by (auto simp: cfg_def split: if_splits)

lemma junk_cfg: "junk_tree t t' \<Longrightarrow> cfg t' = cfg t"
  using config_not_tmp by (fastforce simp: junk_tree_def cfg_def fun_eq_iff)

lemma junk_good: "junk_tree t t' \<Longrightarrow> good t \<Longrightarrow> good t'"
  using config_not_tmp by (auto simp: junk_tree_def good_def readable_def)

lemma managed_plain:
  assumes "managed_path p" "t_services t = IsDir"
  shows "plain_path t p"
proof -
  have "path_clean p = p" using managed_path_valid(2) assms(1) .
  moreover have "path_dir p = ''.'' \<or> path_dir p = ''services''"
  proof (cases "p = conf_path \<or> p = hosts_path")
    case True
    then show ?thesis by (elim disjE; clarify; code_simp)
  next
    case False
    then have "validPath p" using managed_path_valid(1) assms(1) by blast
    then show ?thesis using False by (auto simp: validPath_def)
  qed
  ultimately show ?thesis
    using assms config_not_tmp [OF managed_config] by (auto simp: plain_path_def dir_ok_def parent_error_def)
qed

lemma good_node:
  assumes "good t" "config_path p"
  shows "fmlookup (t_nodes t) p = None \<or> (\<exists>c m u g. fmlookup (t_nodes t) p = Some (File c m u g))"
proof (cases "fmlookup (t_nodes t) p")
  case (Some n)
  then have "is_ok (opened_file n)" using assms by (auto simp: good_def readable_def)
  then show ?thesis using Some by (cases n) (auto simp: opened_file_def)
qed simp

lemma opened_staged:
  assumes "staged_node (Bytes (f_data f)) f True n" "f_mode f AND 511 = f_mode f" "length (f_data f) \<le> MaxFileSize"
  shows "opened_file n = Inr (Bytes (f_data f), f)"
  using assms by (auto simp: staged_node_def opened_file_def and.assoc intro: cfile.equality)

lemma good_set:
  assumes "good t" "managed_path p" "t_services t = IsDir" "opened_file n = Inr (c, f)"
  shows "good (set_node p n t)" "cfg (set_node p n t) = (cfg t)(p := Some f)"
proof -
  have pc: "path_clean p = p" using managed_path_valid(2) assms(2) .
  show "good (set_node p n t)"
    using assms wf_set_node [of t p n] pc by (auto simp: good_def readable_def keys_set_node)
  show "cfg (set_node p n t) = (cfg t)(p := Some f)"
    using assms pc managed_config [OF assms(2)] by (auto simp: cfg_def keys_set_node fun_eq_iff)
qed

lemma good_del:
  assumes "good t" "path_clean p = p"
  shows "good (del_node p t)" "cfg (del_node p t) = (cfg t)(p := None)"
  using assms by (auto simp: good_def readable_def del_node_def wf_tree_def cfg_def fun_eq_iff)

text \<open>An assertion that staged files do not affect survives the removal of one.\<close>

definition stable :: "(disk \<Rightarrow> bool) \<Rightarrow> bool" where
  "stable I \<longleftrightarrow> (\<forall>d d'. I d \<longrightarrow> junk Conf d d' \<longrightarrow> I d')"

lemma hoare_unlink_stable:
  assumes "stable I" "suffix ''.tmp'' (path_clean p)"
  shows "hoare q I (io_unlink Conf p) (\<lambda>_. I) (\<lambda>_. I) I"
proof (rule hoare_fix)
  fix d0 assume I: "I d0"
  have g: "get_tree Conf d0 = Some (d_conf d0)" by simp
  show "hoare q (\<lambda>d. d = d0) (io_unlink Conf p) (\<lambda>_. I) (\<lambda>_. I) I"
    by (rule hoare_conseq [OF hoare_unlink_junk [OF g assms(2)]])
      (use assms(1) I junk_refl [OF g] in \<open>auto simp: stable_def\<close>)
qed

lemma stable_conf:
  assumes "\<And>t t'. X t \<Longrightarrow> junk_tree t t' \<Longrightarrow> X t'"
  shows "stable (\<lambda>d. others d0 d \<and> X (d_conf d))"
  using assms by (auto simp: stable_def junk_def others_def)

definition temp_of :: "string \<times> string \<Rightarrow> bool" where
  "temp_of x \<longleftrightarrow> path_clean (snd x) = snd x \<and> suffix ''.tmp'' (snd x)"

lemma hoare_remove_temps:
  assumes "stable I" "\<forall>x\<in>set staged. temp_of x"
  shows "hoare q I (remove_temps staged) (\<lambda>_. I) (\<lambda>_. I) I"
  unfolding remove_temps_def
proof (rule hoare_for_inv)
  fix x assume "x \<in> set staged"
  then have "suffix ''.tmp'' (path_clean (snd x))" using assms(2) by (auto simp: temp_of_def)
  then have "hoare q I (bind_io (try_io (io_unlink Conf (snd x))) (\<lambda>_. return ())) (\<lambda>_. I) (\<lambda>_. I) I"
    by (intro hoare_bind [OF hoare_try hoare_return] hoare_unlink_stable [OF assms(1)])
  then show "hoare q I (case x of (p, tmp) \<Rightarrow> bind_io (try_io (io_unlink Conf tmp)) (\<lambda>_. return ()))
      (\<lambda>_. I) (\<lambda>_. I) I"
    by (cases x) simp
qed

text \<open>The staged files of a replacement: each holds its path's new contents and attributes.\<close>

definition staged_for :: "image \<Rightarrow> tree \<Rightarrow> string \<times> string \<Rightarrow> bool" where
  "staged_for new t x \<longleftrightarrow> temp_of x \<and> parent_error t (snd x) = None \<and>
     (\<exists>n. fmlookup (t_nodes t) (snd x) = Some n \<and>
        staged_node (Bytes (f_data (fm_get zero_file new (fst x)))) (fm_get zero_file new (fst x)) True n)"

definition staged_all :: "image \<Rightarrow> image \<Rightarrow> string list \<Rightarrow> (string \<times> string) list \<Rightarrow> tree \<Rightarrow> tree \<Rightarrow> bool" where
  "staged_all old new ps staged t0 t \<longleftrightarrow> junk_tree t0 t \<and>
     map fst staged = filter (\<lambda>p. fmlookup old p = None \<or> \<not> same_entry old new p) ps \<and>
     distinct (map snd staged) \<and> (\<forall>x\<in>set staged. staged_for new t x)"

definition in_conf :: "disk \<Rightarrow> (tree \<Rightarrow> bool) \<Rightarrow> disk \<Rightarrow> bool" where
  "in_conf d0 X d \<longleftrightarrow> others d0 d \<and> X (d_conf d)"

lemma in_conf_put [simp]: "in_conf d0 X (put_tree Conf t d) \<longleftrightarrow> others d0 d \<and> X t"
  by (simp add: in_conf_def others_def)

lemma in_conf_upd [simp]: "in_conf d0 X (d\<lparr>d_conf := t\<rparr>) \<longleftrightarrow> others d0 d \<and> X t"
  by (simp add: in_conf_def others_def)

lemma in_conf_mono: "in_conf d0 X d \<Longrightarrow> (\<And>t. X t \<Longrightarrow> Y t) \<Longrightarrow> in_conf d0 Y d"
  by (simp add: in_conf_def)

lemma stable_in_conf: "(\<And>t t'. X t \<Longrightarrow> junk_tree t t' \<Longrightarrow> X t') \<Longrightarrow> stable (in_conf d0 X)"
  using stable_conf [of X d0] by (simp add: in_conf_def [abs_def])

lemma staged_step:
  assumes s: "staged_all old new ps staged t0 t" and i: "uuid_v4 i" and dir: "dir_ok t p"
    and new: "fmlookup (t_nodes t) (tmp_path p i) = None"
    and n: "staged_node (Bytes (f_data (fm_get zero_file new p))) (fm_get zero_file new p) True n"
    and ch: "fmlookup old p = None \<or> \<not> same_entry old new p"
  shows "staged_all old new (ps @ [p]) (staged @ [(p, tmp_path p i)]) t0 (set_node (tmp_path p i) n t)"
proof -
  note ok = tmp_path_ok [OF i dir]
  have j: "junk_tree t0 (set_node (tmp_path p i) n t)"
    using s junk_tmp(1) [of Conf "d\<lparr>d_conf := t\<rparr>" t i p n for d] i dir junk_tree_trans
    by (auto simp: staged_all_def)
  have par: "parent_error (set_node x m t) y = parent_error t y" for x m y
    by (simp add: parent_error_def keys_set_node)
  have old_ne: "snd x \<noteq> tmp_path p i" if "x \<in> set staged" for x
    using s that new by (auto simp: staged_all_def staged_for_def)
  then have d: "distinct (map snd (staged @ [(p, tmp_path p i)]))"
    using s by (force simp: staged_all_def)
  have "staged_for new (set_node (tmp_path p i) n t) x" if "x \<in> set staged" for x
    using s that old_ne [OF that] ok(1) by (auto simp: staged_all_def staged_for_def par keys_set_node)
  moreover have "staged_for new (set_node (tmp_path p i) n t) (p, tmp_path p i)"
    using ok n by (simp add: staged_for_def temp_of_def par keys_set_node)
  ultimately show ?thesis using s j d ch by (auto simp: staged_all_def)
qed

lemma staged_skip:
  "staged_all old new ps staged t0 t \<Longrightarrow> \<not> (fmlookup old p = None \<or> \<not> same_entry old new p) \<Longrightarrow>
   staged_all old new (ps @ [p]) staged t0 t"
  by (simp add: staged_all_def)

text \<open>After a failure only the list of names is known.\<close>

definition stage_result :: "image \<Rightarrow> image \<Rightarrow> string list \<Rightarrow> tree \<Rightarrow> (string \<times> string) list \<times> error option
    \<Rightarrow> tree \<Rightarrow> bool" where
  "stage_result old new ps t0 r t \<longleftrightarrow>
     (case snd r of
        None \<Rightarrow> staged_all old new ps (fst r) t0 t
      | Some e \<Rightarrow> junk_tree t0 t \<and> (\<forall>x\<in>set (fst r). temp_of x))"

lemma hoare_stage_all:
  assumes isd: "t_services t0 = IsDir"
  shows "(\<forall>p\<in>set qs. managed_path p) \<Longrightarrow>
    hoare q (in_conf d0 (staged_all old new ps staged t0)) (stage_all old new qs staged)
      (\<lambda>r d. in_conf d0 (stage_result old new (ps @ qs) t0 r) d \<and> (snd r \<noteq> None \<longrightarrow> \<not> q))
      E (in_conf d0 (junk_tree t0))"
proof (induction qs arbitrary: ps staged)
  case Nil
  then show ?case by (auto intro!: hoare_pre [OF hoare_return] simp: stage_result_def)
next
  case (Cons p qs)
  let ?f = "fm_get zero_file new p"
  let ?Q = "\<lambda>qs r d. in_conf d0 (stage_result old new qs t0 r) d \<and> (snd r \<noteq> None \<longrightarrow> \<not> q)"
  have m: "managed_path p" using Cons.prems by simp
  show ?case
  proof (cases "fmlookup old p \<noteq> None \<and> same_entry old new p")
    case True
    then have "hoare q (in_conf d0 (staged_all old new ps staged t0)) (stage_all old new qs staged)
        (?Q ((ps @ [p]) @ qs)) E (in_conf d0 (junk_tree t0))"
      using Cons.prems staged_skip by (intro hoare_pre [OF Cons.IH]) (auto elim: in_conf_mono)
    then show ?thesis using True by simp
  next
    case False
    let ?R = "\<lambda>r. case r of
        Inr tmp \<Rightarrow> in_conf d0 (staged_all old new (ps @ [p]) (staged @ [(p, tmp)]) t0)
      | Inl e \<Rightarrow> (\<lambda>d. \<not> q \<and> in_conf d0 (stage_result old new [] t0 (staged, Some e)) d)"
    have st: "hoare q (in_conf d0 (staged_all old new ps staged t0)) (stage Conf p (Bytes (f_data ?f)) ?f True)
        (\<lambda>tmp. ?R (Inr tmp)) (\<lambda>e. ?R (Inl e)) (in_conf d0 (junk_tree t0))"
    proof (rule hoare_fix)
      fix d assume d: "in_conf d0 (staged_all old new ps staged t0) d"
      then have s: "staged_all old new ps staged t0 (d_conf d)" and oth: "others d0 d" by (auto simp: in_conf_def)
      then have j0: "junk_tree t0 (d_conf d)" by (simp add: staged_all_def)
      then have "t_services (d_conf d) = IsDir" using isd by (simp add: junk_tree_def)
      then have dir: "dir_ok (d_conf d) p" using managed_plain [OF m] by (simp add: plain_path_def)
      have g: "get_tree Conf d = Some (d_conf d)" by simp
      show "hoare q (\<lambda>x. x = d) (stage Conf p (Bytes (f_data ?f)) ?f True)
          (\<lambda>tmp. ?R (Inr tmp)) (\<lambda>e. ?R (Inl e)) (in_conf d0 (junk_tree t0))"
      proof (rule hoare_conseq [OF hoare_stage [OF g dir]])
        fix tmp x assume "\<exists>i n. uuid_v4 i \<and> tmp = tmp_path p i \<and> fmlookup (t_nodes (d_conf d)) tmp = None \<and>
            staged_node (Bytes (f_data ?f)) ?f True n \<and> x = put_tree Conf (set_node tmp n (d_conf d)) d"
        then show "?R (Inr tmp) x" using staged_step [OF s _ dir] False oth by auto
      next
        fix e x assume "\<not> q \<and> junk Conf d x"
        then show "?R (Inl e) x"
          using s oth junk_tree_trans [OF j0]
          by (auto simp: junk_def staged_all_def staged_for_def stage_result_def)
      next
        fix x assume "junk Conf d x"
        then show "in_conf d0 (junk_tree t0) x"
          using j0 oth junk_tree_trans by (auto simp: junk_def)
      qed simp
    qed
    have run: "stage_all old new (p # qs) staged = bind_io (try_io (stage Conf p (Bytes (f_data ?f)) ?f True))
        (\<lambda>r. case r of Inl e \<Rightarrow> return (staged, Some e)
           | Inr tmp \<Rightarrow> stage_all old new qs (staged @ [(p, tmp)]))"
      using False by (auto simp: Let_def)
    show ?thesis
      unfolding run
    proof (rule hoare_bind [OF hoare_try [OF st]])
      fix r :: "string result"
      show "hoare q (?R r) (case r of Inl e \<Rightarrow> return (staged, Some e)
           | Inr tmp \<Rightarrow> stage_all old new qs (staged @ [(p, tmp)])) (?Q (ps @ p # qs)) E (in_conf d0 (junk_tree t0))"
      proof (cases r)
        case (Inl e)
        then show ?thesis
          by (auto intro!: hoare_pre [OF hoare_return] simp: stage_result_def in_conf_def)
      next
        case (Inr tmp)
        then show ?thesis using Cons.IH [of "ps @ [p]" "staged @ [(p, tmp)]"] Cons.prems by simp
      qed
    qed
  qed
qed

definition renamed :: "image \<Rightarrow> (string \<times> string) list \<Rightarrow> tree \<Rightarrow> (string \<times> string) list \<Rightarrow> tree \<Rightarrow> bool" where
  "renamed new staged t0 ys t \<longleftrightarrow> good t \<and> t_services t = IsDir \<and>
     (\<forall>x\<in>set staged - set ys. staged_for new t x) \<and>
     (\<forall>p. cfg t p = (if p \<in> fst ` set ys then fmlookup new p else cfg t0 p))"

lemma config_tmp_ne: "config_path p \<Longrightarrow> temp_of x \<Longrightarrow> snd x \<noteq> p"
  using config_not_tmp by (auto simp: temp_of_def)

lemma renamed_step:
  assumes r: "renamed new staged t0 ys t" and st: "staged = ys @ x # zs" "distinct (map snd staged)"
    and f: "fmlookup new (fst x) = Some f" "new_ok new"
    and n: "fmlookup (t_nodes t) (snd x) = Some n" "staged_node (Bytes (f_data f)) f True n"
    and x: "temp_of x"
  shows "renamed new staged t0 (ys @ [x]) (set_node (fst x) n (del_node (snd x) t))"
proof -
  let ?p = "fst x" and ?tmp = "snd x"
  let ?t = "del_node ?tmp t" and ?u = "set_node (fst x) n (del_node (snd x) t)"
  have m: "managed_path ?p" and f2: "f_mode f AND 511 = f_mode f" "length (f_data f) \<le> MaxFileSize"
    using f unfolding new_ok_def by blast+
  have pc: "path_clean ?p = ?p" using managed_path_valid(2) [OF m] .
  have tc: "path_clean ?tmp = ?tmp" using x by (simp add: temp_of_def)
  have g: "good t" and isd: "t_services t = IsDir" using r by (auto simp: renamed_def)
  have del: "good ?t" "cfg ?t = (cfg t)(?tmp := None)" using good_del [OF g tc] by blast+
  have "cfg t ?tmp = None" using config_tmp_ne [OF cfg_config x] by blast
  then have cf: "cfg ?t = cfg t" using del(2) by auto
  have o': "opened_file n = Inr (Bytes (f_data f), f)" using opened_staged [OF n(2) f2] .
  have isd': "t_services ?t = IsDir" using isd by (simp add: del_node_def)
  note set' = good_set [OF del(1) m isd' o']
  have look: "fmlookup (t_nodes ?u) k = fmlookup (t_nodes t) k" if "k \<noteq> ?p" "k \<noteq> ?tmp" for k
    using that pc tc by (simp add: keys_set_node del_node_def)
  have "staged_for new ?u y" if y: "y \<in> set staged - set (ys @ [x])" for y
  proof -
    have yt: "staged_for new t y" using y r by (auto simp: renamed_def)
    have "snd y \<noteq> ?tmp" using y st unfolding distinct_map inj_on_def by auto
    moreover have "snd y \<noteq> ?p"
      using yt config_tmp_ne [OF managed_config [OF m]] by (auto simp: staged_for_def)
    ultimately show ?thesis
      using yt look by (auto simp: staged_for_def parent_error_def keys_set_node del_node_def)
  qed
  moreover have "cfg ?u k = (if k \<in> fst ` set (ys @ [x]) then fmlookup new k else cfg t0 k)" for k
    using r set'(2) cf f(1) by (auto simp: renamed_def)
  ultimately show ?thesis
    using set'(1) isd' unfolding renamed_def by (simp add: keys_set_node)
qed

lemma hoare_renames:
  assumes st: "distinct (map snd staged)" and new: "new_ok new"
    and dom: "\<forall>x\<in>set staged. fmlookup new (fst x) \<noteq> None"
  shows "hoare q (in_conf d0 (renamed new staged t0 []))
    (for_io (\<lambda>(p, tmp). io_rename Conf tmp p) staged)
    (\<lambda>_. in_conf d0 (renamed new staged t0 staged))
    (\<lambda>e d. \<not> q \<and> in_conf d0 (\<lambda>t. \<exists>ys. set ys \<subseteq> set staged \<and> renamed new staged t0 ys t) d)
    (in_conf d0 (\<lambda>t. \<exists>ys. set ys \<subseteq> set staged \<and> renamed new staged t0 ys t))"
proof (rule hoare_for [where I = "\<lambda>ys. in_conf d0 (renamed new staged t0 ys)"])
  fix ys x zs assume s: "staged = ys @ x # zs"
  let ?X = "\<lambda>t. \<exists>ys. set ys \<subseteq> set staged \<and> renamed new staged t0 ys t"
  have "hoare q (in_conf d0 (renamed new staged t0 ys)) (io_rename Conf (snd x) (fst x))
      (\<lambda>_. in_conf d0 (renamed new staged t0 (ys @ [x]))) (\<lambda>e d. \<not> q \<and> in_conf d0 ?X d) (in_conf d0 ?X)"
  proof (rule hoare_fix)
    fix d assume d: "in_conf d0 (renamed new staged t0 ys) d"
    let ?t = "d_conf d"
    have r: "renamed new staged t0 ys ?t" and oth: "others d0 d" using d by (auto simp: in_conf_def)
    have "x \<in> set staged - set ys" using s st by auto
    then have "staged_for new ?t x" using r by (auto simp: renamed_def)
    then obtain n where n: "fmlookup (t_nodes ?t) (snd x) = Some n" and x: "temp_of x"
      and pe: "parent_error ?t (snd x) = None"
      and sn: "staged_node (Bytes (f_data (fm_get zero_file new (fst x)))) (fm_get zero_file new (fst x)) True n"
      by (auto simp: staged_for_def)
    obtain f where f: "fmlookup new (fst x) = Some f" using dom s by auto
    have m: "managed_path (fst x)" using f new by (auto simp: new_ok_def)
    have isd: "t_services ?t = IsDir" and g: "good ?t" using r by (auto simp: renamed_def)
    have pl: "plain_path ?t (fst x)" using managed_plain [OF m isd] .
    have nd: "fmlookup (t_nodes ?t) (fst x) \<noteq> Some Subdir"
      using good_node [OF g managed_config [OF m]] by auto
    have step: "renamed new staged t0 (ys @ [x]) (set_node (fst x) n (del_node (snd x) ?t))"
      using renamed_step [OF r s st f new n _ x] sn f by simp
    have X: "in_conf d0 ?X d" using d s by (auto simp: in_conf_def intro: exI [of _ ys])
    have put: "put_tree Conf (d_conf d) d = d" by simp
    show "hoare q (\<lambda>y. y = d) (io_rename Conf (snd x) (fst x))
      (\<lambda>_. in_conf d0 (renamed new staged t0 (ys @ [x]))) (\<lambda>e d. \<not> q \<and> in_conf d0 ?X d) (in_conf d0 ?X)"
    proof (rule hoare_conseq [OF hoare_rename [where ?d0.0 = d and t = ?t and r = Conf]])
      show "path_clean (snd x) = snd x" using x by (simp add: temp_of_def)
      show "path_clean (fst x) = fst x" "parent_error ?t (fst x) = None" "\<not> suffix ''.tmp'' (fst x)"
        using pl by (simp_all add: plain_path_def)
      show "fmlookup (t_nodes ?t) (snd x) = Some n" "parent_error ?t (snd x) = None"
        "fmlookup (t_nodes ?t) (fst x) \<noteq> Some Subdir" using n pe nd by auto
      show "\<And>y. y = d \<Longrightarrow> y = put_tree Conf ?t d" by simp
      show "\<And>u y. y = put_tree Conf (set_node (fst x) n (del_node (snd x) ?t)) d \<Longrightarrow>
          in_conf d0 (renamed new staged t0 (ys @ [x])) y"
        using step oth by simp
      show "\<not> q \<Longrightarrow> (\<lambda>e y. \<not> q \<and> y = d) Fault (put_tree Conf ?t d) \<and> (\<lambda>y. y = d) (put_tree Conf ?t d)"
        by simp
    qed (use X in auto)
  qed
  then show "hoare q (in_conf d0 (renamed new staged t0 ys)) (case x of (p, tmp) \<Rightarrow> io_rename Conf tmp p)
      (\<lambda>_. in_conf d0 (renamed new staged t0 (ys @ [x]))) (\<lambda>e d. \<not> q \<and> in_conf d0 ?X d) (in_conf d0 ?X)"
    by (cases x) simp
qed

definition cleared :: "image \<Rightarrow> (string \<Rightarrow> cfile option) \<Rightarrow> string list \<Rightarrow> tree \<Rightarrow> bool" where
  "cleared new g ys t \<longleftrightarrow> good t \<and> t_services t = IsDir \<and>
     (\<forall>p. cfg t p = (if p \<in> set ys \<and> fmlookup new p = None then None else g p))"

lemma hoare_remove_gone:
  assumes "config_path p" "path_clean p = p"
  shows "hoare q (in_conf d0 (cleared new g ys)) (remove_gone new p) (\<lambda>_. in_conf d0 (cleared new g (ys @ [p])))
    (\<lambda>e d. \<not> q \<and> in_conf d0 (cleared new g ys) d) (in_conf d0 (cleared new g ys))"
proof (cases "fmlookup new p")
  case (Some f)
  then show ?thesis
    unfolding remove_gone_def
    by (auto intro!: hoare_pre [OF hoare_return] simp: cleared_def elim!: in_conf_mono)
next
  case None
  let ?I = "in_conf d0 (cleared new g ys)" and ?Q = "in_conf d0 (cleared new g (ys @ [p]))"
  let ?f = "in_tree Conf (\<lambda>t. case look p t of Inl e \<Rightarrow> (Inl e, t)
      | Inr n \<Rightarrow> (case n of Subdir \<Rightarrow> (Inl Fault, t) | _ \<Rightarrow> (Inr (), del_node p t)))"
  have un: "hoare q ?I (sys ?f) (\<lambda>_. ?Q) (\<lambda>e d. if errors_is e ErrNotExist then ?Q d else \<not> q \<and> ?I d) ?I"
  proof (rule hoare_sys)
    fix d assume I: "?I d"
    let ?t = "d_conf d"
    have t: "good ?t" "t_services ?t = IsDir" "others d0 d" "cleared new g ys ?t"
      using I by (auto simp: in_conf_def cleared_def)
    have l: "look p ?t = (case fmlookup (t_nodes ?t) p of None \<Rightarrow> Inl ErrNotExist | Some n \<Rightarrow> Inr n)"
      using assms(2) t(2) by (auto simp: look_def parent_error_def split: option.split)
    show "temps (snd (?f d)) \<subseteq> temps d"
    proof -
      have "temps (put_tree Conf (del_node p ?t) d) \<subseteq> temps d" "temps (put_tree Conf ?t d) \<subseteq> temps d"
        by (rule temps_same [of Conf d ?t]; auto simp: del_node_def)+
      then show ?thesis by (auto simp: in_tree_def l split: option.split node.split)
    qed
    show "(if errors_is Fault ErrNotExist then ?Q d else \<not> q \<and> ?I d) \<and> ?I d" if "\<not> q" using I that by simp
    consider "fmlookup (t_nodes ?t) p = None" | c m u h where "fmlookup (t_nodes ?t) p = Some (File c m u h)"
      using good_node [OF t(1) assms(1)] by auto
    then show "case fst (?f d) of Inl e \<Rightarrow> (if errors_is e ErrNotExist then ?Q (snd (?f d)) else \<not> q \<and> ?I (snd (?f d)))
        | Inr x \<Rightarrow> ?Q (snd (?f d))"
    proof cases
      case 1
      then have "cfg ?t p = None" by (simp add: cfg_def)
      then have "cleared new g (ys @ [p]) ?t" using t(4) None by (auto simp: cleared_def)
      then show ?thesis using 1 t(3) by (simp add: in_tree_def l in_conf_def)
    next
      case 2
      have "cleared new g (ys @ [p]) (del_node p ?t)"
        using good_del [OF t(1) assms(2)] t(2,4) None by (auto simp: cleared_def del_node_def)
      then show ?thesis using 2 t(3) by (simp add: in_tree_def l)
    qed
  qed
  have "hoare q ?I (io_remove Conf p) (\<lambda>_. ?Q) (\<lambda>e d. if errors_is e ErrNotExist then ?Q d else \<not> q \<and> ?I d) ?I"
    unfolding io_remove_def io_unlink_def by (rule hoare_then [OF hoare_log un])
  then have "hoare q ?I (or_missing (io_remove Conf p) (return ()) return) (\<lambda>_. ?Q) (\<lambda>e d. \<not> q \<and> ?I d) ?I"
    by (rule hoare_or_missing) (auto intro!: hoare_pre [OF hoare_return] split: if_splits)
  then show ?thesis using None by (simp add: remove_gone_def)
qed

lemma hoare_sync_both:
  assumes "\<And>d. I d \<Longrightarrow> t_services (d_conf d) = IsDir"
  shows "hoare q I (join_io (syncDir Conf ''services'') (syncDir Conf ''.'')) (\<lambda>_. I) (\<lambda>e d. \<not> q \<and> I d) I"
proof (rule hoare_join)
  have ok: "pure (syncDir Conf s) d = Done ()" if "I d" for s d
    using assms [OF that] by (auto simp: pure_syncDir parent_error_def)
  show "hoare q I (syncDir Conf ''services'') (\<lambda>_. I) (\<lambda>e d. \<not> q \<and> I d) I"
    "hoare q I (syncDir Conf ''.'') (\<lambda>_. I) (\<lambda>e d. \<not> q \<and> I d) I"
    by (rule hoare_ro; use ok in \<open>auto intro: ro_rules\<close>)+
  show "hoare q (\<lambda>d. \<not> q \<and> I d) (syncDir Conf ''.'') (\<lambda>_ d. \<not> q \<and> I d) (\<lambda>f d. \<not> q \<and> I d) I" for e :: error
    by (rule hoare_ro; use ok in \<open>auto intro: ro_rules\<close>)
qed

text \<open>The switch from the old to the new files, with every one of them staged.\<close>

lemma hoare_switch:
  assumes good: "good t0" "t_services t0 = IsDir" and old: "\<forall>p. fmlookup old p = cfg t0 p" and new: "new_ok new"
  shows "hoare q (in_conf d0 (staged_all old new (sorted_keys new) staged t0)) (switch old new staged)
    (\<lambda>_. in_conf d0 (\<lambda>t. holds new t \<and> t_services t = IsDir))
    (\<lambda>e d. \<not> q \<and> in_conf d0 (mixed old new) d) (in_conf d0 (mixed old new))"
proof (rule hoare_fix)
  fix d assume d: "in_conf d0 (staged_all old new (sorted_keys new) staged t0) d"
  then have s: "staged_all old new (sorted_keys new) staged t0 (d_conf d)" by (simp add: in_conf_def)
  let ?ch = "\<lambda>p. fmlookup old p = None \<or> \<not> same_entry old new p"
  have keys: "map fst staged = filter ?ch (sorted_keys new)" and dist: "distinct (map snd staged)"
    and j: "junk_tree t0 (d_conf d)" using s by (auto simp: staged_all_def)
  have st_iff: "p \<in> fst ` set staged \<longleftrightarrow> fmlookup new p \<noteq> None \<and> ?ch p" for p
  proof -
    have "fst ` set staged = set (filter ?ch (sorted_keys new))" by (metis keys set_map)
    then show ?thesis by (auto simp: fmlookup_dom_iff)
  qed
  let ?g = "\<lambda>p. if p \<in> fst ` set staged then fmlookup new p else cfg t0 p"
  let ?R = "\<lambda>t. \<exists>ys. set ys \<subseteq> set staged \<and> renamed new staged t0 ys t"
  let ?M = "in_conf d0 (mixed old new)"
  have r_m: "mixed old new t" if R: "?R t" for t
  proof -
    from R obtain ys where r: "renamed new staged t0 ys t" by blast
    then have "cfg t p = fmlookup old p \<or> cfg t p = fmlookup new p" for p
      using old by (cases "p \<in> fst ` set ys") (simp_all add: renamed_def)
    then show ?thesis using r by (simp add: renamed_def mixed_def)
  qed
  have c_m: "mixed old new t" if c: "cleared new ?g ys t" for ys t
  proof -
    have "cfg t p = fmlookup old p \<or> cfg t p = fmlookup new p" for p
      using c old by (cases "p \<in> fst ` set staged"; cases "p \<in> set ys \<and> fmlookup new p = None")
        (simp_all add: cleared_def)
    then show ?thesis using c by (simp add: cleared_def mixed_def)
  qed
  have R_M: "?M x" if "in_conf d0 ?R x" for x
    by (rule in_conf_mono [OF that]) (rule r_m)
  have start: "in_conf d0 (renamed new staged t0 []) d"
    using d j s junk_good [OF j good(1)] good(2) junk_cfg [OF j]
    by (auto simp: in_conf_def renamed_def staged_all_def junk_tree_def)
  have ren: "hoare q (\<lambda>x. x = d) (for_io (\<lambda>(p, tmp). io_rename Conf tmp p) staged)
      (\<lambda>_. in_conf d0 (cleared new ?g [])) (\<lambda>e d. \<not> q \<and> ?M d) ?M"
  proof (rule hoare_conseq [OF hoare_renames [OF dist new, where q = q and ?d0.0 = d0 and ?t0.0 = t0]])
    show "\<forall>x\<in>set staged. fmlookup new (fst x) \<noteq> None" using st_iff by blast
    show "\<And>x d. in_conf d0 (renamed new staged t0 staged) d \<Longrightarrow> in_conf d0 (cleared new ?g []) d"
      by (auto simp: in_conf_def renamed_def cleared_def)
  qed (use start R_M in auto)
  have rem: "hoare q (in_conf d0 (cleared new ?g [])) (for_io (remove_gone new) (sorted_keys old))
      (\<lambda>_. in_conf d0 (cleared new ?g (sorted_keys old))) (\<lambda>e d. \<not> q \<and> ?M d) ?M"
  proof (rule hoare_for)
    fix ys p zs assume p: "sorted_keys old = ys @ p # zs"
    then have "p \<in> set (sorted_keys old)" by simp
    then have "fmlookup old p \<noteq> None" by (simp add: fmlookup_dom_iff)
    then have c: "cfg t0 p \<noteq> None" using old by simp
    have "config_path p" using cfg_config [OF c] .
    moreover have "path_clean p = p"
      using c good(1) by (auto simp: good_def wf_tree_def cfg_def split: if_splits option.splits intro: fmdomI)
    ultimately show "hoare q (in_conf d0 (cleared new ?g ys)) (remove_gone new p)
        (\<lambda>_. in_conf d0 (cleared new ?g (ys @ [p]))) (\<lambda>e d. \<not> q \<and> ?M d) ?M"
      by (rule hoare_conseq [OF hoare_remove_gone]) (use c_m in \<open>auto elim: in_conf_mono\<close>)
  qed
  have fin: "in_conf d0 (\<lambda>t. holds new t \<and> t_services t = IsDir) x \<and> ?M x"
    if "in_conf d0 (cleared new ?g (sorted_keys old)) x" for x
  proof -
    have "cfg (d_conf x) p = fmlookup new p" for p
    proof (cases "fmlookup new p = None")
      case True
      have "p \<in> set (sorted_keys old) \<or> cfg t0 p = None"
        using old by (cases "fmlookup old p") (auto intro: fmdomI)
      then show ?thesis using that True st_iff [of p] by (auto simp: in_conf_def cleared_def)
    next
      case False
      then show ?thesis
        using that st_iff [of p] old by (auto simp: in_conf_def cleared_def same_entry_iff)
    qed
    moreover have "?M x" by (rule in_conf_mono [OF that]) (rule c_m)
    ultimately show ?thesis using that by (auto simp: in_conf_def cleared_def holds_def)
  qed
  have isd: "t_services (d_conf x) = IsDir" if "in_conf d0 (cleared new ?g (sorted_keys old)) x" for x
    using that by (auto simp: in_conf_def cleared_def)
  have syn: "hoare q (in_conf d0 (cleared new ?g (sorted_keys old)))
      (join_io (syncDir Conf ''services'') (syncDir Conf ''.''))
      (\<lambda>_. in_conf d0 (\<lambda>t. holds new t \<and> t_services t = IsDir)) (\<lambda>e d. \<not> q \<and> ?M d) ?M"
    by (rule hoare_conseq [OF hoare_sync_both [OF isd]]) (use fin in blast)+
  show "hoare q (\<lambda>x. x = d) (switch old new staged) (\<lambda>_. in_conf d0 (\<lambda>t. holds new t \<and> t_services t = IsDir))
      (\<lambda>e d. \<not> q \<and> ?M d) ?M"
    unfolding switch_def by (rule hoare_then [OF ren hoare_then [OF rem syn]])
qed

lemma holds_mixed: "holds new t \<Longrightarrow> mixed old new t"
  by (simp add: holds_def mixed_def)

text \<open>
  What \<open>replace\<close> does, from a readable directory with the old image: it returns with the new
  image in place, or fails or dies with every file either old or new, and it cannot fail
  in a quiet world.
\<close>

lemma hoare_replace:
  assumes good: "good (d_conf d0)" and old: "\<forall>p. fmlookup old p = cfg (d_conf d0) p" and new: "new_ok new"
  shows "hoare q (\<lambda>d. d = d0) (replace old new) (\<lambda>_. in_conf d0 (holds new))
    (\<lambda>e d. \<not> q \<and> in_conf d0 (mixed old new) d) (in_conf d0 (mixed old new))"
proof -
  let ?M = "in_conf d0 (mixed old new)" and ?H = "in_conf d0 (holds new)"
  let ?t0 = "(d_conf d0)\<lparr>t_services := IsDir\<rparr>"
  let ?d1 = "put_tree Conf ?t0 d0"
  have nd: "t_services (d_conf d0) \<noteq> NotDir" using good by (simp add: good_def readable_def)
  have c0: "cfg ?t0 = cfg (d_conf d0)" by (simp add: cfg_def fun_eq_iff)
  have g0: "good ?t0" using good by (auto simp: good_def wf_tree_def readable_def)
  have M0: "?M d0" using good old by (simp add: in_conf_def mixed_def)
  have M1: "?M ?d1" using g0 c0 old by (simp add: mixed_def)
  have isd: "t_services ?t0 = IsDir" by simp
  have old1: "\<forall>p. fmlookup old p = cfg ?t0 p" using old c0 by simp
  have jm: "?M x" if "in_conf d0 (junk_tree ?t0) x" for x
    by (rule in_conf_mono [OF that]) (use junk_good g0 junk_cfg old1 in \<open>auto simp: mixed_def\<close>)
  have mk: "hoare q (\<lambda>d. d = d0) (io_mkdir_all Conf ''services'') (\<lambda>_ d. d = ?d1) (\<lambda>e d. \<not> q \<and> ?M d) ?M"
    unfolding io_mkdir_all_def
  proof (rule hoare_sys)
    let ?f = "in_tree Conf (\<lambda>t. if ''services'' = ''services'' then
         (case t_services t of NoDir \<Rightarrow> (Inr (), t\<lparr>t_services := IsDir\<rparr>) | IsDir \<Rightarrow> (Inr (), t)
          | NotDir \<Rightarrow> (Inl Fault, t)) else (Inr (), t))"
    fix d assume d: "d = d0"
    have f: "?f d0 = (Inr (), ?d1)"
      using nd by (cases "t_services (d_conf d0)") (auto simp: in_tree_def intro!: disk.equality tree.equality)
    show "temps (snd (?f d)) \<subseteq> temps d"
      unfolding d f using temps_same [of Conf d0 "d_conf d0" ?t0] by simp
    show "\<not> q \<Longrightarrow> (\<not> q \<and> ?M d) \<and> ?M d" using M0 d by simp
    show "case fst (?f d) of Inl e \<Rightarrow> \<not> q \<and> ?M (snd (?f d)) | Inr x \<Rightarrow> snd (?f d) = ?d1" unfolding d f by simp
  qed
  have ls: "hoare q (\<lambda>d. d = ?d1) (io_services Conf) (\<lambda>s d. s = IsDir \<and> d = ?d1) (\<lambda>e d. \<not> q \<and> ?M d) ?M"
  proof -
    have "pure (io_services Conf) ?d1 = Done IsDir" by (simp add: io_services_def pure_in_tree)
    then show ?thesis by (intro hoare_ro) (use M1 in \<open>auto intro: ro_rules\<close>)
  qed
  have all: "hoare q (\<lambda>d. d = ?d1) (stage_all old new (sorted_keys new) [])
      (\<lambda>r d. in_conf d0 (stage_result old new (sorted_keys new) ?t0 r) d \<and> (snd r \<noteq> None \<longrightarrow> \<not> q))
      (\<lambda>e d. \<not> q \<and> ?M d) ?M"
  proof (rule hoare_conseq [OF hoare_stage_all [OF isd, of "sorted_keys new" q d0 old new "[]" "[]" "\<lambda>e d. \<not> q \<and> ?M d"]])
    show "\<forall>p\<in>set (sorted_keys new). managed_path p"
      using new by (auto simp: new_ok_def fmlookup_dom_iff)
    show "\<And>d. d = ?d1 \<Longrightarrow> in_conf d0 (staged_all old new [] [] ?t0) d"
      by (simp add: staged_all_def)
  qed (use jm in auto)
  have sw: "hoare q (\<lambda>d. in_conf d0 (stage_result old new (sorted_keys new) ?t0 r) d \<and> (snd r \<noteq> None \<longrightarrow> \<not> q))
      (case r of (staged, err) \<Rightarrow>
        finally_io (case err of Some e \<Rightarrow> fail e | None \<Rightarrow> switch old new staged) (remove_temps staged))
      (\<lambda>_. ?H) (\<lambda>e d. \<not> q \<and> ?M d) ?M" for r
  proof (cases r)
    case (Pair staged err)
    have stM: "stable ?M"
      by (rule stable_in_conf) (auto simp: mixed_def junk_good junk_cfg)
    have stH: "stable ?H"
      by (rule stable_in_conf) (auto simp: holds_def junk_good junk_cfg)
    have tm: "\<forall>x\<in>set staged. temp_of x" if "in_conf d0 (stage_result old new (sorted_keys new) ?t0 r) d" for d
      using that Pair by (cases err) (auto simp: in_conf_def stage_result_def staged_all_def staged_for_def)
    have body: "hoare q (\<lambda>d. in_conf d0 (stage_result old new (sorted_keys new) ?t0 r) d \<and> (err \<noteq> None \<longrightarrow> \<not> q))
        (case err of Some e \<Rightarrow> fail e | None \<Rightarrow> switch old new staged)
        (\<lambda>_. ?H) (\<lambda>e d. \<not> q \<and> ?M d) ?M"
    proof (cases err)
      case None
      show ?thesis
        unfolding None option.case
        by (rule hoare_conseq [OF hoare_switch [OF g0 isd old1 new, of q d0 staged]])
          (auto simp: in_conf_def Pair None stage_result_def)
    next
      case (Some e)
      have "?M d" if "in_conf d0 (stage_result old new (sorted_keys new) ?t0 r) d" for d
        by (rule jm) (use that Pair Some in \<open>auto simp: in_conf_def stage_result_def\<close>)
      then show ?thesis unfolding Some option.case
        by (intro hoare_pre [OF hoare_fail]) auto
    qed
    show ?thesis
    proof (rule hoare_fix)
      fix d1 assume d1: "in_conf d0 (stage_result old new (sorted_keys new) ?t0 r) d1 \<and> (snd r \<noteq> None \<longrightarrow> \<not> q)"
      then have t: "\<forall>x\<in>set staged. temp_of x" using tm by blast
      note rm = hoare_remove_temps [OF _ t, where q = q]
      have "hoare q (\<lambda>d. d = d1) (finally_io (case err of Some e \<Rightarrow> fail e | None \<Rightarrow> switch old new staged)
          (remove_temps staged)) (\<lambda>_. ?H) (\<lambda>e d. \<not> q \<and> ?M d) ?M"
      proof (rule hoare_finally [OF hoare_pre [OF body]])
        show "in_conf d0 (stage_result old new (sorted_keys new) ?t0 r) d \<and> (err \<noteq> None \<longrightarrow> \<not> q)" if "d = d1" for d
          using d1 that Pair by simp
        show "hoare q ?H (remove_temps staged) (\<lambda>_. ?H) (\<lambda>_. ?H) ?M"
          by (rule hoare_conseq [OF rm [OF stH]]) (auto elim: in_conf_mono intro: holds_mixed)
        show "hoare q (\<lambda>d. \<not> q \<and> ?M d) (remove_temps staged) (\<lambda>_ d. \<not> q \<and> ?M d) (\<lambda>_ d. \<not> q \<and> ?M d) ?M"
          by (rule hoare_imp, rule hoare_conseq [OF rm [OF stM]]) auto
      qed
      then show "hoare q (\<lambda>d. d = d1) (case r of (staged, err) \<Rightarrow>
        finally_io (case err of Some e \<Rightarrow> fail e | None \<Rightarrow> switch old new staged) (remove_temps staged))
      (\<lambda>_. ?H) (\<lambda>e d. \<not> q \<and> ?M d) ?M" using Pair by simp
    qed
  qed
  have gd: "hoare q (\<lambda>d. s = IsDir \<and> d = ?d1) (guard_io (s = IsDir) ''services must be a real directory'')
      (\<lambda>_ d. d = ?d1) (\<lambda>e d. \<not> q \<and> ?M d) ?M" for s
    by (rule hoare_pre [OF hoare_guard]) simp
  show ?thesis
    unfolding replace_def
    by (rule hoare_then [OF mk hoare_bind [OF ls hoare_then [OF gd hoare_bind [OF all sw]]]])
qed

section \<open>The journal and the baseline pointer\<close>

text \<open>The backup directory, up to staged files: one entry set, the rest unchanged.\<close>

definition top_file :: "disk \<Rightarrow> string \<Rightarrow> node option" where
  "top_file d p = fmlookup (t_nodes (d_top d)) p"

definition doc_path :: "string \<Rightarrow> bool" where
  "doc_path p \<longleftrightarrow> p = pending_path \<or> p = baseline_path"

definition top_ok :: "disk \<Rightarrow> bool" where
  "top_ok d \<longleftrightarrow> wf_tree (d_top d) \<and> top_file d pending_path \<noteq> Some Subdir \<and> top_file d baseline_path \<noteq> Some Subdir"

definition top_set :: "disk \<Rightarrow> string \<Rightarrow> node option \<Rightarrow> disk \<Rightarrow> bool" where
  "top_set d0 p x d \<longleftrightarrow> d_conf d = d_conf d0 \<and> d_snaps d = d_snaps d0 \<and> top_ok d \<and>
     (\<forall>k. doc_path k \<longrightarrow> top_file d k = (if k = p then x else top_file d0 k))"

definition doc_node :: "doc \<Rightarrow> node option \<Rightarrow> bool" where
  "doc_node x n \<longleftrightarrow> (\<exists>u g. n = Some (File (Doc x) 384 u g))"

definition top_doc :: "disk \<Rightarrow> string \<Rightarrow> doc \<Rightarrow> disk \<Rightarrow> bool" where
  "top_doc d0 p x d \<longleftrightarrow> (\<exists>n. doc_node x n \<and> top_set d0 p n d)"

definition top_same :: "disk \<Rightarrow> disk \<Rightarrow> bool" where
  "top_same d0 d \<longleftrightarrow> top_set d0 pending_path (top_file d0 pending_path) d"

lemma doc_paths:
  "doc_path p \<Longrightarrow> plain_path t p" "doc_path p \<Longrightarrow> path_clean p = p"
  "doc_path p \<Longrightarrow> \<not> suffix ''.tmp'' p" "doc_path p \<Longrightarrow> \<not> prefix ''services/'' p"
  "pending_path \<noteq> baseline_path" "doc_path pending_path" "doc_path baseline_path"
proof -
  have c: "path_clean pending_path = pending_path" "path_clean baseline_path = baseline_path"
    "path_dir pending_path = ''.''" "path_dir baseline_path = ''.''"
    "\<not> suffix ''.tmp'' pending_path" "\<not> suffix ''.tmp'' baseline_path"
    "\<not> prefix ''services/'' pending_path" "\<not> prefix ''services/'' baseline_path"
    "pending_path \<noteq> baseline_path" by code_simp+
  then show "doc_path p \<Longrightarrow> plain_path t p" "doc_path p \<Longrightarrow> path_clean p = p"
  "doc_path p \<Longrightarrow> \<not> suffix ''.tmp'' p" "doc_path p \<Longrightarrow> \<not> prefix ''services/'' p"
  "pending_path \<noteq> baseline_path" "doc_path pending_path" "doc_path baseline_path"
    by (auto simp: doc_path_def plain_path_def dir_ok_def parent_error_def)
qed

lemma top_same_refl: "top_ok d \<Longrightarrow> top_same d d"
  by (simp add: top_same_def top_set_def)

lemma junk_top:
  assumes "top_ok d0" "junk Top d0 d"
  shows "top_same d0 d"
  using assms doc_paths(3) by (auto simp: junk_def junk_tree_def top_same_def top_set_def top_ok_def top_file_def doc_path_def)

lemma wrote_top:
  assumes "top_ok d0" "doc_path p" "wrote Top p (Doc x) d0 d"
  shows "top_doc d0 p x d"
proof -
  obtain t' n where w: "d = put_tree Top t' d0" "staged_node (Doc x) backup_file False n"
      "junk_tree (set_node p n (d_top d0)) t'"
    using assms(3) by (auto simp: wrote_def)
  have pc: "path_clean p = p" and ps: "\<not> prefix ''services/'' p" using doc_paths assms(2) by blast+
  have "wf_tree (set_node p n (d_top d0))"
    using assms(1) pc ps wf_set_node by (auto simp: top_ok_def)
  then have wf: "wf_tree t'" using w(3) by (simp add: junk_tree_def)
  have look: "fmlookup (t_nodes t') k = (if k = p then Some n else fmlookup (t_nodes (d_top d0)) k)" if "doc_path k" for k
    using w(3) doc_paths(3) [OF that] pc by (simp add: junk_tree_def keys_set_node)
  obtain u g where n: "n = File (Doc x) 384 u g" using w(2) by (auto simp: staged_backup)
  then have "doc_node x (Some n)" by (simp add: doc_node_def)
  moreover have "top_set d0 p (Some n) d"
    using w(1) wf look n assms(1) doc_paths(6,7) by (auto simp: top_set_def top_ok_def top_file_def)
  ultimately show ?thesis by (auto simp: top_doc_def)
qed

lemma hoare_doc:
  assumes "top_ok d0" "doc_path p"
  shows "hoare q (\<lambda>d. d = d0) (atomicFile Top p (Doc x)) (\<lambda>_. top_doc d0 p x)
    (\<lambda>e d. \<not> q \<and> (top_same d0 d \<or> top_doc d0 p x d)) (\<lambda>d. top_same d0 d \<or> top_doc d0 p x d)"
proof -
  have g: "get_tree Top d0 = Some (d_top d0)" by simp
  have nd: "fmlookup (t_nodes (d_top d0)) p \<noteq> Some Subdir"
    using assms by (auto simp: top_ok_def top_file_def doc_path_def)
  show ?thesis
    by (rule hoare_conseq [OF hoare_atomic [OF g doc_paths(1) [OF assms(2)] nd]])
      (use wrote_top [OF assms] junk_top [OF assms(1)] in auto)
qed

lemma hoare_unlink_top:
  assumes "top_ok d0" "doc_path p"
  shows "hoare q (\<lambda>d. d = d0) (io_unlink Top p) (\<lambda>_. top_set d0 p None)
    (\<lambda>e d. d = d0 \<and> (if errors_is e ErrNotExist then top_file d0 p = None else \<not> q)) (\<lambda>d. d = d0)"
  unfolding io_unlink_def
proof (rule hoare_sys)
  let ?f = "in_tree Top (\<lambda>t. case look p t of Inl e \<Rightarrow> (Inl e, t)
      | Inr n \<Rightarrow> (case n of Subdir \<Rightarrow> (Inl Fault, t) | _ \<Rightarrow> (Inr (), del_node p t)))"
  fix d assume d: "d = d0"
  have wf: "wf_tree (d_top d0)" using assms(1) by (simp add: top_ok_def)
  have pc: "path_clean p = p" and pe: "parent_error (d_top d0) p = None"
    using doc_paths(1,2) [OF assms(2)] by (auto simp: plain_path_def)
  have l: "look p (d_top d0) = (case top_file d0 p of None \<Rightarrow> Inl ErrNotExist | Some n \<Rightarrow> Inr n)"
    using lookup_look [OF pc pe] by (simp add: top_file_def)
  have nd: "top_file d0 p \<noteq> Some Subdir" using assms by (auto simp: top_ok_def doc_path_def)
  have same: "put_tree Top (d_top d0) d0 = d0" by simp
  show "temps (snd (?f d)) \<subseteq> temps d"
  proof -
    have "temps (put_tree Top (del_node p (d_top d0)) d0) \<subseteq> temps d0"
      by (rule temps_same [of Top]) (auto simp: del_node_def)
    then show ?thesis using d nd
      by (auto simp: in_tree_def l split: option.split node.split simp del: put_tree.simps simp add: same)
  qed
  have del: "top_set d0 p None (put_tree Top (del_node p (d_top d0)) d0)"
    using wf assms pc by (auto simp: top_set_def top_ok_def top_file_def del_node_def wf_tree_def)
  show "case fst (?f d) of
      Inl e \<Rightarrow> snd (?f d) = d0 \<and> (if errors_is e ErrNotExist then top_file d0 p = None else \<not> q)
    | Inr x \<Rightarrow> top_set d0 p None (snd (?f d))"
    using d nd del
    by (auto simp: in_tree_def l split: option.split node.split simp del: put_tree.simps simp add: same)
qed auto

section \<open>The snapshot that the journal names\<close>

lemma load_exists:
  assumes "pure (loadSnapshot i) d = Done x"
  shows "fmlookup (d_snaps d) i \<noteq> None"
proof
  assume "fmlookup (d_snaps d) i = None"
  then have "pure (io_lstat_snap i) d \<in> {Done False, Failed ErrNotExist}"
    by (auto simp: io_lstat_snap_def pure_sys split: option.split)
  then show False using assms
    by (auto simp: loadSnapshot_def pure_then pure_bind ro_rules split: if_splits)
qed

lemma load_stable:
  assumes "fmlookup (d_snaps d') i = fmlookup (d_snaps d) i" "fmlookup (d_snaps d) i \<noteq> None"
  shows "pure (loadSnapshot i) d' = pure (loadSnapshot i) d"
proof -
  have rn: "pure (readNode (Snap i) p) d' = pure (readNode (Snap i) p) d" for p
    using assms by (simp add: pure_readNode)
  have rf: "pure (readFile (Snap i) p) d' = pure (readFile (Snap i) p) d" for p
    by (simp add: pure_readFile rn)
  have rd: "pure (readDoc (Snap i) p) d' = pure (readDoc (Snap i) p) d" for p
    unfolding readDoc_def by (auto simp: pure_bind ro_rules rn split: outcome.split content.split)
  have lf: "pure (load_files i m ps n im) d' = pure (load_files i m ps n im) d" for m ps n im
    by (induction ps arbitrary: n im)
      (auto simp: pure_then pure_bind ro_rules rf split: option.split outcome.split)
  have ls: "pure (io_lstat_snap i) d' = pure (io_lstat_snap i) d" "pure (io_open_snap i) d' = pure (io_open_snap i) d"
    using assms by (auto simp: io_lstat_snap_def io_open_snap_def pure_sys split: option.split)
  show ?thesis
    unfolding loadSnapshot_def
    by (auto simp: pure_then pure_bind ro_rules ls rd lf split: outcome.split doc.split)
qed

end
