(* ===== verification/TxLaws.thy ===== *)
theory TxLaws
  imports ApplyLaws
begin

text \<open>
  What the journal protects: writing and clearing the top-level documents, the contract of
  the runtime controller (a locale), recovery from the journal, and the transaction of
  \<open>internal/config/apply.go\<close> from the journal to the commit.
\<close>

lemma top_set_ok: "top_set d0 p x d \<Longrightarrow> top_ok d"
  by (simp add: top_set_def)

lemma top_same_set: "top_same d0 d \<Longrightarrow> \<exists>x. top_set d0 p x d"
  using doc_paths(6,7) by (auto simp: top_same_def top_set_def intro!: exI [of _ "top_file d0 p"])

lemma top_doc_set: "top_doc d0 p x d \<Longrightarrow> \<exists>x. top_set d0 p x d"
  by (auto simp: top_doc_def)

lemma hoare_sync_top:
  assumes "\<And>d. I d \<Longrightarrow> J d"
  shows "hoare q I (syncDir Top ''.'') (\<lambda>_. I) (\<lambda>e d. \<not> q \<and> J d) J"
proof (rule hoare_ro)
  have "pure (syncDir Top ''.'') d = Done ()" for d
    by (simp add: pure_syncDir parent_error_def)
  then show "I d \<Longrightarrow> pure (syncDir Top ''.'') d = Failed e \<Longrightarrow> \<not> q \<and> J d" for d e by simp
qed (use assms in \<open>auto intro: ro_rules\<close>)

text \<open>What \<open>setBaseline b\<close> leaves: the pointer moved to \<open>b\<close>, a snapshot that can be loaded.\<close>

definition moved :: "disk \<Rightarrow> string \<Rightarrow> disk \<Rightarrow> bool" where
  "moved d0 b d \<longleftrightarrow> (if b = [] then top_set d0 baseline_path None d
     else top_doc d0 baseline_path (PointerDoc b) d \<and> (\<exists>x. pure (loadSnapshot b) d0 = Done x))"

lemma moved_set: "top_same d0 d \<or> moved d0 b d \<Longrightarrow> \<exists>x. top_set d0 baseline_path x d"
  using top_same_set top_doc_set by (cases "b = []") (auto simp: moved_def)

lemma hoare_setBaseline:
  assumes ok: "top_ok d0" and b: "q \<Longrightarrow> good_b \<Longrightarrow> b = [] \<or> (\<exists>x. pure (loadSnapshot b) d0 = Done x)"
  shows "hoare q (\<lambda>d. d = d0) (setBaseline b) (\<lambda>_. moved d0 b)
    (\<lambda>e d. \<not> (q \<and> good_b) \<and> (top_same d0 d \<or> moved d0 b d)) (\<lambda>d. top_same d0 d \<or> moved d0 b d)"
proof -
  let ?S = "\<lambda>d. top_same d0 d \<or> moved d0 b d"
  have S0: "top_same d0 d0" using top_same_refl [OF ok] .
  show ?thesis
  proof (cases "b = []")
    case True
    let ?N = "moved d0 b"
    have N: "?N = top_set d0 baseline_path None" using True by (simp add: moved_def fun_eq_iff)
    have un: "hoare q (\<lambda>d. d = d0) (or_missing (io_unlink Top baseline_path) (return ()) return) (\<lambda>_. ?N)
        (\<lambda>e d. \<not> (q \<and> good_b) \<and> ?S d) ?S"
    proof -
      let ?E = "\<lambda>e d. d = d0 \<and> (if errors_is e ErrNotExist then top_file d0 baseline_path = None else \<not> q)"
      have un0: "hoare q (\<lambda>d. d = d0) (io_unlink Top baseline_path) (\<lambda>_. ?N) ?E ?S"
        by (rule hoare_conseq [OF hoare_unlink_top [OF ok doc_paths(7)]]) (use S0 N in auto)
      show ?thesis
      proof (rule hoare_or_missing [OF un0])
        show "hoare q (?E e) (return ()) (\<lambda>_. ?N) (\<lambda>e d. \<not> (q \<and> good_b) \<and> ?S d) ?S"
        if "errors_is e ErrNotExist" for e
      proof (rule hoare_pre [OF hoare_return])
        fix d assume "?E e d"
        then have "d = d0" "top_file d0 baseline_path = None" using that by auto
        then show "?N d" using ok unfolding N by (auto simp: top_set_def)
      qed
      show "hoare q ?N (return x) (\<lambda>_. ?N) (\<lambda>e d. \<not> (q \<and> good_b) \<and> ?S d) ?S" for x
        by (rule hoare_return)
      qed (use S0 in auto)
    qed
    have "hoare q (\<lambda>d. d = d0) (then_io (or_missing (io_unlink Top baseline_path) (return ()) return) (syncDir Top ''.''))
        (\<lambda>_. ?N) (\<lambda>e d. \<not> (q \<and> good_b) \<and> ?S d) ?S"
      by (rule hoare_then [OF un hoare_conseq [OF hoare_sync_top [of ?N ?S]]]) auto
    then show ?thesis using True by (simp add: setBaseline_def)
  next
    case False
    let ?L = "\<exists>x. pure (loadSnapshot b) d0 = Done x"
    have m: "moved d0 b d \<longleftrightarrow> top_doc d0 baseline_path (PointerDoc b) d \<and> ?L" for d
      using False by (simp add: moved_def)
    have ld: "hoare q (\<lambda>d. d = d0) (loadSnapshot b) (\<lambda>_ d. ?L \<and> d = d0) (\<lambda>e d. \<not> (q \<and> good_b) \<and> ?S d) ?S"
      by (rule hoare_ro) (use b False S0 in \<open>auto intro: ro_rules\<close>)
    have at: "hoare q (\<lambda>d. ?L \<and> d = d0) (atomicFile Top baseline_path (Doc (PointerDoc b)))
        (\<lambda>_. moved d0 b) (\<lambda>e d. \<not> (q \<and> good_b) \<and> ?S d) ?S"
    proof (rule hoare_imp)
      assume ?L
      then show "hoare q (\<lambda>d. d = d0) (atomicFile Top baseline_path (Doc (PointerDoc b)))
        (\<lambda>_. moved d0 b) (\<lambda>e d. \<not> (q \<and> good_b) \<and> ?S d) ?S"
        by (intro hoare_conseq [OF hoare_doc [OF ok doc_paths(7)]]) (use m in blast)+
    qed
    show ?thesis
      using False hoare_then [OF ld at] by (simp add: setBaseline_def)
  qed
qed

lemma hoare_clearPending:
  assumes ok: "top_ok d0" and p: "top_file d0 pending_path \<noteq> None"
  shows "hoare q (\<lambda>d. d = d0) clearPending (\<lambda>_. top_set d0 pending_path None)
    (\<lambda>e d. \<not> q \<and> (d = d0 \<or> top_set d0 pending_path None d)) (\<lambda>d. d = d0 \<or> top_set d0 pending_path None d)"
  unfolding clearPending_def
proof (rule hoare_then)
  let ?N = "top_set d0 pending_path None"
  show "hoare q (\<lambda>d. d = d0) (io_unlink Top pending_path) (\<lambda>_. ?N)
      (\<lambda>e d. \<not> q \<and> (d = d0 \<or> ?N d)) (\<lambda>d. d = d0 \<or> ?N d)"
    by (rule hoare_conseq [OF hoare_unlink_top [OF ok doc_paths(6)]]) (use p in \<open>auto split: if_splits\<close>)
  show "hoare q ?N (syncDir Top ''.'') (\<lambda>_. ?N) (\<lambda>e d. \<not> q \<and> (d = d0 \<or> ?N d)) (\<lambda>d. d = d0 \<or> ?N d)"
    by (rule hoare_sync_top) simp
qed

section \<open>The runtime controller\<close>

text \<open>
  What the store needs of a controller (\<open>config.Controller\<close>): its calls go to the message bus
  and leave the disk and the schedule alone.
\<close>

definition on_bus :: "'a io \<Rightarrow> bool" where
  "on_bus m \<longleftrightarrow> (\<forall>w. fst (m w) \<noteq> Crashed \<and> (\<exists>cs. snd (m w) = w\<lparr>w_bus := (w_bus w)\<lparr>b_calls := cs\<rparr>\<rparr>))"

definition works :: "'a io \<Rightarrow> bool" where
  "works m \<longleftrightarrow> (\<forall>w. obliging (w_bus w) \<longrightarrow> (\<exists>x. fst (m w) = Done x))"

lemma live_bus: "live q w \<Longrightarrow> live q (w\<lparr>w_bus := (w_bus w)\<lparr>b_calls := cs\<rparr>\<rparr>)"
proof -
  let ?w = "w\<lparr>w_bus := (w_bus w)\<lparr>b_calls := cs\<rparr>\<rparr>"
  have "nth_id ?w = nth_id w" by (simp add: nth_id_def random_bytes_def fun_eq_iff)
  then show "live q w \<Longrightarrow> live q ?w" by (simp add: live_def calm_def unused_def obliging_def)
qed

lemma hoare_bus:
  assumes "on_bus m" "works m" "\<And>d. P d \<Longrightarrow> \<not> q \<Longrightarrow> J d"
  shows "hoare q P m (\<lambda>_. P) (\<lambda>e d. \<not> q \<and> J d) C"
  unfolding hoare_def
proof (intro allI impI)
  fix w assume w: "live q w" "P (w_disk w)"
  obtain cs where b: "fst (m w) \<noteq> Crashed" "snd (m w) = w\<lparr>w_bus := (w_bus w)\<lparr>b_calls := cs\<rparr>\<rparr>"
    using assms(1) by (auto simp: on_bus_def)
  show "post q (\<lambda>_. P) (\<lambda>e d. \<not> q \<and> J d) C (m w)"
  proof (cases "fst (m w)")
    case (Failed e)
    then have "\<not> obliging (w_bus w)" using assms(2) unfolding works_def by (metis outcome.distinct(1))
    then have "\<not> q" using w(1) by (auto simp: live_def)
    then show ?thesis using Failed b w live_bus [OF w(1)] assms(3) by (simp add: post_def)
  qed (use b w live_bus [OF w(1)] in \<open>simp_all add: post_def\<close>)
qed

locale runtime =
  fixes c :: controller
  assumes apply_on_bus: "on_bus (c_apply c a)"
    and healthy_on_bus: "on_bus (c_healthy c)"
    and apply_works: "works (c_apply c a)"
    and healthy_works: "works (c_healthy c)"

section \<open>Recovery\<close>

text \<open>
  A transaction in progress: the journal names a snapshot from which the old image loads,
  and every file is old or new. A settled store has no journal and one image in place.
\<close>

definition loads :: "string \<Rightarrow> image \<Rightarrow> disk \<Rightarrow> bool" where
  "loads i im d \<longleftrightarrow> (\<exists>m. pure (loadSnapshot i) d = Done (m, im))"

text \<open>An empty name, or that of a snapshot that can be loaded.\<close>

definition base_ok :: "string \<Rightarrow> disk \<Rightarrow> bool" where
  "base_ok b d \<longleftrightarrow> b = [] \<or> utf8_valid b \<and> (\<exists>im. loads b im d)"

text \<open>The baseline pointer names \<open>b\<close>.\<close>

definition pointed :: "string \<Rightarrow> disk \<Rightarrow> bool" where
  "pointed b d \<longleftrightarrow> base_ok b d \<and>
     (if b = [] then top_file d baseline_path = None else doc_node (PointerDoc b) (top_file d baseline_path))"

definition tx :: "image \<Rightarrow> image \<Rightarrow> string \<Rightarrow> string \<Rightarrow> disk \<Rightarrow> bool" where
  "tx old new s b d \<longleftrightarrow> top_ok d \<and> doc_node (PendingDoc s b) (top_file d pending_path) \<and> utf8_valid s \<and>
     loads s old d \<and> base_ok b d \<and> mixed old new (d_conf d)"

text \<open>A journal is in force.\<close>

definition journal :: "disk \<Rightarrow> bool" where
  "journal d \<longleftrightarrow> top_ok d \<and> (\<exists>x. doc_node x (top_file d pending_path))"

lemma tx_journal: "tx old new s b d \<Longrightarrow> journal d"
  by (auto simp: tx_def journal_def)

definition settled :: "image \<Rightarrow> disk \<Rightarrow> bool" where
  "settled im d \<longleftrightarrow> top_ok d \<and> top_file d pending_path = None \<and> holds im (d_conf d)"

definition clean :: "image \<Rightarrow> string \<Rightarrow> disk \<Rightarrow> bool" where
  "clean im b d \<longleftrightarrow> settled im d \<and> pointed b d"

definition snaps_kept :: "disk \<Rightarrow> disk \<Rightarrow> bool" where
  "snaps_kept d0 d \<longleftrightarrow>
     (\<forall>j. fmlookup (d_snaps d0) j \<noteq> None \<longrightarrow> fmlookup (d_snaps d) j = fmlookup (d_snaps d0) j)"

lemma loads_kept: "loads i im d0 \<Longrightarrow> snaps_kept d0 d \<Longrightarrow> loads i im d"
proof -
  assume l: "loads i im d0" and k: "snaps_kept d0 d"
  then have e: "fmlookup (d_snaps d0) i \<noteq> None" unfolding loads_def using load_exists by blast
  then have "pure (loadSnapshot i) d = pure (loadSnapshot i) d0"
    by (intro load_stable) (use k in \<open>auto simp: snaps_kept_def\<close>)
  then show ?thesis using l by (simp add: loads_def)
qed

lemma base_ok_kept: "base_ok b d0 \<Longrightarrow> snaps_kept d0 d \<Longrightarrow> base_ok b d"
  unfolding base_ok_def using loads_kept by blast

lemma loads_valid: "loads i im d \<Longrightarrow> validSnapshotID i"
  by (auto simp: loads_def loadSnapshot_def pure_then ro_rules split: if_splits)

lemma loads_unique: "loads i im d \<Longrightarrow> loads i im' d \<Longrightarrow> im = im'"
  by (auto simp: loads_def)

lemma snaps_kept_same: "d_snaps d = d_snaps d0 \<Longrightarrow> snaps_kept d0 d"
  by (simp add: snaps_kept_def)

lemma backups_snaps: "backups_kept d0 d \<Longrightarrow> snaps_kept d0 d"
  by (simp add: backups_kept_def snaps_kept_def)

lemma cfg_image: "\<exists>im. \<forall>p. fmlookup im p = cfg t p"
proof -
  let ?im = "foldl (\<lambda>im p. case cfg t p of None \<Rightarrow> im | Some f \<Rightarrow> fmupd p f im) fmempty (read_list t)"
  have "fmlookup ?im p = cfg t p" for p
    unfolding foldl_cfg using cfg_visited [of t p] by (cases "cfg t p") (auto simp: set_read_list)
  then show ?thesis by blast
qed

lemma image_size_sum: "image_size im = (\<Sum>p\<in>fset (fmdom im). length (f_data (fm_get zero_file im p)))"
  by (simp add: image_size_def sum_list_distinct_conv_sum_set)

lemma image_size_mixed:
  assumes "\<forall>p. fmlookup im p = fmlookup a p \<or> fmlookup im p = fmlookup b p"
  shows "image_size im \<le> image_size a + image_size b"
proof -
  let ?len = "\<lambda>im p. length (f_data (fm_get zero_file im p))"
  let ?D = "fset (fmdom a) \<union> fset (fmdom b)"
  have "fset (fmdom im) \<subseteq> ?D" using assms by (metis UnCI fmdomI fmlookup_dom_iff subsetI)
  then have "image_size im \<le> (\<Sum>p\<in>?D. ?len im p)"
    unfolding image_size_sum by (intro sum_mono2) auto
  also have "\<dots> \<le> (\<Sum>p\<in>?D. ?len a p + ?len b p)"
  proof (rule sum_mono)
    fix p show "?len im p \<le> ?len a p + ?len b p"
      using assms [rule_format, of p] by (auto simp: fm_get_def)
  qed
  also have "\<dots> = (\<Sum>p\<in>?D. ?len a p) + (\<Sum>p\<in>?D. ?len b p)" by (rule sum.distrib)
  also have "(\<Sum>p\<in>?D. ?len a p) = image_size a"
    unfolding image_size_sum
    by (rule sum.mono_neutral_right) (auto simp: fm_get_def zero_file_def dest: fmdom_notD)
  also have "(\<Sum>p\<in>?D. ?len b p) = image_size b"
    unfolding image_size_sum
    by (rule sum.mono_neutral_right) (auto simp: fm_get_def zero_file_def dest: fmdom_notD)
  finally show ?thesis .
qed

text \<open>The configuration files on disk are together over the limit that \<open>read\<close> enforces.\<close>

definition oversized :: "disk \<Rightarrow> bool" where
  "oversized d \<longleftrightarrow> (\<exists>im. (\<forall>p. fmlookup im p = cfg (d_conf d) p) \<and> MaxTotalSize < image_size im)"

lemma oversized_read:
  assumes "good (d_conf d)"
  shows "oversized d \<longleftrightarrow> (\<forall>im. pure read d \<noteq> Done im)"
proof -
  obtain im where im: "\<forall>p. fmlookup im p = cfg (d_conf d) p" using cfg_image by blast
  have eq: "(\<forall>p. fmlookup im' p = cfg (d_conf d) p) \<longleftrightarrow> im' = im" for im'
    using im by (metis fmap_ext)
  have rd: "pure read d = Done im' \<longleftrightarrow> im' = im \<and> image_size im' \<le> MaxTotalSize" for im'
    using assms by (simp add: pure_read good_def eq)
  show ?thesis unfolding oversized_def eq rd by (simp add: not_le)
qed

lemma read_mixed:
  assumes m: "mixed old new (d_conf d)" and e: "pure read d = Failed e"
  shows "oversized d"
  using assms oversized_read [of d] by (simp add: mixed_def)

lemma json_chars_length: "length (json_chars s) \<le> 6 * length s"
proof (induction s rule: json_chars.induct)
  case (1 s)
  show ?case
  proof (cases "s = []")
    case True
    then show ?thesis by (simp add: json_chars.simps)
  next
    case False
    obtain r w where rw: "decode_rune (map byte_of s) = (r, w)" by fastforce
    let ?w = "max 1 w"
    let ?h = "if r < 128 then json_escape r
         else if r = 65533 \<and> w = 1 then CHR 0x5C # ''ufffd''
         else if r = 8232 then CHR 0x5C # ''u2028'' else if r = 8233 then CHR 0x5C # ''u2029''
         else take ?w s"
    have "length (json_escape r) \<le> 6" by (simp add: json_escape_def hex_byte_def)
    then have h: "length ?h \<le> 6 * min ?w (length s)"
      using False by (cases s) (auto simp: min_def)
    have ih: "length (json_chars (drop ?w s)) \<le> 6 * length (drop ?w s)"
      using 1 [OF False rw [symmetric] refl] by simp
    have "json_chars s = ?h @ json_chars (drop ?w s)"
      using False rw by (subst json_chars.simps) (simp add: Let_def)
    then have "length (json_chars s) = length ?h + length (json_chars (drop ?w s))" by simp
    also have "\<dots> \<le> 6 * min ?w (length s) + 6 * length (drop ?w s)" using h ih by linarith
    also have "\<dots> \<le> 6 * length s"
    proof -
      have "6 * min k n + 6 * (n - k) \<le> 6 * n" for k n :: nat by (cases "k \<le> n") (simp_all add: min_def)
      then show ?thesis by (simp only: length_drop)
    qed
    finally show ?thesis .
  qed
qed

lemma pending_size:
  assumes "length s + length b \<le> 1000"
  shows "length (doc_text (PendingDoc s b)) \<le> MaxFileSize"
proof -
  have q: "length (json_quote x) \<le> 6 * length x + 2" for x
    using json_chars_length [of x] by (simp add: json_quote_def)
  have "length (doc_text (PendingDoc s b)) \<le> 6 * length s + 6 * length b + 200"
    using q [of s] q [of b] q [of "''snapshotId''"] q [of "''baselineId''"] by simp
  then show ?thesis using assms by (simp add: MaxFileSize_def)
qed

lemma tx_lengths: "tx old new s b d \<Longrightarrow> length s + length b \<le> 1000"
proof -
  assume t: "tx old new s b d"
  have "length s < 100" using t loads_valid by (auto simp: tx_def validSnapshotID_def)
  moreover have "length b < 100"
    using t loads_valid by (auto simp: tx_def base_ok_def validSnapshotID_def)
  ultimately show ?thesis by simp
qed

text \<open>Any mixture of the two images can be read back whole.\<close>

definition fits_both :: "image \<Rightarrow> image \<Rightarrow> bool" where
  "fits_both old new \<longleftrightarrow> image_size old + image_size new \<le> MaxTotalSize"

lemma oversized_mixed:
  assumes "mixed old new (d_conf d)" "oversized d"
  shows "\<not> fits_both old new"
proof
  assume le: "fits_both old new"
  obtain im where im: "\<forall>p. fmlookup im p = cfg (d_conf d) p" "MaxTotalSize < image_size im"
    using assms(2) by (auto simp: oversized_def)
  then have "\<forall>p. fmlookup im p = fmlookup old p \<or> fmlookup im p = fmlookup new p"
    using assms(1) by (simp add: mixed_def)
  then show False using image_size_mixed le im(2) by (meson fits_both_def le_trans not_le)
qed

lemma tx_oversized: "tx old new s b d \<Longrightarrow> oversized d \<Longrightarrow> \<not> fits_both old new"
  using oversized_mixed by (auto simp: tx_def)

lemma holds_fits:
  assumes "holds im (d_conf d)" "image_size im \<le> MaxTotalSize"
  shows "\<not> oversized d"
proof
  assume "oversized d"
  then obtain im' where "\<forall>p. fmlookup im' p = cfg (d_conf d) p" "MaxTotalSize < image_size im'"
    by (auto simp: oversized_def)
  moreover from this have "im' = im" using assms(1) by (intro fmap_ext) (simp add: holds_def)
  ultimately show False using assms(2) by simp
qed

lemma read_cfg:
  assumes "good (d_conf d)" "pure read d = Done im"
  shows "\<forall>p. fmlookup im p = cfg (d_conf d) p"
  using assms by (simp add: pure_read good_def)

lemma tx_step:
  assumes "tx old new s b d0" "top_ok d" "top_file d pending_path = top_file d0 pending_path"
    "snaps_kept d0 d" "mixed old new (d_conf d)"
  shows "tx old new s b d"
  using assms loads_kept base_ok_kept by (auto simp: tx_def)

lemma tx_conf:
  assumes "tx old new s b d0" "in_conf d0 X d" "\<And>t. X t \<Longrightarrow> mixed old new t"
  shows "tx old new s b d"
  by (rule tx_step [OF assms(1)])
    (use assms in \<open>auto simp: in_conf_def others_def tx_def top_ok_def top_file_def snaps_kept_def\<close>)

lemma tx_baseline:
  assumes "tx old new s b d0" "top_set d0 baseline_path x d"
  shows "tx old new s b d"
  by (rule tx_step [OF assms(1)])
    (use assms doc_paths(5,6) in \<open>auto simp: tx_def top_set_def snaps_kept_def\<close>)

lemma tx_backups:
  assumes "tx old new s b d0" "backups_kept d0 d"
  shows "tx old new s b d"
  by (rule tx_step [OF assms(1)])
    (use assms in \<open>auto simp: tx_def backups_kept_def top_ok_def top_file_def snaps_kept_def\<close>)

context runtime
begin

text \<open>
  From the journal on, recovery restores the old image or leaves the journal in force; without
  faults it fails only when \<open>read\<close> refuses the files on disk for their size, and then changes nothing.
\<close>

lemma hoare_recover_from:
  assumes T: "tx old new s b d0" and ok: "new_ok old"
  shows "hoare q (\<lambda>d. d = d0) (recover_from c s b) (\<lambda>_. clean old b)
    (\<lambda>e d. (q \<longrightarrow> oversized d0 \<and> d = d0) \<and> (tx old new s b d \<or> clean old b d))
    (\<lambda>d. tx old new s b d \<or> clean old b d)"
proof -
  let ?C = "\<lambda>d. tx old new s b d \<or> clean old b d" and ?T = "tx old new s b"
  let ?E = "\<lambda>e :: error. \<lambda>d. (q \<longrightarrow> oversized d0 \<and> d = d0) \<and> ?C d"
  have M: "mixed old new (d_conf d0)" and top: "top_ok d0" using T by (auto simp: tx_def)
  then have good: "good (d_conf d0)" by (simp add: mixed_def)
  have ld: "hoare q (\<lambda>d. d = d0) (loadSnapshot s) (\<lambda>(_, im) d. im = old \<and> d = d0) ?E ?C"
    by (rule hoare_ro) (use T in \<open>auto simp: tx_def loads_def intro: ro_rules\<close>)
  have rd: "hoare q (\<lambda>d. d = d0) read (\<lambda>cur d. (\<forall>p. fmlookup cur p = cfg (d_conf d0) p) \<and> d = d0) ?E ?C"
    by (rule hoare_ro)
      (use read_cfg [OF good] read_mixed [OF M] T in \<open>auto intro: ro_rules\<close>)
  let ?H = "in_conf d0 (holds old)"
  have H: "?T d" if "?H d" for d
  proof (rule tx_conf [OF T that])
    show "holds old t \<Longrightarrow> mixed old new t" for t by (simp add: holds_def mixed_def)
  qed
  have rep: "hoare q (\<lambda>d. (\<forall>p. fmlookup cur p = cfg (d_conf d0) p) \<and> d = d0) (replace cur old) (\<lambda>_. ?H) ?E ?C" for cur
  proof (rule hoare_imp)
    assume cur: "\<forall>p. fmlookup cur p = cfg (d_conf d0) p"
    have mx: "?T d" if "in_conf d0 (mixed cur old) d" for d
    proof (rule tx_conf [OF T that])
      fix t assume m: "mixed cur old t"
      have "cfg t p = fmlookup old p \<or> cfg t p = fmlookup new p" for p
      proof -
        have "cfg t p = fmlookup cur p \<or> cfg t p = fmlookup old p" using m unfolding mixed_def by blast
        moreover have "cfg (d_conf d0) p = fmlookup old p \<or> cfg (d_conf d0) p = fmlookup new p"
          using M unfolding mixed_def by blast
        ultimately show ?thesis using cur by metis
      qed
      then show "mixed old new t" using m unfolding mixed_def by blast
    qed
    show "hoare q (\<lambda>d. d = d0) (replace cur old) (\<lambda>_. ?H) ?E ?C"
      by (rule hoare_conseq [OF hoare_replace [OF good cur ok]]) (use mx in auto)
  qed
  have ap: "hoare q ?H (c_apply c Restart) (\<lambda>_. ?H) ?E ?C"
    by (rule hoare_conseq [OF hoare_bus [OF apply_on_bus apply_works, where J = ?C]]) (use H in auto)
  have he: "hoare q ?H (c_healthy c) (\<lambda>_. ?H) ?E ?C"
    by (rule hoare_conseq [OF hoare_bus [OF healthy_on_bus healthy_works, where J = ?C]]) (use H in auto)
  have sb: "hoare q ?H (then_io (setBaseline b) clearPending) (\<lambda>_. clean old b) ?E ?C"
  proof (rule hoare_fix)
    fix d1 assume H1: "?H d1"
    have T1: "?T d1" using H [OF H1] .
    then have top1: "top_ok d1" and b1: "base_ok b d1" by (simp_all add: tx_def)
    have mv: "?C d" if "top_same d1 d \<or> moved d1 b d" for d
      using moved_set [OF that] tx_baseline [OF T1] by blast
    have bl: "b = [] \<or> (\<exists>x. pure (loadSnapshot b) d1 = Done x)"
      using b1 by (auto simp: base_ok_def loads_def)
    have st: "hoare q (\<lambda>d. d = d1) (setBaseline b) (\<lambda>_. moved d1 b) ?E ?C"
      by (rule hoare_conseq [OF hoare_setBaseline [OF top1, where good_b = True and b = b]])
        (use bl mv in blast)+
    have cl: "hoare q (moved d1 b) clearPending (\<lambda>_. clean old b) ?E ?C"
    proof (rule hoare_fix)
      fix d2 assume B: "moved d1 b d2"
      then obtain x where x: "top_set d1 baseline_path x d2" "if b = [] then x = None else doc_node (PointerDoc b) x"
        by (auto simp: top_doc_def moved_def split: if_splits)
      have T2: "?T d2" using tx_baseline [OF T1 x(1)] .
      have h: "holds old (d_conf d2)" using H1 x(1) by (simp add: in_conf_def top_set_def)
      have bp: "top_file d2 baseline_path = x" using x(1) doc_paths(7) by (simp add: top_set_def)
      have fin: "clean old b d" if N: "top_set d2 pending_path None d" for d
      proof -
        have "base_ok b d"
          by (rule base_ok_kept [of b d2]) (use T2 N in \<open>auto simp: tx_def top_set_def snaps_kept_def\<close>)
        moreover have "top_file d baseline_path = x" "settled old d"
          using N h bp doc_paths(5,6,7) by (auto simp: settled_def top_set_def)
        ultimately show ?thesis using x(2) by (simp add: clean_def pointed_def)
      qed
      show "hoare q (\<lambda>d. d = d2) clearPending (\<lambda>_. clean old b) ?E ?C"
        by (rule hoare_conseq [OF hoare_clearPending]) (use T2 fin in \<open>auto simp: tx_def doc_node_def\<close>)
    qed
    show "hoare q (\<lambda>d. d = d1) (then_io (setBaseline b) clearPending) (\<lambda>_. clean old b) ?E ?C"
      by (rule hoare_then [OF st cl])
  qed
  show ?thesis
    unfolding recover_from_def
  proof (rule hoare_bind [OF ld])
    fix mi :: "manifest \<times> image"
    obtain m im where mi: "mi = (m, im)" by fastforce
    let ?rest = "\<lambda>im. bind_io read (\<lambda>current. then_io (replace current im)
        (then_io (c_apply c Restart) (then_io (c_healthy c) (then_io (setBaseline b) clearPending))))"
    have "hoare q (\<lambda>d. im = old \<and> d = d0) (?rest im) (\<lambda>_. clean old b) ?E ?C"
    proof (rule hoare_imp)
      assume "im = old"
      then show "hoare q (\<lambda>d. d = d0) (?rest im) (\<lambda>_. clean old b) ?E ?C"
        using hoare_bind [OF rd hoare_then [OF rep hoare_then [OF ap hoare_then [OF he sb]]]] by simp
    qed
    then show "hoare q (case mi of (_, im) \<Rightarrow> \<lambda>d. im = old \<and> d = d0) (case mi of (_, old) \<Rightarrow> ?rest old)
        (\<lambda>_. clean old b) ?E ?C"
      by (simp add: mi)
  qed
qed

text \<open>Reading the journal.\<close>

lemma pure_pending:
  assumes "tx old new s b d"
  shows "\<exists>f. pure (readNode Top pending_path) d = Done (Doc (PendingDoc s b), f)"
proof -
  obtain u g where n: "top_file d pending_path = Some (File (Doc (PendingDoc s b)) 384 u g)"
    using assms by (auto simp: tx_def doc_node_def)
  have "look pending_path (d_top d) = Inr (File (Doc (PendingDoc s b)) 384 u g)"
    using n assms wf_look [of "d_top d"] doc_paths(2,6) by (simp add: tx_def top_ok_def top_file_def)
  then show ?thesis
    using pending_size [OF tx_lengths [OF assms]]
    by (simp add: pure_readNode opened_file_def del: doc_text.simps)
qed

lemma pending_doc:
  assumes "tx old new s b d"
  shows "json_doc (PendingDoc s b) = PendingDoc s b"
proof -
  have "json_string [] = []" by (rule json_string_valid) (simp add: runes_ascii(2))
  then show ?thesis using assms json_string_valid by (auto simp: tx_def base_ok_def)
qed

lemma hoare_recover_tx:
  assumes T: "tx old new s b d0" and ok: "new_ok old"
  shows "hoare q (\<lambda>d. d = d0) (recover (Some c)) (\<lambda>_. clean old b)
    (\<lambda>e d. (q \<longrightarrow> oversized d0 \<and> d = d0) \<and> (tx old new s b d \<or> clean old b d))
    (\<lambda>d. tx old new s b d \<or> clean old b d)"
proof -
  let ?C = "\<lambda>d. tx old new s b d \<or> clean old b d"
  let ?E = "\<lambda>e :: error. \<lambda>d. (q \<longrightarrow> oversized d0 \<and> d = d0) \<and> ?C d"
  obtain f where f: "pure (readNode Top pending_path) d0 = Done (Doc (PendingDoc s b), f)"
    using pure_pending [OF T] by blast
  have rd: "hoare q (\<lambda>d. d = d0) (readNode Top pending_path) (\<lambda>x d. x = (Doc (PendingDoc s b), f) \<and> d = d0)
      (\<lambda>e d. e = Fault \<and> \<not> q \<and> d = d0) ?C"
    by (rule hoare_ro) (use T f in \<open>auto intro: ro_rules\<close>)
  show ?thesis
    unfolding recover_def
  proof (rule hoare_or_missing [OF rd])
    fix x :: "content \<times> cfile"
    obtain ct g where x: "x = (ct, g)" by fastforce
    have "hoare q (\<lambda>d. x = (Doc (PendingDoc s b), f) \<and> d = d0)
        (case ct of Bytes _ \<Rightarrow> fail (Msg ''invalid JSON'')
          | Doc d \<Rightarrow> (case json_doc d of PendingDoc snap base \<Rightarrow> recover_from c snap base
              | _ \<Rightarrow> fail (Msg ''invalid JSON''))) (\<lambda>_. clean old b) ?E ?C"
      by (rule hoare_imp) (use hoare_recover_from [OF T ok] pending_doc [OF T] x in simp)
    then show "hoare q (\<lambda>d. x = (Doc (PendingDoc s b), f) \<and> d = d0)
        (case x of (ct, _) \<Rightarrow> case Some c of None \<Rightarrow> fail (Msg ''runtime controller required for recovery'')
          | Some c \<Rightarrow> (case ct of Bytes _ \<Rightarrow> fail (Msg ''invalid JSON'')
          | Doc d \<Rightarrow> (case json_doc d of PendingDoc snap base \<Rightarrow> recover_from c snap base
              | _ \<Rightarrow> fail (Msg ''invalid JSON'')))) (\<lambda>_. clean old b) ?E ?C"
      by (simp add: x cong: content.case_cong)
    show "hoare q (\<lambda>d. e = Fault \<and> \<not> q \<and> d = d0) (return ()) (\<lambda>_. clean old b) ?E ?C"
      if "errors_is e ErrNotExist" for e
      by (rule hoare_imp) (use that in simp)
  qed (use T in auto)
qed

end

end
