(* ===== verification/CommitLaws.thy ===== *)
theory CommitLaws
  imports TxLaws
begin

text \<open>
  The operations above the journal: recording a baseline, retention, the unchanged case, the
  transaction itself with its commit and rollback, \<open>apply\<close> and recovery, each with what
  holds after it returns, fails or dies.
\<close>

section \<open>Recording a baseline\<close>

text \<open>
  What the bookkeeping operations leave alone: the configuration, the journal, every snapshot
  that was there; the baseline pointer is the old one or names a snapshot that can be loaded.
\<close>

definition upkeep :: "disk \<Rightarrow> disk \<Rightarrow> bool" where
  "upkeep d0 d \<longleftrightarrow> d_conf d = d_conf d0 \<and> top_ok d \<and> top_file d pending_path = top_file d0 pending_path \<and>
     snaps_kept d0 d \<and> (top_file d baseline_path = top_file d0 baseline_path \<or> (\<exists>i. pointed i d))"

definition recorded :: "image \<Rightarrow> string \<Rightarrow> manifest \<Rightarrow> disk \<Rightarrow> bool" where
  "recorded im reason m d \<longleftrightarrow> pointed (m_id m) d \<and> m_id m \<noteq> [] \<and>
     (loadable im \<and> manifest_bound im reason \<longrightarrow> loads (m_id m) im d)"

lemma upkeep_refl: "top_ok d \<Longrightarrow> upkeep d d"
  by (simp add: upkeep_def snaps_kept_def)

lemma upkeep_backups: "top_ok d0 \<Longrightarrow> backups_kept d0 d \<Longrightarrow> upkeep d0 d"
  by (auto simp: upkeep_def backups_kept_def top_ok_def top_file_def snaps_kept_def)

lemma tx_upkeep: "tx old new s b d0 \<Longrightarrow> upkeep d0 d \<Longrightarrow> tx old new s b d"
  by (rule tx_step) (auto simp: upkeep_def tx_def)

lemma settled_upkeep: "settled im d0 \<Longrightarrow> upkeep d0 d \<Longrightarrow> settled im d"
  by (simp add: settled_def upkeep_def)

lemma pointed_kept:
  "pointed b d0 \<Longrightarrow> snaps_kept d0 d \<Longrightarrow> top_file d baseline_path = top_file d0 baseline_path \<Longrightarrow> pointed b d"
  by (auto simp: pointed_def intro: base_ok_kept)

lemma clean_upkeep: "clean im b d0 \<Longrightarrow> upkeep d0 d \<Longrightarrow> \<exists>b'. clean im b' d"
proof -
  assume c: "clean im b d0" and u: "upkeep d0 d"
  have "\<exists>i. pointed i d"
    using c u pointed_kept [of b d0 d] by (auto simp: clean_def upkeep_def)
  then show ?thesis using settled_upkeep c u by (auto simp: clean_def)
qed

lemma clean_backups: "clean im b d0 \<Longrightarrow> backups_kept d0 d \<Longrightarrow> clean im b d"
  using pointed_kept [of b d0 d] backups_snaps
  by (auto simp: clean_def settled_def backups_kept_def top_ok_def top_file_def)

lemma hoare_recordBaseline:
  assumes ok: "top_ok d0" and can: "canonical im"
  shows "hoare q (\<lambda>d. d = d0) (recordBaseline im reason) (\<lambda>m d. upkeep d0 d \<and> recorded im reason m d)
    (\<lambda>e. upkeep d0) (upkeep d0)"
  unfolding recordBaseline_def
proof (rule hoare_bind)
  show "hoare q (\<lambda>d. d = d0) (snapshot im reason) (\<lambda>m. snapshot_made d0 im reason m) (\<lambda>e. upkeep d0) (upkeep d0)"
    by (rule hoare_conseq [OF hoare_snapshot [OF can]]) (use upkeep_backups [OF ok] in blast)+
  fix m
  show "hoare q (snapshot_made d0 im reason m) (then_io (setBaseline (m_id m)) (return m))
    (\<lambda>m d. upkeep d0 d \<and> recorded im reason m d) (\<lambda>e. upkeep d0) (upkeep d0)"
  proof (rule hoare_fix)
    fix d1 assume sm: "snapshot_made d0 im reason m d1"
    have bk: "backups_kept d0 d1" using sm kept_backups by (auto simp: snapshot_made_def)
    have u1: "upkeep d0 d1" using upkeep_backups [OF ok bk] .
    then have ok1: "top_ok d1" by (simp add: upkeep_def)
    have id: "m_id m \<noteq> []" "utf8_valid (m_id m)" using sm by (auto simp: snapshot_made_def)
    have same: "upkeep d0 d" if "top_same d1 d" for d
      using that u1 bk doc_paths(6,7)
      by (auto simp: upkeep_def top_same_def top_set_def snaps_kept_def backups_kept_def top_file_def)
    have mv: "upkeep d0 d \<and> recorded im reason m d" if mv: "moved d1 (m_id m) d" for d
    proof -
      obtain x where x: "pure (loadSnapshot (m_id m)) d1 = Done x"
          and td: "top_doc d1 baseline_path (PointerDoc (m_id m)) d"
        using mv id(1) by (auto simp: moved_def)
      have sk: "snaps_kept d1 d" and nd: "doc_node (PointerDoc (m_id m)) (top_file d baseline_path)"
          and p: "top_file d pending_path = top_file d1 pending_path" "d_conf d = d_conf d1" "top_ok d"
        using td doc_paths(5,6,7) by (auto simp: top_doc_def top_set_def snaps_kept_def)
      obtain n j where "x = (n, j)" by fastforce
      then have "loads (m_id m) j d1" using x by (auto simp: loads_def)
      then have pt: "pointed (m_id m) d"
        using loads_kept [OF _ sk] id nd by (auto simp: pointed_def base_ok_def)
      have "loads (m_id m) im d" if "loadable im" "manifest_bound im reason"
        using snapshot_made_loads [OF sm that] loads_kept [OF _ sk] by (auto simp: loads_def)
      then have "recorded im reason m d" using pt id by (simp add: recorded_def)
      moreover have "snaps_kept d0 d"
      proof -
        have "snaps_kept d0 d1" using u1 by (simp add: upkeep_def)
        moreover have "d_snaps d = d_snaps d1" using td by (auto simp: top_doc_def top_set_def)
        ultimately show ?thesis by (simp add: snaps_kept_def)
      qed
      ultimately show ?thesis using p pt u1 by (auto simp: upkeep_def)
    qed
    have st: "hoare q (\<lambda>d. d = d1) (setBaseline (m_id m)) (\<lambda>_ d. upkeep d0 d \<and> recorded im reason m d)
        (\<lambda>e. upkeep d0) (upkeep d0)"
      by (rule hoare_conseq [OF hoare_setBaseline [OF ok1, where good_b = False and b = "m_id m"]])
        (use same mv in auto)
    show "hoare q (\<lambda>d. d = d1) (then_io (setBaseline (m_id m)) (return m))
      (\<lambda>m d. upkeep d0 d \<and> recorded im reason m d) (\<lambda>e. upkeep d0) (upkeep d0)"
      by (rule hoare_then [OF st]) (rule hoare_pre [OF hoare_return], simp)
  qed
qed

section \<open>Retention\<close>

text \<open>Pruning touches neither the configuration, nor the documents, nor the baseline.\<close>

definition pruned :: "string \<Rightarrow> disk \<Rightarrow> disk \<Rightarrow> bool" where
  "pruned b d0 d \<longleftrightarrow> d_conf d = d_conf d0 \<and> d_top d = d_top d0 \<and> fmlookup (d_snaps d) b = fmlookup (d_snaps d0) b"

lemma loads_pruned: "loads b im d0 \<Longrightarrow> pruned b d0 d \<Longrightarrow> loads b im d"
proof -
  assume l: "loads b im d0" and k: "pruned b d0 d"
  then have "fmlookup (d_snaps d0) b \<noteq> None" unfolding loads_def using load_exists by blast
  then have "pure (loadSnapshot b) d = pure (loadSnapshot b) d0"
    by (intro load_stable) (use k in \<open>auto simp: pruned_def\<close>)
  then show ?thesis using l by (simp add: loads_def)
qed

lemma clean_pruned:
  assumes "clean im b d0" "pruned b d0 d"
  shows "clean im b d"
proof -
  have "base_ok b d"
    using assms loads_pruned [OF _ assms(2)] unfolding clean_def pointed_def base_ok_def by blast
  then show ?thesis
    using assms by (auto simp: clean_def settled_def pointed_def pruned_def top_ok_def top_file_def)
qed

lemma hoare_prune_loop:
  "hoare q (pruned b d0) (prune_loop keep b remaining is) (\<lambda>_. pruned b d0) (\<lambda>e. pruned b d0) (pruned b d0)"
proof (induction "is" arbitrary: remaining)
  case (Cons i "is")
  let ?P = "pruned b d0"
  show ?case
  proof (cases "remaining \<le> keep \<or> i = b")
    case True
    moreover have "hoare q ?P (return ()) (\<lambda>_. ?P) (\<lambda>e. ?P) ?P"
      by (rule hoare_pre [OF hoare_return])
    ultimately show ?thesis using Cons by auto
  next
    case False
    have "hoare q ?P (removeAll i) (\<lambda>_. ?P) (\<lambda>e. ?P) ?P"
    proof (rule hoare_fix)
      fix d1 assume p: "?P d1"
      have k: "?P d" if "kept d1 i d" for d using that p False by (auto simp: kept_def pruned_def)
      show "hoare q (\<lambda>d. d = d1) (removeAll i) (\<lambda>_. ?P) (\<lambda>e. ?P) ?P"
        by (rule hoare_conseq [OF hoare_removeAll [of q d1 i]]) (use k in \<open>auto simp: kept_def\<close>)
    qed
    moreover have "hoare q ?P (guard_io (validSnapshotID i \<and> path_base i = i) ''invalid snapshot ID'') (\<lambda>_. ?P) (\<lambda>e. ?P) ?P"
      by (rule hoare_pre [OF hoare_guard]) simp
    ultimately show ?thesis using False Cons by (auto intro!: hoare_then)
  qed
qed (auto intro: hoare_pre [OF hoare_return])

lemma pure_top_doc:
  assumes ok: "top_ok d" and p: "doc_path p" and n: "doc_node x (top_file d p)"
    and len: "length (doc_text x) \<le> MaxFileSize"
  shows "\<exists>f. pure (readNode Top p) d = Done (Doc x, f)"
proof -
  obtain u g where n: "top_file d p = Some (File (Doc x) 384 u g)" using n by (auto simp: doc_node_def)
  have "look p (d_top d) = Inr (File (Doc x) 384 u g)"
    using n ok wf_look [of "d_top d" p] doc_paths(2) [OF p] by (simp add: top_ok_def top_file_def)
  then show ?thesis using len by (simp add: pure_readNode opened_file_def del: doc_text.simps)
qed

lemma pure_top_none:
  assumes ok: "top_ok d" and p: "doc_path p" and n: "top_file d p = None"
  shows "pure (readNode Top p) d = Failed ErrNotExist" "pure (io_lstat Top p) d = Failed ErrNotExist"
proof -
  have "look p (d_top d) = Inl ErrNotExist"
    using n ok wf_look [of "d_top d" p] doc_paths(1,2) [OF p] by (simp add: top_ok_def top_file_def plain_path_def)
  then show "pure (readNode Top p) d = Failed ErrNotExist" "pure (io_lstat Top p) d = Failed ErrNotExist"
    by (simp_all add: pure_readNode io_lstat_def pure_sys in_tree_def)
qed

lemma pure_baselineID:
  assumes "top_ok d" "pointed b d"
  shows "pure baselineID d = Done b"
proof (cases "b = []")
  case True
  then have "top_file d baseline_path = None" using assms(2) by (simp add: pointed_def)
  then have "pure (readNode Top baseline_path) d = Failed ErrNotExist"
    using pure_top_none(1) [OF assms(1) doc_paths(7)] by simp
  then show ?thesis using True by (simp add: baselineID_def pure_or_missing ro_rules)
next
  case False
  then have nd: "doc_node (PointerDoc b) (top_file d baseline_path)" and u: "utf8_valid b"
      and v: "validSnapshotID b"
    using assms(2) loads_valid by (auto simp: pointed_def base_ok_def)
  have "length b < 100" using v by (simp add: validSnapshotID_def)
  then have "length (doc_text (PointerDoc b)) \<le> MaxFileSize"
    using json_chars_length [of b] json_chars_length [of "''id''"]
    by (simp add: json_quote_def MaxFileSize_def)
  then obtain f where "pure (readNode Top baseline_path) d = Done (Doc (PointerDoc b), f)"
    using pure_top_doc [OF assms(1) doc_paths(7) nd] by blast
  then show ?thesis
    using v json_string_valid [OF u] by (simp add: baselineID_def pure_or_missing pure_then ro_rules)
qed

lemma hoare_prune:
  assumes ok: "top_ok d0" and b: "pointed b d0"
  shows "hoare q (\<lambda>d. d = d0) (prune keep) (\<lambda>_. pruned b d0) (\<lambda>e. pruned b d0) (pruned b d0)"
  unfolding prune_def
proof (rule hoare_bind)
  let ?P = "pruned b d0"
  have P0: "?P d0" by (simp add: pruned_def)
  show "hoare q (\<lambda>d. d = d0) snapshots (\<lambda>_ d. d = d0) (\<lambda>e. ?P) ?P"
    by (rule hoare_ro) (use P0 in \<open>auto intro: ro_rules\<close>)
  fix ms
  show "hoare q (\<lambda>d. d = d0) (bind_io baselineID (\<lambda>pinned.
      then_io (prune_loop keep pinned (length ms) (rev (map m_id ms))) (syncDir Top ''.''))) (\<lambda>_. ?P) (\<lambda>e. ?P) ?P"
  proof (rule hoare_bind)
    show "hoare q (\<lambda>d. d = d0) baselineID (\<lambda>i d. i = b \<and> ?P d) (\<lambda>e. ?P) ?P"
      by (rule hoare_ro) (use P0 pure_baselineID [OF ok b] in \<open>auto intro: ro_rules\<close>)
    fix i
    show "hoare q (\<lambda>d. i = b \<and> ?P d) (then_io (prune_loop keep i (length ms) (rev (map m_id ms))) (syncDir Top ''.''))
        (\<lambda>_. ?P) (\<lambda>e. ?P) ?P"
    proof (rule hoare_imp)
      assume "i = b"
      then have "hoare q ?P (prune_loop keep i (length ms) (rev (map m_id ms))) (\<lambda>_. ?P) (\<lambda>e. ?P) ?P"
        using hoare_prune_loop by simp
      moreover have "hoare q ?P (syncDir Top ''.'') (\<lambda>_. ?P) (\<lambda>e. ?P) ?P"
        by (rule hoare_ro) (auto intro: ro_rules)
      ultimately show "hoare q ?P (then_io (prune_loop keep i (length ms) (rev (map m_id ms))) (syncDir Top ''.''))
        (\<lambda>_. ?P) (\<lambda>e. ?P) ?P"
        by (rule hoare_then)
    qed
  qed
qed

section \<open>Committed states\<close>

text \<open>The new image is in place, no journal, and the baseline has its revision.\<close>

definition committed :: "image \<Rightarrow> disk \<Rightarrow> bool" where
  "committed im d \<longleftrightarrow> (\<exists>i base. clean im i d \<and> loads i base d \<and> Revision base = Revision im)"

lemma pruned_refl [simp]: "pruned b d d"
  by (simp add: pruned_def)

lemma recorded_committed:
  assumes "settled im d" "recorded im reason m d" "loadable im" "manifest_bound im reason"
  shows "committed im d"
  using assms unfolding committed_def recorded_def clean_def by blast

lemma hoare_or_return:
  assumes "hoare q P m R S C" "\<And>x. hoare q (R x) (k x) Q E C" "\<And>e d. S e d \<Longrightarrow> Q (r, Some e) d"
  shows "hoare q P (or_return r m k) Q E C"
  unfolding or_return_def
proof (rule hoare_bind [OF hoare_try])
  let ?R = "\<lambda>x. case x of Inl e \<Rightarrow> S e | Inr v \<Rightarrow> R v"
  show "hoare q P m (\<lambda>x. ?R (Inr x)) (\<lambda>e. ?R (Inl e)) C" using assms(1) by simp
  show "hoare q (?R x) (case x of Inl e \<Rightarrow> return (r, Some e) | Inr v \<Rightarrow> k v) Q E C" for x
    using assms(2,3) by (cases x) (auto intro: hoare_pre [OF hoare_return])
qed

text \<open>What a caller of the transaction is told, and what holds then.\<close>

definition resting :: "image \<Rightarrow> image \<Rightarrow> disk \<Rightarrow> bool" where
  "resting old new d \<longleftrightarrow> (\<exists>s b. tx old new s b d) \<or> (\<exists>b. clean old b d) \<or> committed new d"

definition answered :: "bool \<Rightarrow> image \<Rightarrow> image \<Rightarrow> apply_result \<times> error option \<Rightarrow> disk \<Rightarrow> bool" where
  "answered q old new r d \<longleftrightarrow>
     (case snd r of
        None \<Rightarrow> committed new d
      | Some e \<Rightarrow> resting old new d \<and> (q \<and> fits_both old new \<longrightarrow> (\<exists>b. clean old b d)))"

lemma answered_old: "clean old b d \<Longrightarrow> answered q old new (r, Some e) d"
  by (auto simp: answered_def resting_def)

lemma resting_old: "clean old b d \<Longrightarrow> resting old new d"
  by (auto simp: resting_def)

context runtime
begin

lemma hoare_transact:
  assumes T: "tx old new s b d0" and old: "holds old (d_conf d0)" and new: "new_ok new" "canonical new"
  shows "hoare q (\<lambda>d. d = d0) (transact old new act c)
    (\<lambda>_ d. tx old new s b d \<and> holds new (d_conf d) \<and> (\<exists>m. recorded new ''Managed configuration'' m d))
    (\<lambda>e. tx old new s b) (tx old new s b)"
proof -
  let ?T = "tx old new s b" and ?H = "in_conf d0 (holds new)"
  have good: "good (d_conf d0)" "\<forall>p. fmlookup old p = cfg (d_conf d0) p" using old by (auto simp: holds_def)
  have mx: "?T d" if "in_conf d0 (mixed old new) d" for d using tx_conf [OF T that] .
  have H: "?T d" if "?H d" for d by (rule tx_conf [OF T that]) (rule holds_mixed)
  have rep: "hoare q (\<lambda>d. d = d0) (replace old new) (\<lambda>_. ?H) (\<lambda>e. ?T) ?T"
    by (rule hoare_conseq [OF hoare_replace [OF good new(1)]]) (use mx in auto)
  have ap: "hoare q ?H (c_apply c act) (\<lambda>_. ?H) (\<lambda>e. ?T) ?T"
    by (rule hoare_conseq [OF hoare_bus [OF apply_on_bus apply_works, where J = ?T]]) (use H in auto)
  have he: "hoare q ?H (c_healthy c) (\<lambda>_. ?H) (\<lambda>e. ?T) ?T"
    by (rule hoare_conseq [OF hoare_bus [OF healthy_on_bus healthy_works, where J = ?T]]) (use H in auto)
  let ?Q = "\<lambda>d. ?T d \<and> holds new (d_conf d) \<and> (\<exists>m. recorded new ''Managed configuration'' m d)"
  have rb: "hoare q ?H (bind_io (recordBaseline new ''Managed configuration'') (\<lambda>_. return ())) (\<lambda>_. ?Q) (\<lambda>e. ?T) ?T"
  proof (rule hoare_fix)
    fix d1 assume H1: "?H d1"
    have T1: "?T d1" using H [OF H1] .
    then have ok: "top_ok d1" by (simp add: tx_def)
    have h1: "holds new (d_conf d1)" using H1 by (simp add: in_conf_def)
    have u: "?T d" "holds new (d_conf d)" if "upkeep d1 d" for d
      using tx_upkeep [OF T1 that] h1 that by (simp_all add: upkeep_def)
    show "hoare q (\<lambda>d. d = d1) (bind_io (recordBaseline new ''Managed configuration'') (\<lambda>_. return ()))
        (\<lambda>_. ?Q) (\<lambda>e. ?T) ?T"
    proof (rule hoare_bind)
      show "hoare q (\<lambda>d. d = d1) (recordBaseline new ''Managed configuration'') (\<lambda>_. ?Q) (\<lambda>e. ?T) ?T"
        by (rule hoare_conseq [OF hoare_recordBaseline [OF ok new(2)]]) (use u in blast)+
    qed (rule hoare_return)
  qed
  show ?thesis
    unfolding transact_def by (rule hoare_then [OF rep hoare_then [OF ap hoare_then [OF he rb]]])
qed

text \<open>A failed step is undone, or the journal stays in force.\<close>

lemma hoare_rollback:
  assumes T: "tx old new s b d0" and ok: "new_ok old"
  shows "hoare q (\<lambda>d. d = d0) (rollback c e res)
    (\<lambda>r d. fst r = res \<and>
       (snd r = Some (Wrap ''apply failed; previous configuration restored'' e) \<and> clean old b d \<or>
        (\<exists>e'. snd r = Some (Join e (Wrap ''rollback failed; recovery remains pending'' e'))) \<and>
          \<not> (q \<and> fits_both old new) \<and> (tx old new s b d \<or> clean old b d)))
    (\<lambda>e d. False) (\<lambda>d. tx old new s b d \<or> clean old b d)"
  unfolding rollback_def
proof (rule hoare_bind [OF hoare_try])
  let ?C = "\<lambda>d. tx old new s b d \<or> clean old b d"
  let ?R = "\<lambda>x d. case x of Inl e' \<Rightarrow> \<not> (q \<and> fits_both old new) \<and> ?C d | Inr _ \<Rightarrow> clean old b d"
  show "hoare q (\<lambda>d. d = d0) (recover (Some c)) (\<lambda>x. ?R (Inr x)) (\<lambda>e. ?R (Inl e)) ?C"
    by (rule hoare_conseq [OF hoare_recover_tx [OF T ok]]) (use tx_oversized [OF T] in auto)
qed (rule hoare_pre [OF hoare_return], auto split: sum.splits)

lemma hoare_commit:
  assumes T: "tx old new s b d0" and h: "holds new (d_conf d0)"
    and r: "recorded new ''Managed configuration'' m d0"
    and new: "loadable new" "manifest_bound new ''Managed configuration''"
  shows "hoare q (\<lambda>d. d = d0) (commit new res)
    (\<lambda>r d. case snd r of
        None \<Rightarrow> committed new d \<and> ar_revision (fst r) = Revision new
      | Some e \<Rightarrow> \<not> q \<and> (tx old new s b d \<or> committed new d))
    (\<lambda>e d. False) (\<lambda>d. tx old new s b d \<or> committed new d)"
proof -
  let ?i = "m_id m"
  let ?Q = "\<lambda>(r :: apply_result \<times> error option) d. case snd r of
        None \<Rightarrow> committed new d \<and> ar_revision (fst r) = Revision new
      | Some e \<Rightarrow> \<not> q \<and> (tx old new s b d \<or> committed new d)"
  let ?C = "\<lambda>d. tx old new s b d \<or> committed new d"
  let ?N = "\<lambda>d. clean new ?i d \<and> loads ?i new d"
  have N: "committed new d" if "?N d" for d using that by (auto simp: committed_def)
  have N1: "?N d" if t: "top_set d0 pending_path None d" for d
  proof -
    have k: "snaps_kept d0 d" and b: "top_file d baseline_path = top_file d0 baseline_path"
      using t doc_paths(5,6,7) by (auto simp: top_set_def snaps_kept_def)
    have "settled new d" using t h doc_paths(6) by (simp add: settled_def top_set_def)
    moreover have "pointed ?i d" using r pointed_kept k b by (auto simp: recorded_def)
    moreover have "loads ?i new d" using r new loads_kept k by (auto simp: recorded_def)
    ultimately show ?thesis by (simp add: clean_def)
  qed
  have top: "top_ok d0" "top_file d0 pending_path \<noteq> None" using T by (auto simp: tx_def doc_node_def)
  have cl: "hoare q (\<lambda>d. d = d0) (try_io clearPending)
      (\<lambda>x d. case x of Inl e \<Rightarrow> \<not> q \<and> ?C d | Inr _ \<Rightarrow> ?N d) (\<lambda>e d. False) ?C"
    by (rule hoare_try, rule hoare_conseq [OF hoare_clearPending [OF top]]) (use N1 N T in auto)
  have pr: "hoare q ?N (bind_io (try_io (prune 20)) (\<lambda>r. return
             (res\<lparr>ar_revision := Revision new,
                ar_warning := (case r of Inl _ \<Rightarrow> ''Configuration committed; snapshot retention failed''
                                | Inr _ \<Rightarrow> [])\<rparr>, None))) ?Q (\<lambda>e d. False) ?C"
  proof (rule hoare_fix)
    fix d1 assume n1: "?N d1"
    have ok1: "top_ok d1" "pointed ?i d1" using n1 by (auto simp: clean_def settled_def)
    have p: "committed new d" if "pruned ?i d1 d" for d
      using clean_pruned [OF _ that] loads_pruned [OF _ that] n1 N by blast
    have tr: "hoare q (\<lambda>d. d = d1) (try_io (prune 20)) (\<lambda>_. committed new) (\<lambda>e d. False) ?C"
      by (rule hoare_try, rule hoare_conseq [OF hoare_prune [OF ok1]]) (use p in auto)
    show "hoare q (\<lambda>d. d = d1) (bind_io (try_io (prune 20)) (\<lambda>r. return
             (res\<lparr>ar_revision := Revision new,
                ar_warning := (case r of Inl _ \<Rightarrow> ''Configuration committed; snapshot retention failed''
                                | Inr _ \<Rightarrow> [])\<rparr>, None))) ?Q (\<lambda>e d. False) ?C"
      by (rule hoare_bind [OF tr], rule hoare_pre [OF hoare_return]) simp
  qed
  show ?thesis
    unfolding commit_def
  proof (rule hoare_bind [OF cl])
    fix x :: "unit result"
    show "hoare q (\<lambda>d. case x of Inl e \<Rightarrow> \<not> q \<and> ?C d | Inr _ \<Rightarrow> ?N d)
      (case x of Inl e \<Rightarrow> return (res, Some (Wrap ''configuration applied but commit journal failed'' e))
       | Inr _ \<Rightarrow> bind_io (try_io (prune 20)) (\<lambda>r. return
             (res\<lparr>ar_revision := Revision new,
                ar_warning := (case r of Inl _ \<Rightarrow> ''Configuration committed; snapshot retention failed''
                                | Inr _ \<Rightarrow> [])\<rparr>, None))) ?Q (\<lambda>e d. False) ?C"
      using pr by (cases x) (auto intro: hoare_pre [OF hoare_return])
  qed
qed

end

lemma settled_old: "clean im b d \<Longrightarrow> settled im d \<and> top_ok d \<and> pointed b d \<and> holds im (d_conf d)"
  by (simp add: clean_def settled_def)

lemma clean_read:
  assumes "clean old b d" "pure read d = Done im"
  shows "im = old"
  using assms pure_read [of d im] by (auto simp: clean_def settled_def holds_def good_def fmap_ext_iff)

lemma committed_clean: "committed new d \<Longrightarrow> \<exists>b. clean new b d"
  by (auto simp: committed_def)

lemma hoare_accept_unchanged:
  assumes cl: "clean im b d0" and ok: "loadable im" "manifest_bound im ''Managed configuration''"
  shows "hoare q (\<lambda>d. d = d0) (accept_unchanged im res) (answered q im im) (\<lambda>e d. False) (resting im im)"
  unfolding accept_unchanged_def
proof (rule hoare_or_return)
  let ?A = "answered q im im" and ?C = "resting im im" and ?S = "\<lambda>d. \<exists>b. clean im b d"
  have top: "top_ok d0" "pointed b d0" using settled_old [OF cl] by auto
  have can: "canonical im" using ok by (simp add: loadable_def)
  have S: "?A (r, Some e) d" "?C d" if "?S d" for r e d using that answered_old resting_old by blast+
  have S0: "?S d0" "?C d0" using cl S by blast+
  show "hoare q (\<lambda>d. d = d0) baselineID (\<lambda>i d. i = b \<and> d = d0) (\<lambda>e. ?S) ?C"
    by (rule hoare_ro) (use pure_baselineID [OF top] S0 in \<open>auto intro: ro_rules\<close>)
  show "?A (res, Some e) d" if "?S d" for e :: error and d using S that by blast
  fix i
  let ?load = "if i \<noteq> [] then bind_io (loadSnapshot i) (\<lambda>(_, im). return im) else return fmempty"
  show "hoare q (\<lambda>d. i = b \<and> d = d0) (or_return res ?load (\<lambda>base.
     if i = [] \<or> Revision base \<noteq> Revision im then
       or_return res (recordBaseline im ''Managed configuration'') (\<lambda>_.
       or_return res (prune 20) (\<lambda>_. return (res, None)))
     else return (res, None))) ?A (\<lambda>e d. False) ?C"
  proof (rule hoare_imp, rule hoare_or_return)
    assume i: "i = b"
    show "hoare q (\<lambda>d. d = d0) ?load (\<lambda>base d. (i \<noteq> [] \<longrightarrow> loads i base d0) \<and> d = d0) (\<lambda>e. ?S) ?C"
    proof (rule hoare_ro)
      show "ro ?load" by (auto intro: ro_rules)
      fix d base assume "d = d0" "pure ?load d = Done base"
      then show "(i \<noteq> [] \<longrightarrow> loads i base d0) \<and> d = d0"
        by (auto simp: loads_def pure_bind ro_rules split: outcome.splits)
    qed (use S0 in auto)
    fix base
    show "hoare q (\<lambda>d. (i \<noteq> [] \<longrightarrow> loads i base d0) \<and> d = d0) (if i = [] \<or> Revision base \<noteq> Revision im then
       or_return res (recordBaseline im ''Managed configuration'') (\<lambda>_.
       or_return res (prune 20) (\<lambda>_. return (res, None)))
     else return (res, None)) ?A (\<lambda>e d. False) ?C"
    proof (rule hoare_if)
      assume "\<not> (i = [] \<or> Revision base \<noteq> Revision im)"
      then show "hoare q (\<lambda>d. (i \<noteq> [] \<longrightarrow> loads i base d0) \<and> d = d0) (return (res, None)) ?A (\<lambda>e d. False) ?C"
        by (intro hoare_pre [OF hoare_return]) (use cl i in \<open>auto simp: answered_def committed_def\<close>)
    next
      have u: "?S d" if "upkeep d0 d" for d using clean_upkeep [OF cl that] .
      have rec: "hoare q (\<lambda>d. (i \<noteq> [] \<longrightarrow> loads i base d0) \<and> d = d0) (recordBaseline im ''Managed configuration'')
          (\<lambda>m d. settled im d \<and> recorded im ''Managed configuration'' m d) (\<lambda>e. ?S) ?C"
        by (rule hoare_conseq [OF hoare_recordBaseline [OF top(1) can]])
          (use u S settled_upkeep [of im d0] settled_old [OF cl] in auto)
      have pr: "hoare q (\<lambda>d. settled im d \<and> recorded im ''Managed configuration'' m d) (or_return res (prune 20) (\<lambda>_. return (res, None)))
          ?A (\<lambda>e d. False) ?C" for m
      proof (rule hoare_fix)
        fix d1 assume d1: "settled im d1 \<and> recorded im ''Managed configuration'' m d1"
        then have t1: "top_ok d1" "pointed (m_id m) d1" by (auto simp: settled_def recorded_def)
        have n1: "clean im (m_id m) d1" "loads (m_id m) im d1"
          using d1 ok by (auto simp: clean_def recorded_def)
        have p: "committed im d" if "pruned (m_id m) d1 d" for d
          using clean_pruned [OF n1(1) that] loads_pruned [OF n1(2) that] by (auto simp: committed_def)
        have q: "?S d" "?C d" if "pruned (m_id m) d1 d" for d using committed_clean [OF p [OF that]] S by blast+
        show "hoare q (\<lambda>d. d = d1) (or_return res (prune 20) (\<lambda>_. return (res, None))) ?A (\<lambda>e d. False) ?C"
        proof (rule hoare_or_return)
          show "hoare q (\<lambda>d. d = d1) (prune 20) (\<lambda>_. committed im) (\<lambda>e. ?S) ?C"
            by (rule hoare_conseq [OF hoare_prune [OF t1]]) (use p q in auto)
          show "hoare q (committed im) (return (res, None)) ?A (\<lambda>e d. False) ?C" for x :: unit
            by (rule hoare_pre [OF hoare_return]) (simp add: answered_def)
        qed (use S in blast)
      qed
      show "hoare q (\<lambda>d. (i \<noteq> [] \<longrightarrow> loads i base d0) \<and> d = d0)
         (or_return res (recordBaseline im ''Managed configuration'') (\<lambda>_.
          or_return res (prune 20) (\<lambda>_. return (res, None)))) ?A (\<lambda>e d. False) ?C"
        by (rule hoare_or_return [OF rec pr]) (use S in blast)
    qed
  qed (use S in blast)
qed

lemma clean_same:
  assumes c: "clean im b d0" and s: "top_same d0 d"
  shows "clean im b d"
proof -
  have k: "snaps_kept d0 d" using s by (simp add: top_same_def top_set_def snaps_kept_def)
  have "top_file d p = top_file d0 p" if "doc_path p" for p
    using s that by (auto simp: top_same_def top_set_def)
  then have f: "top_file d pending_path = top_file d0 pending_path" "top_file d baseline_path = top_file d0 baseline_path"
    using doc_paths(6,7) by blast+
  have "pointed b d" using c f(2) pointed_kept k by (auto simp: clean_def)
  moreover have "settled im d" using c f(1) s by (auto simp: clean_def settled_def top_same_def top_set_def)
  ultimately show ?thesis by (simp add: clean_def)
qed

text \<open>Writing the journal starts the transaction.\<close>

lemma journal_tx:
  assumes c: "clean old b d0" and l: "loads s old d0" "utf8_valid s" and t: "top_doc d0 pending_path (PendingDoc s b) d"
  shows "tx old new s b d \<and> holds old (d_conf d)"
proof -
  have n: "doc_node (PendingDoc s b) (top_file d pending_path)" "top_ok d" "d_conf d = d_conf d0" "snaps_kept d0 d"
    using t doc_paths(6) by (auto simp: top_doc_def top_set_def snaps_kept_def)
  have h: "holds old (d_conf d)" using settled_old [OF c] n(3) by simp
  then have "mixed old new (d_conf d)" by (simp add: holds_def mixed_def)
  moreover have "loads s old d" "base_ok b d"
    using l(1) loads_kept base_ok_kept n(4) c by (auto simp: clean_def pointed_def)
  ultimately show ?thesis using n l(2) h by (simp add: tx_def)
qed

context runtime
begin

lemma hoare_switchover:
  assumes old: "new_ok old" and new: "new_ok new" "loadable new" "manifest_bound new ''Managed configuration''"
  shows "hoare q (\<lambda>d. tx old new s b d \<and> holds old (d_conf d))
    (bind_io (try_io (transact old new act c)) (\<lambda>r. case r of
           Inl e \<Rightarrow> rollback c e res
         | Inr _ \<Rightarrow> commit new res)) (answered q old new) (\<lambda>e d. False) (resting old new)"
proof (rule hoare_fix)
  let ?A = "answered q old new" and ?C = "resting old new" and ?T = "tx old new s b"
  have can: "canonical new" using new by (simp add: loadable_def)
  have TC: "?C d" if "?T d" for d using that by (auto simp: resting_def)
  fix d2 assume d2: "?T d2 \<and> holds old (d_conf d2)"
  let ?D = "\<lambda>d. ?T d \<and> holds new (d_conf d) \<and> (\<exists>m. recorded new ''Managed configuration'' m d)"
  let ?R = "\<lambda>r d. case r of Inl (e :: error) \<Rightarrow> ?T d | Inr _ \<Rightarrow> ?D d"
  have undo: "hoare q ?T (rollback c e res) ?A (\<lambda>e d. False) ?C" for e
  proof (rule hoare_fix)
    fix d3 assume "?T d3"
    then show "hoare q (\<lambda>d. d = d3) (rollback c e res) ?A (\<lambda>e d. False) ?C"
      by (intro hoare_conseq [OF hoare_rollback [OF _ old]]) (auto simp: answered_def resting_def)
  qed
  have fwd: "hoare q ?D (commit new res) ?A (\<lambda>e d. False) ?C"
  proof (rule hoare_fix)
    fix d3 assume d3: "?D d3"
    then obtain n where n: "recorded new ''Managed configuration'' n d3" by blast
    show "hoare q (\<lambda>d. d = d3) (commit new res) ?A (\<lambda>e d. False) ?C"
      by (rule hoare_conseq [OF hoare_commit [OF conjunct1 [OF d3] _ n new(2,3)]])
        (use d3 in \<open>auto simp: answered_def resting_def split: option.splits\<close>)
  qed
  show "hoare q (\<lambda>d. d = d2) (bind_io (try_io (transact old new act c)) (\<lambda>r. case r of
           Inl e \<Rightarrow> rollback c e res
         | Inr _ \<Rightarrow> commit new res)) ?A (\<lambda>e d. False) ?C"
  proof (rule hoare_bind)
    show "hoare q (\<lambda>d. d = d2) (try_io (transact old new act c)) ?R (\<lambda>e d. False) ?C"
      by (rule hoare_try, rule hoare_conseq [OF hoare_transact [OF conjunct1 [OF d2] conjunct2 [OF d2] new(1) can]])
        (use TC in auto)
    show "hoare q (?R r) (case r of Inl e \<Rightarrow> rollback c e res | Inr _ \<Rightarrow> commit new res) ?A (\<lambda>e d. False) ?C" for r :: "unit result"
      using undo fwd by (cases r) simp_all
  qed
qed

lemma hoare_journalled:
  assumes cl: "clean old b d0" and old: "new_ok old" "loadable old" "manifest_bound old reason"
    and new: "new_ok new" "loadable new" "manifest_bound new ''Managed configuration''"
  shows "hoare q (\<lambda>d. d = d0) (journalled expected old new c res reason) (answered q old new)
    (\<lambda>e d. False) (resting old new)"
  unfolding journalled_def
proof (rule hoare_or_return)
  let ?A = "answered q old new" and ?C = "resting old new" and ?S = "clean old b"
  have can: "canonical old" "canonical new" using old new by (auto simp: loadable_def)
  have S: "?A (r, Some e) d" "?C d" if "?S d" for r e d using that answered_old resting_old by blast+
  have B: "?S d" if "backups_kept d0 d" for d using clean_backups [OF cl that] .
  have sm: "?S d" if "snapshot_made d0 old reason m d" for m :: manifest and d
    using B kept_backups that by (auto simp: snapshot_made_def)
  show "hoare q (\<lambda>d. d = d0) (snapshot old reason) (snapshot_made d0 old reason) (\<lambda>e. ?S) ?C"
    by (rule hoare_conseq [OF hoare_snapshot [OF can(1)]]) (use B S in auto)
  show "?A (res, Some e) d" if "?S d" for e :: error and d using S that by blast
  fix m :: manifest
  let ?res = "res\<lparr>ar_snapshot := m_id m\<rparr>"
  show "hoare q (snapshot_made d0 old reason m) (let res = ?res in or_return res read (\<lambda>current.
     if Revision current \<noteq> expected then return (res, Some ErrConflict)
     else
       or_return res baselineID (\<lambda>base.
       or_return res (atomicFile Top pending_path (Doc (PendingDoc (m_id m) base))) (\<lambda>_.
       bind_io (try_io (transact old new (ar_action res) c)) (\<lambda>r. case r of
           Inl e \<Rightarrow> rollback c e res
         | Inr _ \<Rightarrow> commit new res))))) ?A (\<lambda>e d. False) ?C"
    unfolding Let_def
  proof (rule hoare_fix, rule hoare_or_return)
    fix d1 assume s1: "snapshot_made d0 old reason m d1"
    have c1: "?S d1" using sm [OF s1] .
    have top1: "top_ok d1" "pointed b d1" using settled_old [OF c1] by auto
    have l1: "loads (m_id m) old d1" "utf8_valid (m_id m)"
      using snapshot_made_loads [OF s1 old(2,3)] s1 by (auto simp: loads_def snapshot_made_def)
    show "hoare q (\<lambda>d. d = d1) read (\<lambda>cur d. d = d1) (\<lambda>e. ?S) ?C"
      by (rule hoare_ro) (use c1 S in \<open>auto intro: ro_rules\<close>)
    fix cur
    show "hoare q (\<lambda>d. d = d1) (if Revision cur \<noteq> expected then return (?res, Some ErrConflict)
     else
       or_return ?res baselineID (\<lambda>base.
       or_return ?res (atomicFile Top pending_path (Doc (PendingDoc (m_id m) base))) (\<lambda>_.
       bind_io (try_io (transact old new (ar_action ?res) c)) (\<lambda>r. case r of
           Inl e \<Rightarrow> rollback c e ?res
         | Inr _ \<Rightarrow> commit new ?res)))) ?A (\<lambda>e d. False) ?C"
    proof (rule hoare_if)
      show "hoare q (\<lambda>d. d = d1) (return (?res, Some ErrConflict)) ?A (\<lambda>e d. False) ?C"
        by (rule hoare_pre [OF hoare_return]) (use S c1 in blast)
    next
      show "hoare q (\<lambda>d. d = d1) (or_return ?res baselineID (\<lambda>base.
       or_return ?res (atomicFile Top pending_path (Doc (PendingDoc (m_id m) base))) (\<lambda>_.
       bind_io (try_io (transact old new (ar_action ?res) c)) (\<lambda>r. case r of
           Inl e \<Rightarrow> rollback c e ?res
         | Inr _ \<Rightarrow> commit new ?res)))) ?A (\<lambda>e d. False) ?C"
      proof (rule hoare_or_return)
        show "hoare q (\<lambda>d. d = d1) baselineID (\<lambda>i d. i = b \<and> d = d1) (\<lambda>e. ?S) ?C"
          by (rule hoare_ro) (use pure_baselineID [OF top1] c1 S in \<open>auto intro: ro_rules\<close>)
        fix i
        show "hoare q (\<lambda>d. i = b \<and> d = d1) (or_return ?res (atomicFile Top pending_path (Doc (PendingDoc (m_id m) i))) (\<lambda>_.
         bind_io (try_io (transact old new (ar_action ?res) c)) (\<lambda>r. case r of
             Inl e \<Rightarrow> rollback c e ?res
           | Inr _ \<Rightarrow> commit new ?res))) ?A (\<lambda>e d. False) ?C"
        proof (rule hoare_imp, rule hoare_or_return)
          assume i: "i = b"
          let ?T = "\<lambda>d. tx old new (m_id m) b d"
          have TC: "?C d" if "?T d" for d using that by (auto simp: resting_def)
          have J: "?T d \<and> holds old (d_conf d)" if "top_doc d1 pending_path (PendingDoc (m_id m) b) d" for d
            using journal_tx [OF c1 l1 that] .
          have at: "hoare q (\<lambda>d. d = d1) (atomicFile Top pending_path (Doc (PendingDoc (m_id m) b)))
              (\<lambda>_ d. ?T d \<and> holds old (d_conf d)) (\<lambda>e d. ?S d \<or> \<not> q \<and> ?T d) ?C"
          proof (rule hoare_conseq [OF hoare_doc [OF top1(1) doc_paths(6)]])
            show "?S d \<or> \<not> q \<and> ?T d"
              if "\<not> q \<and> (top_same d1 d \<or> top_doc d1 pending_path (PendingDoc (m_id m) b) d)" for e :: error and d
              using that J clean_same [OF c1] by auto
            show "?C d" if "top_same d1 d \<or> top_doc d1 pending_path (PendingDoc (m_id m) b) d" for d
              using that J TC S clean_same [OF c1] by blast
          qed (use J in auto)
          then show "hoare q (\<lambda>d. d = d1) (atomicFile Top pending_path (Doc (PendingDoc (m_id m) i)))
              (\<lambda>_ d. ?T d \<and> holds old (d_conf d)) (\<lambda>e d. ?S d \<or> \<not> q \<and> ?T d) ?C"
            using i by simp
          show "?A (?res, Some e) d" if "?S d \<or> \<not> q \<and> ?T d" for e :: error and d
            using that S TC by (auto simp: answered_def)
          show "hoare q (\<lambda>d. ?T d \<and> holds old (d_conf d)) (bind_io (try_io (transact old new (ar_action ?res) c)) (\<lambda>r. case r of
             Inl e \<Rightarrow> rollback c e ?res
           | Inr _ \<Rightarrow> commit new ?res)) ?A (\<lambda>e d. False) ?C" for x :: unit
            by (rule hoare_switchover [OF old(1) new])
        qed
      qed (use S in blast)
    qed
  qed (use S in blast)
qed

end

section \<open>The whole operation\<close>

text \<open>Images that can be written back and whose snapshot can be read back.\<close>

definition storable :: "string \<Rightarrow> image \<Rightarrow> bool" where
  "storable reason im \<longleftrightarrow> new_ok im \<and> loadable im \<and> manifest_bound im reason \<and>
     manifest_bound im ''Managed configuration''"

lemma hoare_lift_res:
  "(\<And>e d. P d \<Longrightarrow> r = Inl e \<Longrightarrow> E e d) \<Longrightarrow> hoare q P (lift_res r) (\<lambda>x d. r = Inr x \<and> P d) E C"
  by (rule hoare_pre [OF hoare_lift]) (auto split: sum.splits)

lemma pure_noPending: "clean im b d \<Longrightarrow> pure noPending d = Done ()"
  using pure_top_none(2) [of d pending_path] doc_paths(6)
  by (simp add: noPending_def pure_or_missing ro_rules ro_calls clean_def settled_def)

context runtime
begin

lemma hoare_apply_tx:
  assumes cl: "clean old b d0" and old: "storable reason old"
    and new: "ValidateImage X new = Inr () \<Longrightarrow> new_ok new \<and> loadable new \<and> manifest_bound new ''Managed configuration''"
  shows "hoare q (\<lambda>d. d = d0) (apply_tx X cancelled expected old new reason (Some c)) (answered q old new)
    (\<lambda>e d. False) (resting old new)"
proof -
  let ?A = "answered q old new" and ?C = "resting old new"
  let ?act = "ChangeAction old new"
  let ?res = "\<lparr>ar_action = ?act, ar_snapshot = [], ar_revision = Revision old, ar_warning = []\<rparr>"
  have S: "?A (r, Some e) d" "?C d" if "d = d0" for r e d using that cl answered_old resting_old by blast+
  have no: "hoare q (\<lambda>d. d = d0) (return (r, Some e)) ?A (\<lambda>e d. False) ?C" for r e
    by (rule hoare_pre [OF hoare_return]) (use S in blast)
  have np: "hoare q (\<lambda>d. d = d0) noPending (\<lambda>_ d. d = d0) (\<lambda>e d. d = d0) ?C"
    by (rule hoare_ro) (use S in \<open>auto intro: ro_rules\<close>)
  have va: "hoare q (\<lambda>d. d = d0) (lift_res (ValidateImage X new)) (\<lambda>_ d. ValidateImage X new = Inr () \<and> d = d0) (\<lambda>e d. d = d0) ?C"
    by (rule hoare_conseq [OF hoare_lift_res [where E = "\<lambda>e d. d = d0" and P = "\<lambda>d. d = d0"]]) auto
  have go: "hoare q (\<lambda>d. ValidateImage X new = Inr () \<and> d = d0)
      (if ?act = NoAction then accept_unchanged new ?res
        else case Some c of
          None \<Rightarrow> return (?res, Some (Msg ''runtime controller required''))
        | Some c \<Rightarrow>
            if cancelled then return (?res, Some (Msg ''context canceled''))
            else journalled expected old new c ?res reason) ?A (\<lambda>e d. False) ?C"
  proof (rule hoare_imp)
    assume v: "ValidateImage X new = Inr ()"
    show "hoare q (\<lambda>d. d = d0)
      (if ?act = NoAction then accept_unchanged new ?res
        else case Some c of
          None \<Rightarrow> return (?res, Some (Msg ''runtime controller required''))
        | Some c \<Rightarrow>
            if cancelled then return (?res, Some (Msg ''context canceled''))
            else journalled expected old new c ?res reason) ?A (\<lambda>e d. False) ?C"
    proof (rule hoare_if)
      assume "?act = NoAction"
      then have "old = new" by (simp add: change_action_cases split: if_splits)
      then show "hoare q (\<lambda>d. d = d0) (accept_unchanged new ?res) ?A (\<lambda>e d. False) ?C"
        using hoare_accept_unchanged [of new b d0] cl old by (simp add: storable_def)
    next
      have "hoare q (\<lambda>d. d = d0) (journalled expected old new c ?res reason) ?A (\<lambda>e d. False) ?C"
        by (rule hoare_journalled [OF cl]) (use old new [OF v] in \<open>simp_all add: storable_def\<close>)
      then show "hoare q (\<lambda>d. d = d0) (case Some c of
          None \<Rightarrow> return (?res, Some (Msg ''runtime controller required''))
        | Some c \<Rightarrow>
            if cancelled then return (?res, Some (Msg ''context canceled''))
            else journalled expected old new c ?res reason) ?A (\<lambda>e d. False) ?C"
        using no by simp
    qed
  qed
  have rest: "hoare q (\<lambda>d. d = d0) (or_return ?res noPending (\<lambda>_.
        or_return ?res (lift_res (ValidateImage X new)) (\<lambda>_.
        if ?act = NoAction then accept_unchanged new ?res
        else case Some c of
          None \<Rightarrow> return (?res, Some (Msg ''runtime controller required''))
        | Some c \<Rightarrow>
            if cancelled then return (?res, Some (Msg ''context canceled''))
            else journalled expected old new c ?res reason))) ?A (\<lambda>e d. False) ?C"
    by (rule hoare_or_return [OF np hoare_or_return [OF va go]]) (use S in blast)+
  show ?thesis
    unfolding apply_tx_def Let_def by (rule hoare_if [OF no rest])
qed

text \<open>Without a journal there is nothing to recover.\<close>

lemma hoare_recover_idle:
  assumes "\<And>d. P d \<Longrightarrow> top_ok d \<and> top_file d pending_path = None"
  shows "hoare q P (Recover (Some c)) (\<lambda>_. P) (\<lambda>e d. \<not> q \<and> P d) P"
proof -
  let ?m = "\<lambda>e d. (errors_is e ErrNotExist \<or> \<not> q) \<and> P d"
  have "pure (readNode Top pending_path) d = Failed ErrNotExist" if "P d" for d
    using pure_top_none(1) assms [OF that] doc_paths(6) by blast
  then have rd: "hoare q P (readNode Top pending_path) (\<lambda>_ d. False) ?m P"
    by (intro hoare_ro) (auto intro: ro_rules)
  show ?thesis
    unfolding Recover_def recover_def
  proof (rule hoare_or_missing [OF rd hoare_false])
    show "hoare q (?m e) (return ()) (\<lambda>_. P) (\<lambda>e d. \<not> q \<and> P d) P" for e
      by (rule hoare_pre [OF hoare_return]) auto
  qed auto
qed

lemma hoare_Recover:
  assumes ok: "new_ok old" and r: "resting old new d0"
  shows "hoare q (\<lambda>d. d = d0) (Recover (Some c)) (\<lambda>_ d. (\<exists>b. clean old b d) \<or> committed new d)
    (\<lambda>e d. (q \<longrightarrow> oversized d0 \<and> journal d0 \<and> \<not> fits_both old new \<and> d = d0) \<and> resting old new d)
    (resting old new)"
proof -
  let ?Q = "\<lambda>d. (\<exists>b. clean old b d) \<or> committed new d"
  let ?E = "\<lambda>(e :: error) d. (q \<longrightarrow> oversized d0 \<and> journal d0 \<and> \<not> fits_both old new \<and> d = d0) \<and> resting old new d"
  consider s b where "tx old new s b d0" | b where "clean old b d0" | "committed new d0"
    using r unfolding resting_def by blast
  then show ?thesis
  proof cases
    case 1
    show ?thesis
      unfolding Recover_def
      by (rule hoare_conseq [OF hoare_recover_tx [OF 1 ok]])
        (use 1 tx_oversized [OF 1] tx_journal [OF 1] in \<open>auto simp: resting_def\<close>)
  next
    case 2
    show ?thesis
      by (rule hoare_conseq [OF hoare_recover_idle [of "clean old b"]])
        (use 2 in \<open>auto simp: resting_def clean_def settled_def\<close>)
  next
    case 3
    show ?thesis
      by (rule hoare_conseq [OF hoare_recover_idle [of "committed new"]])
        (use 3 in \<open>auto simp: resting_def committed_def clean_def settled_def\<close>)
  qed
qed

end

section \<open>The image that a request asks for\<close>

definition changed_file :: "int \<Rightarrow> int \<Rightarrow> image \<Rightarrow> string \<Rightarrow> string \<Rightarrow> cfile" where
  "changed_file eu eg old p data =
     (case fmlookup old p of
        None \<Rightarrow> \<lparr>f_data = data, f_mode = 420, f_uid = eu, f_gid = eg\<rparr>
      | Some f \<Rightarrow> f\<lparr>f_data := data\<rparr>)"

lemma change_image_lookup:
  "change_image eu eg old changes ps im = Inr new \<Longrightarrow>
     (\<forall>p\<in>set ps. validPath p) \<and>
     fmlookup new p = (if p \<in> set ps then map_option (changed_file eu eg old p) (fm_get None changes p)
       else fmlookup im p)"
proof (induction ps arbitrary: im)
  case (Cons q ps)
  have v: "validPath q" using Cons.prems by (auto split: if_splits)
  show ?case
  proof (cases "fm_get None changes q")
    case None
    then have "change_image eu eg old changes ps (fmdrop q im) = Inr new" using Cons.prems v by simp
    then show ?thesis using Cons.IH v None by auto
  next
    case (Some data)
    then have "change_image eu eg old changes ps (fmupd q (changed_file eu eg old q data) im) = Inr new"
      using Cons.prems v by (cases "fmlookup old q") (simp_all add: changed_file_def)
    then show ?thesis using Cons.IH v Some by auto
  qed
qed simp

lemma change_image_total:
  "(\<forall>p\<in>set ps. validPath p) \<Longrightarrow> \<exists>new. change_image eu eg old changes ps im = Inr new"
proof (induction ps arbitrary: im)
  case (Cons q ps)
  then show ?case by (cases "fm_get None changes q") (auto simp: Let_def)
qed simp

definition changes_ok :: "(string, string option) fmap \<Rightarrow> bool" where
  "changes_ok changes \<longleftrightarrow> (\<forall>p\<in>set (sorted_keys changes). path_clean p = p \<and> utf8_valid p)"

lemma change_image_storable:
  assumes ch: "change_image eu eg old changes (sorted_keys changes) old = Inr new"
    and old: "new_ok old" "loadable old" and c: "changes_ok changes" and v: "ValidateImage X new = Inr ()"
  shows "new_ok new \<and> loadable new"
proof -
  have one: "managed_path p \<and> path_clean p = p \<and> utf8_valid p \<and> f_mode f AND 511 = f_mode f \<and>
      f_mode f AND NOT 511 = 0 \<and> length (f_data f) \<le> MaxFileSize" if f: "fmlookup new p = Some f" for p f
  proof -
    have io: "image_ok X new" using v validate_image_ok [of X new] by simp
    then have len: "length (f_data f) \<le> MaxFileSize" and vp: "validPath p" using f by (auto simp: image_ok_def)
    note look = change_image_lookup [OF ch, of p]
    show ?thesis
    proof (cases "p \<in> set (sorted_keys changes)")
      case True
      then obtain data where "f = changed_file eu eg old p data"
        using look f by (cases "fm_get None changes p") auto
      then have m: "f_mode f = 420 \<or> (\<exists>g. fmlookup old p = Some g \<and> f_mode f = f_mode g)"
        by (auto simp: changed_file_def split: option.splits)
      have k: "(420 :: 32 word) AND 511 = 420" "(420 :: 32 word) AND NOT 511 = 0" by simp_all
      have "f_mode f AND 511 = f_mode f \<and> f_mode f AND NOT 511 = 0"
        using m old k by (auto simp: new_ok_def loadable_def)
      moreover have "path_clean p = p" "utf8_valid p" using True c by (auto simp: changes_ok_def)
      moreover have "managed_path p" using validPath_clean [of p] vp \<open>path_clean p = p\<close> by auto
      ultimately show ?thesis using len by blast
    next
      case False
      then have "fmlookup old p = Some f" using look f by simp
      then show ?thesis using old len by (auto simp: new_ok_def loadable_def canonical_def fmlookup_dom_iff)
    qed
  qed
  have io: "image_ok X new" using v validate_image_ok [of X new] by simp
  have "canonical new" using one by (auto simp: canonical_def fmlookup_dom_iff)
  moreover have "image_size new \<le> MaxTotalSize" using io by (simp add: image_ok_def)
  ultimately show ?thesis using one unfolding new_ok_def loadable_def by blast
qed

end
