(* ===== verification/Systemd.thy ===== *)
theory Systemd
  imports CommitLaws
begin

text \<open>
  \<open>internal/systemd/manager.go\<close>, the status probe of \<open>internal/avahi/client.go\<close> and the
  controller of \<open>cmd/avahi-manager/helper.go\<close>: the jobs sent to systemd, their results, and the
  wait for a healthy daemon. The controllers interpret the contract that the configuration
  store relies on.
\<close>

section \<open>Calls\<close>

definition ask :: "bus_call \<Rightarrow> reply io" where
  "ask c = (\<lambda>w. let b = w_bus w in
     (Done (b_answer b (b_calls b) c), w\<lparr>w_bus := b\<lparr>b_calls := c # b_calls b\<rparr>\<rparr>))"

definition ServiceUnit :: string where
  "ServiceUnit = ''avahi-daemon.service''"

definition SocketUnit :: string where
  "SocketUnit = ''avahi-daemon.socket''"

definition ctx_err :: error where
  "ctx_err = Msg ''context canceled''"

record unit_info =
  un_name :: string
  un_load :: string
  un_active :: string
  un_sub :: string
  un_file :: string
  un_error :: string

definition string_prop :: "(string, string) fmap \<Rightarrow> string \<Rightarrow> string" where
  "string_prop p k = (case fmlookup p k of Some v \<Rightarrow> v | None \<Rightarrow> [])"

definition unit_state :: "string \<Rightarrow> unit_info io" where
  "unit_state name = bind_io (ask (UnitProps name)) (\<lambda>r.
     let u = \<lparr>un_name = name, un_load = [], un_active = [], un_sub = [], un_file = [], un_error = []\<rparr> in
     return (case r of
         ReplyProps p \<Rightarrow> u\<lparr>un_load := string_prop p ''LoadState'', un_active := string_prop p ''ActiveState'',
           un_sub := string_prop p ''SubState'', un_file := string_prop p ''UnitFileState''\<rparr>
       | ReplyError e \<Rightarrow> u\<lparr>un_error := e\<rparr>
       | _ \<Rightarrow> u\<lparr>un_error := ''unexpected reply''\<rparr>))"

record systemd_status =
  st_available :: bool
  st_service :: unit_info
  st_socket :: unit_info
  st_error :: string

definition Status :: "systemd_status io" where
  "Status = bind_io (unit_state ServiceUnit) (\<lambda>a. bind_io (unit_state SocketUnit) (\<lambda>b.
     return \<lparr>st_available = True, st_service = a, st_socket = b, st_error = []\<rparr>))"

text \<open>A job whose result has not arrived when the context ends is answered by no \<open>ReplyJob\<close>.\<close>

definition job :: "string \<Rightarrow> string \<Rightarrow> unit io" where
  "job act u =
     (if act \<in> {''start'', ''stop'', ''restart'', ''reload''} then
        bind_io (ask (UnitJob act u)) (\<lambda>r. case r of
            ReplyError e \<Rightarrow> fail (Wrap (act @ '' '' @ u) (Msg e))
          | ReplyJob s \<Rightarrow> if s \<noteq> ''done'' then fail (Msg (act @ '' '' @ u @ '' job: '' @ s)) else return ()
          | _ \<Rightarrow> fail ctx_err)
      else fail (Msg ''unsupported systemd action''))"

definition ok_reply :: "reply \<Rightarrow> unit io" where
  "ok_reply r = (case r of ReplyOk \<Rightarrow> return () | ReplyError e \<Rightarrow> fail (Msg e) | _ \<Rightarrow> fail ctx_err)"

definition stop_both :: "unit io" where
  "stop_both =
     bind_io (try_io (job ''stop'' ServiceUnit)) (\<lambda>a.
     bind_io (try_io (job ''stop'' SocketUnit)) (\<lambda>b.
       case (a, b) of
         (Inr _, Inr _) \<Rightarrow> bind_io (unit_state ServiceUnit) (\<lambda>u.
           if un_active u = ''active'' then job ''stop'' ServiceUnit else return ())
       | (Inl e, Inr _) \<Rightarrow> fail e
       | (Inr _, Inl e) \<Rightarrow> fail e
       | (Inl e, Inl f) \<Rightarrow> fail (Join e f)))"

definition Control :: "string \<Rightarrow> unit io" where
  "Control act =
     (if act = ''start'' then then_io (job ''start'' SocketUnit) (job ''start'' ServiceUnit)
      else if act = ''stop'' then stop_both
      else if act = ''restart'' \<or> act = ''reload'' then job act ServiceUnit
      else if act = ''enable'' then
        then_io (bind_io (ask (EnableUnits [ServiceUnit, SocketUnit])) ok_reply)
          (bind_io (ask ReloadManager) ok_reply)
      else if act = ''disable'' then
        then_io (bind_io (ask (DisableUnits [ServiceUnit, SocketUnit])) ok_reply)
          (bind_io (ask ReloadManager) ok_reply)
      else fail (Msg ''unsupported action''))"

section \<open>The status of Avahi\<close>

record avahi_state =
  av_available :: bool
  av_state :: int
  av_version :: string
  av_hostname :: string
  av_domain :: string
  av_error :: string

text \<open>Storing a reply: a value of the wrong type is an error.\<close>

definition store_reply :: "string \<Rightarrow> reply \<Rightarrow> avahi_state \<Rightarrow> avahi_state result" where
  "store_reply m r s =
     (if m = ''GetState'' then (case r of ReplyInt i \<Rightarrow> Inr (s\<lparr>av_state := i\<rparr>)
        | ReplyError e \<Rightarrow> Inl (Msg e) | _ \<Rightarrow> Inl (Msg ''type mismatch''))
      else (case r of
          ReplyText t \<Rightarrow> Inr (if m = ''GetVersionString'' then s\<lparr>av_version := t\<rparr>
            else if m = ''GetHostNameFqdn'' then s\<lparr>av_hostname := t\<rparr> else s\<lparr>av_domain := t\<rparr>)
        | ReplyError e \<Rightarrow> Inl (Msg e) | _ \<Rightarrow> Inl (Msg ''type mismatch'')))"

fun error_text :: "error \<Rightarrow> string" where
  "error_text (Msg s) = s"
| "error_text (Wrap s e) = s @ '': '' @ error_text e"
| "error_text (Join e f) = error_text e @ [nl] @ error_text f"
| "error_text ErrNotExist = ''file does not exist''"
| "error_text ErrConflict = ''configuration changed on disk; reload before saving''"
| "error_text Fault = ''input/output error''"

fun probe :: "string list \<Rightarrow> avahi_state \<Rightarrow> (avahi_state \<times> error option) io" where
  "probe [] s = return (s\<lparr>av_available := True\<rparr>, None)"
| "probe (m # ms) s = bind_io (ask (AvahiCall m)) (\<lambda>r.
     case store_reply m r s of
       Inl e \<Rightarrow> return (s\<lparr>av_error := error_text e\<rparr>, Some e)
     | Inr s \<Rightarrow> probe ms s)"

definition avahi_status :: "(avahi_state \<times> error option) io" where
  "avahi_status = probe [''GetState'', ''GetVersionString'', ''GetHostNameFqdn'', ''GetDomainName'']
     \<lparr>av_available = False, av_state = -1, av_version = [], av_hostname = [], av_domain = [], av_error = []\<rparr>"

section \<open>The controllers\<close>

definition action_name :: "action \<Rightarrow> string" where
  "action_name a = (case a of NoAction \<Rightarrow> ''none'' | Reload \<Rightarrow> ''reload'' | Restart \<Rightarrow> ''restart'')"

definition Controller_Apply :: "action \<Rightarrow> unit io" where
  "Controller_Apply a = (if a = NoAction then return () else Control (action_name a))"

text \<open>The limit of the context and the period of the ticker, in milliseconds.\<close>

definition healthy_timeout :: nat where
  "healthy_timeout = 10000"

definition tick_period :: nat where
  "tick_period = 200"

definition unhealthy :: "unit_info \<Rightarrow> avahi_state \<Rightarrow> error option \<Rightarrow> error" where
  "unhealthy u s err = Msg (''service='' @ un_active u @ '', Avahi state='' @ int_dec (av_state s) @ '': '' @
     (case err of None \<Rightarrow> ''<nil>'' | Some e \<Rightarrow> error_text e))"

text \<open>
  \<open>t\<close> is the time of the latest tick, and the next one comes \<open>tick_period\<close> later, or later still when the
  process is slow. A context that ends before the next tick is what the \<open>select\<close> sees; otherwise the
  environment chooses: a tick, or an error of the context, which its caller may end at any time and
  which also stands for a round that took longer than what was left. The code has no counter: it stops because the
  ticks pass and the deadline does not move.
\<close>

function healthy_loop :: "nat \<Rightarrow> nat \<Rightarrow> unit io" where
  "healthy_loop deadline t =
     bind_io (unit_state ServiceUnit) (\<lambda>u.
     bind_io avahi_status (\<lambda>(s, err).
       if un_active u = ''active'' \<and> err = None \<and> av_state s = 2 then return ()
       else
         let last = unhealthy u s err in
         if deadline < t + tick_period then fail (Join ctx_err last)
         else bind_io (ask Select) (\<lambda>r. case r of
               ReplyError e \<Rightarrow> fail (Join (Msg e) last)
             | _ \<Rightarrow> healthy_loop deadline (t + tick_period))))"
  by pat_completeness auto
termination
  by (relation "measure (\<lambda>(deadline, t). deadline - t)") (auto simp: tick_period_def)

definition Healthy :: "unit io" where
  "Healthy = healthy_loop healthy_timeout 0"

definition systemd_controller :: controller where
  "systemd_controller = \<lparr>c_apply = Controller_Apply, c_healthy = Healthy\<rparr>"

declare probe.simps(2) [simp del] healthy_loop.simps [simp del]

text \<open>The helper connects for every call.\<close>

definition helper_Control :: "string \<Rightarrow> unit io" where
  "helper_Control act = then_io (bind_io (ask ConnectSystemd) ok_reply) (Control act)"

definition helper_Apply :: "action \<Rightarrow> unit io" where
  "helper_Apply a = (if a = NoAction then return () else helper_Control (action_name a))"

definition helper_Healthy :: "unit io" where
  "helper_Healthy =
     then_io (bind_io (ask ConnectSystemd) ok_reply)
     (then_io (bind_io (ask ConnectAvahi) ok_reply) Healthy)"

definition helper_controller :: controller where
  "helper_controller = \<lparr>c_apply = helper_Apply, c_healthy = helper_Healthy\<rparr>"

section \<open>Computations on the bus\<close>

text \<open>What a computation on the bus gives when every call is answered well.\<close>

definition yields :: "'a io \<Rightarrow> ('a \<Rightarrow> bool) \<Rightarrow> bool" where
  "yields m Q \<longleftrightarrow> (\<forall>w. obliging (w_bus w) \<longrightarrow> (\<exists>x. fst (m w) = Done x \<and> Q x))"

named_theorems bus_rules

lemma works_yields: "works m = yields m (\<lambda>_. True)"
  by (simp add: works_def yields_def)

lemma on_bus_const: "(\<And>w. m w = (r, w)) \<Longrightarrow> r \<noteq> Crashed \<Longrightarrow> on_bus m"
proof -
  assume m: "\<And>w. m w = (r, w)" "r \<noteq> Crashed"
  have "w = w\<lparr>w_bus := (w_bus w)\<lparr>b_calls := b_calls (w_bus w)\<rparr>\<rparr>" for w :: world by simp
  then show "on_bus m" using m unfolding on_bus_def by (metis fst_conv snd_conv)
qed

lemma on_bus_return [bus_rules]: "on_bus (return x)"
  by (rule on_bus_const [of _ "Done x"]) (simp_all add: return_def)

lemma on_bus_fail [bus_rules]: "on_bus (fail e)"
  by (rule on_bus_const [of _ "Failed e"]) (simp_all add: fail_def)

lemma on_bus_ask [bus_rules]: "on_bus (ask c)"
  unfolding on_bus_def ask_def Let_def by auto

lemma on_bus_bind [bus_rules]:
  assumes "on_bus m" "\<And>x. on_bus (k x)"
  shows "on_bus (bind_io m k)"
  unfolding on_bus_def
proof
  fix w
  obtain cs where m: "fst (m w) \<noteq> Crashed" "snd (m w) = w\<lparr>w_bus := (w_bus w)\<lparr>b_calls := cs\<rparr>\<rparr>"
    using assms(1) unfolding on_bus_def by blast
  let ?w = "w\<lparr>w_bus := (w_bus w)\<lparr>b_calls := cs\<rparr>\<rparr>"
  have k: "fst (k x ?w) \<noteq> Crashed \<and> (\<exists>ds. snd (k x ?w) = w\<lparr>w_bus := (w_bus w)\<lparr>b_calls := ds\<rparr>\<rparr>)" for x
  proof -
    obtain ds where "fst (k x ?w) \<noteq> Crashed" "snd (k x ?w) = ?w\<lparr>w_bus := (w_bus ?w)\<lparr>b_calls := ds\<rparr>\<rparr>"
      using assms(2) unfolding on_bus_def by blast
    then show ?thesis by auto
  qed
  show "fst (bind_io m k w) \<noteq> Crashed \<and> (\<exists>cs. snd (bind_io m k w) = w\<lparr>w_bus := (w_bus w)\<lparr>b_calls := cs\<rparr>\<rparr>)"
  proof (cases "fst (m w)")
    case (Done x)
    then have "m w = (Done x, ?w)" using m by (simp add: prod_eq_iff)
    then have "bind_io m k w = k x ?w" by (simp add: bind_io_def)
    then show ?thesis using k [of x] by simp
  next
    case (Failed e)
    then have "m w = (Failed e, ?w)" using m by (simp add: prod_eq_iff)
    then have "bind_io m k w = (Failed e, ?w)" by (simp add: bind_io_def)
    then show ?thesis by auto
  qed (use m in simp)
qed

lemma on_bus_then [bus_rules]: "on_bus m \<Longrightarrow> on_bus k \<Longrightarrow> on_bus (then_io m k)"
  by (simp add: then_io_def on_bus_bind)

lemma on_bus_try [bus_rules]:
  assumes "on_bus m"
  shows "on_bus (try_io m)"
  unfolding on_bus_def
proof
  fix w
  show "fst (try_io m w) \<noteq> Crashed \<and> (\<exists>cs. snd (try_io m w) = w\<lparr>w_bus := (w_bus w)\<lparr>b_calls := cs\<rparr>\<rparr>)"
    using assms [unfolded on_bus_def, rule_format, of w]
    by (cases "m w"; cases "fst (m w)") (auto simp: try_io_def)
qed

lemma yields_return: "Q x \<Longrightarrow> yields (return x) Q"
  by (simp add: yields_def return_def)

lemma yields_ask: "yields (ask c) (good_reply c)"
  by (simp add: yields_def ask_def Let_def obliging_def)

lemma yields_bind:
  assumes "yields m Q" "on_bus m" "\<And>x. Q x \<Longrightarrow> yields (k x) R"
  shows "yields (bind_io m k) R"
  unfolding yields_def
proof (intro allI impI)
  fix w :: world assume ob: "obliging (w_bus w)"
  obtain x where x: "fst (m w) = Done x" "Q x" using assms(1) ob unfolding yields_def by blast
  obtain cs where cs: "snd (m w) = w\<lparr>w_bus := (w_bus w)\<lparr>b_calls := cs\<rparr>\<rparr>"
    using assms(2) unfolding on_bus_def by blast
  have "obliging (w_bus (snd (m w)))" using ob by (simp add: cs obliging_def)
  then obtain y where "fst (k x (snd (m w))) = Done y" "R y" using assms(3) [OF x(2)] unfolding yields_def by blast
  then show "\<exists>x. fst (bind_io m k w) = Done x \<and> R x"
    using x by (cases "m w") (simp add: bind_io_def)
qed

lemma yields_then: "yields m Q \<Longrightarrow> on_bus m \<Longrightarrow> yields k R \<Longrightarrow> yields (then_io m k) R"
  unfolding then_io_def by (rule yields_bind)

lemma yields_true: "yields m Q \<Longrightarrow> yields m (\<lambda>_. True)"
  unfolding yields_def by blast

lemma on_bus_calls [bus_rules]:
  "on_bus (unit_state u)" "on_bus (ok_reply r)" "on_bus (job a u)" "on_bus stop_both" "on_bus (Control act)"
proof -
  show u: "on_bus (unit_state u)" for u by (simp add: unit_state_def Let_def bus_rules)
  show r: "on_bus (ok_reply r)" for r by (simp add: ok_reply_def bus_rules split: reply.split)
  show j: "on_bus (job a u)" for a u
    unfolding job_def by (auto intro!: bus_rules split: reply.split)
  show s: "on_bus stop_both"
    unfolding stop_both_def
    by (intro bus_rules j) (auto intro!: bus_rules u j split: sum.split)
  show "on_bus (Control act)" by (simp add: Control_def bus_rules r j s)
qed

lemma on_bus_probe [bus_rules]: "on_bus (probe ms s)"
  by (induction ms arbitrary: s) (auto intro!: bus_rules split: sum.split simp: probe.simps(2))

lemma on_bus_avahi [bus_rules]: "on_bus avahi_status"
  by (simp add: avahi_status_def bus_rules)

lemma on_bus_healthy [bus_rules]: "on_bus (healthy_loop deadline t)"
proof (induction deadline t rule: healthy_loop.induct)
  case (1 deadline t)
  show ?case
    unfolding healthy_loop.simps [of deadline t] Let_def
    by (auto intro!: bus_rules 1 split: prod.split reply.split)
qed

lemma yields_job: "a \<in> {''start'', ''stop'', ''restart'', ''reload''} \<Longrightarrow> yields (job a u) (\<lambda>_. True)"
  unfolding job_def by (auto intro!: yields_bind [OF yields_ask on_bus_ask] yields_return)

lemma yields_ok: "good_reply c = (\<lambda>r. r = ReplyOk) \<Longrightarrow> yields (bind_io (ask c) ok_reply) (\<lambda>_. True)"
  by (rule yields_bind [OF yields_ask on_bus_ask]) (auto simp: ok_reply_def intro: yields_return)

lemma yields_Control: "act = ''restart'' \<or> act = ''reload'' \<Longrightarrow> yields (Control act) (\<lambda>_. True)"
  using yields_job by (auto simp: Control_def)

lemma yields_unit: "yields (unit_state u) (\<lambda>x. un_active x = ''active'')"
  unfolding unit_state_def Let_def
  by (rule yields_bind [OF yields_ask on_bus_ask])
    (auto intro!: yields_return simp: string_prop_def split: reply.splits option.splits)

lemma yields_probe:
  assumes "av_state s = 2" "''GetState'' \<notin> set ms"
  shows "yields (probe ms s) (\<lambda>(t, err). err = None \<and> av_state t = 2)"
  using assms
proof (induction ms arbitrary: s)
  case (Cons m ms)
  have "yields (case store_reply m r s of Inl e \<Rightarrow> return (s\<lparr>av_error := error_text e\<rparr>, Some e) | Inr s \<Rightarrow> probe ms s)
      (\<lambda>(t, err). err = None \<and> av_state t = 2)" if "good_reply (AvahiCall m) r" for r
    using Cons that by (auto simp: store_reply_def split: reply.splits)
  then show ?case
    unfolding probe.simps by (rule yields_bind [OF yields_ask on_bus_ask])
qed (simp add: yields_return)

lemma yields_avahi: "yields avahi_status (\<lambda>(t, err). err = None \<and> av_state t = 2)"
  unfolding avahi_status_def
  by (subst probe.simps, rule yields_bind [OF yields_ask on_bus_ask])
    (simp add: store_reply_def yields_probe)

lemma yields_healthy: "yields (healthy_loop deadline t) (\<lambda>_. True)"
  by (subst healthy_loop.simps, rule yields_bind [OF yields_unit on_bus_calls(1)],
      rule yields_bind [OF yields_avahi on_bus_avahi]) (auto intro: yields_return)

interpretation systemd: runtime systemd_controller
proof unfold_locales
  show "on_bus (c_apply systemd_controller a)" for a
    by (simp add: systemd_controller_def Controller_Apply_def bus_rules)
  show "on_bus (c_healthy systemd_controller)"
    by (simp add: systemd_controller_def Healthy_def bus_rules)
  show "works (c_apply systemd_controller a)" for a
    using yields_Control
    by (cases a) (simp_all add: works_yields systemd_controller_def Controller_Apply_def action_name_def yields_return)
  show "works (c_healthy systemd_controller)"
    by (simp add: works_yields systemd_controller_def Healthy_def yields_healthy)
qed

interpretation helper: runtime helper_controller
proof unfold_locales
  have cn: "yields (bind_io (ask ConnectSystemd) ok_reply) (\<lambda>_. True)"
      "yields (bind_io (ask ConnectAvahi) ok_reply) (\<lambda>_. True)"
    by (rule yields_ok; simp add: fun_eq_iff)+
  have ob: "on_bus (bind_io (ask x) ok_reply)" for x by (intro bus_rules)
  show "on_bus (c_apply helper_controller a)" for a
    by (simp add: helper_controller_def helper_Apply_def helper_Control_def bus_rules)
  show "on_bus (c_healthy helper_controller)"
    by (simp add: helper_controller_def helper_Healthy_def Healthy_def bus_rules)
  have "yields (helper_Control act) (\<lambda>_. True)" if "act = ''restart'' \<or> act = ''reload''" for act
    unfolding helper_Control_def by (rule yields_then [OF cn(1) ob yields_Control [OF that]])
  then show "works (c_apply helper_controller a)" for a
    by (cases a) (simp_all add: works_yields helper_controller_def helper_Apply_def action_name_def yields_return)
  show "works (c_healthy helper_controller)"
    unfolding works_yields helper_controller_def helper_Healthy_def Healthy_def
    by simp (rule yields_then [OF cn(1) ob yields_then [OF cn(2) ob yields_healthy]])
qed

section \<open>What the controllers do\<close>

definition answer :: "world \<Rightarrow> bus_call list \<Rightarrow> bus_call \<Rightarrow> reply" where
  "answer w cs c = b_answer (w_bus w) cs c"

definition calls :: "world \<Rightarrow> bus_call list" where
  "calls w = b_calls (w_bus w)"

text \<open>The world after the calls \<open>cs\<close>, most recent first.\<close>

definition after_calls :: "bus_call list \<Rightarrow> world \<Rightarrow> world" where
  "after_calls cs w = w\<lparr>w_bus := (w_bus w)\<lparr>b_calls := cs @ calls w\<rparr>\<rparr>"

lemma after_calls_simps [simp]:
  "after_calls [] w = w" "after_calls cs (after_calls ds w) = after_calls (cs @ ds) w"
  "calls (after_calls cs w) = cs @ calls w" "answer (after_calls cs w) = answer w"
  by (simp_all add: after_calls_def calls_def answer_def fun_eq_iff)

lemma run_ask: "ask c w = (Done (answer w (calls w) c), after_calls [c] w)"
  by (simp add: ask_def answer_def calls_def after_calls_def Let_def)

lemma run_bind_ask: "bind_io (ask c) k w = k (answer w (calls w) c) (after_calls [c] w)"
  by (simp add: bind_io_def run_ask)

text \<open>The result of a job, from systemd's answer.\<close>

definition job_result :: "string \<Rightarrow> string \<Rightarrow> reply \<Rightarrow> unit result" where
  "job_result act u r =
     (case r of
        ReplyError e \<Rightarrow> Inl (Wrap (act @ '' '' @ u) (Msg e))
      | ReplyJob s \<Rightarrow> if s = ''done'' then Inr () else Inl (Msg (act @ '' '' @ u @ '' job: '' @ s))
      | _ \<Rightarrow> Inl ctx_err)"

definition outcome_of :: "'a result \<Rightarrow> 'a outcome" where
  "outcome_of r = (case r of Inl e \<Rightarrow> Failed e | Inr x \<Rightarrow> Done x)"

lemma job_result_ok: "job_result act u r = Inr () \<longleftrightarrow> r = ReplyJob ''done''"
  by (simp add: job_result_def split: reply.split)

lemma job_result_done [simp]: "job_result act u (ReplyJob ''done'') = Inr ()"
  by (simp add: job_result_def)

lemma run_job:
  assumes "act \<in> {''start'', ''stop'', ''restart'', ''reload''}"
  shows "job act u w = (outcome_of (job_result act u (answer w (calls w) (UnitJob act u))), after_calls [UnitJob act u] w)"
  using assms
  by (cases "answer w (calls w) (UnitJob act u)")
    (auto simp: job_def run_bind_ask job_result_def outcome_of_def return_def fail_def)

lemma run_try: "m w = (outcome_of r, w') \<Longrightarrow> try_io m w = (Done r, w')"
  by (cases r) (simp_all add: try_io_def outcome_of_def)

lemma run_bind_done: "m w = (Done x, w') \<Longrightarrow> bind_io m k w = k x w'"
  by (simp add: bind_io_def)

lemma run_then: "m w = (outcome_of r, w') \<Longrightarrow>
    then_io m k w = (case r of Inl e \<Rightarrow> (Failed e, w') | Inr _ \<Rightarrow> k w')"
  by (cases r) (simp_all add: then_io_def bind_io_def outcome_of_def)

text \<open>Starting acts on the socket first and on the service only when the socket's job is
  done; it succeeds exactly when both jobs are.\<close>

theorem control_start_order:
  "Control ''start'' w =
     (let a = answer w (calls w) (UnitJob ''start'' SocketUnit);
          b = answer w (UnitJob ''start'' SocketUnit # calls w) (UnitJob ''start'' ServiceUnit)
      in if a = ReplyJob ''done''
         then (outcome_of (job_result ''start'' ServiceUnit b),
               after_calls [UnitJob ''start'' ServiceUnit, UnitJob ''start'' SocketUnit] w)
         else (outcome_of (job_result ''start'' SocketUnit a), after_calls [UnitJob ''start'' SocketUnit] w))"
proof -
  let ?a = "answer w (calls w) (UnitJob ''start'' SocketUnit)"
  show ?thesis
  proof (cases "?a = ReplyJob ''done''")
    case True
    then show ?thesis
      by (simp add: Control_def run_then [OF run_job] run_job job_result_ok Let_def)
  next
    case False
    then obtain e where "job_result ''start'' SocketUnit ?a = Inl e"
      using job_result_ok [of "''start''" SocketUnit ?a] by (cases "job_result ''start'' SocketUnit ?a") auto
    then show ?thesis using False
      by (simp add: Control_def run_then [OF run_job] outcome_of_def Let_def)
  qed
qed

text \<open>Stopping issues the stop job of the service and then, whatever became of it, that of
  the socket; a success means that both were done, and that a service found active again by
  socket activation was stopped once more.\<close>

theorem control_stop_both:
  "\<exists>cs. snd (Control ''stop'' w) =
       after_calls (cs @ [UnitJob ''stop'' SocketUnit, UnitJob ''stop'' ServiceUnit]) w \<and>
     (fst (Control ''stop'' w) = Done () \<longrightarrow>
        answer w (calls w) (UnitJob ''stop'' ServiceUnit) = ReplyJob ''done'' \<and>
        answer w (UnitJob ''stop'' ServiceUnit # calls w) (UnitJob ''stop'' SocketUnit) = ReplyJob ''done'' \<and>
        (cs = [UnitProps ServiceUnit] \<or>
         cs = [UnitJob ''stop'' ServiceUnit, UnitProps ServiceUnit] \<and>
         answer w (UnitProps ServiceUnit # UnitJob ''stop'' SocketUnit # UnitJob ''stop'' ServiceUnit # calls w)
           (UnitJob ''stop'' ServiceUnit) = ReplyJob ''done''))"
proof -
  let ?w = "after_calls [UnitJob ''stop'' SocketUnit, UnitJob ''stop'' ServiceUnit] w"
  define a where "a = job_result ''stop'' ServiceUnit (answer w (calls w) (UnitJob ''stop'' ServiceUnit))"
  define b where "b = job_result ''stop'' SocketUnit
    (answer w (UnitJob ''stop'' ServiceUnit # calls w) (UnitJob ''stop'' SocketUnit))"
  let ?k = "\<lambda>a b. case (a, b) of
         (Inr _, Inr _) \<Rightarrow> bind_io (unit_state ServiceUnit) (\<lambda>u.
           if un_active u = ''active'' then job ''stop'' ServiceUnit else return ())
       | (Inl e, Inr _) \<Rightarrow> fail e
       | (Inr _, Inl e) \<Rightarrow> fail e
       | (Inl e, Inl f) \<Rightarrow> fail (Join e f)"
  have "try_io (job ''stop'' ServiceUnit) w = (Done a, after_calls [UnitJob ''stop'' ServiceUnit] w)"
    unfolding a_def by (rule run_try, rule run_job) simp
  moreover have "try_io (job ''stop'' SocketUnit) (after_calls [UnitJob ''stop'' ServiceUnit] w) = (Done b, ?w)"
    unfolding b_def by (rule run_try) (simp add: run_job)
  ultimately have run: "Control ''stop'' w = ?k a b ?w"
    by (simp add: Control_def stop_both_def run_bind_done)
  have ab: "a = Inr () \<longleftrightarrow> answer w (calls w) (UnitJob ''stop'' ServiceUnit) = ReplyJob ''done''"
      "b = Inr () \<longleftrightarrow> answer w (UnitJob ''stop'' ServiceUnit # calls w) (UnitJob ''stop'' SocketUnit) = ReplyJob ''done''"
    by (simp_all add: a_def b_def job_result_ok)
  show ?thesis
  proof (cases "a = Inr () \<and> b = Inr ()")
    case False
    then have "\<exists>e. ?k a b ?w = (Failed e, ?w)"
      by (cases a; cases b) (auto simp: fail_def)
    then show ?thesis unfolding run by (intro exI [of _ "[]"]) auto
  next
    case True
    define u where "u = (case answer ?w (calls ?w) (UnitProps ServiceUnit) of
        ReplyProps p \<Rightarrow> string_prop p ''ActiveState'' | _ \<Rightarrow> [])"
    have k: "?k a b ?w = (if u = ''active'' then job ''stop'' ServiceUnit (after_calls [UnitProps ServiceUnit] ?w)
        else (Done (), after_calls [UnitProps ServiceUnit] ?w))"
      using True by (simp add: u_def unit_state_def bind_io_def run_ask return_def Let_def split: reply.split)
    show ?thesis
    proof (cases "u = ''active''")
      case True
      have "job ''stop'' ServiceUnit (after_calls [UnitProps ServiceUnit] ?w) =
          (outcome_of (job_result ''stop'' ServiceUnit (answer w (UnitProps ServiceUnit # UnitJob ''stop'' SocketUnit # UnitJob ''stop'' ServiceUnit # calls w)
           (UnitJob ''stop'' ServiceUnit))), after_calls [UnitJob ''stop'' ServiceUnit, UnitProps ServiceUnit] ?w)"
        by (simp add: run_job)
      then show ?thesis
        unfolding run k using True \<open>a = Inr () \<and> b = Inr ()\<close> ab job_result_ok
        by (intro exI [of _ "[UnitJob ''stop'' ServiceUnit, UnitProps ServiceUnit]"])
          (auto simp: outcome_of_def split: sum.splits)
    next
      case False
      then show ?thesis
        unfolding run k using \<open>a = Inr () \<and> b = Inr ()\<close> ab
        by (intro exI [of _ "[UnitProps ServiceUnit]"]) auto
    qed
  qed
qed

definition sample_bus :: bus where
  "sample_bus = \<lparr>b_calls = [], b_answer = (\<lambda>_ c. case c of
     UnitJob a u \<Rightarrow> ReplyJob ''done''
   | UnitProps u \<Rightarrow> ReplyProps (fmap_of_list [(''ActiveState'', ''active'')])
   | AvahiCall m \<Rightarrow> if m = ''GetState'' then ReplyInt 2 else ReplyText ''x''
   | _ \<Rightarrow> ReplyOk)\<rparr>"

definition sample_disk :: disk where
  "sample_disk = \<lparr>d_conf = empty_tree, d_top = empty_tree, d_snaps = fmempty\<rparr>"

definition bus_world :: world where
  "bus_world = (still sample_disk)\<lparr>w_bus := sample_bus\<rparr>"

lemma bus_world_answers: "calls bus_world = []" "answer bus_world cs c = b_answer sample_bus [] c"
  by (simp_all add: bus_world_def calls_def answer_def sample_bus_def)

lemma control_stop_both_witness:
  "fst (Control ''stop'' bus_world) = Done () \<and>
   answer bus_world (calls bus_world) (UnitJob ''stop'' ServiceUnit) = ReplyJob ''done''"
proof -
  have "fst (Control ''stop'' bus_world) = Done ()"
    by (simp add: Control_def stop_both_def bind_io_def try_io_def run_job unit_state_def run_ask
        bus_world_answers sample_bus_def outcome_of_def Let_def return_def)
  then show ?thesis using control_stop_both [of bus_world] by blast
qed

section \<open>Waiting for health\<close>














end
