(* ===== verification/StoreProps.thy ===== *)
theory StoreProps
  imports Systemd
begin

text \<open>
  The properties of the configuration store over whole worlds, for the controller that the
  helper runs: conflicts, the outcome of a save, rollback and recovery, snapshots and
  retention, and the states that any sequence of operations with faults and deaths of the
  process can reach.
\<close>

section \<open>Conflicts\<close>

text \<open>Computations that rename or remove nothing in the configuration directory.\<close>

definition no_write :: "'a io \<Rightarrow> bool" where
  "no_write m \<longleftrightarrow> (\<forall>w. w_writes (snd (m w)) = w_writes w)"

named_theorems nw_rules

lemma nw_bind [nw_rules]: "no_write m \<Longrightarrow> (\<And>x. no_write (k x)) \<Longrightarrow> no_write (bind_io m k)"
  unfolding no_write_def bind_io_def by (auto split: prod.split outcome.split) (metis snd_conv)+

lemma nw_try [nw_rules]: "no_write m \<Longrightarrow> no_write (try_io m)"
  unfolding no_write_def try_io_def by (auto split: prod.split outcome.split) (metis snd_conv)+

lemma nw_return [nw_rules]: "no_write (return x)" "no_write (fail e)"
  by (simp_all add: no_write_def return_def fail_def)

lemma nw_lift [nw_rules]: "no_write (lift_res r)"
  by (simp add: lift_res_def nw_return split: sum.split)

lemma nw_guard [nw_rules]: "no_write (guard_io b s)"
  by (simp add: guard_io_def nw_return)

lemma nw_then [nw_rules]: "no_write m \<Longrightarrow> no_write k \<Longrightarrow> no_write (then_io m k)"
  by (simp add: then_io_def nw_bind)

lemma nw_finally [nw_rules]: "no_write m \<Longrightarrow> no_write c \<Longrightarrow> no_write (finally_io m c)"
  by (simp add: finally_io_def nw_rules)

lemma nw_cleanup [nw_rules]: "no_write m \<Longrightarrow> no_write c \<Longrightarrow> no_write (cleanup_io m c)"
  by (auto simp: cleanup_io_def nw_rules split: sum.split)

lemma nw_or_missing [nw_rules]:
  "no_write m \<Longrightarrow> no_write a \<Longrightarrow> (\<And>x. no_write (k x)) \<Longrightarrow> no_write (or_missing m a k)"
  unfolding or_missing_def by (auto intro!: nw_rules split: sum.split)

lemma nw_or_return [nw_rules]: "no_write m \<Longrightarrow> (\<And>x. no_write (k x)) \<Longrightarrow> no_write (or_return r m k)"
  unfolding or_return_def by (auto intro!: nw_rules split: sum.split)

lemma nw_for [nw_rules]: "(\<And>x. no_write (f x)) \<Longrightarrow> no_write (for_io f xs)"
  by (induction xs) (auto intro: nw_rules)

lemma nw_prod [nw_rules]: "(\<And>a b. no_write (k a b)) \<Longrightarrow> no_write (case x of (a, b) \<Rightarrow> k a b)"
  by (cases x) simp

lemma nw_sys_call: "w_writes (snd (sys_call es f w)) = w_writes w"
  by (induction es f w rule: sys_call.induct) (auto split: prod.split sum.split)

lemma nw_sys [nw_rules]: "no_write (sys f)"
  by (simp add: no_write_def sys_def nw_sys_call)

lemma nw_clock [nw_rules]: "no_write fresh_id" "no_write now" "no_write geteuid" "no_write getegid"
  by (simp_all add: no_write_def fresh_id_def now_def geteuid_def getegid_def)

lemma nw_log [nw_rules]: "r \<noteq> Conf \<Longrightarrow> no_write (log_write r p)"
  by (simp add: no_write_def log_write_def)

lemma nw_calls [nw_rules]:
  "no_write (io_lstat r p)" "no_write (io_open r p)" "no_write (io_fread n)" "no_write (io_create r p eu eg)"
  "no_write (io_fchange r p g)" "no_write io_flush" "no_write (io_unlink r p)" "no_write (syncDir r p)"
  "no_write (io_mkdir_all r p)" "no_write (io_services r)" "no_write (io_readdir r)" "no_write (io_mkdir_snap i)"
  "no_write (io_entries i)" "no_write (io_rmdir i)" "no_write (io_open_snap i)" "no_write (io_lstat_snap i)"
  "no_write io_list_snaps"
  by (auto simp: io_lstat_def io_open_def io_fread_def io_create_def io_fchange_def io_flush_def
      io_unlink_def syncDir_def io_mkdir_all_def io_services_def io_readdir_def io_mkdir_snap_def
      io_entries_def io_rmdir_def io_open_snap_def io_lstat_snap_def io_list_snaps_def intro!: nw_rules)

lemma nw_rename [nw_rules]: "r \<noteq> Conf \<Longrightarrow> no_write (io_rename r a b)"
  by (simp add: io_rename_def nw_rules)

lemma nw_readNode [nw_rules]: "no_write (readNode r p)"
  by (simp add: readNode_def nw_rules)

lemma nw_readFile [nw_rules]: "no_write (readFile r p)" "no_write (readDoc r p)"
  by (auto simp: readFile_def readDoc_def intro!: nw_rules split: content.split)

lemma nw_read_files [nw_rules]: "no_write (read_files ps n im)"
  by (induction ps n im rule: read_files.induct) (auto intro!: nw_rules)

lemma nw_read [nw_rules]: "no_write read"
  by (auto simp: read_def list_services_def intro!: nw_rules)

lemma nw_removeAll [nw_rules]: "no_write (removeAll i)"
proof -
  have "no_write (remove_entries i ps)" for ps
    by (induction ps) (auto intro!: nw_rules simp: io_remove_entry_def)
  then show ?thesis by (auto simp: removeAll_def intro!: nw_rules split: sum.split)
qed

lemma nw_atomic [nw_rules]: "r \<noteq> Conf \<Longrightarrow> no_write (atomicFile r p c)"
  by (auto simp: atomicFile_def stage_def Let_def intro!: nw_rules)

lemma nw_snapshot_files [nw_rules]: "no_write (snapshot_files im ps m)"
  by (induction im ps m rule: snapshot_files.induct) (auto intro!: nw_rules simp: Let_def)

lemma nw_snapshot [nw_rules]: "no_write (snapshot im reason)"
  by (auto simp: snapshot_def new_manifest_def intro!: nw_rules)

lemma nw_load_files [nw_rules]: "no_write (load_files i m ps n im)"
  by (induction i m ps n im rule: load_files.induct) (auto intro!: nw_rules split: option.split)

lemma nw_load [nw_rules]: "no_write (loadSnapshot i)"
  by (auto simp: loadSnapshot_def intro!: nw_rules split: doc.split)

lemma nw_load_all [nw_rules]: "no_write (load_all is)"
  by (induction "is") (auto intro!: nw_rules)

lemma nw_baselineID [nw_rules]: "no_write baselineID"
  by (auto simp: baselineID_def intro!: nw_rules split: content.split doc.split)

lemma nw_prune_loop [nw_rules]: "no_write (prune_loop keep b n is)"
  by (induction keep b n "is" rule: prune_loop.induct) (auto intro!: nw_rules)

lemma nw_baseline [nw_rules]: "no_write (prune keep)" "no_write (recordBaseline im reason)" "no_write noPending"
  by (auto simp: prune_def snapshots_def recordBaseline_def setBaseline_def noPending_def intro!: nw_rules)

lemma nw_accept [nw_rules]: "no_write (accept_unchanged im res)"
  unfolding accept_unchanged_def by (auto intro!: nw_rules)

text \<open>A step that cannot answer with a conflict.\<close>

definition no_conflict :: "('r \<times> error option) io \<Rightarrow> bool" where
  "no_conflict m \<longleftrightarrow> (\<forall>w r. fst (m w) \<noteq> Done (r, Some ErrConflict))"

definition conflict_clean :: "('r \<times> error option) io \<Rightarrow> bool" where
  "conflict_clean m \<longleftrightarrow>
     (\<forall>w r. fst (m w) = Done (r, Some ErrConflict) \<longrightarrow> w_writes (snd (m w)) = w_writes w)"

lemma cc_no_write: "no_write m \<Longrightarrow> conflict_clean m"
  by (simp add: no_write_def conflict_clean_def)

lemma cc_no_conflict: "no_conflict m \<Longrightarrow> conflict_clean m"
  by (simp add: no_conflict_def conflict_clean_def)

lemma cc_return: "conflict_clean (return x)"
  by (simp add: cc_no_write nw_return)

lemma nc_return: "e \<noteq> Some ErrConflict \<Longrightarrow> no_conflict (return (r, e))"
  by (simp add: no_conflict_def return_def)

lemma nc_bind: "(\<And>x. no_conflict (k x)) \<Longrightarrow> no_conflict (bind_io m k)"
  unfolding no_conflict_def bind_io_def by (auto split: prod.split outcome.split)

lemma cc_bind: "no_write m \<Longrightarrow> (\<And>x. conflict_clean (k x)) \<Longrightarrow> conflict_clean (bind_io m k)"
  unfolding conflict_clean_def no_write_def bind_io_def
  by (auto split: prod.splits outcome.splits) (metis fst_conv snd_conv)+

lemma cc_or_return: "no_write m \<Longrightarrow> (\<And>x. conflict_clean (k x)) \<Longrightarrow> conflict_clean (or_return r m k)"
  unfolding or_return_def by (rule cc_bind) (auto intro!: nw_rules cc_no_write split: sum.split)

lemma nc_rollback: "no_conflict (rollback c e res)"
  unfolding rollback_def by (intro nc_bind nc_return) (auto split: sum.split)

lemma nc_commit: "no_conflict (commit new res)"
  unfolding commit_def by (intro nc_bind) (auto intro!: nc_bind nc_return split: sum.split)

lemma cc_journalled: "conflict_clean (journalled expected old new c res reason)"
proof -
  have "conflict_clean (bind_io (try_io (transact old new a c)) (\<lambda>r. case r of
           Inl e \<Rightarrow> rollback c e s | Inr _ \<Rightarrow> commit new s))" for a s
    by (intro cc_no_conflict nc_bind) (auto intro: nc_rollback nc_commit split: sum.split)
  then show ?thesis
    unfolding journalled_def Let_def by (auto intro!: cc_or_return nw_rules cc_return)
qed

lemma cc_apply_tx: "conflict_clean (apply_tx X cancelled expected old new reason c)"
  unfolding apply_tx_def Let_def
  by (auto intro!: cc_or_return cc_journalled cc_return nw_rules cc_no_write [OF nw_accept] split: option.split)

text \<open>A save that is answered with a conflict has renamed and removed nothing in the
  configuration directory, whatever other programs edit there and whatever calls fail: the
  edits it conflicts with are never overwritten.\<close>

theorem conflict_writes_nothing:
  assumes "fst (Apply X cancelled expected changes c w) = Done (r, Some ErrConflict)"
  shows "w_writes (snd (Apply X cancelled expected changes c w)) = w_writes w"
proof -
  have "conflict_clean (Apply X cancelled expected changes c)"
    unfolding Apply_def by (auto intro!: cc_or_return cc_bind nw_rules cc_apply_tx)
  then show ?thesis using assms by (simp add: conflict_clean_def)
qed

section \<open>Saving\<close>

text \<open>The image and the outcome of a run, from a triple about it.\<close>

lemma hoare_run:
  assumes "hoare q (\<lambda>d. d = d0) m Q E C" "live q w" "w_disk w = d0" "m w = (r, w')"
  shows "live q w' \<and> (case r of Done x \<Rightarrow> Q x (w_disk w') | Failed e \<Rightarrow> E e (w_disk w')
    | Crashed \<Rightarrow> (q \<longrightarrow> w_limit w' \<le> w_tick w') \<and> C (w_disk w'))"
  using hoareD [OF assms(1,2)] assms(3,4) by (auto simp: post_def split: outcome.splits)

text \<open>What a request asks for: the change to the image on disk, in a process of root's.\<close>

definition asked :: "image \<Rightarrow> (string, string option) fmap \<Rightarrow> image \<Rightarrow> bool" where
  "asked old changes new \<longleftrightarrow>
     change_image 0 0 old changes (sorted_keys changes) old = Inr new"

lemma hoare_geteuid: "hoare q P geteuid (\<lambda>u d. u = 0 \<and> P d) E C"
  by (auto simp: hoare_def geteuid_def live_def)

lemma hoare_getegid: "hoare q P getegid (\<lambda>u d. u = 0 \<and> P d) E C"
  by (auto simp: hoare_def getegid_def live_def)

lemma apply_triple:
  assumes cl: "clean old b d0" and old: "storable ''Save & Apply'' old" and ch: "changes_ok changes"
    and new: "\<And>new. asked old changes new \<Longrightarrow> manifest_bound new ''Managed configuration''"
  shows "hoare q (\<lambda>d. d = d0) (Apply X cancelled expected changes (Some helper_controller))
    (\<lambda>r d. clean old b d \<and> snd r \<noteq> None \<or> (\<exists>new. asked old changes new \<and> answered q old new r d)) (\<lambda>e d. False)
    (\<lambda>d. clean old b d \<or> (\<exists>new. asked old changes new \<and> resting old new d))"
  unfolding Apply_def
proof (rule hoare_or_return)
  let ?Q = "\<lambda>r d. clean old b d \<and> snd r \<noteq> None \<or> (\<exists>new. asked old changes new \<and> answered q old new r d)"
  let ?C = "\<lambda>d. clean old b d \<or> (\<exists>new. asked old changes new \<and> resting old new d)"
  show "hoare q (\<lambda>d. d = d0) read (\<lambda>im d. im = old \<and> d = d0) (\<lambda>e. clean old b) ?C"
    by (rule hoare_ro) (use clean_read [OF cl] cl in \<open>auto intro: ro_rules\<close>)
  fix im
  show "hoare q (\<lambda>d. im = old \<and> d = d0) (bind_io geteuid (\<lambda>eu. bind_io getegid (\<lambda>eg.
      or_return empty_result (lift_res (change_image eu eg im changes (sorted_keys changes) im)) (\<lambda>new.
        apply_tx X cancelled expected im new ''Save & Apply'' (Some helper_controller))))) ?Q (\<lambda>e d. False) ?C"
  proof (rule hoare_bind [OF hoare_geteuid], rule hoare_bind [OF hoare_getegid])
    fix eu eg :: int
    show "hoare q (\<lambda>d. eg = 0 \<and> eu = 0 \<and> im = old \<and> d = d0)
      (or_return empty_result (lift_res (change_image eu eg im changes (sorted_keys changes) im)) (\<lambda>new.
        apply_tx X cancelled expected im new ''Save & Apply'' (Some helper_controller))) ?Q (\<lambda>e d. False) ?C"
    proof (rule hoare_imp, rule hoare_imp, rule hoare_imp, rule hoare_or_return)
      assume eq: "eg = 0" "eu = 0" "im = old"
      show "hoare q (\<lambda>d. d = d0) (lift_res (change_image eu eg im changes (sorted_keys changes) im))
          (\<lambda>new d. asked old changes new \<and> d = d0) (\<lambda>e. clean old b) ?C"
        by (rule hoare_conseq [OF hoare_lift_res [where E = "\<lambda>e. clean old b" and P = "\<lambda>d. d = d0"]])
          (use eq cl in \<open>auto simp: asked_def\<close>)
      fix new
      show "hoare q (\<lambda>d. asked old changes new \<and> d = d0)
          (apply_tx X cancelled expected im new ''Save & Apply'' (Some helper_controller)) ?Q (\<lambda>e d. False) ?C"
      proof (rule hoare_imp)
        assume rq: "asked old changes new"
        have st: "new_ok new \<and> loadable new \<and> manifest_bound new ''Managed configuration''"
          if v: "ValidateImage X new = Inr ()"
        proof -
          have "change_image 0 0 old changes (sorted_keys changes) old = Inr new"
            using rq by (simp add: asked_def)
          then show ?thesis
            using change_image_storable [OF _ _ _ ch v] new [OF rq] old by (auto simp: storable_def)
        qed
        show "hoare q (\<lambda>d. d = d0) (apply_tx X cancelled expected im new ''Save & Apply'' (Some helper_controller)) ?Q (\<lambda>e d. False) ?C"
          unfolding eq by (rule hoare_conseq [OF helper.hoare_apply_tx [OF cl old st]]) (use rq in auto)
      qed
    qed auto
  qed
qed auto

text \<open>
  C1. A save, in any world without other writers: when it answers with success, the requested
  image is in place, no journal is left and the baseline pointer names a snapshot that loads
  with the image's revision; when it answers with an error or dies at any call, the store is in
  a resting state: the old image with its baseline, the new image committed, or a journal in
  force from which the old image loads, with every file old or new.
\<close>

theorem apply_outcome:
  assumes "live q w" "clean old b (w_disk w)" "storable ''Save & Apply'' old" "changes_ok changes"
    "\<And>new. asked old changes new \<Longrightarrow> manifest_bound new ''Managed configuration''"
    "Apply X cancelled expected changes (Some helper_controller) w = (out, w')"
  shows "case out of
      Done (r, None) \<Rightarrow> \<exists>new. asked old changes new \<and> committed new (w_disk w')
    | Failed e \<Rightarrow> False
    | _ \<Rightarrow> clean old b (w_disk w') \<or> (\<exists>new. asked old changes new \<and> resting old new (w_disk w'))"
proof -
  show ?thesis
    using hoare_run [OF apply_triple [OF assms(2-5)] assms(1) refl assms(6)]
    by (auto simp: answered_def split: outcome.splits option.splits)
qed

text \<open>
  C2. Atomicity under a crash: whatever a save did before its process died or it returned, one
  run of the recovery in a world without faults, with an obliging systemd, returns (unless the
  random source fails and kills it) with the old image or the new image in place, entire, no
  journal, and a baseline that loads; or else the old and the new image together exceed
  \<open>MaxTotalSize\<close>, so many files of both are on disk that \<open>read\<close> refuses them, and the recovery fails
  and leaves the disk and the journal as they were (for good, as \<open>Reach\<close> shows). The save is assumed to be one whose
  manifest stays under \<open>MaxFileSize\<close> (\<open>manifest_bound\<close>, also in \<open>storable\<close>), and which names files by
  their clean UTF-8 paths.
\<close>

theorem recover_after_apply:
  assumes "live q w" "clean old b (w_disk w)" "storable ''Save & Apply'' old" "changes_ok changes"
    "\<And>new. asked old changes new \<Longrightarrow> manifest_bound new ''Managed configuration''"
    "Apply X cancelled expected changes (Some helper_controller) w = (out, w1)"
    "live True v" "w_disk v = w_disk w1" "Recover (Some helper_controller) v = (r, v')"
  shows "(r = Done () \<and>
      (\<exists>b'. clean old b' (w_disk v') \<or> (\<exists>new. asked old changes new \<and> clean new b' (w_disk v'))))
    \<or> (r = Crashed \<and> w_limit v' \<le> w_tick v')
    \<or> (\<exists>e new. r = Failed e \<and> asked old changes new \<and> MaxTotalSize < image_size old + image_size new \<and>
        oversized (w_disk w1) \<and> journal (w_disk w1) \<and> w_disk v' = w_disk w1)"
proof -
  have ok: "new_ok old" using assms(3) by (simp add: storable_def)
  have "clean old b (w_disk w1) \<or> (\<exists>new. asked old changes new \<and> resting old new (w_disk w1))"
    using hoare_run [OF apply_triple [OF assms(2-5)] assms(1) refl assms(6)]
    by (auto simp: answered_def resting_def split: outcome.splits option.splits)
  then consider "clean old b (w_disk v)" | new where "asked old changes new" "resting old new (w_disk v)"
    using assms(8) by auto
  then show ?thesis
  proof cases
    case 1
    then show ?thesis
      using hoareD [OF helper.hoare_recover_idle [of "clean old b"] assms(7)] assms(9)
      by (auto simp: post_def clean_def settled_def split: outcome.splits)
  next
    case 2
    show ?thesis
      using hoareD [OF helper.hoare_Recover [OF ok 2(2), of True] assms(7) refl] assms(8,9) 2(1)
        committed_clean [of new "w_disk v'"]
      by (auto simp: post_def fits_both_def not_le split: outcome.splits)
  qed
qed

section \<open>The size of a manifest\<close>

lemma length_sha_round [simp]: "length (sha_round st kw) = length st"
  by (simp add: sha_round_def Let_def split: list.split)

lemma length_sha_rounds [simp]: "length (foldl sha_round st kws) = length st"
  by (induction kws arbitrary: st) simp_all

lemma length_sha_blocks [simp]: "length (sha_blocks n st bs) = length st"
  by (induction n arbitrary: st bs) (simp_all add: sha_block_def)

lemma length_digest [simp]: "length (digest s) = 64"
proof -
  have "length (concat (map (\<lambda>w :: 32 word. be_bytes 4 (unat w)) ws)) = 4 * length ws" for ws
    by (induction ws) (simp_all add: be_bytes_def)
  then show ?thesis by (simp add: digest_def sha256_def Let_def sha_init_def)
qed

lemma length_join: "length (join_with sep ss) \<le> (\<Sum>s\<leftarrow>ss. length s + length sep)"
  by (induction sep ss rule: join_with.induct) simp_all

lemma length_json_object:
  "length (json_object n kvs) \<le> (\<Sum>(k, v)\<leftarrow>kvs. 6 * length k + length v + 2 * n + 20) + 2 * n + 20"
proof -
  let ?line = "\<lambda>(k, v). replicate (2 * n + 2) (CHR '' '') @ json_quote k @ '': '' @ v"
  have line: "length (?line kv) + 2 \<le> (case kv of (k, v) \<Rightarrow> 6 * length k + length v + 2 * n + 20)" for kv
    using json_chars_length [of "fst kv"] by (cases kv) (simp add: json_quote_def)
  have "length (join_with ('','' @ [nl]) (map ?line kvs)) \<le> (\<Sum>s\<leftarrow>map ?line kvs. length s + 2)"
    using length_join [of "'','' @ [nl]" "map ?line kvs"] by simp
  also have "\<dots> \<le> (\<Sum>(k, v)\<leftarrow>kvs. 6 * length k + length v + 2 * n + 20)"
    unfolding map_map comp_def by (rule sum_list_mono) (rule line)
  finally show ?thesis by (simp add: json_object_def)
qed

text \<open>The share of one file in the manifest of an image.\<close>

definition entry_weight :: "string \<Rightarrow> cfile \<Rightarrow> nat" where
  "entry_weight p f = 6 * length p + length (nat_dec (unat (f_mode f))) + length (int_dec (f_uid f))
     + length (int_dec (f_gid f)) + 700"

definition image_weight :: "image \<Rightarrow> nat" where
  "image_weight im = (\<Sum>p\<leftarrow>sorted_keys im. entry_weight p (fm_get zero_file im p))"

lemma length_meta: "6 * length p + length (meta_json (meta_of f)) + 24 \<le> entry_weight p f"
proof -
  have "length (json_quote (digest (f_data f))) \<le> 386"
    using json_chars_length [of "digest (f_data f)"] by (simp add: json_quote_def)
  then show ?thesis
    using length_json_object [of 2 "[(''sha256'', json_quote (me_sha (meta_of f))), (''mode'', nat_dec (unat (me_mode (meta_of f)))),
      (''uid'', int_dec (me_uid (meta_of f))), (''gid'', int_dec (me_gid (meta_of f)))]"]
    by (simp add: meta_json_def entry_weight_def meta_of_def)
qed

lemma length_json_time: "length (json_time t) \<le> 40"
proof -
  have "length (rev (dropWhile (\<lambda>c. c = CHR ''0'') (rev (pad_dec 9 n)))) \<le> 9" for n
    using length_dropWhile_le [of "\<lambda>c. c = CHR ''0''" "rev (pad_dec 9 n)"] by (simp del: pad_dec.simps)
  from this [of "t mod 1000000000"] show ?thesis
    by (auto simp: json_time_def Let_def simp del: pad_dec.simps dropWhile_eq_Nil_conv rev_is_Nil_conv split: prod.split)
qed

lemma manifest_bound_weight:
  assumes w: "image_weight im + 6 * length reason + 1000 \<le> MaxFileSize"
  shows "manifest_bound im reason"
  unfolding manifest_bound_def
proof (intro allI impI)
  fix m :: manifest
  assume m: "m_files m = metas im (sorted_keys im)" "m_reason m = reason" "validSnapshotID (m_id m)"
  let ?files = "map (\<lambda>p. (p, case fmlookup (m_files m) p of None \<Rightarrow> [] | Some e \<Rightarrow> meta_json e)) (sorted_keys (m_files m))"
  have keys: "sorted_keys (m_files m) = sorted_keys im"
  proof (rule sorted_distinct_set_unique)
    show "set (sorted_keys (m_files m)) = set (sorted_keys im)"
      using m(1) metas_lookup [of im "sorted_keys im"] by (auto simp: fmlookup_dom_iff split: if_splits)
  qed (simp_all add: sorted_sorted_keys distinct_sorted_keys)
  have "(\<Sum>(k, v)\<leftarrow>?files. 6 * length k + length v + 2 * 1 + 20) \<le> image_weight im"
    unfolding image_weight_def keys map_map comp_def
  proof (rule sum_list_mono)
    fix p assume "p \<in> set (sorted_keys im)"
    then have "fmlookup (m_files m) p = Some (meta_of (fm_get zero_file im p))" using m(1) by (simp add: metas_lookup)
    then show "(case (p, case fmlookup (m_files m) p of None \<Rightarrow> [] | Some e \<Rightarrow> meta_json e) of
        (k, v) \<Rightarrow> 6 * length k + length v + 2 * 1 + 20) \<le> entry_weight p (fm_get zero_file im p)"
      using length_meta [of p "fm_get zero_file im p"] by simp
  qed
  then have files: "length (json_object 1 ?files) \<le> image_weight im + 22"
    using length_json_object [of 1 ?files] by linarith
  have "length (m_id m) < 100" using m(3) by (simp add: validSnapshotID_def)
  then have q: "length (json_quote (m_id m)) \<le> 602" "length (json_quote (m_reason m)) \<le> 6 * length reason + 2"
    using json_chars_length [of "m_id m"] json_chars_length [of reason] m(2) by (simp_all add: json_quote_def)
  have "length (manifest_json m) \<le> length (json_quote (m_id m)) + length (json_quote (m_reason m)) +
      length (json_time (m_created m)) + length (json_object 1 ?files) + 250"
    unfolding manifest_json_def
    using length_json_object [of 0 "[(''id'', json_quote (m_id m)), (''reason'', json_quote (m_reason m)),
      (''createdAt'', json_time (m_created m)), (''files'', json_object 1 ?files)]"] by simp
  then show "length (manifest_json m) \<le> MaxFileSize"
    using q files length_json_time [of "m_created m"] w by linarith
qed

section \<open>A sample store\<close>

definition sample_old :: image where
  "sample_old = fmap_of_list [(conf_path, \<lparr>f_data = ''[server]'', f_mode = 420, f_uid = 0, f_gid = 0\<rparr>)]"

definition sample_changes :: "(string, string option) fmap" where
  "sample_changes = fmap_of_list [(hosts_path, Some ''10.0.0.1 printer.lan'')]"

definition sample_new :: image where
  "sample_new = fmupd hosts_path \<lparr>f_data = ''10.0.0.1 printer.lan'', f_mode = 420, f_uid = 0, f_gid = 0\<rparr> sample_old"

definition sample_tree :: tree where
  "sample_tree = \<lparr>t_nodes = fmap_of_list [(conf_path, File (Bytes ''[server]'') 420 0 0)], t_services = NoDir\<rparr>"

text \<open>A world with one file, no backups, and 200 random names to give.\<close>

definition sample_world :: "event list \<Rightarrow> world" where
  "sample_world s = \<lparr>w_disk = \<lparr>d_conf = sample_tree, d_top = empty_tree, d_snaps = fmempty\<rparr>, w_sched = s,
     w_euid = 0, w_egid = 0, w_rand = (\<lambda>n _. word_of_nat n), w_clock = (\<lambda>n. n), w_tick = 0, w_limit = 200,
     w_bus = sample_bus, w_writes = []\<rparr>"

lemma path_facts:
  "conf_path \<noteq> hosts_path" "utf8_valid conf_path" "utf8_valid hosts_path"
  "\<not> prefix ''services/'' conf_path" "\<not> prefix ''services/'' hosts_path"
  "length conf_path = 17" "length hosts_path = 5" "validPath hosts_path"
  by (simp_all add: conf_path_def hosts_path_def validPath_def runes_ascii(2) byte_of_def)

lemma sample_keys:
  "sorted_keys sample_old = [conf_path]" "sorted_keys sample_changes = [hosts_path]"
  "set (sorted_keys sample_new) = {conf_path, hosts_path}"
  "fmlookup sample_old p = (if p = conf_path then Some \<lparr>f_data = ''[server]'', f_mode = 420, f_uid = 0, f_gid = 0\<rparr> else None)"
proof -
  show "sorted_keys sample_old = [conf_path]" "sorted_keys sample_changes = [hosts_path]"
    by (simp_all add: sample_old_def sample_changes_def sorted_keys_upd)
  show "set (sorted_keys sample_new) = {conf_path, hosts_path}"
    by (auto simp: sample_new_def sample_old_def fmlookup_dom_iff split: if_splits)
  show "fmlookup sample_old p = (if p = conf_path then Some \<lparr>f_data = ''[server]'', f_mode = 420, f_uid = 0, f_gid = 0\<rparr> else None)"
    by (simp add: sample_old_def)
qed

lemma sample_asked: "asked sample_old sample_changes new \<longleftrightarrow> new = sample_new"
  unfolding asked_def sample_keys
  using path_facts by (auto simp: sample_keys(4) sample_changes_def sample_new_def fm_get_def Let_def)

lemma sample_cfg: "cfg sample_tree p = fmlookup sample_old p"
proof -
  have "(420 :: 32 word) AND 511 = 420" by simp
  then show ?thesis
    by (auto simp: cfg_def sample_tree_def sample_keys(4) config_path_def opened_file_def MaxFileSize_def)
qed

lemma sample_good: "good sample_tree"
  using path_facts clean_conf_hosts by (auto simp: good_def wf_tree_def readable_def sample_tree_def opened_file_def MaxFileSize_def split: if_splits)

lemma sample_clean: "clean sample_old [] (w_disk (sample_world s))"
  using sample_good sample_cfg
  by (simp add: clean_def settled_def pointed_def base_ok_def top_ok_def top_file_def holds_def sample_world_def
      empty_tree_def wf_tree_def)

lemma sample_lookup:
  "fmlookup sample_new p = (if p = hosts_path then Some \<lparr>f_data = ''10.0.0.1 printer.lan'', f_mode = 420, f_uid = 0, f_gid = 0\<rparr>
     else fmlookup sample_old p)"
  by (simp add: sample_new_def)

lemma sample_image_ok:
  assumes im: "im = sample_old \<or> im = sample_new"
  shows "new_ok im" "canonical im" "image_size im \<le> 100" "image_weight im \<le> 2000"
proof -
  have m: "(420 :: 32 word) AND 511 = 420" by simp
  have man: "managed_path conf_path" "managed_path hosts_path" by (simp_all add: managed_path_def)
  show "new_ok im"
    using im m man by (auto simp: new_ok_def sample_lookup sample_keys(4) MaxFileSize_def split: if_splits)
  show "canonical im"
    using im clean_conf_hosts by (auto simp: canonical_def sample_keys simp del: set_sorted_keys)
  have sub: "distinct (sorted_keys im)" "set (sorted_keys im) \<subseteq> {conf_path, hosts_path}"
    using im by (auto simp: distinct_sorted_keys sample_keys simp del: set_sorted_keys)
  have bound: "(\<Sum>p\<leftarrow>sorted_keys im. g p) \<le> g conf_path + g hosts_path" for g :: "string \<Rightarrow> nat"
  proof -
    have "(\<Sum>p\<leftarrow>sorted_keys im. g p) = sum g (set (sorted_keys im))"
      using sub(1) by (rule sum_list_distinct_conv_sum_set)
    also have "\<dots> \<le> sum g {conf_path, hosts_path}" by (rule sum_mono2) (use sub(2) in auto)
    also have "\<dots> = g conf_path + g hosts_path" using path_facts(1) by simp
    finally show ?thesis .
  qed
  have d: "length (f_data (fm_get zero_file im p)) \<le> 22" "f_mode (fm_get zero_file im p) \<in> {0, 420}"
      "f_uid (fm_get zero_file im p) = 0" "f_gid (fm_get zero_file im p) = 0" for p
    using im path_facts(1) by (auto simp: fm_get_def sample_lookup sample_keys(4) zero_file_def)
  show "image_size im \<le> 100"
    using bound [of "\<lambda>p. length (f_data (fm_get zero_file im p))"] d(1) [of conf_path] d(1) [of hosts_path]
    by (simp add: image_size_def)
  have n: "length (nat_dec (unat (0 :: 32 word))) \<le> 3" "length (nat_dec (unat (420 :: 32 word))) \<le> 3" "length (int_dec 0) = 1"
    by (simp_all add: nat_dec_def int_dec_def digits_base.simps)
  have e: "entry_weight p (fm_get zero_file im p) \<le> 6 * length p + 705" for p
    using d(2-4) [of p] n by (auto simp: entry_weight_def)
  show "image_weight im \<le> 2000"
    using bound [of "\<lambda>p. entry_weight p (fm_get zero_file im p)"] e [of conf_path] e [of hosts_path] path_facts(6,7)
    by (simp add: image_weight_def)
qed

lemma sample_storable:
  assumes im: "im = sample_old \<or> im = sample_new"
  shows "storable ''Save & Apply'' im"
proof -
  note ok = sample_image_ok [OF im]
  have m: "(420 :: 32 word) AND NOT 511 = 0" by simp
  have "loadable im"
    using im ok(2,3) m path_facts
    by (auto simp: loadable_def sample_lookup sample_keys(4) MaxFileSize_def MaxTotalSize_def split: if_splits)
  moreover have "manifest_bound im ''Save & Apply''" "manifest_bound im ''Managed configuration''"
    using ok(4) by (auto intro!: manifest_bound_weight simp: MaxFileSize_def)
  ultimately show ?thesis using ok(1) by (simp add: storable_def)
qed

lemma sample_changes_ok: "changes_ok sample_changes"
  using path_facts clean_conf_hosts by (simp add: changes_ok_def sample_keys(2) del: set_sorted_keys)

lemma sample_live: "calm (sample_world s) \<Longrightarrow> live False (sample_world s)"
  by (simp add: live_def) (simp add: sample_world_def)

lemma sample_quiet: "live True (sample_world [])"
proof -
  have id: "nth_id (sample_world []) n = hex_byte (unat (word_of_nat n :: 8 word)) @ drop 2 (nth_id (sample_world []) n)" for n
    by (simp add: nth_id_def random_bytes_def sample_world_def randomID_def Let_def upt_rec hex_bytes_Cons hex_byte_def)
  have "inj_on (nth_id (sample_world [])) {0..<200}"
  proof (rule inj_onI)
    fix m n :: nat assume mn: "m \<in> {0..<200}" "n \<in> {0..<200}" "nth_id (sample_world []) m = nth_id (sample_world []) n"
    have "hex_byte (unat (word_of_nat m :: 8 word)) = hex_byte (unat (word_of_nat n :: 8 word))"
      using id [of m] id [of n] mn(3) by (metis append_eq_append_conv length_hex_byte)
    moreover have "unat (word_of_nat k :: 8 word) = k" if "k < 200" for k
      using that by (simp add: unat_of_nat take_bit_eq_mod)
    ultimately show "m = n" using mn hex_byte_inj [of m n] by auto
  qed
  moreover have "temps (w_disk (sample_world [])) = {}"
  proof -
    have "p = conf_path" if "get_tree r (w_disk (sample_world [])) = Some t" "p |\<in>| fmdom (t_nodes t)" for p r t
      using that by (cases r) (auto simp: sample_world_def sample_tree_def empty_tree_def)
    moreover have "\<not> suffix ''.tmp'' conf_path" by (simp add: conf_path_def suffix_def)
    ultimately show ?thesis unfolding temps_def tree_keys_def by blast
  qed
  moreover have "obliging sample_bus"
    by (auto simp: obliging_def sample_bus_def split: bus_call.split)
  ultimately show ?thesis
    by (simp add: live_def calm_def unused_def) (simp add: sample_world_def)
qed

lemma sample_fits: "fits_both sample_old sample_new"
  using sample_image_ok(3) [of sample_old] sample_image_ok(3) [of sample_new] by (simp add: fits_both_def MaxTotalSize_def)

lemma apply_outcome_witness:
  "case fst (Apply sample_codec False (Revision sample_old) sample_changes (Some helper_controller) (sample_world [Pass, Fails])) of
      Done (r, None) \<Rightarrow> \<exists>new. asked sample_old sample_changes new \<and>
        committed new (w_disk (snd (Apply sample_codec False (Revision sample_old) sample_changes (Some helper_controller) (sample_world [Pass, Fails]))))
    | Failed e \<Rightarrow> False
    | _ \<Rightarrow> clean sample_old [] (w_disk (snd (Apply sample_codec False (Revision sample_old) sample_changes (Some helper_controller) (sample_world [Pass, Fails])))) \<or>
        (\<exists>new. asked sample_old sample_changes new \<and> resting sample_old new
          (w_disk (snd (Apply sample_codec False (Revision sample_old) sample_changes (Some helper_controller) (sample_world [Pass, Fails])))))"
proof (rule apply_outcome)
  show "live False (sample_world [Pass, Fails])" by (rule sample_live) (simp add: calm_def sample_world_def)
  show "manifest_bound new ''Managed configuration''" if "asked sample_old sample_changes new" for new
    using that sample_asked sample_storable [of sample_new] by (simp add: storable_def)
qed (simp_all add: sample_clean sample_storable sample_changes_ok)

text \<open>A process that dies at its first call.\<close>

lemma sample_dies:
  "Apply sample_codec False (Revision sample_old) sample_changes (Some helper_controller) (sample_world [Dies])
     = (Crashed, sample_world [])"
  by (simp add: Apply_def or_return_def read_def list_services_def or_missing_def io_services_def bind_io_def
      try_io_def sys_def sample_world_def)

lemma recover_after_apply_witness:
  "\<exists>r v'. Recover (Some helper_controller) (sample_world []) = (r, v') \<and>
    ((r = Done () \<and> (\<exists>b'. clean sample_old b' (w_disk v') \<or>
       (\<exists>new. asked sample_old sample_changes new \<and> clean new b' (w_disk v'))))
     \<or> (r = Crashed \<and> w_limit v' \<le> w_tick v'))"
proof -
  obtain r v' where rv: "Recover (Some helper_controller) (sample_world []) = (r, v')" by fastforce
  have l: "live False (sample_world [Dies])" by (rule sample_live) (simp add: calm_def sample_world_def)
  have m: "manifest_bound new ''Managed configuration''" if "asked sample_old sample_changes new" for new
    using that sample_asked sample_storable [of sample_new] by (simp add: storable_def)
  have "\<not> MaxTotalSize < image_size sample_old + image_size new" if "asked sample_old sample_changes new" for new
    using that sample_asked sample_fits by (simp add: fits_both_def)
  then show ?thesis
    using recover_after_apply [OF l sample_clean [of "[Dies]"] sample_storable sample_changes_ok m sample_dies sample_quiet refl rv] rv
    by blast
qed

section \<open>A transaction in progress\<close>

definition sample_id :: string where
  "sample_id = ''20240101T000000.000000000Z-00000000-0000-4000-8000-000000000000''"

definition sample_manifest :: manifest where
  "sample_manifest = \<lparr>m_id = sample_id, m_reason = ''Save & Apply'', m_created = 0,
     m_files = metas sample_old (sorted_keys sample_old)\<rparr>"

definition sample_snap :: tree where
  "sample_snap = \<lparr>t_nodes = fmap_of_list [(conf_path, File (Bytes ''[server]'') 384 0 0),
     (manifest_path, File (Doc (ManifestDoc sample_manifest)) 384 0 0)], t_services = NoDir\<rparr>"

text \<open>The disk of a process that died right after it wrote the journal.\<close>

definition sample_pending :: disk where
  "sample_pending = \<lparr>d_conf = sample_tree,
     d_top = \<lparr>t_nodes = fmap_of_list [(pending_path, File (Doc (PendingDoc sample_id [])) 384 0 0)], t_services = NoDir\<rparr>,
     d_snaps = fmap_of_list [(sample_id, sample_snap)]\<rparr>"

lemma sample_id_ok: "validSnapshotID sample_id" "utf8_valid sample_id" "length sample_id = 63"
proof -
  show "validSnapshotID sample_id" by (simp add: sample_id_def) code_simp
  show "utf8_valid sample_id" by (simp add: sample_id_def runes_ascii(2) byte_of_def)
  show "length sample_id = 63" by (simp add: sample_id_def)
qed

lemma sample_loads: "loads sample_id sample_old sample_pending"
proof -
  have mp: "path_clean manifest_path = manifest_path" "conf_path \<noteq> manifest_path" "\<not> prefix ''services/'' manifest_path"
    by code_simp+
  have "look conf_path sample_snap = Inr (File (Bytes ''[server]'') 384 0 0)"
    "look manifest_path sample_snap = Inr (File (Doc (ManifestDoc sample_manifest)) 384 0 0)"
    using mp path_facts clean_conf_hosts by (simp_all add: look_def parent_error_def sample_snap_def)
  then have t: "snapshot_tree sample_old sample_manifest sample_snap"
    by (auto simp: snapshot_tree_def sample_keys fm_get_def simp del: set_sorted_keys)
  have st: "loadable sample_old" "manifest_bound sample_old ''Save & Apply''"
    using sample_storable by (auto simp: storable_def)
  have len: "length (manifest_json sample_manifest) \<le> MaxFileSize"
    using st(2) sample_id_ok by (simp add: manifest_bound_def sample_manifest_def)
  have "pure (loadSnapshot sample_id) sample_pending = Done (json_manifest sample_manifest, sample_old)"
    by (rule loads_snapshot [where t = sample_snap])
      (use t st(1) len sample_id_ok in \<open>auto simp: sample_pending_def manifest_for_def sample_manifest_def
         sample_keys path_facts validPath_def simp del: set_sorted_keys\<close>)
  then show ?thesis by (auto simp: loads_def)
qed

lemma sample_tx: "tx sample_old sample_new sample_id [] sample_pending"
proof -
  have pp: "path_clean pending_path = pending_path" "pending_path \<noteq> baseline_path" "\<not> prefix ''services/'' pending_path"
    by code_simp+
  have "mixed sample_old sample_new sample_tree"
    using sample_good sample_cfg by (simp add: mixed_def)
  then show ?thesis
    using pp sample_loads sample_id_ok
    by (auto simp: tx_def base_ok_def top_ok_def top_file_def doc_node_def wf_tree_def sample_pending_def split: if_splits)
qed

text \<open>
  After a failed step, the message that the previous configuration is restored is given
  only when the old image and the old baseline are in force again and no journal is left; in any
  other case the answer joins both errors and the journal is still in force or its work done,
  which does not happen in a world without faults where systemd obliges.
\<close>

theorem rollback_outcome:
  assumes "live q w" "tx old new s b (w_disk w)" "new_ok old" "rollback helper_controller e res w = (out, w')"
  shows "case out of
      Done (r, err) \<Rightarrow> r = res \<and>
        (err = Some (Wrap ''apply failed; previous configuration restored'' e) \<and> clean old b (w_disk w') \<or>
         (\<exists>e'. err = Some (Join e (Wrap ''rollback failed; recovery remains pending'' e'))) \<and>
           \<not> (q \<and> fits_both old new) \<and> (tx old new s b (w_disk w') \<or> clean old b (w_disk w')))
    | Failed e \<Rightarrow> False
    | Crashed \<Rightarrow> tx old new s b (w_disk w') \<or> clean old b (w_disk w')"
  using hoare_run [OF helper.hoare_rollback [OF assms(2,3)] assms(1) refl assms(4)]
  by (auto split: outcome.splits)

definition pending_world :: "event list \<Rightarrow> world" where
  "pending_world s = (sample_world s)\<lparr>w_disk := sample_pending\<rparr>"

lemma rollback_outcome_witness:
  "\<exists>out w'. rollback helper_controller ErrConflict empty_result (pending_world [Pass, Dies]) = (out, w') \<and>
    (case out of
      Done (r, err) \<Rightarrow> r = empty_result \<and>
        (err = Some (Wrap ''apply failed; previous configuration restored'' ErrConflict) \<and> clean sample_old [] (w_disk w') \<or>
         (\<exists>e'. err = Some (Join ErrConflict (Wrap ''rollback failed; recovery remains pending'' e'))) \<and>
           \<not> (False \<and> fits_both sample_old sample_new) \<and>
           (tx sample_old sample_new sample_id [] (w_disk w') \<or> clean sample_old [] (w_disk w')))
    | Failed e \<Rightarrow> False
    | Crashed \<Rightarrow> tx sample_old sample_new sample_id [] (w_disk w') \<or> clean sample_old [] (w_disk w'))"
proof -
  obtain out w' where r: "rollback helper_controller ErrConflict empty_result (pending_world [Pass, Dies]) = (out, w')" by fastforce
  have l: "live False (pending_world [Pass, Dies])"
    by (simp add: live_def calm_def) (simp add: pending_world_def sample_world_def)
  have t: "tx sample_old sample_new sample_id [] (w_disk (pending_world [Pass, Dies]))"
    using sample_tx by (simp add: pending_world_def)
  show ?thesis
    using rollback_outcome [OF l t sample_image_ok(1) r] r by blast
qed

text \<open>
  C9. Recovery under any faults and deaths: from a journal in force it returns only with the
  old image and baseline restored and the journal gone; if it fails or dies, the journal is still in
  force or its work done, so that the next recovery starts from the same guarantee.
\<close>

theorem recover_outcome:
  assumes "live q w" "tx old new s b (w_disk w)" "new_ok old" "Recover (Some helper_controller) w = (out, w')"
  shows "case out of
      Done u \<Rightarrow> clean old b (w_disk w')
    | Failed e \<Rightarrow> \<not> (q \<and> fits_both old new) \<and> (tx old new s b (w_disk w') \<or> clean old b (w_disk w'))
    | Crashed \<Rightarrow> (q \<longrightarrow> w_limit w' \<le> w_tick w') \<and> (tx old new s b (w_disk w') \<or> clean old b (w_disk w'))"
  using hoare_run [OF helper.hoare_recover_tx [OF assms(2,3)] assms(1) refl] assms(4) tx_oversized [OF assms(2)]
  by (auto simp: Recover_def split: outcome.splits)

lemma recover_outcome_witness:
  "\<exists>out w'. Recover (Some helper_controller) (pending_world [Pass, Pass, Fails]) = (out, w') \<and>
    (case out of
      Done u \<Rightarrow> clean sample_old [] (w_disk w')
    | Failed e \<Rightarrow> \<not> (False \<and> fits_both sample_old sample_new) \<and>
        (tx sample_old sample_new sample_id [] (w_disk w') \<or> clean sample_old [] (w_disk w'))
    | Crashed \<Rightarrow> (False \<longrightarrow> w_limit w' \<le> w_tick w') \<and>
        (tx sample_old sample_new sample_id [] (w_disk w') \<or> clean sample_old [] (w_disk w')))"
proof -
  obtain out w' where r: "Recover (Some helper_controller) (pending_world [Pass, Pass, Fails]) = (out, w')" by fastforce
  have l: "live False (pending_world [Pass, Pass, Fails])"
    by (simp add: live_def calm_def) (simp add: pending_world_def sample_world_def)
  have t: "tx sample_old sample_new sample_id [] (w_disk (pending_world [Pass, Pass, Fails]))"
    using sample_tx by (simp add: pending_world_def)
  show ?thesis
    using recover_outcome [OF l t sample_image_ok(1) r] r by blast
qed

lemma conflict_writes_nothing_witness:
  "fst (Apply sample_codec False [] sample_changes (Some helper_controller) (sample_world [])) =
     Done (\<lparr>ar_action = Restart, ar_snapshot = [], ar_revision = Revision sample_old, ar_warning = []\<rparr>, Some ErrConflict) \<and>
   w_writes (snd (Apply sample_codec False [] sample_changes (Some helper_controller) (sample_world []))) = []"
proof -
  have rd: "read (sample_world []) = (Done sample_old, sample_world [])"
  proof -
    obtain t where t: "set t \<subseteq> set (w_sched (sample_world []))" "snd (read (sample_world [])) = (sample_world [])\<lparr>w_sched := t\<rparr>"
        "fst (read (sample_world [])) = pure read (w_disk (sample_world [])) \<or> w_sched (sample_world []) \<noteq> [] \<and> faulted (fst (read (sample_world [])))"
      using roD [OF ro_read, of "sample_world []"] by (auto simp: calm_def sample_world_def)
    have "pure read (w_disk (sample_world [])) = Done sample_old"
      using pure_read [of "w_disk (sample_world [])" sample_old] sample_good sample_cfg sample_image_ok(3) [of sample_old]
      by (simp add: sample_world_def good_def MaxTotalSize_def)
    then show ?thesis using t by (simp add: prod_eq_iff) (simp add: sample_world_def)
  qed
  have act: "ChangeAction sample_old sample_new = Restart"
    using path_facts by (auto simp: change_action_cases changed_def sample_lookup sample_keys(4) fmap_ext_iff)
  have new: "change_image 0 0 sample_old sample_changes (sorted_keys sample_changes) sample_old = Inr sample_new"
    using sample_asked by (simp add: asked_def)
  have run: "Apply sample_codec False [] sample_changes (Some helper_controller) (sample_world []) =
      (Done (\<lparr>ar_action = Restart, ar_snapshot = [], ar_revision = Revision sample_old, ar_warning = []\<rparr>, Some ErrConflict), sample_world [])"
    unfolding Apply_def or_return_def
    by (simp add: bind_io_def try_io_def rd geteuid_def getegid_def)
      (simp add: sample_world_def new lift_res_def apply_tx_def act return_def)
  show ?thesis
    using conflict_writes_nothing [of sample_codec False "[]" sample_changes "Some helper_controller" "sample_world []"] run
    by (simp add: sample_world_def)
qed

section \<open>Snapshots and retention\<close>

text \<open>
  C11. A snapshot that is answered with a manifest loads again with that manifest and exactly
  the image, attributes included; and whether it is answered, fails or dies, the configuration,
  the journal, the baseline and every older snapshot are untouched.
\<close>

theorem snapshot_roundtrip:
  assumes "live q w" "loadable im" "manifest_bound im reason" "snapshot im reason w = (out, w')"
  shows "backups_kept (w_disk w) (w_disk w') \<and>
    (case out of Done m \<Rightarrow> pure (loadSnapshot (m_id m)) (w_disk w') = Done (json_manifest m, im) | _ \<Rightarrow> True)"
proof -
  have can: "canonical im" using assms(2) by (simp add: loadable_def)
  show ?thesis
    using hoare_run [OF hoare_snapshot [OF can] assms(1) refl assms(4)] assms(2,3)
      snapshot_made_loads [of "w_disk w" im reason] kept_backups
    by (auto simp: snapshot_made_def split: outcome.splits)
qed

lemma snapshot_roundtrip_witness:
  "\<exists>out w'. snapshot sample_old ''Save & Apply'' (sample_world [Pass, Pass]) = (out, w') \<and>
    backups_kept (w_disk (sample_world [Pass, Pass])) (w_disk w') \<and>
    (case out of Done m \<Rightarrow> pure (loadSnapshot (m_id m)) (w_disk w') = Done (json_manifest m, sample_old) | _ \<Rightarrow> True)"
proof -
  obtain out w' where r: "snapshot sample_old ''Save & Apply'' (sample_world [Pass, Pass]) = (out, w')" by fastforce
  have "live False (sample_world [Pass, Pass])" by (rule sample_live) (simp add: calm_def sample_world_def)
  then show ?thesis
    using snapshot_roundtrip [OF _ _ _ r] sample_storable [of sample_old] r by (auto simp: storable_def)
qed

text \<open>The snapshots that retention removes: of those that are not pinned, the oldest ones.\<close>

definition victims :: "nat \<Rightarrow> string \<Rightarrow> nat \<Rightarrow> string list \<Rightarrow> string list" where
  "victims keep pinned n ids = take (n - keep) (filter (\<lambda>i. i \<noteq> pinned) ids)"

definition delete_one :: "string \<Rightarrow> unit io" where
  "delete_one i = then_io (guard_io (validSnapshotID i \<and> path_base i = i) ''invalid snapshot ID'') (removeAll i)"

lemma then_assoc: "then_io (then_io a b) c = then_io a (then_io b c)"
  by (auto simp: then_io_def bind_io_def fun_eq_iff split: prod.split outcome.split)

lemma prune_loop_victims: "prune_loop keep pinned n ids = for_io delete_one (victims keep pinned n ids)"
proof (induction ids arbitrary: n)
  case (Cons i ids)
  show ?case
  proof (cases "n \<le> keep \<or> i = pinned")
    case False
    then have "n - keep = Suc (n - 1 - keep)" by auto
    then have "victims keep pinned n (i # ids) = i # victims keep pinned (n - 1) ids"
      using False by (simp add: victims_def)
    then show ?thesis using False Cons [of "n - 1"] by (simp add: delete_one_def then_assoc)
  qed (use Cons in \<open>auto simp: victims_def\<close>)
qed (simp add: victims_def)

text \<open>The list that \<open>snapshots\<close> gives: the directories that can be loaded, newest first.\<close>

lemma pure_load_all:
  "pure (load_all ns) d = Done ms \<Longrightarrow> map m_id ms = filter validSnapshotID ns \<and>
     (\<forall>m\<in>set ms. fmlookup (d_snaps d) (m_id m) \<noteq> None)"
proof (induction ns arbitrary: ms)
  case (Cons i ns)
  show ?case
  proof (cases "validSnapshotID i")
    case True
    then obtain m im ms' where l: "pure (loadSnapshot i) d = Done (m, im)" "pure (load_all ns) d = Done ms'" "ms = m # ms'"
      using Cons.prems by (auto simp: pure_bind ro_rules split: outcome.splits)
    have "m_id m = i"
      using l(1) by (auto simp: loadSnapshot_def pure_then pure_bind ro_rules split: if_splits outcome.splits doc.splits)
    then show ?thesis using Cons.IH [OF l(2)] l(3) True load_exists [OF l(1)] by simp
  qed (use Cons in auto)
qed simp

lemma pure_snapshots:
  assumes "pure snapshots d = Done ms"
  shows "distinct (map m_id ms)" "\<forall>m\<in>set ms. fmlookup (d_snaps d) (m_id m) \<noteq> None"
    "sorted_wrt (\<lambda>m m'. m_created m' \<le> m_created m) ms"
proof -
  have "pure io_list_snaps d = Done (sorted_keys (d_snaps d))" by (simp add: io_list_snaps_def pure_sys)
  then obtain l where l: "pure (load_all (sorted_keys (d_snaps d))) d = Done l" "ms = sort_key (\<lambda>m. - int (m_created m)) l"
    using assms by (auto simp: snapshots_def pure_then pure_bind ro_rules split: outcome.splits)
  have "distinct (map m_id l)" using pure_load_all [OF l(1)] by simp
  then show "distinct (map m_id ms)"
    unfolding l(2) by (metis distinct_map distinct_sort set_sort)
  show "\<forall>m\<in>set ms. fmlookup (d_snaps d) (m_id m) \<noteq> None" using pure_load_all [OF l(1)] l(2) by simp
  have "sorted (map (\<lambda>m. - int (m_created m)) ms)" unfolding l(2) by (rule sorted_sort_key)
  then show "sorted_wrt (\<lambda>m m'. m_created m' \<le> m_created m) ms"
    by (simp add: sorted_map)
qed

text \<open>The snapshots of \<open>vs\<close> are gone one after another, the last of those begun perhaps only in part.\<close>

definition pruning :: "string list \<Rightarrow> disk \<Rightarrow> disk \<Rightarrow> bool" where
  "pruning vs d0 d \<longleftrightarrow> (\<exists>ys zs. vs = ys @ zs \<and> (\<forall>i\<in>set (butlast ys). fmlookup (d_snaps d) i = None) \<and>
     (\<forall>i. i \<notin> set ys \<longrightarrow> fmlookup (d_snaps d) i = fmlookup (d_snaps d0) i))"

definition deleted :: "string list \<Rightarrow> disk \<Rightarrow> disk \<Rightarrow> bool" where
  "deleted ys d0 d \<longleftrightarrow> (\<forall>i\<in>set ys. fmlookup (d_snaps d) i = None) \<and>
     (\<forall>i. i \<notin> set ys \<longrightarrow> fmlookup (d_snaps d) i = fmlookup (d_snaps d0) i)"

lemma deleted_pruning: "deleted ys d0 d \<Longrightarrow> pruning (ys @ zs) d0 d"
  unfolding deleted_def pruning_def by (intro exI [of _ ys] exI [of _ zs]) (auto dest: in_set_butlastD)

lemma hoare_delete_all:
  assumes "distinct vs"
  shows "hoare q (\<lambda>d. d = d0) (for_io delete_one vs) (\<lambda>_. deleted vs d0) (\<lambda>e. pruning vs d0) (pruning vs d0)"
proof (rule hoare_pre [OF hoare_for [where I = "\<lambda>ys. deleted ys d0"]])
  fix ys x zs assume vs: "vs = ys @ x # zs"
  then have x: "x \<notin> set ys" using assms by simp
  have "hoare q (\<lambda>d. d = d1) (delete_one x) (\<lambda>_. deleted (ys @ [x]) d0) (\<lambda>e. pruning vs d0) (pruning vs d0)"
    if D: "deleted ys d0 d1" for d1
  proof -
    have same: "pruning vs d0 d" if "kept d1 x d" for d
      using D that x unfolding pruning_def vs
      by (intro exI [of _ "ys @ [x]"] exI [of _ zs]) (auto simp: deleted_def kept_def)
    have gone: "deleted (ys @ [x]) d0 d" if "kept d1 x d \<and> fmlookup (d_snaps d) x = None" for d
      using D that x by (auto simp: deleted_def kept_def)
    have self: "kept d1 x d1" by (simp add: kept_def)
    have rm: "hoare q (\<lambda>d. d = d1) (removeAll x) (\<lambda>_. deleted (ys @ [x]) d0) (\<lambda>e. pruning vs d0) (pruning vs d0)"
      by (rule hoare_conseq [OF hoare_removeAll [of q d1 x]]) (use same gone self in auto)
    have g: "hoare q (\<lambda>d. d = d1) (guard_io b s) (\<lambda>_ d. d = d1) (\<lambda>e. pruning vs d0) (pruning vs d0)" for b s
      by (rule hoare_pre [OF hoare_guard]) (use same [OF self] in auto)
    show ?thesis unfolding delete_one_def by (rule hoare_then [OF g rm])
  qed
  then show "hoare q (deleted ys d0) (delete_one x) (\<lambda>_. deleted (ys @ [x]) d0) (\<lambda>e. pruning vs d0) (pruning vs d0)"
    by (rule hoare_fix)
qed (simp add: deleted_def)

lemma hoare_prune_order:
  fixes keep :: nat
  assumes s: "pure snapshots d0 = Done ms" and b: "pure baselineID d0 = Done b"
  defines "vs \<equiv> victims keep b (length ms) (rev (map m_id ms))"
  shows "hoare q (\<lambda>d. d = d0) (prune keep) (\<lambda>_. deleted vs d0) (\<lambda>e. pruning vs d0) (pruning vs d0)"
proof -
  have self: "pruning vs d0 d0" unfolding pruning_def by (intro exI [of _ "[]"] exI [of _ vs]) simp
  have "distinct vs" using pure_snapshots(1) [OF s] by (simp add: vs_def victims_def distinct_take)
  note del = hoare_delete_all [OF this, of q d0]
  have sn: "hoare q (\<lambda>d. d = d0) snapshots (\<lambda>x d. x = ms \<and> d = d0) (\<lambda>e. pruning vs d0) (pruning vs d0)"
    by (rule hoare_ro) (use s self in \<open>auto intro: ro_rules\<close>)
  have bl: "hoare q (\<lambda>d. d = d0) baselineID (\<lambda>x d. x = b \<and> d = d0) (\<lambda>e. pruning vs d0) (pruning vs d0)"
    by (rule hoare_ro) (use b self in \<open>auto intro: ro_rules\<close>)
  have sy: "hoare q (deleted vs d0) (syncDir Top ''.'') (\<lambda>_. deleted vs d0) (\<lambda>e. pruning vs d0) (pruning vs d0)"
    by (rule hoare_ro) (use deleted_pruning [of vs d0 _ "[]"] in \<open>auto intro: ro_rules\<close>)
  show ?thesis
    unfolding prune_def
  proof (rule hoare_bind [OF sn], rule hoare_imp, rule hoare_bind [OF bl], rule hoare_imp)
    fix l p assume "l = ms" "p = b"
    then show "hoare q (\<lambda>d. d = d0) (then_io (prune_loop keep p (length l) (rev (map m_id l))) (syncDir Top ''.''))
        (\<lambda>_. deleted vs d0) (\<lambda>e. pruning vs d0) (pruning vs d0)"
      using hoare_then [OF del sy] by (simp add: prune_loop_victims vs_def)
  qed
qed


text \<open>The snapshots of a list in order of age, and those that retention takes.\<close>

lemma victims_oldest:
  assumes dist: "distinct (map m_id ms)" and sorted: "sorted_wrt (\<lambda>m m'. m_created m' \<le> m_created m) ms"
    and vs: "victims keep b (length ms) (rev (map m_id ms)) = ys @ zs"
  obtains A B where "map m_id A = ys" "set A \<union> set B = {m \<in> set ms. m_id m \<noteq> b}"
    "sorted_wrt (\<lambda>m m'. m_created m \<le> m_created m') (A @ B)"
    "length ys \<le> length ms - keep" "distinct ys" "zs = [] \<longrightarrow> B = [] \<or> length ys = length ms - keep"
proof -
  let ?L = "filter (\<lambda>m. m_id m \<noteq> b) (rev ms)" and ?k = "length ms - keep"
  have v: "ys @ zs = take ?k (map m_id ?L)"
    using vs by (simp add: victims_def rev_map filter_map comp_def)
  have len: "length ys \<le> ?k" using arg_cong [OF v, of length] by simp
  have "ys = take (length ys) (ys @ zs)" by simp
  then have "ys = take (length ys) (map m_id ?L)" using len unfolding v by (simp add: min_def)
  then have A: "map m_id (take (length ys) ?L) = ys" by (simp add: take_map)
  have "sorted_wrt (\<lambda>m m'. m_created m \<le> m_created m') (rev ms)" using sorted by (simp add: sorted_wrt_rev)
  then have s: "sorted_wrt (\<lambda>m m'. m_created m \<le> m_created m') ?L" by (rule sorted_wrt_filter)
  have "distinct (map m_id ?L)" using dist by (simp add: distinct_map_filter rev_map [symmetric])
  then have d: "distinct ys" using v by (metis distinct_append distinct_take)
  have z: "drop (length ys) ?L = [] \<or> length ys = ?k" if "zs = []"
  proof (cases "length ?L \<le> ?k")
    case True
    then have "ys = map m_id ?L" using v that by simp
    then show ?thesis by (metis drop_all length_map order_refl)
  next
    case False
    then show ?thesis using arg_cong [OF v, of length] that by simp
  qed
  show ?thesis
    by (rule that [OF A _ _ len d impI [OF z]]) (use s in \<open>auto simp: set_append [symmetric] simp del: set_append\<close>)
qed

lemma length_filters: "length (filter P xs) + length (filter (\<lambda>x. \<not> P x) xs) = length xs"
  by (rule sum_length_filter_compl)

text \<open>
  C13. Retention, whether it returns, fails or dies anywhere: it touches only snapshots of the list and never the
  baseline; every snapshot that it removed, or began to remove, is at least as old as each one
  that it left in place, the baseline apart; at least \<open>keep\<close> of them (or all, when there are fewer) are
  left. When it succeeds, those that it touched are gone, and at most \<open>keep\<close> are left, or only the baseline.
\<close>

theorem prune_removes_oldest:
  assumes "live q w" "pure snapshots (w_disk w) = Done ms" "pure baselineID (w_disk w) = Done b"
    "prune keep w = (out, w')"
  shows "(\<forall>i. fmlookup (d_snaps (w_disk w')) i \<noteq> fmlookup (d_snaps (w_disk w)) i \<longrightarrow>
        i \<noteq> b \<and> i \<in> m_id ` set ms \<and> (out = Done () \<longrightarrow> fmlookup (d_snaps (w_disk w')) i = None)) \<and>
     (\<forall>m\<in>set ms. \<forall>m'\<in>set ms.
        fmlookup (d_snaps (w_disk w')) (m_id m) \<noteq> fmlookup (d_snaps (w_disk w)) (m_id m) \<longrightarrow>
        fmlookup (d_snaps (w_disk w')) (m_id m') = fmlookup (d_snaps (w_disk w)) (m_id m') \<longrightarrow>
        m_id m' \<noteq> b \<longrightarrow> m_created m \<le> m_created m') \<and>
     (let left = filter (\<lambda>m. fmlookup (d_snaps (w_disk w')) (m_id m) = fmlookup (d_snaps (w_disk w)) (m_id m)) ms
      in min keep (length ms) \<le> length left \<and>
        (out = Done () \<longrightarrow> length left \<le> keep \<or> (\<forall>m\<in>set left. m_id m = b)))"
proof -
  let ?vs = "victims keep b (length ms) (rev (map m_id ms))"
  let ?same = "\<lambda>i. fmlookup (d_snaps (w_disk w')) i = fmlookup (d_snaps (w_disk w)) i"
  note snaps = pure_snapshots [OF assms(2)]
  have run: "case out of Done u \<Rightarrow> deleted ?vs (w_disk w) (w_disk w') | _ \<Rightarrow> pruning ?vs (w_disk w) (w_disk w')"
    using hoare_run [OF hoare_prune_order [OF assms(2,3)] assms(1) refl assms(4)] by (auto split: outcome.splits)
  obtain ys zs where vs: "?vs = ys @ zs" "\<forall>i\<in>set (butlast ys). fmlookup (d_snaps (w_disk w')) i = None"
      "\<forall>i. i \<notin> set ys \<longrightarrow> ?same i"
      and fin: "out = Done () \<Longrightarrow> zs = [] \<and> (\<forall>i\<in>set ys. fmlookup (d_snaps (w_disk w')) i = None)"
  proof (cases "out = Done ()")
    case True
    then have "deleted ?vs (w_disk w) (w_disk w')" using run by simp
    then show ?thesis by (intro that [of ?vs "[]"]) (auto simp: deleted_def dest: in_set_butlastD)
  next
    case False
    then have "pruning ?vs (w_disk w) (w_disk w')" using run by (cases out) simp_all
    then show ?thesis using that False unfolding pruning_def by blast
  qed
  obtain A B where A: "map m_id A = ys" "set A \<union> set B = {m \<in> set ms. m_id m \<noteq> b}"
      "sorted_wrt (\<lambda>m m'. m_created m \<le> m_created m') (A @ B)" "length ys \<le> length ms - keep" "distinct ys"
      "zs = [] \<longrightarrow> B = [] \<or> length ys = length ms - keep"
    by (rule victims_oldest [OF snaps(1,3) vs(1)]) blast
  have inj: "m = m'" if "m \<in> set ms" "m' \<in> set ms" "m_id m = m_id m'" for m m'
    using that snaps(1) by (auto simp: distinct_map dest: inj_onD)
  have ysA: "i \<in> set ys \<longleftrightarrow> i \<in> m_id ` set A" for i by (simp flip: A(1))
  have touched: "m \<in> set A" if "m \<in> set ms" "\<not> ?same (m_id m)" for m
    using vs(3) that A(2) inj ysA by (metis (no_types, lifting) UnI1 imageE mem_Collect_eq)
  have 1: "i \<noteq> b \<and> i \<in> m_id ` set ms \<and> (out = Done () \<longrightarrow> fmlookup (d_snaps (w_disk w')) i = None)" if i: "\<not> ?same i" for i
  proof -
    have y: "i \<in> set ys" using i vs(3) by blast
    then obtain m where m: "m \<in> set A" "i = m_id m" using ysA by blast
    then have "m \<in> set ms" "m_id m \<noteq> b" using A(2) by auto
    then show ?thesis using m(2) y fin by simp
  qed
  have 2: "m_created m \<le> m_created m'"
    if m: "m \<in> set ms" "m' \<in> set ms" "\<not> ?same (m_id m)" "?same (m_id m')" "m_id m' \<noteq> b" for m m'
  proof -
    have mA: "m \<in> set A" by (rule touched [OF m(1,3)])
    have "fmlookup (d_snaps (w_disk w')) (m_id m') \<noteq> None" using m(2,4) snaps(2) by auto
    then have nb: "m' \<notin> set (butlast A)" using vs(2) by (auto simp flip: A(1) simp: map_butlast [symmetric])
    consider "m' \<in> set B" | "m' \<in> set A" using A(2) m(2,5) by blast
    then show ?thesis
    proof cases
      case 1
      then show ?thesis using A(3) mA by (simp add: sorted_wrt_append)
    next
      case 2
      then have ne: "A \<noteq> []" by auto
      have "set A = insert (last A) (set (butlast A))"
        using arg_cong [OF append_butlast_last_id [OF ne], of set] by simp
      then have l: "m' = last A" using 2 nb by simp
      have "sorted_wrt (\<lambda>m m'. m_created m \<le> m_created m') (butlast A @ [last A])"
        using A(3) ne by (simp add: sorted_wrt_append)
      then show ?thesis using mA l ne by (cases A rule: rev_cases) (auto simp: sorted_wrt_append)
    qed
  qed
  let ?ch = "filter (\<lambda>m. \<not> ?same (m_id m)) ms" and ?left = "filter (\<lambda>m. ?same (m_id m)) ms"
  have len: "length ?left + length ?ch = length ms" by (rule length_filters)
  have dch: "distinct (map m_id ?ch)" using snaps(1) by (simp add: distinct_map_filter)
  have "set (map m_id ?ch) \<subseteq> set ys" using touched ysA by auto
  then have "length ?ch \<le> length ys"
    using card_mono [of "set ys" "set (map m_id ?ch)"] distinct_card [OF dch] distinct_card [OF A(5)] by simp
  then have 3: "min keep (length ms) \<le> length ?left" using len A(4) by linarith
  have 4: "length ?left \<le> keep \<or> (\<forall>m\<in>set ?left. m_id m = b)" if d: "out = Done ()"
  proof -
    have gone: "\<not> ?same (m_id m)" if "m \<in> set A" for m
    proof -
      have "m \<in> set ms" "m_id m \<in> set ys" using that A(2) ysA by auto
      then show ?thesis using fin [OF d] snaps(2) by auto
    qed
    have "B = [] \<or> length ys = length ms - keep" using A(6) fin [OF d] by blast
    then show ?thesis
    proof
      assume "B = []"
      then show ?thesis using gone A(2) by auto
    next
      assume l: "length ys = length ms - keep"
      have "set A \<subseteq> set ?ch" using gone A(2) by auto
      then have "set ys \<subseteq> set (map m_id ?ch)" unfolding A(1) [symmetric] set_map by (rule image_mono)
      then have "length ys \<le> length ?ch"
        using card_mono [of "set (map m_id ?ch)" "set ys"] distinct_card [OF dch] distinct_card [OF A(5)] by simp
      then show ?thesis using l len by linarith
    qed
  qed
  show ?thesis using 1 2 3 4 unfolding Let_def by blast
qed


text \<open>Two snapshots of one image, the second taken nine ticks after the first.\<close>

definition late_id :: string where
  "late_id = ''20240102T000000.000000000Z-00000000-0000-4000-8000-000000000000''"

definition aged :: "string \<Rightarrow> nat \<Rightarrow> manifest" where
  "aged i t = sample_manifest\<lparr>m_id := i, m_created := t\<rparr>"

definition aged_snap :: "string \<Rightarrow> nat \<Rightarrow> tree" where
  "aged_snap i t = \<lparr>t_nodes = fmap_of_list [(conf_path, File (Bytes ''[server]'') 384 0 0),
     (manifest_path, File (Doc (ManifestDoc (aged i t))) 384 0 0)], t_services = NoDir\<rparr>"

definition aged_world :: "event list \<Rightarrow> world" where
  "aged_world s = (sample_world s)\<lparr>w_disk := \<lparr>d_conf = sample_tree, d_top = empty_tree,
     d_snaps = fmap_of_list [(sample_id, aged_snap sample_id 0), (late_id, aged_snap late_id 9)]\<rparr>\<rparr>"

lemma late_id_ok: "validSnapshotID late_id" "utf8_valid late_id" "sample_id < late_id"
proof -
  show "validSnapshotID late_id" by (simp add: late_id_def) code_simp
  show "utf8_valid late_id" by (simp add: late_id_def runes_ascii(2) byte_of_def)
  show "sample_id < late_id" by (simp add: late_id_def sample_id_def)
qed

lemma aged_loads:
  assumes "fmlookup (d_snaps d) i = Some (aged_snap i n)" "validSnapshotID i" "utf8_valid i"
  shows "pure (loadSnapshot i) d = Done (json_manifest (aged i n), sample_old)"
proof -
  have mp: "path_clean manifest_path = manifest_path" "conf_path \<noteq> manifest_path" "\<not> prefix ''services/'' manifest_path"
    by code_simp+
  have "look conf_path (aged_snap i n) = Inr (File (Bytes ''[server]'') 384 0 0)"
    "look manifest_path (aged_snap i n) = Inr (File (Doc (ManifestDoc (aged i n))) 384 0 0)"
    using mp path_facts clean_conf_hosts by (simp_all add: look_def parent_error_def aged_snap_def)
  then have t: "snapshot_tree sample_old (aged i n) (aged_snap i n)"
    by (auto simp: snapshot_tree_def sample_keys fm_get_def simp del: set_sorted_keys)
  have st: "loadable sample_old" "manifest_bound sample_old ''Save & Apply''"
    using sample_storable by (auto simp: storable_def)
  have len: "length (manifest_json (aged i n)) \<le> MaxFileSize"
    using st(2) assms(2,3) by (simp add: manifest_bound_def aged_def sample_manifest_def)
  show ?thesis
    by (rule loads_snapshot [where t = "aged_snap i n"])
      (use t st(1) len assms in \<open>auto simp: manifest_for_def aged_def sample_manifest_def
         sample_keys path_facts validPath_def simp del: set_sorted_keys\<close>)
qed

lemma aged_listed:
  "pure snapshots (w_disk (aged_world s)) = Done [json_manifest (aged late_id 9), json_manifest (aged sample_id 0)]"
  "pure baselineID (w_disk (aged_world s)) = Done []"
proof -
  let ?d = "w_disk (aged_world s)"
  have ne: "late_id \<noteq> sample_id" using late_id_ok(3) by auto
  then have snaps: "fmlookup (d_snaps ?d) sample_id = Some (aged_snap sample_id 0)"
      "fmlookup (d_snaps ?d) late_id = Some (aged_snap late_id 9)"
    by (simp_all add: aged_world_def)
  have "sorted_keys (d_snaps ?d) = [sample_id, late_id]"
    by (rule sorted_distinct_set_unique) (use ne late_id_ok(3) in \<open>auto simp: aged_world_def\<close>)
  then have "pure io_list_snaps ?d = Done [sample_id, late_id]" by (simp add: io_list_snaps_def pure_sys)
  then show "pure snapshots ?d = Done [json_manifest (aged late_id 9), json_manifest (aged sample_id 0)]"
    using aged_loads [OF snaps(1)] aged_loads [OF snaps(2)] sample_id_ok(1,2) late_id_ok(1,2)
    by (simp add: snapshots_def pure_then pure_bind ro_rules io_flush_def pure_sys json_manifest_def aged_def)
  have "top_ok ?d" "pointed [] ?d"
    by (simp_all add: aged_world_def pointed_def base_ok_def top_file_def top_ok_def empty_tree_def wf_tree_def)
  then show "pure baselineID ?d = Done []" by (rule pure_baselineID)
qed

lemma prune_removes_oldest_witness:
  "fmlookup (d_snaps (w_disk (snd (prune 1 (aged_world [Pass, Pass]))))) late_id = Some (aged_snap late_id 9)"
proof -
  let ?w = "aged_world [Pass, Pass]"
  let ?m = "json_manifest (aged late_id 9)" and ?m' = "json_manifest (aged sample_id 0)"
  obtain out w' where r: "prune 1 ?w = (out, w')" by fastforce
  have l: "live False ?w"
    by (simp add: live_def calm_def) (simp add: aged_world_def sample_world_def)
  have ids: "m_id ?m = late_id" "m_id ?m' = sample_id" "m_created ?m = 9" "m_created ?m' = 0"
    using late_id_ok(2) sample_id_ok(2) by (simp_all add: json_manifest_def aged_def json_string_valid)
  have ne: "sample_id \<noteq> []" "late_id \<noteq> sample_id" using sample_id_ok(3) late_id_ok(3) by auto
  have "fmlookup (d_snaps (w_disk w')) late_id = fmlookup (d_snaps (w_disk ?w)) late_id"
    using prune_removes_oldest [OF l aged_listed r] ids ne by (auto simp: Let_def split: if_splits)
  then show ?thesis using r ne(2) by (simp add: aged_world_def)
qed

lemma loads_removed:
  "kept d0 i d \<Longrightarrow> i \<noteq> b \<Longrightarrow> pruned b d0 d"
  by (simp add: kept_def pruned_def)

lemma hoare_delete:
  assumes cl: "clean im b d0"
  shows "hoare q (\<lambda>d. d = d0) (DeleteSnapshot i) (\<lambda>_. clean im b) (\<lambda>e. clean im b) (clean im b)"
  unfolding DeleteSnapshot_def
proof (rule hoare_bind)
  let ?C = "clean im b"
  have top: "top_ok d0" "pointed b d0" "top_file d0 pending_path = None" using cl by (simp_all add: clean_def settled_def)
  show "hoare q (\<lambda>d. d = d0) baselineID (\<lambda>p d. p = b \<and> d = d0) (\<lambda>e. ?C) ?C"
    by (rule hoare_ro) (use cl pure_baselineID [OF top(1,2)] in \<open>auto intro: ro_rules\<close>)
  fix p
  have rm: "hoare q (\<lambda>d. d = d0) (then_io (loadSnapshot i) (join_io (removeAll i) (syncDir Top ''.'')))
      (\<lambda>_. ?C) (\<lambda>e. ?C) ?C" if ib: "i \<noteq> b"
  proof (rule hoare_then)
    show "hoare q (\<lambda>d. d = d0) (loadSnapshot i) (\<lambda>_ d. d = d0) (\<lambda>e. ?C) ?C"
      by (rule hoare_ro) (use cl in \<open>auto intro: ro_rules\<close>)
    have k: "?C d" if "kept d0 i d" for d using clean_pruned [OF cl loads_removed [OF that ib]] .
    have sy: "hoare q ?C (syncDir Top ''.'') (\<lambda>_. ?C) (\<lambda>e. ?C) ?C"
      by (rule hoare_ro) (auto intro: ro_rules)
    show "hoare q (\<lambda>d. d = d0) (join_io (removeAll i) (syncDir Top ''.'')) (\<lambda>_. ?C) (\<lambda>e. ?C) ?C"
      by (rule hoare_join [OF hoare_conseq [OF hoare_removeAll [of q d0 i]] sy sy]) (use k in \<open>auto simp: kept_def\<close>)
  qed
  let ?body = "or_missing (io_lstat Top pending_path)
       (then_io (loadSnapshot i) (join_io (removeAll i) (syncDir Top ''.'')))
       (\<lambda>_. fail (Msg ''transaction recovery pending''))"
  show "hoare q (\<lambda>d. p = b \<and> d = d0) (if i = p then fail (Msg ''cannot delete the current managed baseline'') else ?body)
      (\<lambda>_. ?C) (\<lambda>e. ?C) ?C"
  proof (rule hoare_imp, rule hoare_if)
    show "hoare q (\<lambda>d. d = d0) (fail (Msg ''cannot delete the current managed baseline'')) (\<lambda>_. ?C) (\<lambda>e. ?C) ?C"
      by (rule hoare_pre [OF hoare_fail]) (use cl in simp)
  next
    assume pb: "p = b" "i \<noteq> p"
    have ls: "hoare q (\<lambda>d. d = d0) (io_lstat Top pending_path) (\<lambda>_. ?C) (\<lambda>e d. d = d0) ?C"
      by (rule hoare_ro) (use cl in \<open>auto intro: ro_rules ro_calls\<close>)
    show "hoare q (\<lambda>d. d = d0) ?body (\<lambda>_. ?C) (\<lambda>e. ?C) ?C"
      by (rule hoare_or_missing [OF ls hoare_fail rm]) (use cl pb in auto)
  qed
qed

text \<open>C12. Deleting a snapshot, whatever its name and wherever it fails or dies, never takes away
  the baseline: the configuration is in place and the baseline pointer still loads.\<close>

theorem delete_keeps_baseline:
  assumes "live q w" "clean im b (w_disk w)" "DeleteSnapshot i w = (out, w')"
  shows "clean im b (w_disk w')"
  using hoare_run [OF hoare_delete [OF assms(2)] assms(1) refl assms(3)] by (auto split: outcome.splits)

lemma delete_keeps_baseline_witness:
  "clean sample_old [] (w_disk (snd (DeleteSnapshot sample_id (sample_world [Pass, Fails]))))"
proof (rule delete_keeps_baseline)
  show "live False (sample_world [Pass, Fails])" by (rule sample_live) (simp add: calm_def sample_world_def)
qed (auto simp: sample_clean prod_eq_iff)

end
