(* ===== verification/Reach.thy ===== *)
theory Reach
  imports StoreProps
begin

text \<open>
  The states of the disk that the operations of the store reach, one after another, each in a
  world of its own with any faults and a possible death of the process: a step relation, the
  invariant that every reachable state is sound, and the refusal of all operations while a journal
  is in force.
\<close>

section \<open>Refusal while a journal is in force\<close>

text \<open>
  Images whose snapshots can be read back, whatever the reason recorded with them: what
  \<open>ValidateImage\<close> and \<open>readFile\<close> check of the files, clean UTF-8 names, and a manifest that
  \<open>readFile\<close> accepts (its text is at most the weight of the image and 5000 bytes). The code does not
  check the last.
\<close>

definition sturdy :: "image \<Rightarrow> bool" where
  "sturdy im \<longleftrightarrow> new_ok im \<and> loadable im \<and> image_weight im + 5000 \<le> MaxFileSize"

lemma sturdy_storable: "sturdy im \<Longrightarrow> length reason \<le> 512 \<Longrightarrow> storable reason im"
  by (auto simp: sturdy_def storable_def intro!: manifest_bound_weight)

lemma pure_journal:
  assumes "journal d"
  shows "\<exists>n. pure (io_lstat Top pending_path) d = Done n" "\<exists>s. pure noPending d = Failed (Msg s)"
proof -
  obtain x u g where n: "top_file d pending_path = Some (File (Doc x) 384 u g)" and ok: "top_ok d"
    using assms by (auto simp: journal_def doc_node_def)
  have "look pending_path (d_top d) = Inr (File (Doc x) 384 u g)"
    using n ok wf_look [of "d_top d"] doc_paths(2,6) by (simp add: top_ok_def top_file_def)
  then have "pure (io_lstat Top pending_path) d = Done (File (Doc x) 384 u g)"
    by (simp add: io_lstat_def pure_sys in_tree_def)
  then show "\<exists>n. pure (io_lstat Top pending_path) d = Done n" "\<exists>s. pure noPending d = Failed (Msg s)"
    by (simp_all add: noPending_def pure_or_missing ro_rules ro_calls)
qed

lemma hoare_refused: "journal d0 \<Longrightarrow> hoare q (\<lambda>d. d = d0) noPending (\<lambda>_ d. False) (\<lambda>e d. d = d0) (\<lambda>d. d = d0)"
  using pure_journal(2) [of d0] by (intro hoare_ro) (auto intro: ro_rules)

lemma hoare_idle: "ro m \<Longrightarrow> hoare q (\<lambda>d. d = d0) m (\<lambda>_ d. d = d0) (\<lambda>e d. d = d0) (\<lambda>d. d = d0)"
  by (rule hoare_ro) auto

lemma hoare_stat_refused:
  assumes "journal d0"
  shows "hoare q (\<lambda>d. d = d0) (or_missing (io_lstat Top pending_path) m (\<lambda>_. fail e))
    (\<lambda>_ d. False) (\<lambda>e d. d = d0) (\<lambda>d. d = d0)"
proof (rule hoare_or_missing)
  show "hoare q (\<lambda>d. d = d0) (io_lstat Top pending_path) (\<lambda>_ d. d = d0) (\<lambda>e d. e = Fault \<and> d = d0) (\<lambda>d. d = d0)"
    by (rule hoare_ro) (use pure_journal(1) [OF assms] in \<open>auto intro: ro_rules ro_calls\<close>)
  show "hoare q (\<lambda>d. d = d0) (fail e) (\<lambda>_ d. False) (\<lambda>e d. d = d0) (\<lambda>d. d = d0)" for x :: node
    by (rule hoare_fail)
  show "hoare q (\<lambda>d. f = Fault \<and> d = d0) m (\<lambda>_ d. False) (\<lambda>e d. d = d0) (\<lambda>d. d = d0)" if "errors_is f ErrNotExist" for f
    by (rule hoare_imp) (use that in simp)
qed simp

lemma hoare_ids: "hoare q P geteuid (\<lambda>_. P) E C" "hoare q P getegid (\<lambda>_. P) E C"
  by (auto simp: hoare_def geteuid_def getegid_def)

text \<open>
  The operations that a client of the store can call; \<open>k\<close> tells whether the context of the call
  has ended.
\<close>

datatype request =
    Save string "(string, string option) fmap"
  | RestoreTo string string
  | TakeSnapshot string
  | Remove string
  | Accept string
  | Takeover

fun perform :: "xml_codec \<Rightarrow> bool \<Rightarrow> request \<Rightarrow> unit io" where
  "perform X k (Save expected changes) =
     bind_io (Apply X k expected changes (Some helper_controller)) (\<lambda>(r, e).
       case e of None \<Rightarrow> return () | Some e \<Rightarrow> fail e)"
| "perform X k (RestoreTo i expected) =
     bind_io (Restore X k i expected (Some helper_controller)) (\<lambda>(r, e).
       case e of None \<Rightarrow> return () | Some e \<Rightarrow> fail e)"
| "perform X k (TakeSnapshot reason) = bind_io (Snapshot reason) (\<lambda>_. return ())"
| "perform X k (Remove i) = DeleteSnapshot i"
| "perform X k (Accept expected) = bind_io (AcceptDisk expected) (\<lambda>_. return ())"
| "perform X k Takeover = bind_io Baseline (\<lambda>_. return ())"

lemma hoare_answer:
  assumes "hoare q P m (\<lambda>r. case snd r of None \<Rightarrow> Q () | Some e \<Rightarrow> E e) E C"
  shows "hoare q P (bind_io m (\<lambda>(r, e). case e of None \<Rightarrow> return () | Some e \<Rightarrow> fail e)) Q E C"
  by (rule hoare_bind [OF assms]) (auto intro: hoare_pre [OF hoare_return] hoare_pre [OF hoare_fail] split: option.split)

lemma hoare_done: "hoare q P m (\<lambda>_. Q) E C \<Longrightarrow> hoare q P (bind_io m (\<lambda>_. return ())) (\<lambda>_. Q) E C"
  by (rule hoare_bind) (auto intro: hoare_pre [OF hoare_return])

lemma hoare_refuse_tx:
  assumes j: "journal d0"
  shows "hoare q (\<lambda>d. d = d0) (apply_tx X cancelled expected old new reason c)
    (\<lambda>r d. snd r \<noteq> None \<and> d = d0) (\<lambda>e d. d = d0) (\<lambda>d. d = d0)"
proof -
  have no: "hoare q (\<lambda>d. d = d0) (return (r, Some e)) (\<lambda>r d. snd r \<noteq> None \<and> d = d0) (\<lambda>e d. d = d0) (\<lambda>d. d = d0)" for r e
    by (rule hoare_pre [OF hoare_return]) simp
  show ?thesis
    unfolding apply_tx_def Let_def
    by (rule hoare_if [OF no hoare_or_return [OF hoare_refused [OF j] hoare_false]]) simp
qed

lemma hoare_Apply_refused:
  assumes j: "journal d0"
  shows "hoare q (\<lambda>d. d = d0) (Apply X k expected changes c)
    (\<lambda>r d. snd r \<noteq> None \<and> d = d0) (\<lambda>e d. d = d0) (\<lambda>d. d = d0)"
  unfolding Apply_def
proof (rule hoare_or_return [OF hoare_idle [OF ro_read]])
  fix old
  show "hoare q (\<lambda>d. d = d0) (bind_io geteuid (\<lambda>eu. bind_io getegid (\<lambda>eg.
      or_return empty_result (lift_res (change_image eu eg old changes (sorted_keys changes) old)) (\<lambda>new.
        apply_tx X k expected old new ''Save & Apply'' c))))
    (\<lambda>r d. snd r \<noteq> None \<and> d = d0) (\<lambda>e d. d = d0) (\<lambda>d. d = d0)"
    by (rule hoare_bind [OF hoare_ids(1)], rule hoare_bind [OF hoare_ids(2)],
        rule hoare_or_return [OF hoare_idle [OF ro_lift] hoare_refuse_tx [OF j]]) simp
qed simp

lemma hoare_Restore_refused:
  assumes j: "journal d0"
  shows "hoare q (\<lambda>d. d = d0) (Restore X k i expected c)
    (\<lambda>r d. snd r \<noteq> None \<and> d = d0) (\<lambda>e d. d = d0) (\<lambda>d. d = d0)"
  unfolding Restore_def
proof (rule hoare_or_return [OF hoare_idle [OF ro_loadSnapshot]])
  fix x :: "manifest \<times> image"
  have "hoare q (\<lambda>d. d = d0) (or_return empty_result read (\<lambda>old.
      apply_tx X k expected old new (''Restore '' @ i) c))
     (\<lambda>r d. snd r \<noteq> None \<and> d = d0) (\<lambda>e d. d = d0) (\<lambda>d. d = d0)" for new
    by (rule hoare_or_return [OF hoare_idle [OF ro_read] hoare_refuse_tx [OF j]]) simp
  then show "hoare q (\<lambda>d. d = d0) (case x of (_, new) \<Rightarrow> or_return empty_result read (\<lambda>old.
      apply_tx X k expected old new (''Restore '' @ i) c))
     (\<lambda>r d. snd r \<noteq> None \<and> d = d0) (\<lambda>e d. d = d0) (\<lambda>d. d = d0)" by (cases x) simp
qed simp

lemma hoare_Snapshot_refused:
  "journal d0 \<Longrightarrow> hoare q (\<lambda>d. d = d0) (Snapshot reason) (\<lambda>_ d. False) (\<lambda>e d. d = d0) (\<lambda>d. d = d0)"
  unfolding Snapshot_def by (rule hoare_bind [OF hoare_idle [OF ro_read] hoare_stat_refused])

lemma hoare_Delete_refused:
  "journal d0 \<Longrightarrow> hoare q (\<lambda>d. d = d0) (DeleteSnapshot i) (\<lambda>_ d. False) (\<lambda>e d. d = d0) (\<lambda>d. d = d0)"
  unfolding DeleteSnapshot_def
  by (rule hoare_bind [OF hoare_idle [OF ro_baselineID]], rule hoare_if, rule hoare_fail, rule hoare_stat_refused)

lemma hoare_Accept_refused:
  "journal d0 \<Longrightarrow> hoare q (\<lambda>d. d = d0) (AcceptDisk expected) (\<lambda>_ d. False) (\<lambda>e d. d = d0) (\<lambda>d. d = d0)"
  unfolding AcceptDisk_def by (rule hoare_then [OF hoare_refused hoare_false])

lemma hoare_Baseline_refused:
  "journal d0 \<Longrightarrow> hoare q (\<lambda>d. d = d0) Baseline (\<lambda>_ d. False) (\<lambda>e d. d = d0) (\<lambda>d. d = d0)"
  unfolding Baseline_def by (rule hoare_then [OF hoare_refused hoare_false])

lemmas refusals = hoare_Apply_refused hoare_Restore_refused hoare_Snapshot_refused hoare_Delete_refused
  hoare_Accept_refused hoare_Baseline_refused

lemma hoare_perform_refused:
  assumes "journal d0"
  shows "hoare q (\<lambda>d. d = d0) (perform X k r) (\<lambda>_ d. False) (\<lambda>e d. d = d0) (\<lambda>d. d = d0)"
proof -
  note ref = refusals [OF assms]
  have ans: "hoare q (\<lambda>d. d = d0) (bind_io m (\<lambda>(r, e). case e of None \<Rightarrow> return () | Some e \<Rightarrow> fail e))
      (\<lambda>_ d. False) (\<lambda>e d. d = d0) (\<lambda>d. d = d0)"
    if "hoare q (\<lambda>d. d = d0) m (\<lambda>r d. snd r \<noteq> None \<and> d = d0) (\<lambda>e d. d = d0) (\<lambda>d. d = d0)" for m :: "(apply_result \<times> error option) io"
    by (rule hoare_answer, rule hoare_conseq [OF that]) (auto split: option.split)
  show ?thesis
    by (cases r; simp only: perform.simps)
      (rule ans [OF ref(1)] ans [OF ref(2)] hoare_done [OF ref(3)] ref(4) hoare_done [OF ref(5)] hoare_done [OF ref(6)])+
qed

text \<open>
  C10. While a journal is in force every operation that could change the store (saving,
  restoring, taking, deleting or accepting a snapshot) is refused: none succeeds, and
  the disk is exactly as it was.
\<close>

theorem journal_blocks:
  assumes "live q w" "journal (w_disk w)"
  shows "w_disk (snd (perform X k r w)) = w_disk w \<and> fst (perform X k r w) \<noteq> Done ()"
proof -
  obtain out w' where rw: "perform X k r w = (out, w')" by fastforce
  then show ?thesis
    using hoare_run [OF hoare_perform_refused [OF assms(2)] assms(1) refl rw] by (auto split: outcome.splits)
qed

lemma journal_blocks_witness:
  "w_disk (snd (perform sample_codec False (Remove sample_id) (pending_world []))) = w_disk (pending_world []) \<and>
   fst (perform sample_codec False (Remove sample_id) (pending_world [])) \<noteq> Done ()"
proof (rule journal_blocks)
  show "live False (pending_world [])"
    by (simp add: live_def calm_def) (simp add: pending_world_def sample_world_def)
  show "journal (w_disk (pending_world []))" using tx_journal [OF sample_tx] by (simp add: pending_world_def)
qed

section \<open>Reachable states\<close>

definition sound :: "disk \<Rightarrow> bool" where
  "sound d \<longleftrightarrow> (\<exists>im b. sturdy im \<and> clean im b d) \<or>
     (\<exists>old new s b. sturdy old \<and> sturdy new \<and> tx old new s b d)"

text \<open>
  The requests under which every snapshot can be read back. A save names the files by their clean
  UTF-8 paths, and the manifest of the image it asks for stays under the limit of \<open>readFile\<close>. A
  restored snapshot is one whose manifest names the files by clean UTF-8 paths, as each manifest written
  for such an image does, and again leaves room for another manifest of the same files.
\<close>

definition save_allowed :: "disk \<Rightarrow> (string, string option) fmap \<Rightarrow> bool" where
  "save_allowed d changes \<longleftrightarrow> changes_ok changes \<and>
     (\<forall>old b new. clean old b d \<longrightarrow> sturdy old \<longrightarrow> asked old changes new \<longrightarrow>
        image_weight new + 5000 \<le> MaxFileSize)"

definition restore_allowed :: "disk \<Rightarrow> string \<Rightarrow> bool" where
  "restore_allowed d i \<longleftrightarrow> (\<forall>im. loads i im d \<longrightarrow>
     (\<forall>p\<in>set (sorted_keys im). path_clean p = p \<and> utf8_valid p) \<and> image_weight im + 5000 \<le> MaxFileSize)"

fun allowed :: "disk \<Rightarrow> request \<Rightarrow> bool" where
  "allowed d (Save expected changes) = save_allowed d changes"
| "allowed d (RestoreTo i expected) = restore_allowed d i"
| "allowed d _ = True"

text \<open>
  A server of requests: each request is handled in a world of its own, and the process may be
  started again at any time, which begins with a recovery.
\<close>

inductive served :: "('r \<Rightarrow> 'a io) \<Rightarrow> (disk \<Rightarrow> 'r \<Rightarrow> bool) \<Rightarrow> disk \<Rightarrow> disk \<Rightarrow> bool" for handle ok where
  handled: "live q w \<Longrightarrow> ok (w_disk w) r \<Longrightarrow> served handle ok (w_disk w) (w_disk (snd (handle r w)))"
| restarted: "live q w \<Longrightarrow> served handle ok (w_disk w) (w_disk (snd (Recover (Some helper_controller) w)))"

inductive_cases servedE: "served handle ok d d'"

definition store_handle :: "xml_codec \<times> bool \<times> request \<Rightarrow> unit io" where
  "store_handle = (\<lambda>(X, k, r). perform X k r)"

definition store_ok :: "disk \<Rightarrow> xml_codec \<times> bool \<times> request \<Rightarrow> bool" where
  "store_ok d = (\<lambda>(X, k, r). allowed d r)"

lemma sound_clean: "sturdy im \<Longrightarrow> clean im b d \<Longrightarrow> sound d"
  by (auto simp: sound_def)

lemma sound_resting: "sturdy old \<Longrightarrow> sturdy new \<Longrightarrow> resting old new d \<Longrightarrow> sound d"
  using committed_clean by (auto simp: sound_def resting_def)

lemma storable_manifest: "sturdy im \<Longrightarrow> manifest_bound im ''Managed configuration''"
  using sturdy_storable [of im "''Managed configuration''"] by (simp add: storable_def)

lemma hoare_all: "hoare q P m (\<lambda>_. S) (\<lambda>_. S) S \<Longrightarrow> live q w \<Longrightarrow> P (w_disk w) \<Longrightarrow> S (w_disk (snd (m w)))"
  by (cases "m w", cases "fst (m w)") (drule hoareD, assumption, assumption, simp add: post_def)+

lemma asked_sturdy:
  assumes "asked old changes new" "sturdy old" "changes_ok changes" "ValidateImage X new = Inr ()"
    "image_weight new + 5000 \<le> MaxFileSize"
  shows "sturdy new"
  using change_image_storable [OF _ _ _ assms(3,4)] assms by (auto simp: asked_def sturdy_def)

lemma load_files_modes:
  "pure (load_files i m ps acc im) d = Done im' \<Longrightarrow> fmlookup im' p = Some f \<Longrightarrow>
     (\<And>p f. fmlookup im p = Some f \<Longrightarrow> f_mode f AND NOT 511 = 0) \<Longrightarrow> f_mode f AND NOT 511 = 0"
proof (induction ps arbitrary: acc im)
  case (Cons q ps)
  show ?case
  proof (cases "fmlookup (m_files m) q")
    case None
    then show ?thesis using Cons by simp
  next
    case (Some e)
    then obtain g acc' where m: "me_mode e AND NOT 511 = 0"
      and l: "pure (load_files i m ps acc' (fmupd q (g\<lparr>f_mode := me_mode e, f_uid := me_uid e, f_gid := me_gid e\<rparr>) im)) d = Done im'"
      using Cons.prems(1) by (auto simp: pure_then pure_bind ro_rules split: if_splits outcome.splits)
    show ?thesis
      by (rule Cons.IH [OF l Cons.prems(2)]) (use m Cons.prems(3) in \<open>auto split: if_splits\<close>)
  qed
qed auto

lemma loads_modes:
  assumes "loads i im d" "fmlookup im p = Some f"
  shows "f_mode f AND NOT 511 = 0"
proof -
  obtain m ps where "pure (load_files i m ps 0 fmempty) d = Done im"
    using assms(1)
    by (auto simp: loads_def loadSnapshot_def pure_then pure_bind ro_rules split: if_splits outcome.splits doc.splits)
  then show ?thesis using load_files_modes assms(2) by fastforce
qed

lemma mode_bits: "(x :: 32 word) AND NOT 511 = 0 \<Longrightarrow> x AND 511 = x"
proof -
  assume z: "x AND NOT 511 = 0"
  have "x = x AND (511 OR NOT 511)" by simp
  also have "\<dots> = (x AND 511) OR (x AND NOT 511)" by (rule bit.conj_disj_distrib)
  finally show "x AND 511 = x" using z by simp
qed

lemma restored_sturdy:
  assumes l: "loads i im d" and a: "restore_allowed d i" and v: "ValidateImage X im = Inr ()"
  shows "sturdy im"
proof -
  have io: "image_ok X im" using v validate_image_ok [of X im] by simp
  have names: "path_clean p = p" "utf8_valid p" if "fmlookup im p = Some f" for p f
    using a l that by (auto simp: restore_allowed_def fmlookup_dom_iff)
  have "managed_path p" if "fmlookup im p = Some f" for p f
    using validPath_clean [of p] names(1) [OF that] io that by (auto simp: image_ok_def)
  then show ?thesis
    using io names loads_modes [OF l] mode_bits a l
    by (auto simp: sturdy_def new_ok_def loadable_def canonical_def image_ok_def restore_allowed_def fmlookup_dom_iff)
qed

lemma hoare_apply_sound:
  assumes cl: "clean old b d0" and s: "sturdy old" and r: "length reason \<le> 512"
    and new: "ValidateImage X new = Inr () \<Longrightarrow> sturdy new"
  shows "hoare q (\<lambda>d. d = d0) (apply_tx X k expected old new reason (Some helper_controller))
    (\<lambda>_. sound) (\<lambda>_. sound) sound"
proof (cases "ValidateImage X new = Inr ()")
  case True
  have "new_ok new \<and> loadable new \<and> manifest_bound new ''Managed configuration''"
    using new [OF True] storable_manifest by (auto simp: sturdy_def)
  then show ?thesis
    by (intro hoare_conseq [OF helper.hoare_apply_tx [OF cl sturdy_storable [OF s r]]])
      (use sound_resting [OF s new [OF True]] committed_clean in \<open>auto simp: answered_def resting_def split: option.splits\<close>)
next
  case False
  then have v: "ValidateImage X new = Inr () \<Longrightarrow> new_ok new \<and> loadable new \<and> manifest_bound new ''Managed configuration''" by simp
  have t: "hoare q (\<lambda>d. d = d0) (lift_res (ValidateImage X new)) (\<lambda>_ _. False) (\<lambda>e. sound) sound"
    using False sound_clean [OF s cl]
    by (intro hoare_pre [OF hoare_lift]) (auto split: sum.splits)
  have idle: "hoare q (\<lambda>d. d = d0) noPending (\<lambda>_ d. d = d0) (\<lambda>_. sound) sound"
    by (rule hoare_ro) (use sound_clean [OF s cl] in \<open>auto intro: ro_rules\<close>)
  have no: "hoare q (\<lambda>d. d = d0) (return (r, Some e)) (\<lambda>_. sound) (\<lambda>_. sound) sound" for r :: apply_result and e
    by (rule hoare_pre [OF hoare_return]) (use sound_clean [OF s cl] in simp)
  show ?thesis
    unfolding apply_tx_def Let_def
    by (rule hoare_if [OF no hoare_or_return [OF idle hoare_or_return [OF t hoare_false]]])
qed

lemma hoare_or_sound:
  assumes "hoare q P m R (\<lambda>_. S) C" "\<And>x. hoare q (R x) (k x) (\<lambda>_. S) E C"
  shows "hoare q P (or_return r m k) (\<lambda>_. S) E C"
  by (rule hoare_or_return [OF assms]) simp

lemma hoare_read_clean:
  assumes "clean im b d0" "S d0"
  shows "hoare q (\<lambda>d. d = d0) read (\<lambda>x d. x = im \<and> d = d0) (\<lambda>_. S) S"
  by (rule hoare_ro) (use clean_read [OF assms(1)] assms(2) in \<open>auto intro: ro_rules\<close>)

lemma hoare_prune_clean:
  "clean im b d0 \<Longrightarrow> hoare q (\<lambda>d. d = d0) (prune keep) (\<lambda>_. clean im b) (\<lambda>_. clean im b) (clean im b)"
  by (rule hoare_conseq [OF hoare_prune [of d0 b]]) (auto simp: settled_old intro: clean_pruned)

lemma hoare_recordBaseline_clean:
  assumes cl: "clean im b d0" and can: "canonical im"
  shows "hoare q (\<lambda>d. d = d0) (recordBaseline im reason) (\<lambda>m. clean im (m_id m))
    (\<lambda>_ d. \<exists>b. clean im b d) (\<lambda>d. \<exists>b. clean im b d)"
  by (rule hoare_conseq [OF hoare_recordBaseline [OF _ can]])
    (use settled_old [OF cl] clean_upkeep [OF cl] settled_upkeep in \<open>auto simp: clean_def recorded_def\<close>)

text \<open>A computation that leaves a sound disk whatever happens to it.\<close>

definition secure :: "disk \<Rightarrow> 'a io \<Rightarrow> bool" where
  "secure d0 m \<longleftrightarrow> (\<forall>q. hoare q (\<lambda>d. d = d0) m (\<lambda>_. sound) (\<lambda>_. sound) sound)"

lemma secureI: "(\<And>q. hoare q (\<lambda>d. d = d0) m (\<lambda>_. sound) (\<lambda>_. sound) sound) \<Longrightarrow> secure d0 m"
  by (simp add: secure_def)

lemma secureD: "secure d0 m \<Longrightarrow> hoare q (\<lambda>d. d = d0) m (\<lambda>_. sound) (\<lambda>_. sound) sound"
  by (simp add: secure_def)

lemma sound_cases:
  assumes "sound d0"
  obtains im b where "sturdy im" "clean im b d0" | "journal d0"
  using assms tx_journal by (auto simp: sound_def)

lemma secure_refused:
  assumes "sound d0" "\<And>q. hoare q (\<lambda>d. d = d0) m R (\<lambda>e d. d = d0) (\<lambda>d. d = d0)" "\<And>x d. R x d \<Longrightarrow> sound d"
  shows "secure d0 m"
  by (rule secureI, rule hoare_conseq [OF assms(2)]) (use assms in auto)

lemma secure_run:
  assumes "secure (w_disk w) m" "live q w"
  shows "sound (w_disk (snd (m w)))"
  using hoare_all [OF secureD [OF assms(1)] assms(2)] by blast

lemma secure_noPending: "sound d0 \<Longrightarrow> hoare q (\<lambda>d. d = d0) noPending (\<lambda>_ d. d = d0) (\<lambda>_. sound) sound"
  by (rule hoare_ro) (auto intro: ro_rules)

lemma hoare_read_sound:
  "clean im b d0 \<Longrightarrow> sound d0 \<Longrightarrow> hoare q (\<lambda>d. d = d0) read (\<lambda>x d. x = im \<and> d = d0) (\<lambda>_. sound) sound"
  by (rule hoare_read_clean [of im b d0 sound])

lemma hoare_prune_sound:
  "sturdy im \<Longrightarrow> hoare q (clean im b) (prune keep) (\<lambda>_. clean im b) (\<lambda>_. sound) sound"
  by (rule hoare_fix, rule hoare_conseq [OF hoare_prune_clean]) (auto intro: sound_clean)

lemma hoare_record_sound:
  assumes "sturdy im" "clean im b d0"
  shows "hoare q (\<lambda>d. d = d0) (recordBaseline im reason) (\<lambda>m. clean im (m_id m)) (\<lambda>_. sound) sound"
proof -
  have "canonical im" using assms(1) by (simp add: sturdy_def loadable_def)
  then show ?thesis
    by (intro hoare_conseq [OF hoare_recordBaseline_clean [OF assms(2)]]) (use sound_clean [OF assms(1)] in auto)
qed

lemma hoare_prune_return:
  "sturdy im \<Longrightarrow> hoare q (clean im b) (then_io (prune keep) (return y)) (\<lambda>_. sound) (\<lambda>_. sound) sound"
  by (rule hoare_then [OF hoare_prune_sound], assumption, rule hoare_pre [OF hoare_return]) (rule sound_clean)

lemma secure_Apply:
  assumes s0: "sound d0" and ok: "save_allowed d0 changes"
  shows "secure d0 (Apply X k expected changes (Some helper_controller))"
  using s0
proof (cases rule: sound_cases)
  case (1 im b)
  let ?go = "\<lambda>old eu eg. or_return empty_result (lift_res (change_image eu eg old changes (sorted_keys changes) old))
      (\<lambda>new. apply_tx X k expected old new ''Save & Apply'' (Some helper_controller))"
  have go: "hoare q (\<lambda>d. d = d0) (?go im 0 0) (\<lambda>_. sound) (\<lambda>_. sound) sound" for q
  proof (rule hoare_or_sound)
    show "hoare q (\<lambda>d. d = d0) (lift_res (change_image 0 0 im changes (sorted_keys changes) im))
        (\<lambda>new d. asked im changes new \<and> d = d0) (\<lambda>_. sound) sound"
      by (rule hoare_conseq [OF hoare_lift_res [where E = "\<lambda>_. sound" and P = "\<lambda>d. d = d0"]])
        (use s0 in \<open>auto simp: asked_def\<close>)
    fix new
    show "hoare q (\<lambda>d. asked im changes new \<and> d = d0)
        (apply_tx X k expected im new ''Save & Apply'' (Some helper_controller)) (\<lambda>_. sound) (\<lambda>_. sound) sound"
      by (rule hoare_imp, rule hoare_apply_sound [OF 1(2,1)])
        (use ok 1 asked_sturdy [OF _ 1(1)] in \<open>auto simp: save_allowed_def\<close>)
  qed
  have ids: "hoare q (\<lambda>d. old = im \<and> d = d0) (bind_io geteuid (\<lambda>eu. bind_io getegid (?go old eu)))
      (\<lambda>_. sound) (\<lambda>_. sound) sound" for q old
  proof (rule hoare_bind [OF hoare_geteuid], rule hoare_bind [OF hoare_getegid])
    fix eu eg :: int
    show "hoare q (\<lambda>d. eg = 0 \<and> eu = 0 \<and> old = im \<and> d = d0) (?go old eu eg) (\<lambda>_. sound) (\<lambda>_. sound) sound"
      by (intro hoare_imp) (use go in simp)
  qed
  show ?thesis
    unfolding Apply_def
    by (rule secureI, rule hoare_or_sound [OF hoare_read_sound [OF 1(2) s0] ids])
next
  case 2
  show ?thesis by (rule secure_refused [OF s0 hoare_Apply_refused [OF 2]]) (use s0 in auto)
qed

lemma secure_Restore:
  assumes s0: "sound d0" and ok: "restore_allowed d0 i"
  shows "secure d0 (Restore X k i expected (Some helper_controller))"
  using s0
proof (cases rule: sound_cases)
  case (1 im b)
  let ?go = "\<lambda>new. or_return empty_result read (\<lambda>old.
      apply_tx X k expected old new (''Restore '' @ i) (Some helper_controller))"
  have go: "hoare q (\<lambda>d. loads i new d0 \<and> d = d0) (?go new) (\<lambda>_. sound) (\<lambda>_. sound) sound" for q new
  proof (rule hoare_imp, rule hoare_or_sound [OF hoare_read_sound [OF 1(2) s0]])
    fix old assume l: "loads i new d0"
    have "length (''Restore '' @ i) \<le> 512" using loads_valid [OF l] by (simp add: validSnapshotID_def)
    then show "hoare q (\<lambda>d. old = im \<and> d = d0)
        (apply_tx X k expected old new (''Restore '' @ i) (Some helper_controller)) (\<lambda>_. sound) (\<lambda>_. sound) sound"
      by (intro hoare_imp) (simp add: hoare_apply_sound [OF 1(2,1) _ restored_sturdy [OF l ok]])
  qed
  show ?thesis
    unfolding Restore_def
  proof (rule secureI, rule hoare_or_sound)
    show "hoare q (\<lambda>d. d = d0) (loadSnapshot i) (\<lambda>(_, new) d. loads i new d0 \<and> d = d0) (\<lambda>_. sound) sound" for q
      by (rule hoare_ro) (use s0 in \<open>auto simp: loads_def intro: ro_rules\<close>)
    show "hoare q (case x of (_, new) \<Rightarrow> \<lambda>d. loads i new d0 \<and> d = d0) (case x of (_, new) \<Rightarrow> ?go new)
        (\<lambda>_. sound) (\<lambda>_. sound) sound" for q x
      using go by (cases x) simp
  qed
next
  case 2
  show ?thesis by (rule secure_refused [OF s0 hoare_Restore_refused [OF 2]]) (use s0 in auto)
qed

lemma secure_Snapshot:
  assumes s0: "sound d0"
  shows "secure d0 (Snapshot reason)"
  using s0
proof (cases rule: sound_cases)
  case (1 im b)
  have can: "canonical im" using 1 by (simp add: sturdy_def loadable_def)
  have "hoare q (\<lambda>d. d = d0) (snapshot im reason) (\<lambda>_. clean im b) (\<lambda>_. sound) sound" for q
    by (rule hoare_conseq [OF hoare_snapshot [OF can]])
      (use clean_backups [OF 1(2)] sound_clean [OF 1(1)] kept_backups in \<open>auto simp: snapshot_made_def\<close>)
  note sn = hoare_bind [OF this hoare_prune_return [OF 1(1)]]
  have go: "hoare q (\<lambda>d. x = im \<and> d = d0) (or_missing (io_lstat Top pending_path)
     (bind_io (snapshot x reason) (\<lambda>m. then_io (prune 20) (return m)))
     (\<lambda>_. fail (Msg ''transaction recovery pending''))) (\<lambda>_. sound) (\<lambda>_. sound) sound" for q x
  proof (rule hoare_imp, rule hoare_or_missing)
    assume x: "x = im"
    show "hoare q (\<lambda>d. d = d0) (io_lstat Top pending_path) (\<lambda>_. sound) (\<lambda>_ d. d = d0) sound"
      by (rule hoare_ro) (use s0 in \<open>auto intro: ro_rules ro_calls\<close>)
    show "hoare q (\<lambda>d. d = d0) (bind_io (snapshot x reason) (\<lambda>m. then_io (prune 20) (return m))) (\<lambda>_. sound) (\<lambda>_. sound) sound"
      using sn x by simp
  qed (use s0 hoare_fail in auto)
  show ?thesis
    unfolding Snapshot_def by (rule secureI, rule hoare_bind [OF hoare_read_sound [OF 1(2) s0] go])
next
  case 2
  show ?thesis by (rule secure_refused [OF s0 hoare_Snapshot_refused [OF 2]]) auto
qed

lemma secure_Delete:
  assumes s0: "sound d0"
  shows "secure d0 (DeleteSnapshot i)"
  using s0
proof (cases rule: sound_cases)
  case (1 im b)
  show ?thesis by (rule secureI, rule hoare_conseq [OF hoare_delete [OF 1(2)]]) (use sound_clean [OF 1(1)] in auto)
next
  case 2
  show ?thesis by (rule secure_refused [OF s0 hoare_Delete_refused [OF 2]]) auto
qed

lemma secure_Accept:
  assumes s0: "sound d0"
  shows "secure d0 (AcceptDisk expected)"
  using s0
proof (cases rule: sound_cases)
  case (1 im b)
  have go: "hoare q (\<lambda>d. x = im \<and> d = d0) (if expected = [] \<or> expected \<noteq> Revision x then fail ErrConflict
     else bind_io (recordBaseline x ''Reload from disk'') (\<lambda>m. then_io (prune 20) (return (m, x)))) (\<lambda>_. sound) (\<lambda>_. sound) sound" for q x
    by (rule hoare_imp, rule hoare_if, rule hoare_pre [OF hoare_fail])
      (use s0 hoare_bind [OF hoare_record_sound [OF 1] hoare_prune_return [OF 1(1)]] in auto)
  show ?thesis
    unfolding AcceptDisk_def
    by (rule secureI, rule hoare_then [OF secure_noPending [OF s0] hoare_bind [OF hoare_read_sound [OF 1(2) s0] go]])
next
  case 2
  show ?thesis by (rule secure_refused [OF s0 hoare_Accept_refused [OF 2]]) auto
qed

lemma secure_Baseline:
  assumes s0: "sound d0"
  shows "secure d0 Baseline"
  using s0
proof (cases rule: sound_cases)
  case (1 im b)
  have ret: "hoare q (clean im b') (return y) (\<lambda>_. sound) (\<lambda>_. sound) sound" for q b' and y :: "manifest \<times> image"
    by (rule hoare_pre [OF hoare_return], rule sound_clean [OF 1(1)])
  have go: "hoare q (\<lambda>d. x = im \<and> d = d0) (bind_io (recordBaseline x ''Initial takeover'') (\<lambda>m. return (m, x)))
      (\<lambda>_. sound) (\<lambda>_. sound) sound" for q x
    by (rule hoare_imp) (use hoare_bind [OF hoare_record_sound [OF 1] ret] in simp)
  have bi: "hoare q (\<lambda>d. d = d0) baselineID (\<lambda>_ d. d = d0) (\<lambda>_. sound) sound"
    and ld: "hoare q (\<lambda>d. d = d0) (loadSnapshot i) (\<lambda>_. sound) (\<lambda>_. sound) sound" for q i
    by (rule hoare_ro; use s0 in \<open>auto intro: ro_rules\<close>)+
  have "hoare q (\<lambda>d. d = d0) (if i \<noteq> [] then loadSnapshot i
     else bind_io read (\<lambda>im. bind_io (recordBaseline im ''Initial takeover'') (\<lambda>m. return (m, im)))) (\<lambda>_. sound) (\<lambda>_. sound) sound" for q i
    by (rule hoare_if [OF ld hoare_bind [OF hoare_read_sound [OF 1(2) s0] go]])
  then show ?thesis
    unfolding Baseline_def by (intro secureI hoare_then [OF secure_noPending [OF s0]] hoare_bind [OF bi])
next
  case 2
  show ?thesis by (rule secure_refused [OF s0 hoare_Baseline_refused [OF 2]]) auto
qed

lemma secure_Recover:
  assumes s0: "sound d0"
  shows "secure d0 (Recover (Some helper_controller))"
proof -
  consider im b where "sturdy im" "clean im b d0" | old new s b where "sturdy old" "sturdy new" "tx old new s b d0"
    using s0 by (auto simp: sound_def)
  then show ?thesis
  proof cases
    case 1
    show ?thesis
      by (rule secureI, rule hoare_conseq [OF helper.hoare_recover_idle [of "clean im b"]])
        (use 1 sound_clean [OF 1(1)] in \<open>auto simp: clean_def settled_def\<close>)
  next
    case 2
    show ?thesis
      unfolding Recover_def
      by (rule secureI, rule hoare_conseq [OF helper.hoare_recover_tx [OF 2(3)]])
        (use 2 sound_clean [OF 2(1)] in \<open>auto simp: sound_def sturdy_def\<close>)
  qed
qed

lemma secure_bind:
  assumes "secure d0 m" "\<And>x. \<exists>y. k x = return y \<or> (\<exists>e. k x = fail e)"
  shows "secure d0 (bind_io m k)"
proof (rule secureI, rule hoare_bind [OF secureD [OF assms(1)]])
  fix q x
  consider y where "k x = return y" | e where "k x = fail e" using assms(2) by blast
  then show "hoare q sound (k x) (\<lambda>_. sound) (\<lambda>_. sound) sound"
    by cases (auto intro: hoare_pre [OF hoare_return] hoare_pre [OF hoare_fail])
qed

lemmas secure_operations = secure_Apply secure_Restore secure_Snapshot secure_Delete secure_Accept
  secure_Baseline

lemma secure_done: "secure d0 m \<Longrightarrow> secure d0 (bind_io m (\<lambda>_. return ()))"
  by (rule secure_bind) auto

lemma secure_answer:
  "secure d0 m \<Longrightarrow> secure d0 (bind_io m (\<lambda>(r, e). case e of None \<Rightarrow> return () | Some e \<Rightarrow> fail e))"
proof (rule secure_bind)
  fix x :: "'a \<times> error option"
  obtain r e where x: "x = (r, e)" by fastforce
  show "\<exists>y. (case x of (r, e) \<Rightarrow> case e of None \<Rightarrow> return () | Some e \<Rightarrow> fail e) = return y \<or>
      (\<exists>e. (case x of (r, e) \<Rightarrow> case e of None \<Rightarrow> return () | Some e \<Rightarrow> fail e) = fail e)"
    unfolding x by (cases e) (simp_all, blast)
qed

lemma secure_perform: "sound d0 \<Longrightarrow> allowed d0 r \<Longrightarrow> secure d0 (perform X k r)"
  by (cases r) (simp_all add: secure_answer secure_done secure_operations)

text \<open>The contract of a server that keeps the store sound, and what it gives for a whole run.\<close>

locale server =
  fixes handle :: "'r \<Rightarrow> 'a io" and ok :: "disk \<Rightarrow> 'r \<Rightarrow> bool"
  assumes handle_secure: "sound d \<Longrightarrow> ok d r \<Longrightarrow> secure d (handle r)"
begin

lemma step_sound: "served handle ok d d' \<Longrightarrow> sound d \<Longrightarrow> sound d'"
  by (induction rule: served.induct) (auto intro: secure_run handle_secure secure_Recover)

lemma run_sound: "(served handle ok)\<^sup>*\<^sup>* d d' \<Longrightarrow> sound d \<Longrightarrow> sound d'"
  by (induction rule: rtranclp_induct) (auto intro: step_sound)

end

interpretation store: server store_handle store_ok
  by unfold_locales (auto simp: store_handle_def store_ok_def intro: secure_perform)

definition recovers :: "world \<Rightarrow> bool" where
  "recovers w \<longleftrightarrow>
     (case Recover (Some helper_controller) w of
        (Done u, w') \<Rightarrow> \<exists>im b. sturdy im \<and> clean im b (w_disk w')
      | (Failed e, w') \<Rightarrow> oversized (w_disk w) \<and> journal (w_disk w) \<and> w_disk w' = w_disk w
      | (Crashed, w') \<Rightarrow> w_limit w' \<le> w_tick w')"

lemma recovers_post:
  assumes "sturdy im" "post True (\<lambda>_. clean im b)
    (\<lambda>e d. oversized (w_disk w) \<and> journal (w_disk w) \<and> d = w_disk w) (\<lambda>_. True) (Recover (Some helper_controller) w)"
  shows "recovers w"
  using assms unfolding recovers_def by (auto simp: post_def split: outcome.splits prod.splits) blast

lemma sound_recovers:
  assumes s: "sound (w_disk w)" and w: "live True w"
  shows "recovers w"
proof -
  let ?E = "\<lambda>(e :: error) d. oversized (w_disk w) \<and> journal (w_disk w) \<and> d = w_disk w"
  consider im b where "sturdy im" "clean im b (w_disk w)"
    | old new s b where "sturdy old" "sturdy new" "tx old new s b (w_disk w)"
    using s by (auto simp: sound_def)
  then show ?thesis
  proof cases
    case 1
    have "hoare True (clean im b) (Recover (Some helper_controller)) (\<lambda>_. clean im b) ?E (\<lambda>_. True)"
      by (rule hoare_conseq [OF helper.hoare_recover_idle [of "clean im b"]]) (auto simp: clean_def settled_def)
    from recovers_post [OF 1(1) hoareD [OF this w 1(2)]] show ?thesis .
  next
    case 2
    have "hoare True (\<lambda>d. d = w_disk w) (Recover (Some helper_controller)) (\<lambda>_. clean old b) ?E (\<lambda>_. True)"
      unfolding Recover_def
      by (rule hoare_conseq [OF helper.hoare_recover_tx [OF 2(3)]])
        (use 2 tx_journal [OF 2(3)] in \<open>auto simp: sturdy_def\<close>)
    from recovers_post [OF 2(1) hoareD [OF this w refl]] show ?thesis .
  qed
qed

text \<open>
  C3. Every state that the store's operations and recoveries reach from a sound state, each
  failing anywhere or dying at any system call, is sound: either one whole image is in place
  with a baseline that loads and no journal, or a journal is in force from which the old image
  loads, and every file is old or new. One recovery without faults then ends in the first case
  (unless the random source kills it); it fails only when the files on disk under a journal are
  together over \<open>MaxTotalSize\<close>, and leaves such a disk as it is. The requests are those of \<open>store_ok\<close>: saves
  and restores that name files by clean UTF-8 paths and whose manifest stays under the 1 MiB that
  \<open>readFile\<close> accepts; the code checks neither. All other operations are unrestricted, and so is the
  size of the images up to the limits that the code itself enforces.
\<close>

theorem reachable_sound:
  assumes "sound d" "(served store_handle store_ok)\<^sup>*\<^sup>* d (w_disk w)"
  shows "sound (w_disk w) \<and> (live True w \<longrightarrow> recovers w)"
  using store.run_sound [OF assms(2,1)] sound_recovers by blast

lemma sample_sturdy: "sturdy sample_old" "sturdy sample_new"
  using sample_image_ok(1,3,4) [of sample_old] sample_image_ok(1,3,4) [of sample_new]
    sample_storable [of sample_old] sample_storable [of sample_new]
  by (auto simp: sturdy_def storable_def MaxFileSize_def MaxTotalSize_def)

lemma pending_live: "calm w \<Longrightarrow> w = pending_world es \<Longrightarrow> live False w"
  by (simp add: live_def) (simp add: pending_world_def sample_world_def)

lemma reachable_sound_witness:
  "sound (w_disk (snd (Recover (Some helper_controller) (pending_world [Pass, Pass, Pass, Dies]))))"
proof -
  have l: "live False (pending_world [Pass, Pass, Pass, Dies])"
    by (rule pending_live [OF _ refl]) (simp add: calm_def pending_world_def sample_world_def)
  have "sound sample_pending" using sample_tx sample_sturdy by (auto simp: sound_def)
  then have "sound (w_disk (pending_world [Pass, Pass, Pass, Dies]))" by (simp add: pending_world_def)
  then show ?thesis
    using reachable_sound r_into_rtranclp [of "served store_handle store_ok", OF restarted [OF l]] by blast
qed

section \<open>A transaction that cannot be undone\<close>

lemma hoare_recover_stuck:
  assumes j: "journal d0" and wf: "wf_tree (d_conf d0)" and big: "oversized d0"
  shows "hoare q (\<lambda>d. d = d0) (Recover (Some c)) (\<lambda>_ d. False) (\<lambda>e d. d = d0) (\<lambda>d. d = d0)"
proof -
  have no: "pure read d0 \<noteq> Done im" for im
  proof
    assume "pure read d0 = Done im"
    then have im: "\<forall>p. fmlookup im p = cfg (d_conf d0) p" "image_size im \<le> MaxTotalSize"
      using wf by (simp_all add: pure_read)
    obtain im' where im': "\<forall>p. fmlookup im' p = cfg (d_conf d0) p" "MaxTotalSize < image_size im'"
      using big by (auto simp: oversized_def)
    have "im' = im" using im(1) im'(1) by (intro fmap_ext) simp
    then show False using im(2) im'(2) by simp
  qed
  have rd: "hoare q (\<lambda>d. d = d0) read (\<lambda>_ d. False) (\<lambda>e d. d = d0) (\<lambda>d. d = d0)"
    by (rule hoare_ro) (use no in \<open>auto intro: ro_rules\<close>)
  have from_id: "hoare q (\<lambda>d. d = d0) (recover_from c s b) (\<lambda>_ d. False) (\<lambda>e d. d = d0) (\<lambda>d. d = d0)" for s b
    unfolding recover_from_def
  proof (rule hoare_bind [OF hoare_idle [OF ro_loadSnapshot]])
    fix x :: "manifest \<times> image"
    show "hoare q (\<lambda>d. d = d0) (case x of (_, old) \<Rightarrow> bind_io read (\<lambda>current. then_io (replace current old)
        (then_io (c_apply c Restart) (then_io (c_healthy c) (then_io (setBaseline b) clearPending)))))
        (\<lambda>_ d. False) (\<lambda>e d. d = d0) (\<lambda>d. d = d0)"
      by (cases x) (simp add: hoare_bind [OF rd hoare_false])
  qed
  obtain x u g where n: "top_file d0 pending_path = Some (File (Doc x) 384 u g)" and ok: "top_ok d0"
    using j by (auto simp: journal_def doc_node_def)
  have "look pending_path (d_top d0) = Inr (File (Doc x) 384 u g)"
    using n ok wf_look [of "d_top d0"] doc_paths(2,6) by (simp add: top_ok_def top_file_def)
  then have there: "pure (readNode Top pending_path) d0 \<noteq> Failed e" if "errors_is e ErrNotExist" for e
    using that by (auto simp: pure_readNode opened_file_def split: if_splits)
  have node: "hoare q (\<lambda>d. d = d0) (readNode Top pending_path) (\<lambda>_ d. d = d0)
      (\<lambda>e d. \<not> errors_is e ErrNotExist \<and> d = d0) (\<lambda>d. d = d0)"
    by (rule hoare_ro) (use there in \<open>auto intro: ro_rules\<close>)
  show ?thesis
    unfolding Recover_def recover_def
  proof (rule hoare_or_missing [OF node])
    fix x :: "content \<times> cfile"
    obtain ct g where x: "x = (ct, g)" by fastforce
    have fl: "hoare q (\<lambda>d. d = d0) (fail e) (\<lambda>_ d. False) (\<lambda>e d. d = d0) (\<lambda>d. d = d0)" for e
      by (rule hoare_fail)
    show "hoare q (\<lambda>d. d = d0)
        (case x of (ct, _) \<Rightarrow> (case Some c of None \<Rightarrow> fail (Msg ''runtime controller required for recovery'')
          | Some c \<Rightarrow> (case ct of Bytes _ \<Rightarrow> fail (Msg ''invalid JSON'')
          | Doc d \<Rightarrow> (case json_doc d of PendingDoc snap base \<Rightarrow> recover_from c snap base
              | _ \<Rightarrow> fail (Msg ''invalid JSON''))))) (\<lambda>_ d. False) (\<lambda>e d. d = d0) (\<lambda>d. d = d0)"
      using from_id fl by (auto simp: x split: content.split doc.split)
    show "hoare q (\<lambda>d. \<not> errors_is e ErrNotExist \<and> d = d0) (return ()) (\<lambda>_ d. False) (\<lambda>e d. d = d0) (\<lambda>d. d = d0)"
      if "errors_is e ErrNotExist" for e
      using that by (simp add: hoare_def)
  qed auto
qed

lemma stuck_step:
  assumes s: "served store_handle (\<lambda>_ _. True) d d'" and j: "journal d" "wf_tree (d_conf d)" "oversized d"
  shows "d' = d"
proof -
  have p: "hoare q (\<lambda>d'. d' = d) (perform X k r) (\<lambda>_ d'. d' = d) (\<lambda>_ d'. d' = d) (\<lambda>d'. d' = d)" for q X k r
    by (rule hoare_conseq [OF hoare_perform_refused [OF j(1)]]) auto
  have c: "hoare q (\<lambda>d'. d' = d) (Recover (Some helper_controller)) (\<lambda>_ d'. d' = d) (\<lambda>_ d'. d' = d) (\<lambda>d'. d' = d)" for q
    by (rule hoare_conseq [OF hoare_recover_stuck [OF j]]) auto
  show ?thesis
    using s
  proof cases
    case (handled q w r)
    obtain X k s where r: "r = (X, k, s)" by (cases r) auto
    show ?thesis using hoare_all [OF p [of q X k s] handled(3)] handled(1,2) by (simp add: store_handle_def r)
  next
    case (restarted q w)
    show ?thesis using hoare_all [OF c restarted(3)] restarted(1,2) by simp
  qed
qed

text \<open>
  C35. A transaction that stopped with the files of both images on disk, together over \<open>MaxTotalSize\<close>,
  is never undone: whatever is asked of the store and however often its process starts again, with
  or without faults, the disk stays exactly as it is, the journal in force and the files mixed, and no
  recovery succeeds. (\<open>recover\<close> reads the directory before it replaces the files, \<open>read\<close> refuses it for its
  size, and all other operations wait for the recovery. Each of the images can be well within the limit.)
\<close>

theorem oversized_stuck:
  assumes "journal d" "wf_tree (d_conf d)" "oversized d"
    "(served store_handle (\<lambda>_ _. True))\<^sup>*\<^sup>* d (w_disk w)" "live q w"
  shows "w_disk w = d \<and> fst (Recover (Some helper_controller) w) \<noteq> Done () \<and>
    w_disk (snd (Recover (Some helper_controller) w)) = d"
proof -
  have d: "w_disk w = d" using assms(4)
  proof (induction rule: rtranclp_induct)
    case (step y z)
    then show ?case using stuck_step assms(1-3) by blast
  qed simp
  obtain out w' where r: "Recover (Some helper_controller) w = (out, w')" by fastforce
  show ?thesis
    using hoare_run [OF hoare_recover_stuck [OF assms(1-3)] assms(5) d r] r d by (auto split: outcome.splits)
qed


text \<open>Sixteen files of 1 MiB each, of the new image, beside the one file of the old.\<close>

definition big_text :: string where
  "big_text = replicate 1048576 (CHR ''x'')"

lemma length_big_text: "length big_text = 1048576"
  unfolding big_text_def by (rule length_replicate)

definition big_paths :: "string list" where
  "big_paths = map (\<lambda>c. ''services/'' @ [c] @ ''.service'') ''abcdefghijklmnop''"

definition big_new :: image where
  "big_new = fmap_of_list (map (\<lambda>p. (p, \<lparr>f_data = big_text, f_mode = 420, f_uid = 0, f_gid = 0\<rparr>)) big_paths)"

definition big_tree :: tree where
  "big_tree = \<lparr>t_nodes = fmupd conf_path (File (Bytes ''[server]'') 420 0 0)
     (fmap_of_list (map (\<lambda>p. (p, File (Bytes big_text) 420 0 0)) big_paths)), t_services = IsDir\<rparr>"

definition big_world :: world where
  "big_world = (sample_world [])\<lparr>w_disk := sample_pending\<lparr>d_conf := big_tree\<rparr>\<rparr>"

lemma big_paths_ok:
  "list_all (\<lambda>p. service_key p \<and> path_clean p = p \<and> p \<noteq> conf_path) big_paths" "distinct big_paths" "length big_paths = 16"
  by code_simp+

lemma lookup_const: "fmlookup (fmap_of_list (map (\<lambda>p. (p, x)) ps)) q = (if q \<in> set ps then Some x else None)"
  by (induction ps) (auto simp: fmlookup_of_list)

lemma big_cfg:
  "cfg big_tree p = fmlookup (fmupd conf_path \<lparr>f_data = ''[server]'', f_mode = 420, f_uid = 0, f_gid = 0\<rparr> big_new) p"
proof -
  have "config_path p" if "p \<in> set big_paths" using big_paths_ok(1) that by (auto simp: list_all_iff config_path_def)
  moreover have "(420 :: 32 word) AND 511 = 420" by simp
  ultimately show ?thesis
    by (auto simp: cfg_def big_tree_def big_new_def lookup_const config_path_def opened_file_def length_big_text MaxFileSize_def)
qed

lemma big_good: "good big_tree"
proof -
  have "path_clean p = p \<and> p \<noteq> conf_path" if "p \<in> set big_paths" for p using big_paths_ok(1) that by (auto simp: list_all_iff)
  then show ?thesis
    using clean_conf_hosts path_facts(4)
    by (auto simp: good_def wf_tree_def readable_def big_tree_def lookup_const opened_file_def length_big_text MaxFileSize_def
        fset_of_list_elem split: if_splits)
qed

lemma big_size: "image_size big_new = 16777216" "oversized (w_disk big_world)"
proof -
  have dom: "fset (fmdom big_new) = set big_paths" by (auto simp: big_new_def fset_of_list_elem)
  have notin: "conf_path \<notin> set big_paths" using big_paths_ok(1) by (auto simp: list_all_iff)
  have each: "length (f_data (fm_get zero_file big_new p)) = 1048576" if "p \<in> set big_paths" for p
    using that by (simp add: fm_get_def big_new_def lookup_const length_big_text)
  have card: "card (set big_paths) = 16" using big_paths_ok(2,3) distinct_card by metis
  show size: "image_size big_new = 16777216"
    unfolding image_size_sum dom using each card by simp
  let ?im = "fmupd conf_path \<lparr>f_data = ''[server]'', f_mode = 420, f_uid = 0, f_gid = 0\<rparr> big_new"
  have "image_size ?im = 8 + (\<Sum>p\<in>set big_paths. length (f_data (fm_get zero_file ?im p)))"
    unfolding image_size_sum using notin by (simp add: dom)
  also have "(\<Sum>p\<in>set big_paths. length (f_data (fm_get zero_file ?im p))) = (\<Sum>p\<in>set big_paths. 1048576)"
    by (rule sum.cong) (use notin each in \<open>auto simp: fm_get_def\<close>)
  finally have "image_size ?im = 16777224" using card by simp
  then show "oversized (w_disk big_world)"
    unfolding oversized_def using big_cfg by (intro exI [of _ ?im]) (simp add: big_world_def MaxTotalSize_def)
qed

lemma big_tx: "tx sample_old big_new sample_id [] (w_disk big_world)"
proof -
  have "mixed sample_old big_new big_tree"
    using big_good big_cfg by (auto simp: mixed_def sample_old_def)
  moreover have "loads sample_id sample_old (w_disk big_world)"
    by (rule loads_kept [OF sample_loads]) (simp add: snaps_kept_def big_world_def)
  ultimately show ?thesis
    using sample_tx by (auto simp: tx_def base_ok_def big_world_def top_ok_def top_file_def)
qed

lemma oversized_stuck_witness:
  "image_size sample_old \<le> MaxTotalSize \<and> image_size big_new \<le> MaxTotalSize \<and>
   tx sample_old big_new sample_id [] (w_disk big_world) \<and>
   fst (Recover (Some helper_controller) big_world) \<noteq> Done () \<and>
   w_disk (snd (Recover (Some helper_controller) big_world)) = w_disk big_world"
proof -
  have "live False big_world" by (simp add: live_def calm_def) (simp add: big_world_def sample_world_def)
  moreover have "wf_tree (d_conf (w_disk big_world))" using big_good by (simp add: good_def big_world_def)
  moreover have "image_size sample_old \<le> MaxTotalSize" "image_size big_new \<le> MaxTotalSize"
    using sample_sturdy big_size(1) by (simp_all add: sturdy_def loadable_def MaxTotalSize_def)
  ultimately show ?thesis
    using oversized_stuck [OF tx_journal [OF big_tx] _ big_size(2) rtranclp.rtrancl_refl] big_tx by blast
qed

end
