(* ===== verification/Json.thy ===== *)
theory Json
  imports World
begin

text \<open>
  \<open>encoding/json\<close> as the servers use it: the values that \<open>Decoder.Decode\<close> reads from a stream,
  and decoding into structs with or without \<open>DisallowUnknownFields\<close>. A request is decoded by
  \<open>decode\<close> of \<open>internal/helper/server.go\<close> and \<open>body\<close> of \<open>internal/api/server.go\<close>.
\<close>

section \<open>Values\<close>

datatype json =
    JNull
  | JBool bool
  | JNum string
  | JStr string
  | JArr "json list"
  | JObj "(string \<times> json) list"

definition json_space :: "char \<Rightarrow> bool" where
  "json_space c \<longleftrightarrow> byte_of c \<in> {9, 10, 13, 32}"

definition skip_ws :: "string \<Rightarrow> string" where
  "skip_ws s = dropWhile json_space s"

definition expect :: "char \<Rightarrow> string \<Rightarrow> string option" where
  "expect c s = (if s \<noteq> [] \<and> hd s = c then Some (tl s) else None)"

text \<open>UTF-8 of a rune; surrogates and runes out of range give U+FFFD.\<close>

definition encode_rune :: "nat \<Rightarrow> string" where
  "encode_rune r =
     (let r = (if r > 1114111 \<or> 55296 \<le> r \<and> r \<le> 57343 then 65533 else r) in
      map char_of
        (if r < 128 then [r]
         else if r < 2048 then [192 + r div 64, 128 + r mod 64]
         else if r < 65536 then [224 + r div 4096, 128 + r div 64 mod 64, 128 + r mod 64]
         else [240 + r div 262144, 128 + r div 4096 mod 64, 128 + r div 64 mod 64, 128 + r mod 64]))"

definition json_hex :: "char \<Rightarrow> nat option" where
  "json_hex c = hex_digit_val (lower_char c)"

definition hex4 :: "string \<Rightarrow> nat option" where
  "hex4 s = (case map json_hex (take 4 s) of
       [Some a, Some b, Some c, Some d] \<Rightarrow> Some (((a * 16 + b) * 16 + c) * 16 + d)
     | _ \<Rightarrow> None)"

text \<open>The escape after a backslash and the number of bytes it takes.\<close>

definition unicode_escape :: "string \<Rightarrow> (string \<times> nat) option" where
  "unicode_escape t =
     (case hex4 t of
        None \<Rightarrow> None
      | Some r \<Rightarrow>
          if 55296 \<le> r \<and> r < 56320 \<and> prefix [CHR 0x5C, CHR ''u''] (drop 4 t) then
            (case hex4 (drop 6 t) of
               None \<Rightarrow> Some (encode_rune 65533, 5)
             | Some r2 \<Rightarrow>
                 if 56320 \<le> r2 \<and> r2 < 57344
                 then Some (encode_rune (65536 + (r - 55296) * 1024 + (r2 - 56320)), 11)
                 else Some (encode_rune 65533, 5))
          else Some (encode_rune r, 5))"

definition json_unescape :: "string \<Rightarrow> (string \<times> nat) option" where
  "json_unescape s =
     (case s of
        [] \<Rightarrow> None
      | c # t \<Rightarrow>
          let b = byte_of c in
          if b = 34 \<or> b = 92 \<or> b = 47 then Some ([c], 1)
          else if b = 98 then Some ([char_of (8 :: nat)], 1)
          else if b = 102 then Some ([char_of (12 :: nat)], 1)
          else if b = 110 then Some ([nl], 1)
          else if b = 114 then Some ([cr], 1)
          else if b = 116 then Some ([tab], 1)
          else if b = 117 then unicode_escape t
          else None)"

definition prepend :: "string \<Rightarrow> (string \<times> string) option \<Rightarrow> (string \<times> string) option" where
  "prepend a r = map_option (\<lambda>(x, rest). (a @ x, rest)) r"

text \<open>The rest of a string literal after its opening quote: its value and what follows it.\<close>

function json_str :: "string \<Rightarrow> (string \<times> string) option" where
  "json_str s =
     (case s of
        [] \<Rightarrow> None
      | c # t \<Rightarrow>
          if byte_of c = 34 then Some ([], t)
          else if byte_of c < 32 then None
          else if byte_of c = 92 then
            (case json_unescape t of
               None \<Rightarrow> None
             | Some (out, n) \<Rightarrow> prepend out (json_str (drop n t)))
          else
            let (r, w) = decode_rune (map byte_of s) in
            prepend (if r = 65533 \<and> w = 1 then encode_rune 65533 else take (max 1 w) s)
              (json_str (drop (max 1 w) s)))"
  by pat_completeness auto
termination
  by (relation "measure length") auto

declare json_str.simps [simp del]

definition digits_prefix :: "string \<Rightarrow> string \<times> string" where
  "digits_prefix s = (takeWhile is_digit s, dropWhile is_digit s)"

definition json_exp :: "string \<Rightarrow> (string \<times> string) option" where
  "json_exp s =
     (if s \<noteq> [] \<and> hd s \<in> {CHR ''e'', CHR ''E''} then
        (let sg = (if tl s \<noteq> [] \<and> hd (tl s) \<in> {CHR ''+'', CHR ''-''} then [hd (tl s)] else []);
             (ds, r) = digits_prefix (drop (length sg) (tl s))
         in if ds = [] then None else Some (hd s # sg @ ds, r))
      else Some ([], s))"

definition json_frac :: "string \<Rightarrow> (string \<times> string) option" where
  "json_frac s =
     (case expect (CHR ''.'') s of
        None \<Rightarrow> json_exp s
      | Some t \<Rightarrow>
          let (ds, r) = digits_prefix t in
          if ds = [] then None else prepend (CHR ''.'' # ds) (json_exp r))"

definition json_num :: "string \<Rightarrow> (string \<times> string) option" where
  "json_num s =
     (let sg = (if expect (CHR ''-'') s = None then [] else ''-''); t = drop (length sg) s;
          (ds, r) = (if expect (CHR ''0'') t = None then digits_prefix t else (''0'', tl t))
      in if ds = [] then None else prepend (sg @ ds) (json_frac r))"

definition max_nesting :: nat where
  "max_nesting = 10000"

text \<open>
  A value, the elements of an array and the members of an object, each at its nesting depth. The
  fuel bounds the number of calls; the length of the text is enough.
\<close>

fun jvalue :: "nat \<Rightarrow> nat \<Rightarrow> string \<Rightarrow> (json \<times> string) option"
  and jelems :: "nat \<Rightarrow> nat \<Rightarrow> string \<Rightarrow> (json list \<times> string) option"
  and jmembers :: "nat \<Rightarrow> nat \<Rightarrow> string \<Rightarrow> ((string \<times> json) list \<times> string) option" where
  "jvalue 0 d s = None"
| "jvalue (Suc n) d s =
     (case s of
        [] \<Rightarrow> None
      | c # t \<Rightarrow>
          if byte_of c = 34 then map_option (\<lambda>(x, r). (JStr x, r)) (json_str t)
          else if byte_of c = 123 then
            if d \<ge> max_nesting then None
            else (case expect (CHR ''}'') (skip_ws t) of
                Some r \<Rightarrow> Some (JObj [], r)
              | None \<Rightarrow> map_option (\<lambda>(ms, r). (JObj ms, r)) (jmembers n (Suc d) (skip_ws t)))
          else if byte_of c = 91 then
            if d \<ge> max_nesting then None
            else (case expect (CHR '']'') (skip_ws t) of
                Some r \<Rightarrow> Some (JArr [], r)
              | None \<Rightarrow> map_option (\<lambda>(vs, r). (JArr vs, r)) (jelems n (Suc d) (skip_ws t)))
          else if prefix ''null'' s then Some (JNull, drop 4 s)
          else if prefix ''true'' s then Some (JBool True, drop 4 s)
          else if prefix ''false'' s then Some (JBool False, drop 5 s)
          else map_option (\<lambda>(x, r). (JNum x, r)) (json_num s))"
| "jelems 0 d s = None"
| "jelems (Suc n) d s =
     (case jvalue n d s of
        None \<Rightarrow> None
      | Some (v, r) \<Rightarrow>
          (case expect (CHR '','') (skip_ws r) of
             Some r' \<Rightarrow> map_option (\<lambda>(vs, r). (v # vs, r)) (jelems n d (skip_ws r'))
           | None \<Rightarrow> map_option (\<lambda>r. ([v], r)) (expect (CHR '']'') (skip_ws r))))"
| "jmembers 0 d s = None"
| "jmembers (Suc n) d s =
     (case Option.bind (expect (CHR 0x22) s) json_str of
        None \<Rightarrow> None
      | Some (k, r) \<Rightarrow>
          (case Option.bind (expect (CHR '':'') (skip_ws r)) (\<lambda>t. jvalue n d (skip_ws t)) of
             None \<Rightarrow> None
           | Some (v, r) \<Rightarrow>
               (case expect (CHR '','') (skip_ws r) of
                  Some r' \<Rightarrow> map_option (\<lambda>(ms, r). ((k, v) # ms, r)) (jmembers n d (skip_ws r'))
                | None \<Rightarrow> map_option (\<lambda>r. ([(k, v)], r)) (expect (CHR ''}'') (skip_ws r)))))"

datatype read_json = JsonEOF | JsonError | JsonValue json string

text \<open>\<open>Decoder.Decode\<close>: the next value of the stream and the rest.\<close>

definition next_json :: "string \<Rightarrow> read_json" where
  "next_json s =
     (let t = skip_ws s in
      if t = [] then JsonEOF
      else (case jvalue (2 * length t + 1) 0 t of None \<Rightarrow> JsonError | Some (v, r) \<Rightarrow> JsonValue v r))"

section \<open>The fuel of the parser\<close>

lemma skip_ws_length: "length (skip_ws s) \<le> length s"
  by (simp add: skip_ws_def length_dropWhile_le)

lemma expect_Some [simp]: "expect c s = Some t \<longleftrightarrow> s = c # t"
  by (cases s) (auto simp: expect_def)

lemma expect_skip: "expect c (skip_ws s) = Some t \<Longrightarrow> length t < length s"
  using skip_ws_length [of s] by simp

lemma json_str_Nil [simp]: "json_str [] = None"
  by (simp add: json_str.simps)

lemmas json_str_Cons = json_str.simps [of "c # t" for c t, simplified]

lemma json_str_length: "json_str s = Some (x, r) \<Longrightarrow> length r < length s"
proof (induction s arbitrary: x r rule: json_str.induct)
  case (1 s)
  show ?case
  proof (cases s)
    case (Cons c t)
    have le: "length (drop n t) < length s" for n using Cons by simp
    note run = "1.prems" [unfolded Cons json_str_Cons]
    consider "byte_of c = 34 \<or> byte_of c < 32" | "byte_of c = 92" | "byte_of c \<noteq> 34" "\<not> byte_of c < 32" "byte_of c \<noteq> 92"
      by linarith
    then show ?thesis
    proof cases
      case 1
      then show ?thesis using run Cons by (auto split: if_splits)
    next
      case 2
      then obtain out n y where u: "json_unescape t = Some (out, n)" "json_str (drop n t) = Some (y, r)"
        using run by (auto simp: prepend_def split: option.splits)
      have "length r < length (drop n t)" using "1.IH"(1) [OF Cons _ _ _ u(1) refl u(2)] 2 by simp
      then show ?thesis using le [of n] by simp
    next
      case 3
      obtain p w where d: "decode_rune (map byte_of s) = (p, w)" by fastforce
      then obtain y where y: "json_str (drop (max 1 w) s) = Some (y, r)"
        using run 3 unfolding Cons by (auto simp: prepend_def)
      have "length r < length (drop (max 1 w) s)"
        using "1.IH"(2) [OF Cons 3 d [symmetric] refl y] .
      then show ?thesis by simp
    qed
  qed (use "1.prems" in simp)
qed

lemma digits_prefix_length: "digits_prefix s = (ds, r) \<Longrightarrow> length s = length ds + length r"
  unfolding digits_prefix_def by (metis length_append prod.inject takeWhile_dropWhile_id)

lemma json_exp_length: "json_exp s = Some (x, r) \<Longrightarrow> length r \<le> length s"
  by (auto simp: json_exp_def Let_def split: if_splits prod.splits dest!: digits_prefix_length)

lemma json_frac_length: "json_frac s = Some (x, r) \<Longrightarrow> length r \<le> length s"
  by (auto simp: json_frac_def Let_def prepend_def split: if_splits prod.splits option.splits
      dest!: digits_prefix_length json_exp_length)

lemma json_num_length: "json_num s = Some (x, r) \<Longrightarrow> length r < length s"
  by (auto simp: json_num_def Let_def prepend_def neq_Nil_conv split: if_splits prod.splits option.splits
      dest!: digits_prefix_length json_frac_length)

lemma shrinks:
  "jvalue n d s = Some (v, r) \<Longrightarrow> length r < length s"
  "jelems n d s = Some (vs, r) \<Longrightarrow> length r < length s"
  "jmembers n d s = Some (ms, r) \<Longrightarrow> length r < length s"
proof (induction n d s and n d s and n d s arbitrary: v r and vs r and ms r
    rule: jvalue_jelems_jmembers.induct)
  case (2 n d s)
  show ?case
  proof (cases s)
    case (Cons c t)
    note IH = "2.IH" [OF Cons] skip_ws_length [of t]
    show ?thesis
      using "2.prems" IH json_str_length [of t] json_num_length [of s]
      unfolding Cons jvalue.simps
      by (auto split: if_splits option.splits dest!: expect_skip)
  qed (use "2.prems" in simp)
next
  case (4 n d s)
  obtain v r1 where v: "jvalue n d s = Some (v, r1)" using "4.prems" by (auto split: option.splits)
  have r1: "length r1 < length s" using "4.IH"(1) v by blast
  show ?case
  proof (cases "expect (CHR '','') (skip_ws r1)")
    case None
    then show ?thesis using "4.prems" v r1 by (auto simp del: expect_Some dest!: expect_skip)
  next
    case (Some t)
    then obtain ws where "jelems n d (skip_ws t) = Some (ws, r)"
      using "4.prems" v by (auto simp del: expect_Some)
    then have "length r < length (skip_ws t)" using "4.IH"(2) [OF v refl Some] by blast
    then show ?thesis using skip_ws_length [of t] expect_skip [OF Some] r1 by linarith
  qed
next
  case (6 n d s)
  obtain k r1 where k: "Option.bind (expect (CHR 0x22) s) json_str = Some (k, r1)"
    using "6.prems" by (auto split: option.splits)
  obtain v r2 where v: "Option.bind (expect (CHR '':'') (skip_ws r1)) (\<lambda>t. jvalue n d (skip_ws t)) = Some (v, r2)"
    using "6.prems" k by (auto split: option.splits)
  have r1: "length r1 < length s" using k json_str_length by (fastforce simp: bind_eq_Some_conv)
  obtain t where t: "expect (CHR '':'') (skip_ws r1) = Some t" "jvalue n d (skip_ws t) = Some (v, r2)"
    using v by (auto simp: bind_eq_Some_conv simp del: expect_Some)
  have "length r2 < length (skip_ws t)" using "6.IH"(1) [OF k refl t] .
  then have r2: "length r2 < length s" using skip_ws_length [of t] expect_skip [OF t(1)] r1 by linarith
  show ?case
  proof (cases "expect (CHR '','') (skip_ws r2)")
    case None
    then show ?thesis using "6.prems" k v r2 by (auto simp del: expect_Some dest!: expect_skip)
  next
    case (Some u)
    then obtain ws where "jmembers n d (skip_ws u) = Some (ws, r)"
      using "6.prems" k v by (auto simp del: expect_Some)
    then have "length r < length (skip_ws u)" using "6.IH"(2) [OF k refl v refl Some] by blast
    then show ?thesis using skip_ws_length [of u] expect_skip [OF Some] r2 by linarith
  qed
qed simp_all

lemma fuel_enough:
  "2 * length s < n \<Longrightarrow> 2 * length s < m \<Longrightarrow> jvalue n d s = jvalue m d s"
  "2 * length s + 1 < n \<Longrightarrow> 2 * length s + 1 < m \<Longrightarrow> jelems n d s = jelems m d s"
  "2 * length s + 1 < n \<Longrightarrow> 2 * length s + 1 < m \<Longrightarrow> jmembers n d s = jmembers m d s"
proof (induction n d s and n d s and n d s arbitrary: m and m and m
    rule: jvalue_jelems_jmembers.induct)
  case (2 n d s)
  obtain k where m: "m = Suc k" using "2.prems" by (cases m) auto
  show ?case
  proof (cases s)
    case (Cons c t)
    have "2 * length (skip_ws t) + 1 < n" "2 * length (skip_ws t) + 1 < k"
      using "2.prems" skip_ws_length [of t] Cons m by auto
    note b = this
    have o: "byte_of c = 123 \<Longrightarrow> \<not> d \<ge> max_nesting \<Longrightarrow> expect (CHR ''}'') (skip_ws t) = None \<Longrightarrow>
        jmembers n (Suc d) (skip_ws t) = jmembers k (Suc d) (skip_ws t)"
      using "2.IH"(1) [OF Cons _ _ _ _ b] by simp
    have a: "byte_of c = 91 \<Longrightarrow> \<not> d \<ge> max_nesting \<Longrightarrow> expect (CHR '']'') (skip_ws t) = None \<Longrightarrow>
        jelems n (Suc d) (skip_ws t) = jelems k (Suc d) (skip_ws t)"
      using "2.IH"(2) [OF Cons _ _ _ _ _ b] by simp
    show ?thesis
      unfolding m Cons jvalue.simps list.case
      by (rule if_cong [OF refl refl], rule if_cong [OF refl], rule if_cong [OF refl refl],
          rule option.case_cong [OF refl], use o in simp, simp, rule if_cong [OF refl],
          rule if_cong [OF refl refl], rule option.case_cong [OF refl], use a in simp) simp_all
  qed (simp add: m)
next
  case (4 n d s)
  obtain k where m: "m = Suc k" using "4.prems" by (cases m) auto
  have v: "jvalue n d s = jvalue k d s" using "4.IH"(1) [of k] "4.prems" m by simp
  show ?case
  proof (cases "jvalue k d s")
    case (Some a)
    obtain x r where x: "jvalue n d s = Some (x, r)" using v Some by (cases a) auto
    have "2 * length (skip_ws t) + 1 < n \<and> 2 * length (skip_ws t) + 1 < k"
      if "expect (CHR '','') (skip_ws r) = Some t" for t
      using shrinks(1) [OF x] skip_ws_length [of t] expect_skip [OF that] "4.prems" m by linarith
    then have "jelems n d (skip_ws t) = jelems k d (skip_ws t)"
      if "expect (CHR '','') (skip_ws r) = Some t" for t
      using "4.IH"(2) [OF x refl that] that by blast
    then show ?thesis using x v unfolding m by (auto simp del: expect_Some split: option.split)
  qed (simp add: m v)
next
  case (6 n d s)
  obtain k where m: "m = Suc k" using "6.prems" by (cases m) auto
  let ?key = "Option.bind (expect (CHR 0x22) s) json_str"
  show ?case
  proof (cases ?key)
    case (Some a)
    obtain key r1 where key: "?key = Some (key, r1)" using Some by (cases a) auto
    have r1: "length r1 < length s" using key json_str_length by (fastforce simp: bind_eq_Some_conv)
    let ?val = "\<lambda>n. Option.bind (expect (CHR '':'') (skip_ws r1)) (\<lambda>t. jvalue n d (skip_ws t))"
    have b: "2 * length (skip_ws t) < n \<and> 2 * length (skip_ws t) < k \<and> length t < length s"
      if "expect (CHR '':'') (skip_ws r1) = Some t" for t
      using r1 skip_ws_length [of t] expect_skip [OF that] "6.prems" m by linarith
    have v: "?val n = ?val k"
      by (cases "expect (CHR '':'') (skip_ws r1)") (use b "6.IH"(1) [OF key refl] in \<open>auto simp del: expect_Some\<close>)
    show ?thesis
    proof (cases "?val k")
      case (Some c)
      obtain x r where x: "?val n = Some (x, r)" using v Some by (cases c) auto
      then obtain t where t: "expect (CHR '':'') (skip_ws r1) = Some t" "jvalue n d (skip_ws t) = Some (x, r)"
        by (auto simp: bind_eq_Some_conv simp del: expect_Some)
      have "2 * length (skip_ws u) + 1 < n \<and> 2 * length (skip_ws u) + 1 < k"
        if "expect (CHR '','') (skip_ws r) = Some u" for u
        using shrinks(1) [OF t(2)] b [OF t(1)] skip_ws_length [of t] skip_ws_length [of u] expect_skip [OF that]
          "6.prems" m by linarith
      then have "jmembers n d (skip_ws u) = jmembers k d (skip_ws u)"
        if "expect (CHR '','') (skip_ws r) = Some u" for u
        using "6.IH"(2) [OF key refl x refl that] that by blast
      then show ?thesis using x v key unfolding m by (auto simp del: expect_Some split: option.split)
    qed (use key v in \<open>simp add: m\<close>)
  qed (simp add: m)
qed simp_all

section \<open>Reading what \<open>json_quote\<close> writes\<close>

lemma json_hex_char: "d < 16 \<Longrightarrow> json_hex (hex_char d) = Some d"
  by (auto simp: json_hex_def hex_char_def hex_digit_val_def lower_char_def is_digit_def byte_of_def)

lemma hex4_byte: "b < 256 \<Longrightarrow> hex4 (''00'' @ hex_byte b @ s) = Some b"
  by (simp add: hex4_def hex_byte_def json_hex_char less_mult_imp_div_less)
    (simp add: json_hex_def hex_digit_val_def lower_char_def is_digit_def byte_of_def)

lemma encode_ascii: "r < 128 \<Longrightarrow> encode_rune r = [char_of r]"
  by (simp add: encode_rune_def)

lemma unescape_hex:
  assumes "b < 128"
  shows "json_unescape (''u00'' @ hex_byte b @ s) = Some ([char_of b], 5)"
proof -
  have h: "hex4 (CHR ''0'' # CHR ''0'' # hex_byte b @ s) = Some b" using hex4_byte [of b s] assms by simp
  show ?thesis
    using assms by (simp add: json_unescape_def byte_of_def unicode_escape_def h encode_ascii)
qed

lemma char_consts:
  "char_of (34 :: nat) = CHR 0x22" "char_of (92 :: nat) = CHR 0x5C" "char_of (10 :: nat) = nl"
  "char_of (13 :: nat) = cr" "char_of (9 :: nat) = tab"
  by code_simp+

lemma json_str_escape:
  assumes "b < 128"
  shows "json_str (json_escape b @ s) = prepend [char_of b] (json_str s)"
proof -
  have esc: "json_str (CHR 0x5C # u @ s) = prepend [char_of b] (json_str s)"
    if "json_unescape (u @ s) = Some ([char_of b], length u)" for u
    using that by (subst json_str_Cons) (simp add: byte_of_def)
  have hx: "json_str (CHR 0x5C # ''u00'' @ hex_byte b @ s) = prepend [char_of b] (json_str s)"
    using esc [of "''u00'' @ hex_byte b"] unescape_hex [OF assms, of s] by simp
  consider "b \<in> {34, 92, 8, 12, 10, 13, 9}"
    | "b \<notin> {34, 92, 8, 12, 10, 13, 9}" "b < 32 \<or> b = 60 \<or> b = 62 \<or> b = 38"
    | "32 \<le> b" "b \<notin> {34, 92}" "\<not> (b = 60 \<or> b = 62 \<or> b = 38)"
    by (cases "b < 32") (auto simp: not_less)
  then show ?thesis
  proof cases
    case 1
    have e1: "json_str (CHR 0x5C # x # s) = prepend [char_of b] (json_str s)"
      if "json_unescape (x # s) = Some ([char_of b], 1)" for x
      using esc [of "[x]"] that by simp
    show ?thesis
      using 1 by (elim insertE emptyE; simp add: json_escape_def; subst e1; simp add: json_unescape_def byte_of_def char_consts)
  next
    case 2
    then show ?thesis using hx by (auto simp: json_escape_def)
  next
    case 3
    have o: "of_char (char_of b :: char) = b" using assms by simp
    have "decode_rune (map byte_of (char_of b # s)) = (b, 1)" using assms by (simp add: byte_of_def)
    then show ?thesis using 3 assms
      by (simp add: json_escape_def json_str_Cons byte_of_def)
  qed
qed

lemma decode_rune_take:
  assumes "decode_rune bs = (r, w)" "\<not> (r = 65533 \<and> w = 1)" "bs \<noteq> []"
  shows "decode_rune (take w bs @ us) = (r, w)" "1 \<le> w" "w \<le> length bs"
  using assms
  by (cases bs; (auto split: if_splits list.splits)[1])+

lemma rune_of_ascii: "decode_rune bs = (r, w) \<Longrightarrow> bs \<noteq> [] \<Longrightarrow> r < 128 \<Longrightarrow> w = 1 \<and> hd bs = r"
  by (cases bs) (auto split: if_splits list.splits)

lemma decode_rune_high: "decode_rune bs = (r, w) \<Longrightarrow> bs \<noteq> [] \<Longrightarrow> 128 \<le> r \<Longrightarrow> 128 \<le> hd bs"
  by (cases bs) (auto split: if_splits list.splits)

lemma decode_rune_separator:
  assumes "decode_rune bs = (r, w)" "bs \<noteq> []" "r = 8232 \<or> r = 8233"
  shows "w = 3 \<and> take 3 bs = [226, 128, r - 8064]"
proof -
  have r: "8232 \<le> r" "r \<le> 8233" using assms(3) by auto
  have sub: "b - 128 \<le> 63" if "cont_byte b" for b using that unfolding cont_byte_def by linarith
  have two: "(a - 192) * 64 + (b - 128) \<noteq> r" if "a \<le> 223" "cont_byte b" for a b
    using that(1) sub [OF that(2)] r by linarith
  have three: "a = 226 \<and> b = 128 \<and> c = r - 8064"
    if "224 \<le> a" "cont_byte b" "cont_byte c" "(a - 224) * 4096 + (b - 128) * 64 + (c - 128) = r" for a b c
  proof -
    have a: "a - 224 = 2" using that(4) sub [OF that(2)] sub [OF that(3)] r by linarith
    then have b: "b - 128 = 0" using that(4) sub [OF that(2)] sub [OF that(3)] r by linarith
    then have "c - 128 = r - 8192" using that(4) a by simp
    then show ?thesis using a b that(1-3) r unfolding cont_byte_def by linarith
  qed
  have four: "(a - 240) * 262144 + (b - 128) * 4096 + (c - 128) * 64 + (d - 128) \<noteq> r"
    if "144 \<le> b \<or> 241 \<le> a" for a b c d
    using that r by linarith
  obtain a v where bs: "bs = a # v" using assms(2) by (cases bs) auto
  note dec = assms(1) [unfolded bs]
  consider "a < 194 \<or> 245 \<le> a" | "194 \<le> a" "a \<le> 223" | "224 \<le> a" "a \<le> 239" | "240 \<le> a" "a \<le> 244"
    by linarith
  then show ?thesis
  proof cases
    case 1
    then show ?thesis using dec r by (auto split: if_splits list.splits)
  next
    case 2
    obtain b u where v: "v = b # u" using dec r 2 by (cases v) auto
    then have "cont_byte b" "(a - 192) * 64 + (b - 128) = r" using dec r 2 by (auto split: if_splits)
    then show ?thesis using two [OF 2(2)] by blast
  next
    case 3
    obtain b u where v: "v = b # u" using dec r 3 by (cases v) auto
    obtain c x where u: "u = c # x" using dec r 3 v by (cases u) auto
    let ?ok = "(if a = 224 then 160 \<le> b \<and> b \<le> 191 else if a = 237 then 128 \<le> b \<and> b \<le> 159 else cont_byte b) \<and> cont_byte c"
    have ok: ?ok using dec r 3 by (auto simp: v u split: if_splits)
    then have cb: "cont_byte b" "cont_byte c" by (auto simp: cont_byte_def split: if_splits)
    have eq: "(a - 224) * 4096 + (b - 128) * 64 + (c - 128) = r" "w = 3"
      using dec 3 ok by (simp_all add: v u split: if_splits)
    show ?thesis using three [OF 3(1) cb eq(1)] eq(2) by (simp add: bs v u)
  next
    case 4
    obtain b c d x where v: "v = b # c # d # x" using dec r 4 by (auto split: list.splits if_splits)
    let ?ok = "(if a = 240 then 144 \<le> b \<and> b \<le> 191 else if a = 244 then 128 \<le> b \<and> b \<le> 143 else cont_byte b) \<and>
        cont_byte c \<and> cont_byte d"
    have ok: ?ok using dec r 4 by (auto simp: v split: if_splits)
    then have "(a - 240) * 262144 + (b - 128) * 4096 + (c - 128) * 64 + (d - 128) = r"
      using dec 4 by (simp add: v split: if_splits)
    moreover have "144 \<le> b \<or> 241 \<le> a" using ok 4 by (auto split: if_splits)
    ultimately show ?thesis using four by blast
  qed
qed

lemma json_str_u:
  assumes "hex4 (h @ s) = Some r" "length h = 4" "r < 55296 \<or> 57344 \<le> r"
  shows "json_str (CHR 0x5C # CHR ''u'' # h @ s) = prepend (encode_rune r) (json_str s)"
proof -
  have "json_unescape (CHR ''u'' # h @ s) = Some (encode_rune r, 5)"
    using assms by (auto simp: json_unescape_def byte_of_def unicode_escape_def)
  moreover have "drop 5 (CHR ''u'' # h @ s) = s" using assms(2) by simp
  ultimately show ?thesis by (subst json_str_Cons) (simp add: byte_of_def)
qed

lemma hex4_consts:
  "hex4 (''fffd'' @ s) = Some 65533" "hex4 (''2028'' @ s) = Some 8232" "hex4 (''2029'' @ s) = Some 8233"
  by (simp_all add: hex4_def json_hex_def hex_digit_val_def lower_char_def is_digit_def byte_of_def)

lemma encode_consts:
  "encode_rune 65533 = map char_of [239 :: nat, 191, 189]"
  "encode_rune 8232 = map char_of [226 :: nat, 128, 168]" "encode_rune 8233 = map char_of [226 :: nat, 128, 169]"
  by (simp_all add: encode_rune_def)

lemma replacement_bytes: "map char_of [239 :: nat, 191, 189] = [CHR 0xEF, CHR 0xBF, CHR 0xBD]"
  by code_simp

lemma json_str_plain:
  assumes "decode_rune (map byte_of s) = (r, w)" "\<not> (r = 65533 \<and> w = 1)" "s \<noteq> []" "128 \<le> r"
  shows "json_str (take w s @ t) = prepend (take w s) (json_str t)"
proof -
  let ?u = "take w s @ t"
  have d: "decode_rune (map byte_of ?u) = (r, w)" and w: "1 \<le> w" "w \<le> length s"
    using decode_rune_take(1) [OF assms(1,2), of "map byte_of t"] decode_rune_take(2,3) [OF assms(1,2)] assms(3)
    by (simp_all add: take_map)
  obtain c v where u: "?u = c # v" using w assms(3) by (cases s; cases w) auto
  have "128 \<le> byte_of c" using decode_rune_high [OF d _ assms(4)] u by simp
  then have "json_str ?u = prepend (take (max 1 w) ?u) (json_str (drop (max 1 w) ?u))"
    using d assms(2) unfolding u by (subst json_str_Cons) auto
  then show ?thesis using w by (simp add: max_def)
qed

lemma json_str_chars: "json_str (json_chars s @ CHR 0x22 # rest) = Some (json_string s, rest)"
proof (induction s rule: json_chars.induct)
  case (1 s)
  show ?case
  proof (cases "s = []")
    case True
    then show ?thesis by (simp add: json_chars.simps [of "[]"] json_string.simps [of "[]"] json_str_Cons byte_of_def)
  next
    case False
    obtain r w where d: "decode_rune (map byte_of s) = (r, w)" by fastforce
    let ?rest = "drop (max 1 w) s"
    have IH: "json_str (json_chars ?rest @ CHR 0x22 # rest) = Some (json_string ?rest, rest)"
      using "1.IH" [OF False d [symmetric] refl] .
    note eqs = json_chars.simps [of s] json_string.simps [of s]
    consider "r < 128" | "r = 65533" "w = 1" | "r = 8232 \<or> r = 8233" | "128 \<le> r" "\<not> (r = 65533 \<and> w = 1)" "r \<notin> {8232, 8233}"
      by fastforce
    then show ?thesis
    proof cases
      case 1
      have hd: "w = 1" "hd (map byte_of s) = r" using rune_of_ascii [OF d] False 1 by auto
      then have "take 1 s = [char_of r]" using False by (cases s) (auto simp: byte_of_def)
      then show ?thesis using False d 1 IH hd by (simp add: eqs json_str_escape prepend_def)
    next
      case 2
      then show ?thesis
        using False d IH json_str_u [OF hex4_consts(1)] encode_consts(1) replacement_bytes
        by (simp add: eqs prepend_def)
    next
      case 3
      have "w = 3" "take 3 (map byte_of s) = [226, 128, r - 8064]" using decode_rune_separator [OF d _ 3] False by auto
      then have "map char_of (map byte_of (take 3 s)) = map char_of [226, 128, r - 8064]" by (simp add: take_map)
      then have "take 3 s = map char_of [226, 128, r - 8064]" by (simp add: byte_of_def comp_def)
      then show ?thesis
        using False d IH 3 json_str_u [OF hex4_consts(2)] json_str_u [OF hex4_consts(3)] \<open>w = 3\<close>
        by (auto simp: eqs prepend_def encode_consts)
    next
      case 4
      have "1 \<le> w" using decode_rune_take(2) [OF d] 4 False by simp
      then show ?thesis
        using False d IH 4 json_str_plain [OF d 4(2) False 4(1)] by (auto simp: eqs prepend_def max_def)
    qed
  qed
qed

section \<open>Decoding into Go values\<close>

text \<open>A decoder updates the value that is already there, as \<open>json.Unmarshal\<close> does.\<close>

type_synonym 'a decoder = "json \<Rightarrow> 'a \<Rightarrow> 'a result"

definition type_error :: "'a result" where
  "type_error = Inl (Msg ''json: cannot unmarshal value'')"

definition dec_string :: "string decoder" where
  "dec_string j old = (case j of JStr s \<Rightarrow> Inr s | JNull \<Rightarrow> Inr old | _ \<Rightarrow> type_error)"

text \<open>An integer of \<open>w\<close> bits without sign: the literal has digits only and is in range.\<close>

definition dec_uint :: "nat \<Rightarrow> nat decoder" where
  "dec_uint w j old =
     (case j of
        JNum s \<Rightarrow> if s \<noteq> [] \<and> list_all is_digit s \<and> dec_value s < 2 ^ w then Inr (dec_value s) else type_error
      | JNull \<Rightarrow> Inr old
      | _ \<Rightarrow> type_error)"

text \<open>A slice reuses the elements it has; \<open>None\<close> is the nil slice.\<close>

fun dec_elems :: "'a \<Rightarrow> 'a decoder \<Rightarrow> json list \<Rightarrow> 'a list \<Rightarrow> 'a list result" where
  "dec_elems zero dec [] old = Inr []"
| "dec_elems zero dec (j # js) old =
     bind_res (dec j (case old of [] \<Rightarrow> zero | x # _ \<Rightarrow> x)) (\<lambda>v.
     bind_res (dec_elems zero dec js (tl old)) (\<lambda>vs. Inr (v # vs)))"

definition dec_slice :: "'a \<Rightarrow> 'a decoder \<Rightarrow> 'a list option decoder" where
  "dec_slice zero dec j old =
     (case j of
        JNull \<Rightarrow> Inr None
      | JArr js \<Rightarrow> bind_res (dec_elems zero dec js (case old of None \<Rightarrow> [] | Some xs \<Rightarrow> xs)) (\<lambda>xs. Inr (Some xs))
      | _ \<Rightarrow> type_error)"

text \<open>A map keeps its entries; each value is decoded from zero. \<open>None\<close> is the nil map.\<close>

fun dec_entries :: "'a \<Rightarrow> 'a decoder \<Rightarrow> (string \<times> json) list \<Rightarrow> (string, 'a) fmap \<Rightarrow> (string, 'a) fmap result" where
  "dec_entries zero dec [] m = Inr m"
| "dec_entries zero dec ((k, j) # js) m =
     bind_res (dec j zero) (\<lambda>v. dec_entries zero dec js (fmupd k v m))"

definition dec_map :: "'a \<Rightarrow> 'a decoder \<Rightarrow> (string, 'a) fmap option decoder" where
  "dec_map zero dec j old =
     (case j of
        JNull \<Rightarrow> Inr None
      | JObj ms \<Rightarrow> bind_res (dec_entries zero dec ms (case old of None \<Rightarrow> fmempty | Some m \<Rightarrow> m)) (\<lambda>m. Inr (Some m))
      | _ \<Rightarrow> type_error)"

text \<open>
  Names of fields are matched exactly, else without regard to case; beyond ASCII only the long s
  and the Kelvin sign fold to letters of the names that occur.
\<close>

fun fold_name :: "string \<Rightarrow> string" where
  "fold_name [] = []"
| "fold_name (a # s) =
     (if byte_of a = 197 \<and> s \<noteq> [] \<and> byte_of (hd s) = 191 then CHR ''s'' # fold_name (tl s)
      else if byte_of a = 226 \<and> length s \<ge> 2 \<and> byte_of (hd s) = 132 \<and> byte_of (s ! 1) = 170
      then CHR ''k'' # fold_name (drop 2 s)
      else lower_char a # fold_name s)"

type_synonym 'a struct_fields = "(string \<times> 'a decoder) list"

definition find_field :: "'a struct_fields \<Rightarrow> string \<Rightarrow> 'a decoder option" where
  "find_field fs k =
     (case map_of fs k of
        Some f \<Rightarrow> Some f
      | None \<Rightarrow> map_option snd (find (\<lambda>(n, _). fold_name n = fold_name k) fs))"

text \<open>\<open>strict\<close> is \<open>DisallowUnknownFields\<close>.\<close>

fun dec_members :: "bool \<Rightarrow> 'a struct_fields \<Rightarrow> (string \<times> json) list \<Rightarrow> 'a \<Rightarrow> 'a result" where
  "dec_members strict fs [] old = Inr old"
| "dec_members strict fs ((k, j) # ms) old =
     (case find_field fs k of
        Some f \<Rightarrow> bind_res (f j old) (dec_members strict fs ms)
      | None \<Rightarrow> if strict then Inl (Msg (''json: unknown field '' @ k)) else dec_members strict fs ms old)"

definition dec_struct :: "bool \<Rightarrow> 'a struct_fields \<Rightarrow> 'a decoder" where
  "dec_struct strict fs j old =
     (case j of JNull \<Rightarrow> Inr old | JObj ms \<Rightarrow> dec_members strict fs ms old | _ \<Rightarrow> type_error)"

text \<open>A field of a record with its decoder, selector and update.\<close>

definition field :: "'b decoder \<Rightarrow> ('a \<Rightarrow> 'b) \<Rightarrow> (('b \<Rightarrow> 'b) \<Rightarrow> 'a \<Rightarrow> 'a) \<Rightarrow> 'a decoder" where
  "field dec sel upd j old = bind_res (dec j (sel old)) (\<lambda>v. Inr (upd (\<lambda>_. v) old))"

text \<open>Slices and maps whose nil value is not told from the empty one.\<close>

definition dec_list :: "'a \<Rightarrow> 'a decoder \<Rightarrow> 'a list decoder" where
  "dec_list zero dec j old =
     bind_res (dec_slice zero dec j (Some old)) (\<lambda>r. Inr (case r of None \<Rightarrow> [] | Some xs \<Rightarrow> xs))"

definition dec_table :: "'a \<Rightarrow> 'a decoder \<Rightarrow> (string, 'a) fmap decoder" where
  "dec_table zero dec j old =
     bind_res (dec_map zero dec j (Some old)) (\<lambda>r. Inr (case r of None \<Rightarrow> fmempty | Some m \<Rightarrow> m))"

section \<open>Exactly one object\<close>

text \<open>
  A body from which at most \<open>limit\<close> bytes are read: its first value is an object, which \<open>dec\<close>
  accepts, and only white space follows.
\<close>

definition decode_object :: "nat \<Rightarrow> ((string \<times> json) list \<Rightarrow> 'a result) \<Rightarrow> string \<Rightarrow> 'a result" where
  "decode_object limit dec data =
     (case next_json (take limit data) of
        JsonValue (JObj ms) rest \<Rightarrow>
          bind_res (dec ms) (\<lambda>v.
            if length data \<le> limit \<and> next_json rest = JsonEOF then Inr v
            else Inl (Msg ''expected exactly one JSON object''))
      | JsonValue _ _ \<Rightarrow> Inl (Msg ''expected a JSON object'')
      | JsonEOF \<Rightarrow> Inl (Msg ''EOF'')
      | JsonError \<Rightarrow> Inl (Msg ''invalid JSON''))"

lemma decode_object_ok:
  "decode_object limit dec data = Inr v \<longleftrightarrow>
     length data \<le> limit \<and> (\<exists>ms rest. next_json data = JsonValue (JObj ms) rest \<and> skip_ws rest = [] \<and> dec ms = Inr v)"
proof -
  have eof: "next_json rest = JsonEOF \<longleftrightarrow> skip_ws rest = []" for rest
    by (auto simp: next_json_def Let_def split: option.split)
  show ?thesis
    unfolding eof [symmetric]
    by (auto simp: decode_object_def split: read_json.splits json.splits if_splits)
qed

lemma dec_members_known:
  assumes "dec_members True fs ms old = Inr v" "(k, j) \<in> set ms"
  shows "\<exists>n \<in> fst ` set fs. fold_name n = fold_name k"
  using assms
proof (induction ms arbitrary: old)
  case (Cons m ms)
  obtain k' j' where m: "m = (k', j')" by fastforce
  obtain f where f: "find_field fs k' = Some f" using Cons.prems(1) m by (auto split: option.splits)
  then have "\<exists>n \<in> fst ` set fs. fold_name n = fold_name k'"
    by (auto simp: find_field_def find_Some_iff split: option.splits dest!: map_of_SomeD nth_mem intro: rev_bexI)
  then show ?case using Cons m f by auto
qed simp

end
