(* ===== verification/Helper.thy ===== *)
theory Helper
  imports Reach Json "HOL-Library.Multiset"
begin

text \<open>
  \<open>internal/helper\<close>: the view of a configuration that the privileged helper sends, the
  operations of its backend, the requests it decodes and dispatches one after another, the
  peers it accepts, and the client's calls.
\<close>

section \<open>Hosts and groups as the parsers return them\<close>

text \<open>
  \<open>ParseHosts\<close> returns the table beside the error of \<open>ValidateHosts\<close>, and no table with any
  other error.
\<close>

definition parsed_hosts :: "string \<Rightarrow> host list \<times> error option" where
  "parsed_hosts data =
     (let (ls, too_long) = scan_lines hosts_line_limit data in
      case parse_host_lines ls of
        Inl e \<Rightarrow> ([], Some e)
      | Inr hosts \<Rightarrow>
          if too_long then ([], Some (Msg ''bufio.Scanner: token too long''))
          else (hosts, case ValidateHosts hosts of Inl e \<Rightarrow> Some e | Inr _ \<Rightarrow> None))"

lemma parsed_hosts_result:
  "ParseHosts data = (case parsed_hosts data of (hosts, None) \<Rightarrow> Inr hosts | (_, Some e) \<Rightarrow> Inl e)"
  by (auto simp: ParseHosts_def parsed_hosts_def Let_def split: prod.split sum.split)

section \<open>The model of a configuration\<close>

record published =
  pb_id :: string
  pb_filename :: string
  pb_group :: service_group
  pb_error :: string

record configuration =
  cf_revision :: string
  cf_daemon :: "daemon option"
  cf_raw :: string
  cf_hosts :: "host list"
  cf_services :: "published list"
  cf_hashes :: "(string, string) fmap"
  cf_errors :: "string list"

definition serviceID :: "string \<Rightarrow> string" where
  "serviceID p = digest p"

definition services_dir :: string where
  "services_dir = ''services/''"

definition service_entry :: "xml_codec \<Rightarrow> image \<Rightarrow> string \<Rightarrow> published" where
  "service_entry X im p =
     (let (g, err) = ParseService X (f_data (fm_get zero_file im p)) in
      \<lparr>pb_id = serviceID p, pb_filename = trim_prefix p services_dir, pb_group = g,
       pb_error = (case err of None \<Rightarrow> [] | Some e \<Rightarrow> error_text e)\<rparr>)"

definition service_errors :: "xml_codec \<Rightarrow> image \<Rightarrow> string \<Rightarrow> string list" where
  "service_errors X im p =
     (case snd (ParseService X (f_data (fm_get zero_file im p))) of
        None \<Rightarrow> [] | Some e \<Rightarrow> [p @ '': '' @ error_text e])"

definition daemon_view :: "string \<Rightarrow> daemon option \<times> error option" where
  "daemon_view raw =
     (case ParseDaemon raw of
        Inl e \<Rightarrow> (None, Some e)
      | Inr d \<Rightarrow> (Some d, case daemon_validate d of Inl e \<Rightarrow> Some e | Inr _ \<Rightarrow> None))"

definition labelled :: "string \<Rightarrow> error option \<Rightarrow> string list" where
  "labelled l err = (case err of None \<Rightarrow> [] | Some e \<Rightarrow> [l @ '': '' @ error_text e])"

text \<open>\<open>ps\<close> is the order in which the loop over the map visits the paths.\<close>

definition model :: "xml_codec \<Rightarrow> string list \<Rightarrow> image \<Rightarrow> configuration" where
  "model X ps im =
     (let raw = f_data (fm_get zero_file im conf_path);
          (d, derr) = daemon_view raw;
          (hs, herr) = parsed_hosts (f_data (fm_get zero_file im hosts_path));
          ss = filter (prefix services_dir) ps
      in \<lparr>cf_revision = Revision im, cf_daemon = d, cf_raw = raw, cf_hosts = hs,
          cf_services = sort_key pb_filename (map (service_entry X im) ss),
          cf_hashes = fmmap (\<lambda>f. digest (f_data f)) im,
          cf_errors = labelled conf_path derr
            @ (if fmlookup im conf_path = None then [''avahi-daemon.conf is missing''] else [])
            @ labelled hosts_path herr
            @ concat (map (service_errors X im) ss)\<rparr>)"

lemma filename_inj: "inj_on (\<lambda>p. trim_prefix p services_dir) {p. prefix services_dir p}"
  by (auto simp: inj_on_def trim_prefix_def prefix_def)

lemma pb_filename_entry [simp]: "pb_filename (service_entry X im p) = trim_prefix p services_dir"
  by (simp add: service_entry_def split: prod.split)

lemma mset_concat_map: "mset ps = mset qs \<Longrightarrow> mset (concat (map f ps)) = mset (concat (map f qs))"
proof -
  have c: "mset (concat (map f xs)) = sum_mset (image_mset (\<lambda>x. mset (f x)) (mset xs))" for xs
    by (induction xs) simp_all
  assume "mset ps = mset qs"
  then show ?thesis unfolding c by simp
qed

text \<open>
  The view of a configuration that the helper sends does not depend on the order in which
  the map of files is visited, but for the order of its error messages; its services are the
  files below \<open>services/\<close>, each once, in the order of their names.
\<close>

theorem model_order_free:
  assumes "mset ps = mset (sorted_keys im)"
  shows "mset (cf_errors (model X ps im)) = mset (cf_errors (model X (sorted_keys im) im)) \<and>
    (model X ps im)\<lparr>cf_errors := []\<rparr> = (model X (sorted_keys im) im)\<lparr>cf_errors := []\<rparr> \<and>
    sorted (map pb_filename (cf_services (model X ps im))) \<and>
    distinct (map pb_filename (cf_services (model X ps im))) \<and>
    set (map pb_filename (cf_services (model X ps im))) = {n. fmlookup im (services_dir @ n) \<noteq> None}"
proof -
  let ?ss = "filter (prefix services_dir) ps" and ?tt = "filter (prefix services_dir) (sorted_keys im)"
  let ?f = "service_entry X im"
  have ms: "mset ?ss = mset ?tt" using assms by simp
  have set: "set ?ss = {p. fmlookup im p \<noteq> None \<and> prefix services_dir p}"
    using mset_eq_setD [OF ms] by (auto simp: fmdomI fmlookup_dom_iff)
  have inj: "inj_on (pb_filename \<circ> ?f) (set ?ss)"
    using filename_inj by (auto simp: inj_on_def)
  then have inj': "inj_on pb_filename (set (map ?f ?ss))" by (auto simp: inj_on_def)
  have sk: "sort_key pb_filename (map ?f ?ss) = sort_key pb_filename (map ?f ?tt)"
    using ms inj' by (intro sort_key_inj_key_eq) (simp_all add: mset_map)
  have "distinct ?ss" using ms by (metis distinct_filter distinct_sorted_keys mset_eq_imp_distinct_iff)
  then have dis: "distinct (map pb_filename (map ?f ?ss))" using inj by (simp add: distinct_map comp_inj_on_iff)
  have names: "(\<lambda>p. trim_prefix p services_dir) ` set ?ss = {n. fmlookup im (services_dir @ n) \<noteq> None}"
    unfolding set by (auto simp: trim_prefix_def prefix_def image_iff) (metis append_eq_conv_conj)
  have cs: "cf_services (model X ps im) = sort_key pb_filename (map ?f ?ss)"
      "cf_services (model X (sorted_keys im) im) = sort_key pb_filename (map ?f ?ss)"
    unfolding sk by (simp_all add: model_def Let_def split: prod.split) (simp_all add: sk)
  have srt: "sorted (map pb_filename (cf_services (model X ps im)))"
      "distinct (map pb_filename (cf_services (model X ps im)))"
      "set (map pb_filename (cf_services (model X ps im))) = {n. fmlookup im (services_dir @ n) \<noteq> None}"
    unfolding cs(1) using dis names inj inj' inj_on_imageI2 [OF inj]
    by (simp_all add: image_image distinct_map)
  have rest: "(model X ps im)\<lparr>cf_errors := []\<rparr> = (model X (sorted_keys im) im)\<lparr>cf_errors := []\<rparr>"
    using sk by (simp add: model_def Let_def split: prod.split)
  have errs: "mset (cf_errors (model X ps im)) = mset (cf_errors (model X (sorted_keys im) im))"
    using mset_concat_map [OF ms, of "service_errors X im"] by (simp add: model_def Let_def split: prod.split)
  show ?thesis using srt rest errs by blast
qed

lemma model_order_free_witness:
  "mset (cf_errors (model sample_codec [conf_path] sample_image)) =
     mset (cf_errors (model sample_codec (sorted_keys sample_image) sample_image)) \<and>
   (model sample_codec [conf_path] sample_image)\<lparr>cf_errors := []\<rparr> =
     (model sample_codec (sorted_keys sample_image) sample_image)\<lparr>cf_errors := []\<rparr> \<and>
   sorted (map pb_filename (cf_services (model sample_codec [conf_path] sample_image))) \<and>
   distinct (map pb_filename (cf_services (model sample_codec [conf_path] sample_image))) \<and>
   set (map pb_filename (cf_services (model sample_codec [conf_path] sample_image))) =
     {n. fmlookup sample_image (services_dir @ n) \<noteq> None}"
  by (rule model_order_free) (simp add: sample_image_keys)

lemma errors_empty:
  "cf_errors (model X ps im) = [] \<longleftrightarrow>
     fmlookup im conf_path \<noteq> None \<and> snd (daemon_view (f_data (fm_get zero_file im conf_path))) = None \<and>
     snd (parsed_hosts (f_data (fm_get zero_file im hosts_path))) = None \<and>
     (\<forall>p\<in>set ps. prefix services_dir p \<longrightarrow> snd (ParseService X (f_data (fm_get zero_file im p))) = None)"
  by (auto simp: model_def Let_def labelled_def service_errors_def split: prod.split option.splits)

lemma special_paths: "\<not> prefix services_dir conf_path" "\<not> prefix services_dir hosts_path" "conf_path \<noteq> hosts_path"
  by (simp_all add: services_dir_def conf_path_def hosts_path_def)

lemma parsed_hosts_empty: "parsed_hosts [] = ([], None)"
  by (simp add: parsed_hosts_def scan_lines_def ValidateHosts_def)

lemma file_ok_views:
  "file_ok X conf_path data \<longleftrightarrow> snd (daemon_view data) = None"
  "file_ok X hosts_path data \<longleftrightarrow> snd (parsed_hosts data) = None"
  "prefix services_dir p \<Longrightarrow> file_ok X p data \<longleftrightarrow> snd (ParseService X data) = None"
proof -
  show "file_ok X conf_path data \<longleftrightarrow> snd (daemon_view data) = None"
    by (auto simp: file_ok_def daemon_view_def split: sum.splits)
  show "file_ok X hosts_path data \<longleftrightarrow> snd (parsed_hosts data) = None"
    unfolding file_ok_def parsed_hosts_result
    by (cases "parsed_hosts data", cases "snd (parsed_hosts data)") (simp_all add: special_paths(3) [symmetric])
  show "prefix services_dir p \<Longrightarrow> file_ok X p data \<longleftrightarrow> snd (ParseService X data) = None"
    using special_paths(1,2) unfolding file_ok_def by (cases "ParseService X data"; cases "p = conf_path"; cases "p = hosts_path"; simp)
qed

text \<open>An image with a daemon file, hosts and a service, which the view and the validation both accept.\<close>

definition working_image :: "image" where
  "working_image = fmap_of_list (map (\<lambda>(p, data). (p, \<lparr>f_data = data, f_mode = 420, f_uid = 0, f_gid = 0\<rparr>))
     [(conf_path, sample_text), (hosts_path, concat (map host_line sample_hosts)), (''services/a.service'', ''x'')])"

lemma working_lookup:
  "fmlookup working_image p = map_option (\<lambda>data. \<lparr>f_data = data, f_mode = 420, f_uid = 0, f_gid = 0\<rparr>)
     (map_of [(conf_path, sample_text), (hosts_path, concat (map host_line sample_hosts)), (''services/a.service'', ''x'')] p)"
  by (simp add: working_image_def fmlookup_of_list)

lemma working_lengths:
  "length sample_text \<le> 200" "length (concat (map host_line sample_hosts)) \<le> 100"
  by code_simp+

lemma working_file_ok:
  "file_ok sample_codec conf_path sample_text"
  "file_ok sample_codec hosts_path (concat (map host_line sample_hosts))"
  "file_ok sample_codec ''services/a.service'' ''x''"
proof -
  show "file_ok sample_codec conf_path sample_text"
    using daemon_roundtrip [OF sample_short sample_marshal] sample_daemon_valid by (simp add: file_ok_def)
  have "MarshalHosts sample_hosts = Inr (concat (map host_line sample_hosts))"
    using sample_hosts_valid by (simp add: MarshalHosts_def)
  moreover have "short_hosts sample_hosts" by (auto simp: short_hosts_def sample_hosts_def hosts_line_limit_def)
  ultimately show "file_ok sample_codec hosts_path (concat (map host_line sample_hosts))"
    using hosts_roundtrip path_facts(1) by (auto simp: file_ok_def)
  have "snd (ParseService sample_codec ''x'') = None"
    by (simp add: ParseService_def sample_codec_def sample_tokens_run sample_group_valid)
  moreover have "prefix services_dir ''services/a.service''" by code_simp
  ultimately show "file_ok sample_codec ''services/a.service'' ''x''" by (simp add: file_ok_views)
qed

lemma working_valid: "ValidateImage sample_codec working_image = Inr ()"
proof -
  have ne: "conf_path \<noteq> ''services/a.service''" "hosts_path \<noteq> ''services/a.service''" "conf_path \<noteq> hosts_path"
    by (simp_all add: conf_path_def hosts_path_def)
  have valid: "validPath conf_path" "validPath hosts_path" "validPath ''services/a.service''" by code_simp+
  let ?l = "\<lambda>p. length (f_data (fm_get zero_file working_image p))"
  have "image_size working_image = sum ?l (set (sorted_keys working_image))"
    unfolding image_size_def using distinct_sorted_keys by (rule sum_list_distinct_conv_sum_set)
  also have "\<dots> \<le> sum ?l {conf_path, hosts_path, ''services/a.service''}"
    by (rule sum_mono2) (auto simp: fmlookup_dom_iff working_lookup split: if_splits)
  also have "\<dots> \<le> 301"
    using working_lengths ne by (simp add: fm_get_def working_lookup)
  finally have "image_size working_image \<le> MaxTotalSize" by (simp add: MaxTotalSize_def)
  then show ?thesis
    using ne valid working_file_ok working_lengths
    by (auto simp: validate_image_ok image_ok_def working_lookup MaxFileSize_def split: if_splits)
qed

text \<open>
  C25. \<open>ValidateImage\<close> accepts an image exactly when the view displays no error message and the three
  limits hold that the view does not check: the total size, the size of each file, and the names
  of the files. The paths may come in any order.
\<close>

theorem model_errors_iff:
  assumes "mset ps = mset (sorted_keys im)"
  shows "ValidateImage X im = Inr () \<longleftrightarrow>
    cf_errors (model X ps im) = [] \<and> image_size im \<le> MaxTotalSize \<and>
    (\<forall>p f. fmlookup im p = Some f \<longrightarrow> validPath p \<and> length (f_data f) \<le> MaxFileSize)"
proof -
  have set: "set ps = {p. \<exists>f. fmlookup im p = Some f}"
    using mset_eq_setD [OF assms] by (simp add: set_eq_iff fmlookup_dom_iff)
  have paths: "validPath p \<Longrightarrow> p = conf_path \<or> p = hosts_path \<or> prefix services_dir p" for p
    by (auto simp: validPath_def services_dir_def)
  have hosts: "snd (parsed_hosts (f_data (fm_get zero_file im hosts_path))) = None \<longleftrightarrow>
      (\<forall>f. fmlookup im hosts_path = Some f \<longrightarrow> file_ok X hosts_path (f_data f))"
    by (cases "fmlookup im hosts_path") (simp_all add: file_ok_views zero_file_def parsed_hosts_empty)
  have conf: "fmlookup im conf_path \<noteq> None \<Longrightarrow> snd (daemon_view (f_data (fm_get zero_file im conf_path))) = None \<longleftrightarrow>
      (\<forall>f. fmlookup im conf_path = Some f \<longrightarrow> file_ok X conf_path (f_data f))"
    by (auto simp: file_ok_views)
  have services: "(\<forall>p\<in>set ps. prefix services_dir p \<longrightarrow> snd (ParseService X (f_data (fm_get zero_file im p))) = None) \<longleftrightarrow>
      (\<forall>p f. fmlookup im p = Some f \<longrightarrow> prefix services_dir p \<longrightarrow> file_ok X p (f_data f))"
    unfolding set by (force simp: file_ok_views)
  show ?thesis
  proof (cases "fmlookup im conf_path = None")
    case False
    then show ?thesis
      unfolding validate_image_ok image_ok_def errors_empty hosts services conf [OF False]
      by (intro iffI conjI allI impI; (elim conjE)?) (use paths in blast)+
  qed (simp add: validate_image_ok image_ok_def errors_empty)
qed

lemma model_errors_iff_witness:
  "cf_errors (model sample_codec [''services/a.service'', hosts_path, conf_path] working_image) = []"
proof -
  have ne: "conf_path \<noteq> ''services/a.service''" "hosts_path \<noteq> ''services/a.service''" "conf_path \<noteq> hosts_path"
    by (simp_all add: conf_path_def hosts_path_def)
  have "set [''services/a.service'', hosts_path, conf_path] = set (sorted_keys working_image)"
    using ne by (auto simp: fmlookup_dom_iff working_lookup split: if_splits)
  then have "mset [''services/a.service'', hosts_path, conf_path] = mset (sorted_keys working_image)"
    using ne distinct_sorted_keys by (subst set_eq_iff_mset_eq_distinct [symmetric]) auto
  from model_errors_iff [OF this, of sample_codec] show ?thesis using working_valid by simp
qed

section \<open>The backend\<close>

record runtime_env =
  rt_controller :: controller
  rt_control :: "string \<Rightarrow> unit io"

definition helper_runtime :: runtime_env where
  "helper_runtime = \<lparr>rt_controller = helper_controller, rt_control = helper_Control\<rparr>"

definition Configuration :: "xml_codec \<Rightarrow> configuration io" where
  "Configuration X = bind_io read (\<lambda>im. return (model X (sorted_keys im) im))"

text \<open>\<open>k\<close> tells whether the context of the call has ended.\<close>

definition write_config :: "xml_codec \<Rightarrow> runtime_env \<Rightarrow> bool \<Rightarrow> string \<Rightarrow> string \<Rightarrow> string
    \<Rightarrow> (apply_result \<times> error option) io" where
  "write_config X R k expected p data = Apply X k expected (fmap_of_list [(p, Some data)]) (Some (rt_controller R))"

definition WriteDaemon :: "xml_codec \<Rightarrow> runtime_env \<Rightarrow> bool \<Rightarrow> string \<Rightarrow> daemon option
    \<Rightarrow> (apply_result \<times> error option) io" where
  "WriteDaemon X R k expected config =
     (case config of
        None \<Rightarrow> return (empty_result, Some (Msg ''config object is required''))
      | Some d \<Rightarrow> or_return empty_result (lift_res (daemon_marshal d)) (write_config X R k expected conf_path))"

definition WriteHosts :: "xml_codec \<Rightarrow> runtime_env \<Rightarrow> bool \<Rightarrow> string \<Rightarrow> host list option
    \<Rightarrow> (apply_result \<times> error option) io" where
  "WriteHosts X R k expected hosts =
     (case hosts of
        None \<Rightarrow> return (empty_result, Some (Msg ''hosts array is required''))
      | Some hs \<Rightarrow> or_return empty_result (lift_res (MarshalHosts hs)) (write_config X R k expected hosts_path))"

definition servicePath :: "string \<Rightarrow> string io" where
  "servicePath i =
     then_io (guard_io (length i = 64) ''invalid service ID'')
       (bind_io read (\<lambda>im.
          case find (\<lambda>p. prefix services_dir p \<and> serviceID p = i) (sorted_keys im) of
            Some p \<Rightarrow> return p
          | None \<Rightarrow> fail (Msg ''service not found'')))"

record service_result =
  sr_apply :: apply_result
  sr_id :: string

definition no_service :: service_result where
  "no_service = \<lparr>sr_apply = empty_result, sr_id = []\<rparr>"

definition WriteService :: "xml_codec \<Rightarrow> runtime_env \<Rightarrow> bool \<Rightarrow> string \<Rightarrow> string \<Rightarrow> service_group
    \<Rightarrow> (service_result \<times> error option) io" where
  "WriteService X R k expected i g =
     or_return no_service (lift_res (group_marshal X g)) (\<lambda>data.
     bind_io fresh_id (\<lambda>rid.
     or_return no_service
       (if i \<noteq> [] then servicePath i else return (services_dir @ ''awm-'' @ rid @ ''.service'')) (\<lambda>p.
     bind_io (write_config X R k expected p data) (\<lambda>(r, e).
       return (\<lparr>sr_apply = r, sr_id = serviceID p\<rparr>, e)))))"

definition DeleteService :: "xml_codec \<Rightarrow> runtime_env \<Rightarrow> bool \<Rightarrow> string \<Rightarrow> string
    \<Rightarrow> (apply_result \<times> error option) io" where
  "DeleteService X R k expected i =
     or_return empty_result (servicePath i) (\<lambda>p.
       Apply X k expected (fmap_of_list [(p, None)]) (Some (rt_controller R)))"

section \<open>Requests\<close>

record revision_req =
  rq_revision :: string

record write_daemon_req = revision_req +
  rq_config :: "daemon option"

record write_hosts_req = revision_req +
  rq_hosts :: "host list option"

record write_service_req = revision_req +
  rq_service :: string
  rq_group :: service_group

record delete_service_req = revision_req +
  rq_delete :: string

record restore_req = revision_req +
  rq_restore :: string

record snapshot_id_req =
  rq_snapshot :: string

record create_snapshot_req =
  rq_reason :: string

definition revision_field :: "('a revision_req_scheme) struct_fields" where
  "revision_field = [(''revision'', field dec_string rq_revision rq_revision_update)]"

definition revision_zero :: revision_req where
  "revision_zero = \<lparr>rq_revision = []\<rparr>"

definition daemon_fields :: "write_daemon_req struct_fields" where
  "daemon_fields = revision_field @
     [(''config'', field (dec_map fmempty (dec_table [] dec_string)) rq_config rq_config_update)]"

definition host_fields :: "host struct_fields" where
  "host_fields =
     [(''address'', field dec_string Address Address_update),
      (''hostname'', field dec_string Hostname Hostname_update)]"

definition hosts_fields :: "write_hosts_req struct_fields" where
  "hosts_fields = revision_field @
     [(''hosts'', field (dec_slice \<lparr>Address = [], Hostname = []\<rparr> (dec_struct True host_fields))
        rq_hosts rq_hosts_update)]"

definition name_fields :: "service_name struct_fields" where
  "name_fields =
     [(''value'', field dec_string sn_value sn_value_update),
      (''replaceWildcards'', field dec_string sn_wildcards sn_wildcards_update)]"

definition txt_fields :: "txt_record struct_fields" where
  "txt_fields =
     [(''value'', field dec_string tx_value tx_value_update),
      (''format'', field dec_string tx_format tx_format_update)]"

definition dec_port :: "16 word decoder" where
  "dec_port j old = bind_res (dec_uint 16 j (unat old)) (\<lambda>n. Inr (word_of_nat n))"

definition service_fields :: "service struct_fields" where
  "service_fields =
     [(''protocol'', field dec_string sv_protocol sv_protocol_update),
      (''type'', field dec_string sv_type sv_type_update),
      (''domain'', field dec_string sv_domain sv_domain_update),
      (''host'', field dec_string sv_host sv_host_update),
      (''port'', field dec_port sv_port sv_port_update),
      (''subtypes'', field (dec_list [] dec_string) sv_subtypes sv_subtypes_update),
      (''txt'', field (dec_list \<lparr>tx_value = [], tx_format = []\<rparr> (dec_struct True txt_fields))
         sv_txt sv_txt_update)]"

definition empty_service :: service where
  "empty_service = \<lparr>sv_protocol = [], sv_type = [], sv_domain = [], sv_host = [], sv_port = 0,
     sv_subtypes = [], sv_txt = []\<rparr>"

definition group_fields :: "service_group struct_fields" where
  "group_fields =
     [(''name'', field (dec_struct True name_fields) g_name g_name_update),
      (''services'', field (dec_list empty_service (dec_struct True service_fields)) g_services g_services_update)]"

definition write_service_fields :: "write_service_req struct_fields" where
  "write_service_fields = revision_field @
     [(''id'', field dec_string rq_service rq_service_update),
      (''group'', field (dec_struct True group_fields) rq_group rq_group_update)]"

definition delete_service_fields :: "delete_service_req struct_fields" where
  "delete_service_fields = revision_field @ [(''id'', field dec_string rq_delete rq_delete_update)]"

definition restore_fields :: "restore_req struct_fields" where
  "restore_fields = revision_field @ [(''id'', field dec_string rq_restore rq_restore_update)]"

definition snapshot_id_fields :: "snapshot_id_req struct_fields" where
  "snapshot_id_fields = [(''id'', field dec_string rq_snapshot rq_snapshot_update)]"

definition create_snapshot_fields :: "create_snapshot_req struct_fields" where
  "create_snapshot_fields = [(''reason'', field dec_string rq_reason rq_reason_update)]"

section \<open>The RPC server\<close>

definition MaxRequest :: nat where
  "MaxRequest = 4194304"

record http_request =
  hr_method :: string
  hr_path :: string
  hr_type :: string
  hr_body :: string

datatype answer =
    AEmpty
  | ASnapshot manifest configuration
  | AConfiguration configuration
  | AApply apply_result
  | AService service_result
  | AManifest manifest
  | AManifests "manifest list"

text \<open>\<open>Rejected\<close> is \<open>RPCError\<close>; \<open>Unrouted\<close> the answer of the multiplexer itself.\<close>

datatype http_reply =
    Accepted answer
  | Rejected nat string string
  | Unrouted nat
  | NoReply

definition failure :: "error \<Rightarrow> http_reply" where
  "failure e =
     (if errors_is e ErrConflict then Rejected 409 ''conflict'' (error_text e)
      else Rejected 422 ''operation_failed'' (error_text e))"

definition decode :: "'a struct_fields \<Rightarrow> 'a \<Rightarrow> http_request \<Rightarrow> 'a result" where
  "decode fs zero req =
     (if hr_type req \<noteq> ''application/json'' then Inl (Msg ''Content-Type must be application/json'')
      else decode_object MaxRequest (\<lambda>ms. dec_members True fs ms zero) (hr_body req))"

definition rpc :: "'a struct_fields \<Rightarrow> 'a \<Rightarrow> ('a \<Rightarrow> answer io) \<Rightarrow> http_request \<Rightarrow> http_reply io" where
  "rpc fs zero fn req =
     (case decode fs zero req of
        Inl e \<Rightarrow> return (Rejected 400 ''invalid_request'' (error_text e))
      | Inr v \<Rightarrow> bind_io (try_io (fn v)) (\<lambda>r. return (case r of Inl e \<Rightarrow> failure e | Inr a \<Rightarrow> Accepted a)))"

text \<open>A pair of a result and an error, of which \<open>rpc\<close> drops the result when there is an error.\<close>

definition answer_of :: "('a \<Rightarrow> answer) \<Rightarrow> ('a \<times> error option) io \<Rightarrow> answer io" where
  "answer_of f m = bind_io m (\<lambda>(r, e). case e of None \<Rightarrow> return (f r) | Some e \<Rightarrow> fail e)"

definition control_rpc :: "runtime_env \<Rightarrow> string \<Rightarrow> answer io" where
  "control_rpc R act =
     then_io (rt_control R act)
     (then_io (if act = ''start'' \<or> act = ''restart'' \<or> act = ''reload'' then c_healthy (rt_controller R)
               else return ())
       (return AEmpty))"

definition snapshot_view :: "xml_codec \<Rightarrow> (manifest \<times> image) io \<Rightarrow> answer io" where
  "snapshot_view X m = bind_io m (\<lambda>(mf, im). return (ASnapshot mf (model X (sorted_keys im) im)))"

definition control_actions :: "(string \<times> string) list" where
  "control_actions =
     [(''StartAvahi'', ''start''), (''StopAvahi'', ''stop''), (''RestartAvahi'', ''restart''),
      (''ReloadAvahi'', ''reload''), (''EnableAvahi'', ''enable''), (''DisableAvahi'', ''disable'')]"

definition rpc_table :: "xml_codec \<Rightarrow> runtime_env \<Rightarrow> bool \<Rightarrow> (string \<times> (http_request \<Rightarrow> http_reply io)) list" where
  "rpc_table X R k =
     [(''ReadBaseline'', rpc [] () (\<lambda>_. snapshot_view X Baseline)),
      (''AcceptDisk'', rpc revision_field revision_zero (\<lambda>r. snapshot_view X (AcceptDisk (rq_revision r)))),
      (''ReadConfiguration'', rpc [] () (\<lambda>_. bind_io (Configuration X) (\<lambda>c. return (AConfiguration c)))),
      (''WriteDaemonConfig'', rpc daemon_fields \<lparr>rq_revision = [], rq_config = None\<rparr>
         (\<lambda>r. answer_of AApply (WriteDaemon X R k (rq_revision r) (rq_config r)))),
      (''WriteHosts'', rpc hosts_fields \<lparr>rq_revision = [], rq_hosts = None\<rparr>
         (\<lambda>r. answer_of AApply (WriteHosts X R k (rq_revision r) (rq_hosts r)))),
      (''WriteService'', rpc write_service_fields \<lparr>rq_revision = [], rq_service = [], rq_group = empty_group\<rparr>
         (\<lambda>r. answer_of AService (WriteService X R k (rq_revision r) (rq_service r) (rq_group r)))),
      (''DeleteService'', rpc delete_service_fields \<lparr>rq_revision = [], rq_delete = []\<rparr>
         (\<lambda>r. answer_of AApply (DeleteService X R k (rq_revision r) (rq_delete r))))]
     @ map (\<lambda>(m, act). (m, rpc [] () (\<lambda>_. control_rpc R act))) control_actions
     @ [(''CreateSnapshot'', rpc create_snapshot_fields \<lparr>rq_reason = []\<rparr>
           (\<lambda>r. bind_io (Snapshot (rq_reason r)) (\<lambda>m. return (AManifest m)))),
        (''ListSnapshots'', rpc [] () (\<lambda>_. bind_io snapshots (\<lambda>ms. return (AManifests ms)))),
        (''ViewSnapshot'', rpc snapshot_id_fields \<lparr>rq_snapshot = []\<rparr>
           (\<lambda>r. snapshot_view X (loadSnapshot (rq_snapshot r)))),
        (''DeleteSnapshot'', rpc snapshot_id_fields \<lparr>rq_snapshot = []\<rparr>
           (\<lambda>r. then_io (DeleteSnapshot (rq_snapshot r)) (return AEmpty))),
        (''RestoreSnapshot'', rpc restore_fields \<lparr>rq_revision = [], rq_restore = []\<rparr>
           (\<lambda>r. answer_of AApply (Restore X k (rq_restore r) (rq_revision r) (Some (rt_controller R)))))]"

text \<open>\<open>gone\<close> tells whether the client had left when the request got the lock.\<close>

definition handler :: "xml_codec \<Rightarrow> runtime_env \<Rightarrow> bool \<Rightarrow> bool \<Rightarrow> http_request \<Rightarrow> http_reply io" where
  "handler X R gone k req =
     (if gone then return NoReply
      else if \<not> prefix ''/rpc/'' (hr_path req) then return (Unrouted 404)
      else (case map_of (rpc_table X R k) (drop 5 (hr_path req)) of
          None \<Rightarrow> return (Unrouted 404)
        | Some h \<Rightarrow> if hr_method req \<noteq> ''POST'' then return (Unrouted 405) else h req))"

section \<open>What the requests do to the store\<close>

lemma secure_return: "sound d0 \<Longrightarrow> secure d0 (return x)"
  by (rule secureI, rule hoare_pre [OF hoare_return]) simp

lemma secure_fail: "sound d0 \<Longrightarrow> secure d0 (fail e)"
  by (rule secureI, rule hoare_pre [OF hoare_fail]) simp

lemma secure_ro: "ro m \<Longrightarrow> sound d0 \<Longrightarrow> secure d0 m"
  by (rule secureI, rule hoare_ro) auto

lemma secure_after_ro:
  assumes m: "ro m" and s: "sound d0" and k: "\<And>x. pure m d0 = Done x \<Longrightarrow> secure d0 (k x)"
  shows "secure d0 (bind_io m k)"
proof (rule secureI, rule hoare_bind)
  fix q
  show "hoare q (\<lambda>d. d = d0) m (\<lambda>x d. pure m d0 = Done x \<and> d = d0) (\<lambda>_. sound) sound"
    by (rule hoare_ro [OF m]) (use s in auto)
  show "hoare q (\<lambda>d. pure m d0 = Done x \<and> d = d0) (k x) (\<lambda>_. sound) (\<lambda>_. sound) sound" for x
    by (rule hoare_imp) (rule secureD [OF k])
qed

lemma secure_then_pure:
  assumes "secure d0 m" "\<And>x d. sound d \<Longrightarrow> secure d (k x)"
  shows "secure d0 (bind_io m k)"
  by (rule secureI, rule hoare_bind [OF secureD [OF assms(1)]], rule hoare_fix, rule secureD, rule assms(2))

lemma secure_bus:
  assumes "on_bus m" "sound d0"
  shows "secure d0 m"
proof (rule secureI)
  fix q
  show "hoare q (\<lambda>d. d = d0) m (\<lambda>_. sound) (\<lambda>_. sound) sound"
    unfolding hoare_def
  proof (intro allI impI)
    fix w assume w: "live q w" "w_disk w = d0"
    obtain cs where "fst (m w) \<noteq> Crashed" "snd (m w) = w\<lparr>w_bus := (w_bus w)\<lparr>b_calls := cs\<rparr>\<rparr>"
      using assms(1) unfolding on_bus_def by blast
    then show "post q (\<lambda>_. sound) (\<lambda>_. sound) sound (m w)"
      using w live_bus [OF w(1), of cs] assms(2) by (cases "m w"; cases "fst (m w)") (auto simp: post_def)
  qed
qed

lemma secure_rpc:
  assumes s: "sound d0" and fn: "\<And>v. decode fs zero req = Inr v \<Longrightarrow> secure d0 (fn v)"
  shows "secure d0 (rpc fs zero fn req)"
proof (cases "decode fs zero req")
  case (Inr v)
  have "hoare q (\<lambda>d. d = d0) (bind_io (try_io (fn v)) (\<lambda>r. return (case r of Inl e \<Rightarrow> failure e | Inr a \<Rightarrow> Accepted a)))
      (\<lambda>_. sound) (\<lambda>_. sound) sound" for q
  proof (rule hoare_bind [OF hoare_try])
    show "hoare q (\<lambda>d. d = d0) (fn v) (\<lambda>x. (\<lambda>_. sound) (Inr x :: answer result)) (\<lambda>e. (\<lambda>_. sound) (Inl e :: answer result)) sound"
      using secureD [OF fn [OF Inr]] by simp
  qed (auto intro: hoare_pre [OF hoare_return])
  then show ?thesis by (auto simp: rpc_def Inr intro: secureI)
qed (simp add: rpc_def secure_return [OF s])

lemma secure_answer_of: "secure d0 m \<Longrightarrow> secure d0 (answer_of f m)"
  unfolding answer_of_def
  by (rule secure_then_pure) (auto intro: secure_return secure_fail split: option.split)

lemma secure_view: "secure d0 m \<Longrightarrow> secure d0 (snapshot_view X m)"
  unfolding snapshot_view_def by (rule secure_then_pure) (auto intro: secure_return)

lemma secure_or_return:
  assumes m: "ro m" and s: "sound d0" and k: "\<And>x. pure m d0 = Done x \<Longrightarrow> secure d0 (k x)"
  shows "secure d0 (or_return r m k)"
  unfolding or_return_def
proof (rule secureI, rule hoare_bind [OF hoare_try])
  fix q
  let ?P = "\<lambda>x d. (case x of Inl e \<Rightarrow> d = d0 | Inr y \<Rightarrow> pure m d0 = Done y \<and> d = d0)"
  show "hoare q (\<lambda>d. d = d0) m (\<lambda>x. ?P (Inr x)) (\<lambda>e. ?P (Inl e)) sound"
    by (rule hoare_ro [OF m]) (use s in auto)
  fix x :: "error + 'a"
  show "hoare q (?P x) (case x of Inl e \<Rightarrow> return (r, Some e) | Inr v \<Rightarrow> k v) (\<lambda>_. sound) (\<lambda>_. sound) sound"
  proof (cases x)
    case (Inl e)
    then show ?thesis using s by (auto intro: hoare_pre [OF hoare_return])
  next
    case (Inr y)
    show ?thesis unfolding Inr sum.case by (rule hoare_imp) (rule secureD [OF k])
  qed
qed

lemma secure_control:
  assumes "sound d0"
  shows "secure d0 (control_rpc helper_runtime act)"
proof -
  have "on_bus (helper_Control act)" "on_bus helper_Healthy"
    by (simp_all add: helper_Control_def helper_Healthy_def Healthy_def bus_rules)
  then show ?thesis
    using assms unfolding control_rpc_def
    by (intro secure_bus) (auto simp: helper_runtime_def helper_controller_def intro!: bus_rules)
qed

text \<open>
  There is room for \<open>data\<close> at \<open>p\<close>: the manifest of the image with it stays under the limit of
  \<open>readFile\<close>. (The bound depends on the names, modes and owners of the files, and not on \<open>data\<close>.)
\<close>

definition room :: "disk \<Rightarrow> string \<Rightarrow> string \<Rightarrow> bool" where
  "room d p data \<longleftrightarrow> (\<forall>old b. clean old b d \<longrightarrow> sturdy old \<longrightarrow>
     image_weight (fmupd p (changed_file 0 0 old p data) old) + 5000 \<le> MaxFileSize)"

lemma single_keys: "sorted_keys (fmupd p x fmempty) = [p]"
  by (simp add: sorted_keys_upd)

lemma asked_write: "asked old (fmupd p (Some data) fmempty) new \<Longrightarrow> new = fmupd p (changed_file 0 0 old p data) old"
  by (cases "fmlookup old p") (auto simp: asked_def single_keys fm_get_def changed_file_def Let_def split: if_splits)

lemma asked_delete: "asked old (fmupd p None fmempty) new \<Longrightarrow> new = fmdrop p old"
  by (cases "fmlookup old p") (auto simp: asked_def single_keys fm_get_def changed_file_def Let_def split: if_splits)

lemma sorted_keys_drop: "sorted_keys (fmdrop p m) = filter (\<lambda>q. q \<noteq> p) (sorted_keys m)"
  by (rule sorted_distinct_set_unique) (auto simp: sorted_wrt_filter)

lemma drop_weight: "image_weight (fmdrop p m) \<le> image_weight m" "image_size (fmdrop p m) \<le> image_size m"
proof -
  have le: "(\<Sum>q\<leftarrow>filter (\<lambda>q. q \<noteq> p) ks. h q (fm_get zero_file (fmdrop p m) q)) \<le> (\<Sum>q\<leftarrow>ks. h q (fm_get zero_file m q))"
    for ks and h :: "string \<Rightarrow> cfile \<Rightarrow> nat"
    by (induction ks) (auto simp: fm_get_def)
  show "image_weight (fmdrop p m) \<le> image_weight m" "image_size (fmdrop p m) \<le> image_size m"
    using le [of entry_weight "sorted_keys m"] le [of "\<lambda>_ f. length (f_data f)" "sorted_keys m"]
    by (simp_all add: image_weight_def image_size_def sorted_keys_drop)
qed

lemma write_allowed:
  assumes "path_clean p = p" "utf8_valid p" "room d p data"
  shows "save_allowed d (fmap_of_list [(p, Some data)])"
  using assms by (auto simp: save_allowed_def changes_ok_def single_keys room_def Let_def
      simp del: set_sorted_keys dest!: asked_write)

lemma delete_allowed:
  assumes "path_clean p = p" "utf8_valid p"
  shows "save_allowed d (fmap_of_list [(p, None)])"
proof -
  have "image_weight (fmdrop p old) + 5000 \<le> MaxFileSize" if "sturdy old" for old
    using that drop_weight [of p old] by (auto simp: sturdy_def)
  then show ?thesis
    using assms by (auto simp: save_allowed_def changes_ok_def single_keys simp del: set_sorted_keys dest!: asked_delete)
qed

lemma ascii_paths: "utf8_valid conf_path" "utf8_valid hosts_path"
  by (rule runes_ascii(2); simp add: conf_path_def hosts_path_def byte_of_def)+

lemma secure_write:
  assumes "sound d0" "path_clean p = p" "utf8_valid p" "room d0 p data"
  shows "secure d0 (write_config X helper_runtime k expected p data)"
  using secure_Apply [OF assms(1) write_allowed [OF assms(2-4)]] by (simp add: write_config_def helper_runtime_def)

lemma pure_lift_done: "pure (lift_res r) d = Done x \<longleftrightarrow> r = Inr x"
  by (auto split: sum.splits)

lemma secure_WriteDaemon:
  assumes "sound d0" "\<And>d data. config = Some d \<Longrightarrow> daemon_marshal d = Inr data \<Longrightarrow> room d0 conf_path data"
  shows "secure d0 (WriteDaemon X helper_runtime k expected config)"
  unfolding WriteDaemon_def
  by (auto intro!: secure_or_return secure_return secure_write ro_rules assms clean_conf_hosts ascii_paths
      simp: pure_lift_done simp del: pure_lift split: option.split)

lemma secure_WriteHosts:
  assumes "sound d0" "\<And>hs data. hosts = Some hs \<Longrightarrow> MarshalHosts hs = Inr data \<Longrightarrow> room d0 hosts_path data"
  shows "secure d0 (WriteHosts X helper_runtime k expected hosts)"
  unfolding WriteHosts_def
  by (auto intro!: secure_or_return secure_return secure_write ro_rules assms clean_conf_hosts ascii_paths
      simp: pure_lift_done simp del: pure_lift split: option.split)

lemma ro_servicePath [ro_rules]: "ro (servicePath i)"
  by (auto simp: servicePath_def intro!: ro_rules split: option.split)

lemma pure_servicePath:
  assumes "pure (servicePath i) d = Done p"
  shows "\<exists>im f. pure read d = Done im \<and> fmlookup im p = Some f \<and> prefix services_dir p \<and> serviceID p = i"
proof -
  obtain im where im: "pure read d = Done im"
      "find (\<lambda>p. prefix services_dir p \<and> serviceID p = i) (sorted_keys im) = Some p"
    using assms by (auto simp: servicePath_def pure_then pure_bind ro_rules split: if_splits outcome.splits option.splits)
  then show ?thesis by (auto simp: find_Some_iff in_set_conv_nth [symmetric] fmlookup_dom_iff dest!: nth_mem)
qed

definition fresh_path :: "string \<Rightarrow> bool" where
  "fresh_path p \<longleftrightarrow> (\<exists>i. uuid_v4 i \<and> p = services_dir @ ''awm-'' @ i @ ''.service'')"

lemma fresh_path_ok:
  assumes "fresh_path p"
  shows "path_clean p = p" "utf8_valid p"
proof -
  obtain i where i: "uuid_v4 i" "p = services_dir @ ''awm-'' @ i @ ''.service''"
    using assms by (auto simp: fresh_path_def)
  show "path_clean p = p"
    using managed_path_valid(2) [OF fresh_service_managed [OF i(1)]] i(2) by (simp add: services_dir_def)
  have "byte_of c < 128" if "c \<in> set i" for c
    using uuid_v4_chars [OF i(1) that] by (auto simp: lower_hex_def is_digit_def byte_of_def)
  then show "utf8_valid p"
    by (intro runes_ascii(2)) (auto simp: i(2) list_all_iff services_dir_def byte_of_def)
qed

text \<open>The paths of the files that a service request can write.\<close>

definition service_target :: "disk \<Rightarrow> string \<Rightarrow> bool" where
  "service_target d p \<longleftrightarrow> fresh_path p \<or> prefix services_dir p \<and> (\<exists>im f. pure read d = Done im \<and> fmlookup im p = Some f)"

text \<open>Over a journal nothing is written, so the paths need not be canonical there.\<close>

lemma secure_Apply_existing:
  assumes s: "sound d0" and p: "pure read d0 = Done im" "fmlookup im p = Some f"
    and x: "\<And>data. x = Some data \<Longrightarrow> room d0 p data"
  shows "secure d0 (Apply X k expected (fmap_of_list [(p, x)]) (Some helper_controller))"
  using s
proof (cases rule: sound_cases)
  case (1 old b)
  have "im = old" using clean_read [OF 1(2)] p(1) by simp
  then have "path_clean p = p" "utf8_valid p"
    using 1(1) p(2) by (auto simp: sturdy_def loadable_def canonical_def fmlookup_dom_iff)
  then show ?thesis
    using secure_Apply [OF s] write_allowed delete_allowed x by (cases x) auto
next
  case 2
  show ?thesis by (rule secure_refused [OF s hoare_Apply_refused [OF 2]]) (use s in auto)
qed

lemma helper_runtime_simps [simp]:
  "rt_controller helper_runtime = helper_controller" "rt_control helper_runtime = helper_Control"
  by (simp_all add: helper_runtime_def)

lemma secure_DeleteService:
  assumes "sound d0"
  shows "secure d0 (DeleteService X helper_runtime k expected i)"
  unfolding DeleteService_def
proof (rule secure_or_return [OF ro_servicePath assms])
  fix p assume "pure (servicePath i) d0 = Done p"
  then obtain im f where im: "pure read d0 = Done im" "fmlookup im p = Some f" using pure_servicePath by blast
  show "secure d0 (Apply X k expected (fmap_of_list [(p, None)]) (Some (rt_controller helper_runtime)))"
    using secure_Apply_existing [OF assms im, of None] by simp
qed

lemma secure_fresh:
  assumes s: "sound d0" and k: "\<And>i. uuid_v4 i \<Longrightarrow> secure d0 (k i)"
  shows "secure d0 (bind_io fresh_id k)"
proof (rule secureI, rule hoare_bind)
  show "hoare q (\<lambda>d. d = d0) fresh_id (\<lambda>i d. uuid_v4 i \<and> d = d0) (\<lambda>_. sound) sound" for q
    by (rule hoare_fresh) (use s in simp)
  show "hoare q (\<lambda>d. uuid_v4 i \<and> d = d0) (k i) (\<lambda>_. sound) (\<lambda>_. sound) sound" for q i
    by (rule hoare_imp) (rule secureD [OF k])
qed

lemma secure_WriteService:
  assumes s: "sound d0"
    and room: "\<And>data p. group_marshal X g = Inr data \<Longrightarrow> service_target d0 p \<Longrightarrow> room d0 p data"
  shows "secure d0 (WriteService X helper_runtime k expected i g)"
proof -
  have w: "secure d0 (bind_io (write_config X helper_runtime k expected p data)
      (\<lambda>(r, e). return (\<lparr>sr_apply = r, sr_id = serviceID p\<rparr>, e)))"
    if data: "group_marshal X g = Inr data"
      and p: "pure (if i \<noteq> [] then servicePath i else return (services_dir @ ''awm-'' @ rid @ ''.service'')) d0 = Done p"
      and u: "uuid_v4 rid" for data rid p
  proof (rule secure_then_pure)
    show "secure d0 (write_config X helper_runtime k expected p data)"
    proof (cases "i = []")
      case True
      then have f: "fresh_path p" using p u by (auto simp: fresh_path_def)
      then show ?thesis
        by (intro secure_write s fresh_path_ok room data) (simp_all add: service_target_def)
    next
      case False
      then obtain im f where im: "pure read d0 = Done im" "fmlookup im p = Some f" "prefix services_dir p"
        using p pure_servicePath [of i d0 p] by auto
      then have "room d0 p data" by (intro room data) (auto simp: service_target_def)
      then show ?thesis
        using secure_Apply_existing [OF s im(1,2), of "Some data"] by (simp add: write_config_def)
    qed
  qed (auto intro: secure_return)
  show ?thesis
    unfolding WriteService_def
    by (rule secure_or_return [OF ro_lift s], rule secure_fresh [OF s], rule secure_or_return [OF _ s])
      (auto intro!: ro_rules w simp: pure_lift_done simp del: pure_lift)
qed

section \<open>The helper keeps the store sound\<close>

text \<open>
  What a request could write or restore leaves the manifest of the resulting image under the limit of
  \<open>readFile\<close>, which the code does not check, and a snapshot to restore names its files by clean UTF-8 paths.
  The sizes of the files and of the image are not bounded here: the code checks them.
\<close>

definition request_fits :: "xml_codec \<Rightarrow> http_request \<Rightarrow> disk \<Rightarrow> bool" where
  "request_fits X req d \<longleftrightarrow>
     (\<forall>r c data. decode daemon_fields \<lparr>rq_revision = [], rq_config = None\<rparr> req = Inr r \<longrightarrow>
        rq_config r = Some c \<longrightarrow> daemon_marshal c = Inr data \<longrightarrow> room d conf_path data) \<and>
     (\<forall>r hs data. decode hosts_fields \<lparr>rq_revision = [], rq_hosts = None\<rparr> req = Inr r \<longrightarrow>
        rq_hosts r = Some hs \<longrightarrow> MarshalHosts hs = Inr data \<longrightarrow> room d hosts_path data) \<and>
     (\<forall>r data p. decode write_service_fields \<lparr>rq_revision = [], rq_service = [], rq_group = empty_group\<rparr> req = Inr r \<longrightarrow>
        group_marshal X (rq_group r) = Inr data \<longrightarrow> service_target d p \<longrightarrow> room d p data) \<and>
     (\<forall>r. decode restore_fields \<lparr>rq_revision = [], rq_restore = []\<rparr> req = Inr r \<longrightarrow> restore_allowed d (rq_restore r))"

lemma secure_snapshots: "sound d0 \<Longrightarrow> secure d0 (bind_io snapshots (\<lambda>ms. return (AManifests ms)))"
  by (rule secure_ro) (auto intro!: ro_rules)

lemma secure_Configuration: "sound d0 \<Longrightarrow> secure d0 (bind_io (Configuration X) (\<lambda>c. return (AConfiguration c)))"
  by (rule secure_ro) (auto simp: Configuration_def intro!: ro_rules)

lemma secure_delete_rpc: "sound d0 \<Longrightarrow> secure d0 (then_io (DeleteSnapshot i) (return AEmpty))"
  unfolding then_io_def by (rule secure_then_pure [OF secure_Delete]) (auto intro: secure_return)

lemma secure_handler:
  assumes s: "sound d0" and fits: "request_fits X req d0"
  shows "secure d0 (handler X helper_runtime gone k req)"
proof -
  have "secure d0 (h req)" if "(m, h) \<in> set (rpc_table X helper_runtime k)" for m h
    using that fits unfolding rpc_table_def control_actions_def request_fits_def
    by (auto intro!: secure_rpc [OF s] secure_view secure_Baseline secure_Accept secure_Configuration
        secure_answer_of secure_WriteDaemon secure_WriteHosts secure_WriteService secure_DeleteService
        secure_control secure_snapshots secure_ro [OF ro_loadSnapshot] secure_Restore
        secure_then_pure [OF secure_Snapshot] secure_delete_rpc secure_return s)
  then have "secure d0 (h req)" if "map_of (rpc_table X helper_runtime k) m = Some h" for m h
    using map_of_SomeD [OF that] by blast
  then show ?thesis
    by (auto simp: handler_def secure_return [OF s] split: option.split)
qed

definition helper_handle :: "xml_codec \<times> bool \<times> bool \<times> http_request \<Rightarrow> http_reply io" where
  "helper_handle = (\<lambda>(X, gone, k, req). handler X helper_runtime gone k req)"

definition helper_ok :: "disk \<Rightarrow> xml_codec \<times> bool \<times> bool \<times> http_request \<Rightarrow> bool" where
  "helper_ok d = (\<lambda>(X, gone, k, req). request_fits X req d)"

interpretation rpcs: server helper_handle helper_ok
  by unfold_locales (auto simp: helper_handle_def helper_ok_def intro: secure_handler)

text \<open>
  C15. Whatever requests the helper serves, one after another and with any restarts, where any
  system call may fail or the process may die at it, the configuration and the backups stay
  sound: one whole image is in place, or a journal from which the old one is restored; and one
  recovery without faults makes the configuration whole, unless the files on disk under the journal are
  together over \<open>MaxTotalSize\<close>: it then fails and leaves the disk as it is. The requests are those
  of \<open>request_fits\<close>: the manifest of what they would write or restore stays under the 1 MiB that
  \<open>readFile\<close> accepts (the code does not check it), and restored snapshots name files by clean UTF-8 paths.
\<close>

theorem helper_sound:
  assumes "sound d" "(served helper_handle helper_ok)\<^sup>*\<^sup>* d (w_disk w)"
  shows "sound (w_disk w) \<and> (live True w \<longrightarrow> recovers w)"
  using rpcs.run_sound [OF assms(2,1)] sound_recovers by blast

lemma undecoded_fits:
  assumes "hr_type req \<noteq> ''application/json''"
  shows "request_fits X req d"
  using assms by (simp add: request_fits_def decode_def)

definition sample_body :: string where
  "sample_body = [CHR ''{'', CHR 0x22] @ ''reason'' @ [CHR 0x22, CHR '':'', CHR 0x22, CHR ''r'', CHR 0x22, CHR ''}'']"

definition sample_request :: http_request where
  "sample_request = \<lparr>hr_method = ''POST'', hr_path = ''/rpc/CreateSnapshot'', hr_type = ''application/json'',
     hr_body = sample_body\<rparr>"

lemma sample_body_json: "next_json sample_body = JsonValue (JObj [(''reason'', JStr ''r'')]) []"
proof -
  have str: "json_str (''reason'' @ CHR 0x22 # s) = Some (''reason'', s)" "json_str (''r'' @ CHR 0x22 # s) = Some (''r'', s)" for s
    by (simp_all add: json_str_Cons byte_of_def prepend_def)
  have "jvalue (Suc (Suc (Suc n))) 0 sample_body = Some (JObj [(''reason'', JStr ''r'')], [])" for n
    using str [of "CHR '':'' # CHR 0x22 # ''r'' @ [CHR 0x22, CHR ''}'']"] str(2) [of "[CHR ''}'']"]
    by (simp add: sample_body_def byte_of_def skip_ws_def json_space_def expect_def max_nesting_def)
  from this [of 30] have "jvalue (2 * length sample_body + 1) 0 sample_body = Some (JObj [(''reason'', JStr ''r'')], [])"
    using fuel_enough(1) [of sample_body "2 * length sample_body + 1" "Suc (Suc (Suc 30))" 0]
    by (simp add: sample_body_def)
  moreover have "skip_ws sample_body = sample_body" "sample_body \<noteq> []"
    by (simp_all add: skip_ws_def sample_body_def json_space_def byte_of_def)
  ultimately show ?thesis by (simp add: next_json_def)
qed

lemma sample_decode:
  assumes "hr_type req = ''application/json''" "hr_body req = sample_body"
  shows "decode fs zero req = bind_res (dec_members True fs [(''reason'', JStr ''r'')] zero) Inr"
proof -
  have "take MaxRequest sample_body = sample_body" "length sample_body \<le> MaxRequest"
    by (simp_all add: sample_body_def MaxRequest_def)
  moreover have "next_json [] = JsonEOF" by (simp add: next_json_def skip_ws_def)
  ultimately show ?thesis
    using assms by (simp add: decode_def decode_object_def sample_body_json)
qed

lemma sample_request_simps [simp]:
  "hr_type sample_request = ''application/json''" "hr_body sample_request = sample_body"
  "hr_method sample_request = ''POST''"
  by (simp_all add: sample_request_def)

lemma sample_request_fits: "request_fits X sample_request d"
  by (simp add: request_fits_def sample_decode daemon_fields_def hosts_fields_def write_service_fields_def
      restore_fields_def revision_field_def find_field_def lower_char_def byte_of_def)

lemma helper_sound_witness:
  "sound (w_disk (snd (helper_handle (sample_codec, False, False, sample_request) (pending_world [Pass, Dies]))))"
proof -
  let ?w = "pending_world [Pass, Dies]"
  have l: "live False ?w"
    by (rule pending_live [OF _ refl]) (simp add: calm_def pending_world_def sample_world_def)
  have "sound sample_pending" using sample_tx sample_sturdy by (auto simp: sound_def)
  then have s: "sound (w_disk ?w)" by (simp add: pending_world_def)
  have ok: "helper_ok (w_disk ?w) (sample_codec, False, False, sample_request)"
    by (simp add: helper_ok_def sample_request_fits)
  have "served helper_handle helper_ok (w_disk ?w)
      (w_disk (snd (helper_handle (sample_codec, False, False, sample_request) ?w)))"
    by (rule handled [where ok = helper_ok, OF l ok])
  then show ?thesis using helper_sound [OF s] r_into_rtranclp by metis
qed

lemma rpc_refused:
  assumes "fst (rpc fs zero fn req w) = Done r"
    and "r = NoReply \<or> (\<exists>s. r = Unrouted s) \<or> (\<exists>c m. r = Rejected 400 c m)"
  shows "snd (rpc fs zero fn req w) = w"
proof (cases "decode fs zero req")
  case (Inr v)
  then show ?thesis
    using assms by (cases "fn v w"; cases "fst (fn v w)")
      (auto simp: rpc_def bind_io_def try_io_def return_def failure_def split: if_splits)
qed (simp add: rpc_def return_def)

text \<open>
  A request that is refused before its operation runs (a method or a route that does not
  exist, a body that is not one JSON object of the expected fields) has no effect at all: no system
  call, no message on the bus, no randomness consumed.
\<close>

theorem refused_untouched:
  assumes "fst (handler X R gone k req w) = Done r"
    and "r = NoReply \<or> (\<exists>s. r = Unrouted s) \<or> (\<exists>c m. r = Rejected 400 c m)"
  shows "snd (handler X R gone k req w) = w"
proof (cases "gone \<or> \<not> prefix ''/rpc/'' (hr_path req) \<or> hr_method req \<noteq> ''POST''")
  case True
  then show ?thesis by (auto simp: handler_def return_def split: option.split)
next
  case False
  show ?thesis
  proof (cases "map_of (rpc_table X R k) (drop 5 (hr_path req))")
    case None
    then show ?thesis by (simp add: handler_def return_def)
  next
    case (Some h)
    have "snd (g req w) = w" if "(m, g) \<in> set (rpc_table X R k)" "fst (g req w) = Done r" for m g
      using that unfolding rpc_table_def control_actions_def by (auto intro: rpc_refused [OF _ assms(2)])
    then show ?thesis
      using assms(1) False map_of_SomeD [OF Some] by (simp add: handler_def Some)
  qed
qed

lemma refused_untouched_witness:
  "snd (handler sample_codec helper_runtime False False (sample_request\<lparr>hr_path := ''/rpc/WriteHosts''\<rparr>) (sample_world [])) =
     sample_world []"
proof (rule refused_untouched)
  let ?r = "sample_request\<lparr>hr_path := ''/rpc/WriteHosts''\<rparr>"
  show "fst (handler sample_codec helper_runtime False False ?r (sample_world [])) =
      Done (Rejected 400 ''invalid_request'' (error_text (Msg ''json: unknown field reason'')))"
    by (simp add: handler_def rpc_table_def rpc_def sample_decode hosts_fields_def revision_field_def find_field_def
        lower_char_def byte_of_def return_def)
qed simp

section \<open>The client\<close>

record rpc_error =
  re_code :: string
  re_message :: string

definition rpc_error_fields :: "rpc_error struct_fields" where
  "rpc_error_fields =
     [(''code'', field dec_string re_code re_code_update),
      (''message'', field dec_string re_message re_message_update)]"

text \<open>\<open>json.Unmarshal\<close>: one value with nothing but white space around it.\<close>

definition unmarshal :: "'a decoder \<Rightarrow> 'a \<Rightarrow> string \<Rightarrow> 'a result" where
  "unmarshal dec zero data =
     (case next_json data of
        JsonValue v rest \<Rightarrow> if skip_ws rest = [] then dec v zero else Inl (Msg ''invalid character after top-level value'')
      | JsonEOF \<Rightarrow> Inl (Msg ''unexpected end of JSON input'')
      | JsonError \<Rightarrow> Inl (Msg ''invalid character''))"

definition method_ok :: "string \<Rightarrow> bool" where
  "method_ok m \<longleftrightarrow> list_all (\<lambda>r. 65 \<le> r \<and> r \<le> 90 \<or> 97 \<le> r \<and> r \<le> 122) (runes m) \<and> m \<noteq> []"

text \<open>What a call makes of its method and its input's text: the request.\<close>

definition call_request :: "string \<Rightarrow> string result \<Rightarrow> http_request result" where
  "call_request m input =
     (if \<not> method_ok m then Inl (Msg ''invalid RPC name'')
      else bind_res input (\<lambda>b. Inr \<lparr>hr_method = ''POST'', hr_path = ''/rpc/'' @ m,
        hr_type = ''application/json'', hr_body = b\<rparr>))"

definition MaxReply :: nat where
  "MaxReply = 33554432"

datatype 'a call_outcome = Returned 'a | RemoteError rpc_error | CallFailed error

text \<open>What it makes of the status and the body of the reply.\<close>

definition call_reply :: "'a decoder \<Rightarrow> 'a \<Rightarrow> nat \<Rightarrow> string \<Rightarrow> 'a call_outcome" where
  "call_reply dec zero status body =
     (if status \<noteq> 200 then
        (case unmarshal (dec_struct False rpc_error_fields) \<lparr>re_code = [], re_message = []\<rparr> (take MaxReply body) of
           Inr e \<Rightarrow> if re_code e \<noteq> [] then RemoteError e
             else CallFailed (Msg (''helper RPC returned HTTP '' @ nat_dec status))
         | Inl _ \<Rightarrow> CallFailed (Msg (''helper RPC returned HTTP '' @ nat_dec status)))
      else (case unmarshal dec zero (take MaxReply body) of Inl e \<Rightarrow> CallFailed e | Inr v \<Rightarrow> Returned v))"

text \<open>The body that \<open>reply\<close> writes for an error.\<close>

definition error_body :: "string \<Rightarrow> string \<Rightarrow> string" where
  "error_body code msg =
     ''{'' @ json_quote ''code'' @ '':'' @ json_quote code @ '','' @ json_quote ''message'' @ '':''
     @ json_quote msg @ ''}'' @ [nl]"

lemma ws_simps: "skip_ws (CHR 0x22 # s) = CHR 0x22 # s" "skip_ws (CHR ''}'' # s) = CHR ''}'' # s"
  "skip_ws (CHR '','' # s) = CHR '','' # s" "skip_ws (CHR '':'' # s) = CHR '':'' # s"
  "skip_ws (CHR ''{'' # s) = CHR ''{'' # s"
  by (simp_all add: skip_ws_def json_space_def byte_of_def)

lemma expect_simps: "expect c (c # s) = Some s" "c \<noteq> d \<Longrightarrow> expect c (d # s) = None" "expect c [] = None"
  by (simp_all add: expect_def)

lemma jvalue_string: "jvalue (Suc n) d (json_quote s @ r) = Some (JStr (json_string s), r)"
  by (simp add: json_quote_def byte_of_def json_str_chars)

lemma jmembers_strings:
  "jmembers (Suc (Suc (Suc n))) d (json_quote k @ CHR '':'' # json_quote v @ CHR '','' # json_quote l @ CHR '':'' # json_quote u @ CHR ''}'' # r)
     = Some ([(json_string k, JStr (json_string v)), (json_string l, JStr (json_string u))], r)"
proof -
  have q: "json_quote s @ t = CHR 0x22 # json_chars s @ CHR 0x22 # t" for s t by (simp add: json_quote_def)
  note str = json_str_chars
  show ?thesis
    unfolding q by (simp add: expect_simps str ws_simps byte_of_def)
qed

lemma json_string_ascii: "list_all (\<lambda>c. byte_of c < 128) s \<Longrightarrow> json_string s = s"
proof (induction s)
  case (Cons a s)
  then show ?case by (subst json_string.simps) simp
qed (simp add: json_string.simps)

lemma error_body_json:
  "next_json (error_body code msg) =
     JsonValue (JObj [(''code'', JStr (json_string code)), (''message'', JStr (json_string msg))]) [nl]"
proof -
  let ?b = "error_body code msg"
  have names: "json_string ''code'' = ''code''" "json_string ''message'' = ''message''"
    by (rule json_string_ascii; simp add: byte_of_def)+
  have "jvalue (Suc (Suc (Suc (Suc n)))) 0 ?b =
      Some (JObj [(''code'', JStr (json_string code)), (''message'', JStr (json_string msg))], [nl])" for n
    using jmembers_strings [of n 1 "''code''" code "''message''" msg "[nl]"]
    by (simp add: error_body_def byte_of_def max_nesting_def names ws_simps expect_simps json_quote_def
        del: jmembers.simps)
  from this [of "2 * length ?b"] have "jvalue (2 * length ?b + 1) 0 ?b =
      Some (JObj [(''code'', JStr (json_string code)), (''message'', JStr (json_string msg))], [nl])"
    using fuel_enough(1) [of ?b "2 * length ?b + 1" "Suc (Suc (Suc (Suc (2 * length ?b))))" 0] by simp
  moreover have "skip_ws ?b = ?b" "?b \<noteq> []" by (simp_all add: error_body_def ws_simps)
  ultimately show ?thesis by (simp add: next_json_def)
qed

lemma rpc_code:
  "fst (rpc fs zero fn req w) = Done (Rejected s c m) \<Longrightarrow>
     c \<in> {''invalid_request'', ''conflict'', ''operation_failed''} \<and> s \<noteq> 200"
  by (cases "decode fs zero req"; cases "fn (projr (decode fs zero req)) w"; cases "fst (fn (projr (decode fs zero req)) w)")
    (auto simp: rpc_def bind_io_def try_io_def return_def failure_def split: if_splits)

lemma rejected_code:
  assumes "fst (handler X R gone k req w) = Done (Rejected s c m)"
  shows "c \<in> {''invalid_request'', ''conflict'', ''operation_failed''} \<and> s \<noteq> 200"
proof -
  obtain h where h: "map_of (rpc_table X R k) (drop 5 (hr_path req)) = Some h" "fst (h req w) = Done (Rejected s c m)"
    using assms by (auto simp: handler_def return_def split: if_splits option.splits)
  have "c \<in> {''invalid_request'', ''conflict'', ''operation_failed''} \<and> s \<noteq> 200"
    if "(n, g) \<in> set (rpc_table X R k)" "fst (g req w) = Done (Rejected s c m)" for n g
    using that unfolding rpc_table_def control_actions_def by (auto dest!: rpc_code)
  then show ?thesis using map_of_SomeD [OF h(1)] h(2) by blast
qed

text \<open>
  C24. An error of the helper reaches its client: from the reply that the helper sends, the
  client's call returns an error with the same code and the same message, but for bytes that
  are not UTF-8.
\<close>

theorem rpc_error_roundtrip:
  assumes "fst (handler X R gone k req w) = Done (Rejected s c m)" "length (error_body c m) \<le> MaxReply"
  shows "call_reply dec zero s (error_body c m) = RemoteError \<lparr>re_code = c, re_message = json_string m\<rparr>"
proof -
  have c: "c \<in> {''invalid_request'', ''conflict'', ''operation_failed''}" "s \<noteq> 200"
    using rejected_code [OF assms(1)] by auto
  have "list_all (\<lambda>c. byte_of c < 128) c" "c \<noteq> []" using c(1) by (auto simp: byte_of_def)
  then have code: "json_string c = c" "c \<noteq> []" by (simp_all add: json_string_ascii)
  have ws: "skip_ws [nl] = []" by (simp add: skip_ws_def json_space_def byte_of_def)
  show ?thesis
    using assms(2) c(2) code
    by (simp add: call_reply_def unmarshal_def error_body_json ws dec_struct_def rpc_error_fields_def find_field_def
        field_def dec_string_def)
qed

lemma rpc_error_roundtrip_witness:
  "call_reply dec_string [] 400 (error_body ''invalid_request'' ''json: unknown field reason'') =
     RemoteError \<lparr>re_code = ''invalid_request'', re_message = json_string ''json: unknown field reason''\<rparr>"
proof (rule rpc_error_roundtrip)
  let ?r = "sample_request\<lparr>hr_path := ''/rpc/WriteHosts''\<rparr>"
  show "fst (handler sample_codec helper_runtime False False ?r (sample_world [])) =
      Done (Rejected 400 ''invalid_request'' ''json: unknown field reason'')"
    by (simp add: handler_def rpc_table_def rpc_def sample_decode hosts_fields_def revision_field_def find_field_def
        lower_char_def byte_of_def return_def)
  have "length (json_chars (s :: string)) \<le> 6 * length s" for s by (rule json_chars_length)
  from this [of "''code''"] this [of "''invalid_request''"] this [of "''message''"] this [of "''json: unknown field reason''"]
  show "length (error_body ''invalid_request'' ''json: unknown field reason'') \<le> MaxReply"
    by (simp add: error_body_def json_quote_def MaxReply_def)
qed

section \<open>Peers\<close>

text \<open>A connection with the user of its peer, unless the credentials cannot be read.\<close>

record conn =
  cn_unix :: bool
  cn_cred :: "nat result"

definition peerUID :: "conn \<Rightarrow> nat result" where
  "peerUID c = (if cn_unix c then cn_cred c else Inl (Msg ''helper requires Unix sockets''))"

text \<open>
  \<open>Accept\<close> on the connections that arrive until the listener fails: the connection it returns,
  those it closed before, and those that are left.
\<close>

fun accept :: "nat \<Rightarrow> conn result list \<Rightarrow> conn result \<times> conn list \<times> conn result list" where
  "accept uid [] = (Inl (Msg ''use of closed network connection''), [], [])"
| "accept uid (Inl e # cs) = (Inl e, [], cs)"
| "accept uid (Inr c # cs) =
     (if peerUID c = Inr uid then (Inr c, [], cs)
      else (let (r, closed, rest) = accept uid cs in (r, c # closed, rest)))"

text \<open>
  The helper talks to no other user than the one it was started for: a connection that
  \<open>Accept\<close> returns is a Unix connection of that user, and every connection before it was of
  somebody else, or of nobody that could be told, and has been closed.
\<close>

theorem accept_peer:
  assumes "accept uid cs = (Inr c, closed, rest)"
  shows "peerUID c = Inr uid \<and> cn_unix c \<and> cs = map Inr closed @ Inr c # rest \<and>
    list_all (\<lambda>x. peerUID x \<noteq> Inr uid) closed"
  using assms
proof (induction uid cs arbitrary: closed rule: accept.induct)
  case (3 uid x cs)
  then show ?case by (auto simp: peerUID_def split: if_splits prod.splits)
qed auto

lemma accept_peer_witness:
  "peerUID \<lparr>cn_unix = True, cn_cred = Inr 7\<rparr> = Inr 7"
  using accept_peer [of 7 "[Inr \<lparr>cn_unix = False, cn_cred = Inr 7\<rparr>, Inr \<lparr>cn_unix = True, cn_cred = Inr 0\<rparr>,
      Inr \<lparr>cn_unix = True, cn_cred = Inr 7\<rparr>]" "\<lparr>cn_unix = True, cn_cred = Inr 7\<rparr>"]
  by (simp add: peerUID_def)

section \<open>Service files by their identifiers\<close>

text \<open>
  A service is addressed by the hash of its path alone: the path that an identifier resolves to
  is a file below \<open>services/\<close> of the configuration that was read, with that hash, and the
  lookup changes nothing on the disk.
\<close>

theorem service_path_found:
  assumes "live q w" "fst (servicePath i w) = Done p"
  shows "w_disk (snd (servicePath i w)) = w_disk w \<and> prefix services_dir p \<and> serviceID p = i \<and>
    (\<exists>im f. pure read (w_disk w) = Done im \<and> fmlookup im p = Some f)"
proof -
  have "hoare q (\<lambda>d. d = w_disk w) (servicePath i) (\<lambda>p d. pure (servicePath i) (w_disk w) = Done p \<and> d = w_disk w)
      (\<lambda>_ _. True) (\<lambda>_. True)"
    by (rule hoare_ro [OF ro_servicePath]) auto
  from hoareD [OF this assms(1) refl] have "pure (servicePath i) (w_disk w) = Done p"
      "w_disk (snd (servicePath i w)) = w_disk w"
    using assms(2) by (cases "servicePath i w"; auto simp: post_def)+
  then show ?thesis using pure_servicePath by blast
qed

definition service_disk :: disk where
  "service_disk = \<lparr>d_conf = \<lparr>t_nodes = fmap_of_list [(conf_path, File (Bytes ''[server]'') 420 0 0),
       (''services/a.service'', File (Bytes ''x'') 420 0 0)], t_services = IsDir\<rparr>,
     d_top = empty_tree, d_snaps = fmempty\<rparr>"

definition service_image :: image where
  "service_image = fmupd ''services/a.service'' \<lparr>f_data = ''x'', f_mode = 420, f_uid = 0, f_gid = 0\<rparr> sample_old"

lemma service_keys: "sorted_keys service_image = [conf_path, ''services/a.service'']"
proof -
  have "conf_path < ''services/a.service''" by (simp add: conf_path_def less_char_def)
  then show ?thesis by (simp add: service_image_def sorted_keys_upd sample_old_def fmdrop_fmupd not_le less_imp_neq [symmetric])
qed

lemma service_read: "pure read service_disk = Done service_image"
proof -
  let ?p = "''services/a.service''"
  have clean: "path_clean ?p = ?p" by code_simp
  have ne: "conf_path \<noteq> ?p" "hosts_path \<noteq> ?p" by (simp_all add: conf_path_def hosts_path_def)
  have m: "(420 :: 32 word) AND 511 = 420" by simp
  have sk: "service_key ?p" by code_simp
  have wf: "wf_tree (d_conf service_disk)"
    using clean clean_conf_hosts path_facts by (auto simp: wf_tree_def service_disk_def)
  have cfg: "fmlookup service_image p = cfg (d_conf service_disk) p" for p
    using ne m sk by (auto simp: cfg_def service_image_def service_disk_def sample_keys(4) config_path_def
        opened_file_def MaxFileSize_def)
  have rd: "readable (d_conf service_disk)"
    using ne by (simp add: readable_def service_disk_def opened_file_def MaxFileSize_def)
  have "image_size service_image \<le> MaxTotalSize"
    unfolding image_size_def service_keys
    using ne by (simp add: service_image_def fm_get_def sample_keys(4) MaxTotalSize_def)
  then show ?thesis using pure_read [OF wf] rd cfg by blast
qed

lemma service_path_found_witness:
  "prefix services_dir ''services/a.service'' \<and>
   w_disk (snd (servicePath (serviceID ''services/a.service'') ((sample_world [])\<lparr>w_disk := service_disk\<rparr>))) = service_disk"
proof -
  let ?p = "''services/a.service''"
  define w where "w = (sample_world [])\<lparr>w_disk := service_disk\<rparr>"
  have w: "w_disk w = service_disk" "w_sched w = []" "w_euid w = 0" "w_egid w = 0"
    by (simp_all add: w_def sample_world_def)
  then have calm: "calm w" and live: "live False w" by (simp_all add: calm_def live_def)
  have special: "\<not> prefix services_dir conf_path" by (rule special_paths)
  have "pure (servicePath (serviceID ?p)) service_disk = Done ?p"
    using special
    by (simp add: servicePath_def pure_then pure_bind ro_rules service_read service_keys) (simp add: services_dir_def serviceID_def)
  with w have "fst (servicePath (serviceID ?p) w) = Done ?p"
    by - (rule roD [OF ro_servicePath [of "serviceID ?p"] calm], auto)
  from service_path_found [OF live this] show ?thesis by (simp add: w flip: w_def)
qed

end
