(* ===== verification/ReadBack.thy ===== *)
theory ReadBack
  imports Helper
begin

text \<open>
  From what is saved to what is read: when the helper answers a write of the settings or of the hosts with
  success, the next reading of the configuration gives back exactly what was asked for, with every other
  file as it was. Here the transaction, the printers and the parsers come together.
\<close>

definition write_allowed :: "image \<Rightarrow> string \<Rightarrow> string \<Rightarrow> bool" where
  "write_allowed old p data \<longleftrightarrow>
     (\<forall>new. asked old (fmap_of_list [(p, Some data)]) new \<longrightarrow>
        manifest_bound new ''Managed configuration'' \<and> image_size new \<le> MaxTotalSize)"

lemma sorted_keys_one: "sorted_keys (fmupd p x fmempty) = [p]"
  by (simp add: sorted_keys_upd_new)

lemma asked_one:
  assumes "asked old (fmap_of_list [(p, Some data)]) new"
  shows "f_data (fm_get zero_file new p) = data" "\<forall>q. q \<noteq> p \<longrightarrow> fmlookup new q = fmlookup old q" "fmlookup new p \<noteq> None"
  using assms by (auto simp: asked_def sorted_keys_one fm_get_def Let_def split: if_splits)

lemma clean_reads:
  assumes "clean im b d" "image_size im \<le> MaxTotalSize"
  shows "pure (Configuration X) d = Done (model X (sorted_keys im) im)"
proof -
  have "pure read d = Done im"
    using assms pure_read [of d im] by (auto simp: clean_def settled_def holds_def good_def)
  then show ?thesis by (simp add: Configuration_def pure_bind ro_rules)
qed

definition only_changed :: "string \<Rightarrow> image \<Rightarrow> image \<Rightarrow> bool" where
  "only_changed p old new \<longleftrightarrow> (\<forall>q. q \<noteq> p \<longrightarrow> fmlookup new q = fmlookup old q)"

text \<open>
  The outcomes of a write of one file: on success \<open>Q\<close> holds of the configuration that is read next; otherwise
  the store rests with the old or the new image, or a journal that restores the old one.
\<close>

definition written :: "xml_codec \<Rightarrow> string \<Rightarrow> image \<Rightarrow> (configuration \<Rightarrow> bool) \<Rightarrow> (apply_result \<times> error option) outcome \<Rightarrow> disk \<Rightarrow> bool" where
  "written X p old Q out d \<longleftrightarrow>
     (case out of
        Done (r, None) \<Rightarrow> \<exists>new c. committed new d \<and> only_changed p old new \<and>
          pure (Configuration X) d = Done c \<and> cf_revision c = Revision new \<and> Q c
      | Failed e \<Rightarrow> False
      | _ \<Rightarrow> \<exists>new. only_changed p old new \<and> resting old new d)"

lemma written_old: "clean old b d \<Longrightarrow> written X p old Q (Done (r, Some e)) d"
  by (auto simp: written_def resting_def only_changed_def)

lemma model_revision: "cf_revision (model X ps im) = Revision im"
  by (simp add: model_def Let_def split: prod.split)

lemma write_config_written:
  assumes "live q w" "clean old b (w_disk w)" "storable ''Save & Apply'' old" "p = conf_path \<or> p = hosts_path"
    and "write_allowed old p data" "write_config X helper_runtime k expected p data w = (out, w')"
    and Q: "\<And>new. f_data (fm_get zero_file new p) = data \<Longrightarrow> Q (model X (sorted_keys new) new)"
  shows "written X p old Q out (w_disk w')"
proof -
  let ?ch = "fmap_of_list [(p, Some data)]"
  have ch: "changes_ok ?ch" using assms(4) path_facts clean_conf_hosts by (auto simp: changes_ok_def sorted_keys_one simp del: set_sorted_keys)
  have m: "asked old ?ch new \<Longrightarrow> manifest_bound new ''Managed configuration''" for new
    using assms(5) by (simp add: write_allowed_def)
  have run: "Apply X k expected ?ch (Some helper_controller) w = (out, w')"
    using assms(6) by (simp add: write_config_def helper_runtime_def)
  have post: "case out of Done r \<Rightarrow> clean old b (w_disk w') \<and> snd r \<noteq> None \<or> (\<exists>new. asked old ?ch new \<and> answered q old new r (w_disk w'))
      | Failed e \<Rightarrow> False | Crashed \<Rightarrow> clean old b (w_disk w') \<or> (\<exists>new. asked old ?ch new \<and> resting old new (w_disk w'))"
    using hoare_run [OF apply_triple [OF assms(2,3) ch m] assms(1) refl run] by (cases out) simp_all
  have only: "asked old ?ch new \<Longrightarrow> only_changed p old new" for new
    using asked_one(2) by (auto simp: only_changed_def)
  have refl: "only_changed p old old" by (simp add: only_changed_def)
  show ?thesis
  proof (cases out)
    case (Failed e)
    then show ?thesis using post by simp
  next
    case Crashed
    then show ?thesis using post only refl resting_old by (auto simp: written_def)
  next
    case (Done r)
    obtain x err where r: "r = (x, err)" by fastforce
    show ?thesis
    proof (cases err)
      case (Some e)
      then have "clean old b (w_disk w') \<or> (\<exists>new. asked old ?ch new \<and> resting old new (w_disk w'))"
        using post Done r by (auto simp: answered_def)
      then show ?thesis using Done r Some only refl resting_old by (auto simp: written_def)
    next
      case None
      then obtain new where n: "asked old ?ch new" "committed new (w_disk w')"
        using post Done r by (auto simp: answered_def)
      then obtain i where "clean new i (w_disk w')" by (auto simp: committed_def)
      moreover have "image_size new \<le> MaxTotalSize" using n(1) assms(5) by (auto simp: write_allowed_def)
      ultimately have "pure (Configuration X) (w_disk w') = Done (model X (sorted_keys new) new)" by (rule clean_reads)
      then show ?thesis using Done r None n only Q asked_one(1) model_revision by (fastforce simp: written_def)
    qed
  qed
qed

text \<open>
  C7. A table of hosts that is saved with success is the table that is read next, under the revision of the new
  image, and nothing but the hosts file has changed. A save that fails, or in which the process dies at any
  call, leaves a store at rest, again with no other file changed.
\<close>

theorem saved_hosts_read_back:
  assumes "live q w" "clean old b (w_disk w)" "storable ''Save & Apply'' old"
    and "short_hosts hs" "\<And>data. MarshalHosts hs = Inr data \<Longrightarrow> write_allowed old hosts_path data"
    and "WriteHosts X helper_runtime k expected (Some hs) w = (out, w')"
  shows "written X hosts_path old (\<lambda>c. cf_hosts c = hs) out (w_disk w')"
proof (cases "MarshalHosts hs")
  case (Inl e)
  then have "out = Done (empty_result, Some e)" "w' = w" using assms(6)
    by (auto simp: WriteHosts_def or_return_def lift_res_def bind_io_def try_io_def return_def fail_def)
  then show ?thesis using written_old assms(2) by simp
next
  case (Inr data)
  then have run: "write_config X helper_runtime k expected hosts_path data w = (out, w')"
    using assms(6) by (auto simp: WriteHosts_def or_return_def lift_res_def bind_io_def try_io_def return_def fail_def)
  have "parsed_hosts data = (hs, None)"
    using hosts_roundtrip [OF assms(4) Inr] by (simp add: parsed_hosts_result split: prod.splits option.splits)
  then have "f_data (fm_get zero_file new hosts_path) = data \<Longrightarrow> cf_hosts (model X (sorted_keys new) new) = hs" for new
    by (simp add: model_def Let_def split: prod.split)
  then show ?thesis by (rule write_config_written [OF assms(1-3) disjI2 [OF refl] assms(5) [OF Inr] run])
qed


section \<open>A save in the sample store\<close>

lemma small_manifest:
  assumes "set (sorted_keys im) \<subseteq> {conf_path, hosts_path}"
    and "\<And>p f. fmlookup im p = Some f \<Longrightarrow> f_mode f = 420 \<and> f_uid f = 0 \<and> f_gid f = 0"
  shows "manifest_bound im ''Managed configuration''"
proof -
  have "(\<Sum>p\<leftarrow>sorted_keys im. g p) \<le> g conf_path + g hosts_path" for g :: "string \<Rightarrow> nat"
  proof -
    have "(\<Sum>p\<leftarrow>sorted_keys im. g p) = sum g (set (sorted_keys im))"
      using distinct_sorted_keys by (rule sum_list_distinct_conv_sum_set)
    also have "\<dots> \<le> sum g {conf_path, hosts_path}" by (rule sum_mono2) (use assms(1) in auto)
    also have "\<dots> = g conf_path + g hosts_path" using path_facts(1) by simp
    finally show ?thesis .
  qed
  from this [of "\<lambda>p. entry_weight p (fm_get zero_file im p)"]
  have b: "image_weight im \<le> entry_weight conf_path (fm_get zero_file im conf_path) + entry_weight hosts_path (fm_get zero_file im hosts_path)"
    by (simp add: image_weight_def)
  have n: "length (nat_dec (unat (0 :: 32 word))) \<le> 3" "length (nat_dec (unat (420 :: 32 word))) \<le> 3" "length (int_dec 0) = 1"
    by (simp_all add: nat_dec_def int_dec_def digits_base.simps)
  have "f_mode (fm_get zero_file im p) \<in> {0, 420} \<and> f_uid (fm_get zero_file im p) = 0 \<and> f_gid (fm_get zero_file im p) = 0" for p
    using assms(2) [of p] by (cases "fmlookup im p") (auto simp: fm_get_def zero_file_def)
  note z = this
  have "entry_weight p (fm_get zero_file im p) \<le> 6 * length p + 705" for p
    using n z [of p] by (auto simp: entry_weight_def)
  from this [of conf_path] this [of hosts_path] have "image_weight im \<le> 2000" using b path_facts(6,7) by simp
  then show ?thesis by (auto intro!: manifest_bound_weight simp: MaxFileSize_def)
qed

lemma sample_allowed:
  assumes "p = conf_path \<or> p = hosts_path" "length data \<le> 1000"
  shows "write_allowed sample_old p data"
proof -
  have "manifest_bound new ''Managed configuration'' \<and> image_size new \<le> MaxTotalSize"
    if a: "asked sample_old (fmap_of_list [(p, Some data)]) new" for new
  proof -
    have look: "fmlookup new q = (if q = p then Some \<lparr>f_data = data, f_mode = 420, f_uid = 0, f_gid = 0\<rparr> else fmlookup sample_old q)" for q
      using a assms(1) by (auto simp: asked_def sorted_keys_one fm_get_def Let_def sample_keys(4) split: if_splits)
    have k: "set (sorted_keys new) \<subseteq> {conf_path, hosts_path}"
      using assms(1) look sample_keys(4) by (auto simp: fmlookup_dom_iff split: if_splits)
    have "manifest_bound new ''Managed configuration''"
      by (rule small_manifest [OF k]) (auto simp: look sample_keys(4) split: if_splits)
    moreover have "image_size new \<le> MaxTotalSize"
    proof -
      have "image_size new = (\<Sum>q\<leftarrow>sorted_keys new. length (f_data (fm_get zero_file new q)))" by (simp add: image_size_def)
      also have "\<dots> = (\<Sum>q\<in>set (sorted_keys new). length (f_data (fm_get zero_file new q)))"
        using distinct_sorted_keys by (rule sum_list_distinct_conv_sum_set)
      also have "\<dots> \<le> (\<Sum>q\<in>{conf_path, hosts_path}. length (f_data (fm_get zero_file new q)))"
        by (rule sum_mono2) (use k in auto)
      also have "\<dots> \<le> 2000"
        using assms path_facts(1) by (auto simp: fm_get_def look sample_keys(4) zero_file_def)
      finally show ?thesis by (simp add: MaxTotalSize_def)
    qed
    ultimately show ?thesis by simp
  qed
  then show ?thesis by (simp add: write_allowed_def)
qed

lemma saved_hosts_read_back_witness:
  "written sample_codec hosts_path sample_old (\<lambda>c. cf_hosts c = sample_hosts)
     (fst (WriteHosts sample_codec helper_runtime False (Revision sample_old) (Some sample_hosts) (sample_world [Pass, Fails])))
     (w_disk (snd (WriteHosts sample_codec helper_runtime False (Revision sample_old) (Some sample_hosts) (sample_world [Pass, Fails]))))"
proof (rule saved_hosts_read_back [OF _ sample_clean sample_storable [OF disjI1 [OF refl]] _ _ prod.collapse [symmetric]])
  show "live False (sample_world [Pass, Fails])" by (rule sample_live) (simp add: calm_def sample_world_def)
  show "short_hosts sample_hosts" by (simp add: short_hosts_def sample_hosts_def hosts_line_limit_def)
  show "write_allowed sample_old hosts_path data" if "MarshalHosts sample_hosts = Inr data" for data
    using that by (intro sample_allowed) (auto simp: MarshalHosts_def sample_hosts_def host_line_def)
qed


end
