(* ===== verification/Clock.thy ===== *)
theory Clock
  imports Image
begin

text \<open>
  The times of the manager as text: \<open>time_text\<close> is the layout of \<open>database.Now\<close>
  (\<open>internal/database/sqlite.go\<close>), \<open>parse_time\<close> is \<open>time.Parse\<close> with \<open>time.RFC3339\<close> or
  \<open>time.RFC3339Nano\<close>, which accept the same texts. The lemmas show that the calendar
  computation is exact, that the text of a time reads back as that time, and that texts
  are ordered as the times are, on which the SQL comparisons of \<open>expires_at\<close> rely.
\<close>

definition time_text :: "nat \<Rightarrow> string" where
  "time_text t =
     (let ns = t mod 1000000000; s = t div 1000000000; (y, m, d) = civil (s div 86400);
          r = s mod 86400
      in pad_dec 4 y @ ''-'' @ pad_dec 2 m @ ''-'' @ pad_dec 2 d @ ''T'' @ pad_dec 2 (r div 3600) @ '':''
         @ pad_dec 2 (r div 60 mod 60) @ '':'' @ pad_dec 2 (r mod 60) @ ''.'' @ pad_dec 9 ns @ ''Z'')"

section \<open>Parsing\<close>

text \<open>Days since the epoch of a date of the Gregorian calendar.\<close>

definition days_of :: "int \<Rightarrow> int \<Rightarrow> int \<Rightarrow> int" where
  "days_of y m d =
     (let y = (if m \<le> 2 then y - 1 else y); era = y div 400; yoe = y mod 400;
          mp = (if m > 2 then m - 3 else m + 9)
      in era * 146097 + yoe * 365 + yoe div 4 - yoe div 100 + (153 * mp + 2) div 5 + d - 1 - 719468)"

definition leap :: "int \<Rightarrow> bool" where
  "leap y \<longleftrightarrow> y mod 4 = 0 \<and> (y mod 100 \<noteq> 0 \<or> y mod 400 = 0)"

definition days_in :: "int \<Rightarrow> int \<Rightarrow> int" where
  "days_in y m = (if m = 2 then (if leap y then 29 else 28) else if m \<in> {4, 6, 9, 11} then 30 else 31)"

text \<open>\<open>getnum\<close> for exactly \<open>n\<close> digits, one character, and the hour, which may have one digit.\<close>

definition take_num :: "nat \<Rightarrow> string \<Rightarrow> (int \<times> string) option" where
  "take_num n s = (if length (takeWhile is_digit (take n s)) = n then Some (int (dec_value (take n s)), drop n s) else None)"

definition take_hour :: "string \<Rightarrow> (int \<times> string) option" where
  "take_hour s = (case take_num 2 s of Some r \<Rightarrow> Some r | None \<Rightarrow> take_num 1 s)"

fun take_char :: "char \<Rightarrow> string \<Rightarrow> string option" where
  "take_char c (d # s) = (if c = d then Some s else None)"
| "take_char c [] = None"

text \<open>A fraction of any length, of which nine digits count.\<close>

definition take_frac :: "string \<Rightarrow> int \<times> string" where
  "take_frac s =
     (case s of
        p # c # r \<Rightarrow>
          if (p = CHR ''.'' \<or> p = CHR '','') \<and> is_digit c then
            (let ds = takeWhile is_digit (c # r) in
             (int (dec_value (take 9 (ds @ replicate 9 (CHR ''0'')))), dropWhile is_digit (c # r)))
          else (0, s)
      | _ \<Rightarrow> (0, s))"

text \<open>The offset from UTC in seconds.\<close>

definition take_zone :: "string \<Rightarrow> (int \<times> string) option" where
  "take_zone s =
     (case s of
        [] \<Rightarrow> None
      | z # r \<Rightarrow>
        if z = CHR ''Z'' then Some (0, r)
        else if z = CHR ''+'' \<or> z = CHR ''-'' then
          (case take_num 2 r of None \<Rightarrow> None | Some (hh, r) \<Rightarrow>
           (case take_char (CHR '':'') r of None \<Rightarrow> None | Some r \<Rightarrow>
            (case take_num 2 r of None \<Rightarrow> None | Some (mm, r) \<Rightarrow>
             if hh > 24 \<or> mm > 60 then None
             else Some ((if z = CHR ''-'' then - 1 else 1) * (hh * 3600 + mm * 60), r))))
        else None)"

definition opt_bind :: "'a option \<Rightarrow> ('a \<Rightarrow> 'b option) \<Rightarrow> 'b option" where
  "opt_bind m f = (case m of None \<Rightarrow> None | Some x \<Rightarrow> f x)"

text \<open>The time in nanoseconds since the epoch.\<close>

definition parse_time :: "string \<Rightarrow> int option" where
  "parse_time s =
     opt_bind (take_num 4 s) (\<lambda>(y, s). opt_bind (take_char (CHR ''-'') s) (\<lambda>s.
     opt_bind (take_num 2 s) (\<lambda>(m, s). opt_bind (take_char (CHR ''-'') s) (\<lambda>s.
     opt_bind (take_num 2 s) (\<lambda>(d, s). opt_bind (take_char (CHR ''T'') s) (\<lambda>s.
     opt_bind (take_hour s) (\<lambda>(hh, s). opt_bind (take_char (CHR '':'') s) (\<lambda>s.
     opt_bind (take_num 2 s) (\<lambda>(mi, s). opt_bind (take_char (CHR '':'') s) (\<lambda>s.
     opt_bind (take_num 2 s) (\<lambda>(ss, s).
     let (ns, s) = take_frac s in
     opt_bind (take_zone s) (\<lambda>(off, s).
     if s = [] \<and> 1 \<le> m \<and> m \<le> 12 \<and> 1 \<le> d \<and> d \<le> days_in y m \<and> hh < 24 \<and> mi < 60 \<and> ss < 60
     then Some ((days_of y m d * 86400 + hh * 3600 + mi * 60 + ss - off) * 1000000000 + ns)
     else None))))))))))))"

section \<open>The calendar\<close>

text \<open>The steps of \<open>civil\<close>: the year of the era, the day of the year, the month from March.\<close>

definition yoe_of :: "nat \<Rightarrow> nat" where
  "yoe_of doe = (doe - doe div 1460 + doe div 36524 - doe div 146096) div 365"

definition year_start :: "nat \<Rightarrow> nat" where
  "year_start y = 365 * y + y div 4 - y div 100"

lemma yoe_century:
  assumes "36524 * c \<le> doe" "doe < 36524 * Suc c" "c < 4"
  shows "yoe_of doe div 100 = c" "year_start (yoe_of doe) \<le> doe" "doe \<le> year_start (yoe_of doe) + 365"
    "doe = year_start (yoe_of doe) + 365 \<Longrightarrow> yoe_of doe mod 4 = 3 \<and> yoe_of doe mod 100 \<noteq> 99"
proof -
  define q where "q = doe div 1460"
  define r where "r = doe mod 1460"
  define F where "F = doe - q + c"
  define y where "y = F div 365"
  have doe: "doe = 1460 * q + r" "r < 1460" by (auto simp: q_def r_def)
  have "doe div 36524 = c" using assms by (intro div_nat_eqI) auto
  moreover have "doe div 146096 = 0" using assms by simp
  ultimately have y: "yoe_of doe = y" by (simp add: yoe_of_def y_def F_def q_def)
  have F: "F = 1459 * q + r + c" using doe by (simp add: F_def)
  have "36500 * c \<le> F" "F < 36500 * Suc c" using F doe assms by linarith+
  then have c: "F div 36500 = c" by (intro div_nat_eqI) (simp_all add: mult.commute)
  have "y div 100 = F div 36500" by (simp add: y_def div_mult2_eq [symmetric])
  with c show b: "yoe_of doe div 100 = c" by (simp add: y)
  have a: "y div 4 = F div 1460" by (simp add: y_def div_mult2_eq [symmetric])
  have Fy: "F = 365 * y + F mod 365" "F mod 365 < 365" by (simp_all add: y_def)
  have "c \<le> q" using doe assms by linarith
  have bounds: "365 * y + y div 4 \<le> doe + c \<and> doe + c \<le> 365 * y + y div 4 + 365 \<and>
      (doe + c = 365 * y + y div 4 + 365 \<longrightarrow> y mod 4 = 3 \<and> y mod 100 \<noteq> 99)"
  proof (cases "q \<le> r + c")
    case True
    then have "F = 1460 * q + (r + c - q)" "r + c - q < 1460" using F doe \<open>c \<le> q\<close> by auto
    then have "F div 1460 = q" by (intro div_nat_eqI) auto
    then show ?thesis using Fy F doe a by linarith
  next
    case False
    define k where "k = q - 1"
    have "q = k + 1" using False by (simp add: k_def)
    have "doe < 146096" using assms by simp
    then have "q \<le> 100" using doe by simp
    then have R: "F = 1460 * k + (1459 + r + c - k)" "1459 + r + c - k < 1460" "1095 \<le> 1459 + r + c - k"
      using F doe False \<open>q = k + 1\<close> by auto
    then have "F = 365 * (4 * k + 3) + (1459 + r + c - k - 1095)" "1459 + r + c - k - 1095 < 365" by auto
    then have yk: "y = 4 * k + 3" unfolding y_def by (intro div_nat_eqI) auto
    then have quarter: "y div 4 = k" "y mod 4 = 3" by simp_all
    have "y mod 100 \<noteq> 99" if "r + c = k"
    proof
      assume "y mod 100 = 99"
      then have "y = 100 * c + 99" using b y div_mult_mod_eq [of y 100] by simp
      then have "k = 25 * c + 24" using yk by simp
      then have "doe = 36524 * Suc c" using doe that \<open>q = k + 1\<close> by simp
      then show False using assms(2) by simp
    qed
    then show ?thesis using quarter yk doe \<open>q = k + 1\<close> \<open>q \<le> 100\<close> False by auto
  qed
  moreover have "year_start y = 365 * y + y div 4 - c" using b by (simp add: year_start_def y)
  moreover have "c \<le> y div 4" using b y by linarith
  ultimately show "year_start (yoe_of doe) \<le> doe" "doe \<le> year_start (yoe_of doe) + 365"
    "doe = year_start (yoe_of doe) + 365 \<Longrightarrow> yoe_of doe mod 4 = 3 \<and> yoe_of doe mod 100 \<noteq> 99"
    unfolding y by auto
qed

lemma yoe_bounds:
  assumes "doe < 146097"
  shows "yoe_of doe < 400" "year_start (yoe_of doe) \<le> doe" "doe \<le> year_start (yoe_of doe) + 365"
    "doe = year_start (yoe_of doe) + 365 \<Longrightarrow> leap (int (yoe_of doe) + 1)"
proof -
  have "yoe_of doe < 400 \<and> year_start (yoe_of doe) \<le> doe \<and> doe \<le> year_start (yoe_of doe) + 365 \<and>
      (doe = year_start (yoe_of doe) + 365 \<longrightarrow> leap (int (yoe_of doe) + 1))"
  proof (cases "doe = 146096")
    case True
    then show ?thesis by (simp add: yoe_of_def year_start_def leap_def)
  next
    case False
    define c where "c = doe div 36524"
    have "36524 * c \<le> doe" "doe < 36524 * Suc c" by (auto simp: c_def)
    moreover have "c < 4" using assms False by (simp add: c_def)
    moreover have "leap (int Y + 1)" if "Y mod 4 = 3" "Y mod 100 \<noteq> 99" for Y
    proof -
      have "(int Y + 1) mod 4 = int (Suc Y mod 4)" "(int Y + 1) mod 100 = int (Suc Y mod 100)" by (simp_all add: zmod_int add.commute)
      moreover have "Suc Y mod 4 = 0" "Suc Y mod 100 \<noteq> 0" using that by (auto simp: mod_Suc)
      ultimately show ?thesis by (simp add: leap_def)
    qed
    ultimately show ?thesis using yoe_century [of c doe] by auto
  qed
  then show "yoe_of doe < 400" "year_start (yoe_of doe) \<le> doe" "doe \<le> year_start (yoe_of doe) + 365"
    "doe = year_start (yoe_of doe) + 365 \<Longrightarrow> leap (int (yoe_of doe) + 1)" by auto
qed


definition doe_of :: "nat \<Rightarrow> nat" where
  "doe_of n = (n + 719468) mod 146097"

definition cycle_year :: "nat \<Rightarrow> nat" where
  "cycle_year n = yoe_of (doe_of n) + (n + 719468) div 146097 * 400"

definition year_day :: "nat \<Rightarrow> nat" where
  "year_day n = doe_of n - year_start (yoe_of (doe_of n))"

lemma civil_fields:
  assumes "civil n = (y, m, d)"
  shows "days_of (int y) (int m) (int d) = int n" "1 \<le> m" "m \<le> 12" "1 \<le> d" "d \<le> 31"
    "y * 12 + m = 12 * cycle_year n + (5 * year_day n + 2) div 153 + 3"
    "d = year_day n - (153 * ((5 * year_day n + 2) div 153) + 2) div 5 + 1"
    "year_day n \<le> 365" "(153 * ((5 * year_day n + 2) div 153) + 2) div 5 \<le> year_day n" "(5 * year_day n + 2) div 153 \<le> 11"
    "m = (if (5 * year_day n + 2) div 153 < 10 then (5 * year_day n + 2) div 153 + 3 else (5 * year_day n + 2) div 153 - 9)"
    "y = cycle_year n + (if (5 * year_day n + 2) div 153 < 10 then 0 else 1)"
proof -
  define era where "era = (n + 719468) div 146097"
  define doe where "doe = (n + 719468) mod 146097"
  define Y where "Y = yoe_of doe"
  define doy where "doy = doe - year_start Y"
  define mp where "mp = (5 * doy + 2) div 153"
  have bound: "Y < 400" "year_start Y \<le> doe" "doy \<le> 365"
    using yoe_bounds [of doe] by (simp_all add: doe_def Y_def doy_def)
  have doy: "doy = doe - (365 * Y + Y div 4 - Y div 100)" by (simp add: doy_def year_start_def)
  have "civil n = (Y + era * 400 + (if (if mp < 10 then mp + 3 else mp - 9) \<le> 2 then 1 else 0),
      if mp < 10 then mp + 3 else mp - 9, doy - (153 * mp + 2) div 5 + 1)"
    by (simp only: civil_def Let_def mp_def doy Y_def yoe_of_def doe_def era_def)
  then have fields: "d = doy - (153 * mp + 2) div 5 + 1" "m = (if mp < 10 then mp + 3 else mp - 9)"
      "y = Y + era * 400 + (if m \<le> 2 then 1 else 0)"
    using assms by simp_all
  have mp: "mp \<le> 11" "153 * mp \<le> 5 * doy + 2" "5 * doy + 2 < 153 * mp + 153"
    using bound(3) by (simp_all add: mp_def)
  have "(153 * mp + 2) div 5 * 5 \<le> 153 * mp + 2" "153 * mp + 2 < (153 * mp + 2) div 5 * 5 + 5" by simp_all
  then have day: "(153 * mp + 2) div 5 \<le> doy" "doy \<le> (153 * mp + 2) div 5 + 30" using mp by linarith+
  show "1 \<le> m" "m \<le> 12" "1 \<le> d" "d \<le> 31" using fields mp day by (auto split: if_splits)
  have names: "cycle_year n = Y + era * 400" "year_day n = doy"
    by (simp_all add: cycle_year_def year_day_def doe_of_def Y_def doe_def era_def doy_def)
  show "y * 12 + m = 12 * cycle_year n + (5 * year_day n + 2) div 153 + 3"
    using fields(2,3) mp(1) unfolding names mp_def [symmetric] by (cases "mp < 10") simp_all
  show "d = year_day n - (153 * ((5 * year_day n + 2) div 153) + 2) div 5 + 1"
    "year_day n \<le> 365" "(153 * ((5 * year_day n + 2) div 153) + 2) div 5 \<le> year_day n" "(5 * year_day n + 2) div 153 \<le> 11"
    unfolding names mp_def [symmetric] by (fact fields(1) bound(3) day(1) mp(1))+
  show "m = (if (5 * year_day n + 2) div 153 < 10 then (5 * year_day n + 2) div 153 + 3 else (5 * year_day n + 2) div 153 - 9)"
    "y = cycle_year n + (if (5 * year_day n + 2) div 153 < 10 then 0 else 1)"
    unfolding names mp_def [symmetric] using fields(2,3) mp(1) by auto
  have n: "int n = int era * 146097 + int doe - 719468"
  proof -
    have "n + 719468 = era * 146097 + doe" by (simp add: era_def doe_def)
    then have "int (n + 719468) = int (era * 146097 + doe)" by (rule arg_cong)
    then show ?thesis by simp
  qed
  have z: "(if int m \<le> 2 then int y - 1 else int y) = int (Y + era * 400)" using fields by auto
  have mz: "(if int m > 2 then int m - 3 else int m + 9) = int mp" using fields mp by (auto split: if_splits)
  have "int doe = int (365 * Y + Y div 4 - Y div 100) + int doy"
    using bound(2) by (simp add: doy_def year_start_def flip: of_nat_add)
  moreover have "Y div 100 \<le> 365 * Y + Y div 4" by simp
  ultimately have "int doe = int Y * 365 + int (Y div 4) - int (Y div 100) + int doy"
    by (simp add: of_nat_diff)
  moreover have "int doy = int ((153 * mp + 2) div 5) + int d - 1"
    using day(1) fields(1) by simp
  moreover have "int (Y + era * 400) div 400 = int era" "int (Y + era * 400) mod 400 = int Y"
    using bound(1) by simp_all
  ultimately show "days_of (int y) (int m) (int d) = int n"
    unfolding days_of_def Let_def z mz n by (simp add: zdiv_int)
qed


lemma civil_day_in:
  assumes "civil n = (y, m, d)"
  shows "int d \<le> days_in (int y) (int m)"
proof -
  note f = civil_fields [OF assms]
  define mp where "mp = (5 * year_day n + 2) div 153"
  have mp: "mp \<le> 11" using f(10) by (simp add: mp_def)
  have d: "d = year_day n - (153 * mp + 2) div 5 + 1" using f(7) by (simp add: mp_def)
  have ym: "y * 12 + m = 12 * cycle_year n + mp + 3" using f(6) by (simp add: mp_def)
  have day: "5 * year_day n + 2 < 153 * mp + 153" by (simp add: mp_def)
  have low: "(153 * mp + 2) div 5 \<le> year_day n" using f(9) by (simp add: mp_def)
  have m: "m = (if mp < 10 then mp + 3 else mp - 9)" "y = cycle_year n + (if mp < 10 then 0 else 1)"
    using f(11,12) by (simp_all add: mp_def)
  have leap: "leap (int y)" if "mp = 11" "year_day n = 365"
  proof -
    have "doe_of n < 146097" by (simp add: doe_of_def)
    from yoe_bounds(2,4) [OF this] have "leap (int (yoe_of (doe_of n)) + 1)" using that(2) by (simp add: year_day_def)
    moreover have "int y = int (yoe_of (doe_of n)) + 1 + 400 * int ((n + 719468) div 146097)"
      using m(2) that(1) by (simp add: cycle_year_def)
    moreover have "(a + 400 * b) mod 4 = a mod 4" "(a + 400 * b) mod 100 = a mod 100" "(a + 400 * b) mod 400 = a mod 400" for a b :: int
      using mod_mult_self1 [of a "100 * b" 4] mod_mult_self1 [of a "4 * b" 100] mod_mult_self1 [of a b 400] by (simp_all add: mult.commute)
    ultimately show ?thesis by (simp add: leap_def)
  qed
  have "mp \<in> {0, 1, 2, 3, 4, 5, 6, 7, 8, 9, 10, 11}" using mp by (auto simp: le_Suc_eq numeral_eq_Suc)
  moreover have "mp = 11 \<Longrightarrow> year_day n \<le> 364 \<or> leap (int y)" using leap f(8) by linarith
  ultimately show ?thesis
    using m d day low f(8) by (elim insertE emptyE) (auto simp: days_in_def)
qed

lemma year_start_mono: "x < y \<Longrightarrow> year_start x + 365 \<le> year_start y"
proof -
  assume "x < y"
  have step: "k div 4 + Suc k div 100 \<le> Suc k div 4 + k div 100" for k :: nat
  proof -
    have "Suc k mod 100 mod 4 = Suc k mod 4" by (rule mod_mod_cancel) simp
    then show ?thesis by (auto simp: div_Suc)
  qed
  have "x div 4 + (x + n) div 100 \<le> (x + n) div 4 + x div 100" for n
  proof (induction n)
    case (Suc n)
    then show ?case using step [of "x + n"] by (simp only: add_Suc_right)
  qed simp
  from this [of "y - x"] have "x div 4 + y div 100 \<le> y div 4 + x div 100" using \<open>x < y\<close> by simp
  moreover have "k div 100 \<le> k div 4" for k :: nat by (rule div_le_mono2) simp_all
  from this [of x] this [of y] have "x div 100 \<le> x div 4" "y div 100 \<le> y div 4" .
  ultimately show ?thesis using \<open>x < y\<close> unfolding year_start_def by linarith
qed

lemma cycle_day_mono:
  assumes "n < n'"
  shows "cycle_year n < cycle_year n' \<or> cycle_year n = cycle_year n' \<and> year_day n < year_day n'"
proof -
  let ?e = "\<lambda>n. (n + 719468) div 146097"
  have b: "doe_of k < 146097" for k by (simp add: doe_of_def)
  note y = yoe_bounds [OF b]
  show ?thesis
  proof (cases "?e n = ?e n'")
    case False
    moreover have "?e n \<le> ?e n'" using assms by (intro div_le_mono) simp
    ultimately have "?e n + 1 \<le> ?e n'" by linarith
    then have "cycle_year n < cycle_year n'" using y(1) [of n] by (simp add: cycle_year_def)
    then show ?thesis ..
  next
    case True
    have "n + 719468 = ?e n * 146097 + doe_of n" for n by (simp add: doe_of_def)
    from this [of n] this [of n'] have "doe_of n < doe_of n'" using True assms by linarith
    moreover have "\<not> yoe_of (doe_of n') < yoe_of (doe_of n)"
      using year_start_mono y(2) [of n] y(3) [of n'] calculation by fastforce
    ultimately show ?thesis
      using True y(2) [of n] y(2) [of n'] by (auto simp: cycle_year_def year_day_def)
  qed
qed

lemma civil_mono:
  assumes "n < n'" "civil n = (y, m, d)" "civil n' = (y', m', d')"
  shows "y < y' \<or> y = y' \<and> (m < m' \<or> m = m' \<and> d < d')"
proof -
  let ?mp = "\<lambda>n. (5 * year_day n + 2) div 153"
  note f = civil_fields [OF assms(2)] and f' = civil_fields [OF assms(3)]
  have "y * 12 + m < y' * 12 + m' \<or> y * 12 + m = y' * 12 + m' \<and> d < d'"
  proof (cases "cycle_year n < cycle_year n' \<or> ?mp n < ?mp n'")
    case True
    then show ?thesis using f(6,10) f'(6,10) cycle_day_mono [OF assms(1)] by linarith
  next
    case False
    then have "cycle_year n = cycle_year n'" "year_day n < year_day n'" using cycle_day_mono [OF assms(1)] by auto
    moreover have "?mp n \<le> ?mp n'" using calculation(2) by (intro div_le_mono) simp
    moreover have "?mp n = ?mp n'" using False calculation(3) by linarith
    moreover have "(153 * ?mp n + 2) div 5 = (153 * ?mp n' + 2) div 5" by (simp only: calculation)
    ultimately show ?thesis using f(6,7,9) f'(6,7,9) by linarith
  qed
  then show ?thesis using f(2,3) f'(2,3) by linarith
qed


section \<open>Texts of times\<close>

lemma lex_append: "length xs = length ys \<Longrightarrow> xs @ us < ys @ vs \<longleftrightarrow> xs < ys \<or> xs = ys \<and> us < vs"
  for xs :: "'a::linorder list"
proof (induction xs arbitrary: ys)
  case (Cons x xs)
  then show ?case by (cases ys) auto
qed simp

lemma digit_char_less: "d < 10 \<Longrightarrow> e < 10 \<Longrightarrow> digit_char d < digit_char e \<longleftrightarrow> d < e"
  by (simp add: digit_char_def less_char_def)

lemma div_mod_eq_iff: "x = y \<longleftrightarrow> x div k = y div k \<and> x mod k = y mod k" for x y k :: nat
  by (metis div_mult_mod_eq)

lemma div_mod_less_iff: "x < y \<longleftrightarrow> x div k < y div k \<or> x div k = y div k \<and> x mod k < y mod k" for x y k :: nat
proof (cases "x div k = y div k")
  case True
  then show ?thesis using div_mult_mod_eq [of x k] div_mult_mod_eq [of y k] by (metis less_irrefl nat_add_left_cancel_less)
next
  case False
  have "x div k < y div k \<Longrightarrow> x < y" using div_le_mono [of y x k] by (meson leD leI)
  moreover have "x < y \<Longrightarrow> x div k \<le> y div k" by (simp add: div_le_mono)
  ultimately show ?thesis using False by linarith
qed

lemma div10_less: "a < 10 ^ Suc w \<Longrightarrow> a div 10 < 10 ^ w" for a :: nat
  by (simp add: less_mult_imp_div_less mult.commute)

lemma pad_dec_inj: "a < 10 ^ w \<Longrightarrow> b < 10 ^ w \<Longrightarrow> pad_dec w a = pad_dec w b \<longleftrightarrow> a = b"
proof (induction w arbitrary: a b)
  case (Suc w)
  have "digit_char (a mod 10) = digit_char (b mod 10) \<longleftrightarrow> a mod 10 = b mod 10"
    by (metis digit_val_char mod_less_divisor zero_less_numeral)
  then have "pad_dec (Suc w) a = pad_dec (Suc w) b \<longleftrightarrow> a div 10 = b div 10 \<and> a mod 10 = b mod 10"
    using Suc.IH [OF Suc.prems [THEN div10_less]] by (simp only: pad_dec.simps append1_eq_conv)
  then show ?case using div_mod_eq_iff [of a b 10] by blast
qed simp

lemma pad_dec_less: "a < 10 ^ w \<Longrightarrow> b < 10 ^ w \<Longrightarrow> pad_dec w a < pad_dec w b \<longleftrightarrow> a < b"
proof (induction w arbitrary: a b)
  case (Suc w)
  have "a < b \<longleftrightarrow> a div 10 < b div 10 \<or> a div 10 = b div 10 \<and> a mod 10 < b mod 10" by (rule div_mod_less_iff)
  moreover note small = Suc.prems [THEN div10_less]
  ultimately show ?case
    using Suc.IH [OF small] pad_dec_inj [OF small] by (simp add: lex_append digit_char_less)
qed simp

lemma dec_value_snoc: "dec_value (s @ [c]) = dec_value s * 10 + digit_val c"
  by (simp add: dec_value_def)

lemma pad_dec_value: "n < 10 ^ w \<Longrightarrow> dec_value (pad_dec w n) = n"
proof (induction w arbitrary: n)
  case (Suc w)
  then show ?case
    by (simp add: dec_value_snoc digit_val_char div10_less del: power_Suc)
qed (simp add: dec_value_def)

text \<open>The times whose year has four digits.\<close>

definition year_limit :: nat where
  "year_limit = 2932897 * 86400 * 1000000000"

lemma year_10000:
  assumes "civil n = (y, m, d)" "n < 2932897"
  shows "y < 10000"
proof (rule ccontr)
  assume "\<not> y < 10000"
  note f = civil_fields [OF assms(1)]
  have "doe_of n < 146097" by (simp add: doe_of_def)
  note b = yoe_bounds [OF this]
  define era where "era = (n + 719468) div 146097"
  have n: "n + 719468 = era * 146097 + doe_of n" by (simp add: era_def doe_of_def)
  then have "era \<le> 24" using assms(2) by linarith
  moreover have cy: "cycle_year n = yoe_of (doe_of n) + era * 400" by (simp add: cycle_year_def era_def)
  ultimately have "era = 24" "yoe_of (doe_of n) = 399" "10 \<le> (5 * year_day n + 2) div 153"
    using \<open>\<not> y < 10000\<close> f(2,6,10) b(1) by linarith+
  then have "306 \<le> year_day n" by simp
  then have "year_start 399 + 306 \<le> doe_of n" using b(2) \<open>yoe_of (doe_of n) = 399\<close> by (simp add: year_day_def)
  then show False using n \<open>era = 24\<close> assms(2) by (simp add: year_start_def)
qed

lemma clock_order:
  fixes t t' :: nat
  assumes "t < t'"
  defines "day \<equiv> \<lambda>t. t div 1000000000 div 86400" and "sec \<equiv> \<lambda>t. t div 1000000000 mod 86400"
  shows "day t < day t' \<or> day t = day t' \<and> (sec t div 3600 < sec t' div 3600 \<or> sec t div 3600 = sec t' div 3600 \<and>
    (sec t div 60 mod 60 < sec t' div 60 mod 60 \<or> sec t div 60 mod 60 = sec t' div 60 mod 60 \<and>
    (sec t mod 60 < sec t' mod 60 \<or> sec t mod 60 = sec t' mod 60 \<and> t mod 1000000000 < t' mod 1000000000)))"
proof -
  have s: "sec t < sec t' \<longleftrightarrow> sec t div 60 < sec t' div 60 \<or> sec t div 60 = sec t' div 60 \<and> sec t mod 60 < sec t' mod 60"
    by (rule div_mod_less_iff)
  have m: "sec t div 60 < sec t' div 60 \<longleftrightarrow> sec t div 60 div 60 < sec t' div 60 div 60 \<or>
      sec t div 60 div 60 = sec t' div 60 div 60 \<and> sec t div 60 mod 60 < sec t' div 60 mod 60"
    by (rule div_mod_less_iff)
  have "t div 1000000000 < t' div 1000000000 \<or> t div 1000000000 = t' div 1000000000 \<and> t mod 1000000000 < t' mod 1000000000"
    using assms(1) div_mod_less_iff [of t t' 1000000000] by blast
  moreover have "t div 1000000000 < t' div 1000000000 \<longleftrightarrow> day t < day t' \<or> day t = day t' \<and> sec t < sec t'"
    unfolding day_def sec_def by (rule div_mod_less_iff)
  moreover have "t div 1000000000 = t' div 1000000000 \<longleftrightarrow> day t = day t' \<and> sec t = sec t'"
    unfolding day_def sec_def by (rule div_mod_eq_iff)
  moreover have "sec t = sec t' \<longleftrightarrow> sec t div 60 = sec t' div 60 \<and> sec t mod 60 = sec t' mod 60" by (rule div_mod_eq_iff)
  moreover have "sec t div 60 = sec t' div 60 \<longleftrightarrow> sec t div 60 div 60 = sec t' div 60 div 60 \<and> sec t div 60 mod 60 = sec t' div 60 mod 60"
    by (rule div_mod_eq_iff)
  ultimately show ?thesis using s m by (simp add: div_mult2_eq [symmetric]) blast
qed

lemma time_text_fields:
  assumes "civil (t div 1000000000 div 86400) = (y, m, d)"
  defines "r \<equiv> t div 1000000000 mod 86400"
  shows "time_text t = pad_dec 4 y @ ''-'' @ pad_dec 2 m @ ''-'' @ pad_dec 2 d @ ''T'' @ pad_dec 2 (r div 3600) @ '':''
    @ pad_dec 2 (r div 60 mod 60) @ '':'' @ pad_dec 2 (r mod 60) @ ''.'' @ pad_dec 9 (t mod 1000000000) @ ''Z''"
  by (simp only: time_text_def Let_def assms prod.case)

lemma text_less:
  assumes "y < 10000" "y' < 10000" "m < 100" "m' < 100" "d < 100" "d' < 100" "h < 100" "h' < 100"
    "mi < 100" "mi' < 100" "s < 100" "s' < 100" "n < 1000000000" "n' < 1000000000"
  shows "pad_dec 4 y @ ''-'' @ pad_dec 2 m @ ''-'' @ pad_dec 2 d @ ''T'' @ pad_dec 2 h @ '':''
      @ pad_dec 2 mi @ '':'' @ pad_dec 2 s @ ''.'' @ pad_dec 9 n @ ''Z''
    < pad_dec 4 y' @ ''-'' @ pad_dec 2 m' @ ''-'' @ pad_dec 2 d' @ ''T'' @ pad_dec 2 h' @ '':''
      @ pad_dec 2 mi' @ '':'' @ pad_dec 2 s' @ ''.'' @ pad_dec 9 n' @ ''Z'' \<longleftrightarrow>
    y < y' \<or> y = y' \<and> (m < m' \<or> m = m' \<and> (d < d' \<or> d = d' \<and> (h < h' \<or> h = h' \<and>
    (mi < mi' \<or> mi = mi' \<and> (s < s' \<or> s = s' \<and> n < n')))))"
proof -
  have 2: "pad_dec 2 a < pad_dec 2 b \<longleftrightarrow> a < b" "pad_dec 2 a = pad_dec 2 b \<longleftrightarrow> a = b"
    if "a < 100" "b < 100" for a b using that by (simp_all add: pad_dec_less pad_dec_inj)
  have 4: "pad_dec 4 a < pad_dec 4 b \<longleftrightarrow> a < b" "pad_dec 4 a = pad_dec 4 b \<longleftrightarrow> a = b"
    if "a < 10000" "b < 10000" for a b using that by (simp_all add: pad_dec_less pad_dec_inj)
  have 9: "pad_dec 9 a < pad_dec 9 b \<longleftrightarrow> a < b" "pad_dec 9 a = pad_dec 9 b \<longleftrightarrow> a = b"
    if "a < 1000000000" "b < 1000000000" for a b using that by (simp_all add: pad_dec_less pad_dec_inj)
  show ?thesis using assms by (simp add: lex_append 2 4 9)
qed

lemma time_text_less:
  assumes "t < t'" "t' < year_limit"
  shows "time_text t < time_text t'"
proof -
  let ?day = "\<lambda>t. t div 1000000000 div 86400" and ?sec = "\<lambda>t. t div 1000000000 mod 86400"
  obtain y m d where c: "civil (?day t) = (y, m, d)" by (cases "civil (?day t)") auto
  obtain y' m' d' where c': "civil (?day t') = (y', m', d')" by (cases "civil (?day t')") auto
  have "?day u < 2932897" if "u < year_limit" for u
    using that by (intro less_mult_imp_div_less) (simp add: year_limit_def)
  then have years: "y < 10000" "y' < 10000" using assms year_10000 [OF c] year_10000 [OF c'] by auto
  have md: "m < 100" "d < 100" "m' < 100" "d' < 100" using civil_fields(3,5) [OF c] civil_fields(3,5) [OF c'] by auto
  have sec: "?sec u < 86400" for u :: nat by simp
  have small: "?sec u div 3600 < 100" "?sec u div 60 mod 60 < 100" "?sec u mod 60 < 100" "u mod 1000000000 < 1000000000" for u :: nat
    using sec [of u] by (simp_all add: less_mult_imp_div_less)
  have texts: "time_text t < time_text t' \<longleftrightarrow> y < y' \<or> y = y' \<and> (m < m' \<or> m = m' \<and> (d < d' \<or> d = d' \<and>
      (?sec t div 3600 < ?sec t' div 3600 \<or> ?sec t div 3600 = ?sec t' div 3600 \<and>
      (?sec t div 60 mod 60 < ?sec t' div 60 mod 60 \<or> ?sec t div 60 mod 60 = ?sec t' div 60 mod 60 \<and>
      (?sec t mod 60 < ?sec t' mod 60 \<or> ?sec t mod 60 = ?sec t' mod 60 \<and> t mod 1000000000 < t' mod 1000000000)))))"
    unfolding time_text_fields [OF c] time_text_fields [OF c']
    by (rule text_less [OF years md(1,3,2,4) small(1,1,2,2,3,3,4,4)])
  show ?thesis
  proof (cases "?day t < ?day t'")
    case True
    then show ?thesis using civil_mono [OF True c c'] unfolding texts by blast
  next
    case False
    then have "?day t = ?day t'" using clock_order [OF assms(1)] by blast
    with c c' have "y = y'" "m = m'" "d = d'" by simp_all
    then show ?thesis unfolding texts using clock_order [OF assms(1)] False by blast
  qed
qed


lemma parse_pad:
  assumes "n < 10 ^ w"
  shows "take_num w (pad_dec w n @ s) = Some (int n, s)"
proof -
  have "takeWhile is_digit (pad_dec w n) = pad_dec w n" using pad_dec_digits by (simp add: takeWhile_eq_all_conv)
  then have "length (takeWhile is_digit (pad_dec w n)) = w" by (simp only: length_pad_dec)
  then show ?thesis using pad_dec_value [OF assms] by (simp add: take_num_def)
qed

lemma parse_frac:
  assumes "n < 10 ^ 9"
  shows "take_frac (CHR ''.'' # pad_dec 9 n @ ''Z'') = (int n, ''Z'')"
proof -
  have ds: "takeWhile is_digit (pad_dec 9 n @ ''Z'') = pad_dec 9 n" "dropWhile is_digit (pad_dec 9 n @ ''Z'') = ''Z''"
    using pad_dec_digits [of _ 9 n] by (simp_all add: takeWhile_append dropWhile_append is_digit_def byte_of_def)
  obtain c s where p: "pad_dec 9 n = c # s" by (cases "pad_dec 9 n") (metis length_pad_dec list.size(3) zero_neq_numeral, simp)
  then have "is_digit c" using pad_dec_digits [of c 9 n] by simp
  then show ?thesis using ds pad_dec_value [OF assms] length_pad_dec [of 9 n] unfolding p by (simp add: take_frac_def)
qed

lemma parse_fields:
  assumes "y < 10 ^ 4" "1 \<le> m" "m \<le> 12" "1 \<le> d" "int d \<le> days_in (int y) (int m)" "h < 24" "mi < 60" "s < 60" "n < 10 ^ 9"
  shows "parse_time (pad_dec 4 y @ ''-'' @ pad_dec 2 m @ ''-'' @ pad_dec 2 d @ ''T'' @ pad_dec 2 h @ '':''
      @ pad_dec 2 mi @ '':'' @ pad_dec 2 s @ ''.'' @ pad_dec 9 n @ ''Z'') =
    Some ((days_of (int y) (int m) (int d) * 86400 + int h * 3600 + int mi * 60 + int s) * 1000000000 + int n)"
proof -
  have "days_in (int y) (int m) \<le> 31" by (simp add: days_in_def)
  then have two: "take_num 2 (pad_dec 2 k @ r) = Some (int k, r)" if "k \<in> {m, d, h, mi, s}" for k r
    using assms that by (intro parse_pad) auto
  have four: "take_num 4 (pad_dec 4 y @ r) = Some (int y, r)" for r by (rule parse_pad [OF assms(1)])
  have zone: "take_zone ''Z'' = Some (0, [])" by (simp add: take_zone_def)
  show ?thesis
    using assms(2-8) by (simp add: parse_time_def opt_bind_def take_hour_def two four parse_frac [OF assms(9), simplified] zone
      del: pad_dec.simps)
qed

lemma parse_time_text:
  assumes "t < year_limit"
  shows "parse_time (time_text t) = Some (int t)"
proof -
  let ?n = "t div 1000000000 div 86400" and ?r = "t div 1000000000 mod 86400"
  obtain y m d where c: "civil ?n = (y, m, d)" by (cases "civil ?n") auto
  have "?n < 2932897" using assms by (intro less_mult_imp_div_less) (simp add: year_limit_def)
  then have y: "y < 10 ^ 4" using year_10000 [OF c] by simp
  note f = civil_fields [OF c]
  have r: "?r < 86400" by simp
  have hms: "?r div 3600 < 24" "?r div 60 mod 60 < 60" "?r mod 60 < 60"
    using r by (simp_all add: less_mult_imp_div_less)
  have time: "int t = (int ?n * 86400 + int (?r div 3600) * 3600 + int (?r div 60 mod 60) * 60 + int (?r mod 60)) * 1000000000
      + int (t mod 1000000000)"
  proof -
    have "?r = ?r div 3600 * 3600 + ?r div 60 mod 60 * 60 + ?r mod 60"
    proof -
      have split: "x = x div 60 * 60 + x mod 60" for x :: nat by simp
      have "?r div 60 div 60 = ?r div 3600" by (simp add: div_mult2_eq [symmetric])
      note parts = split [of ?r] split [of "?r div 60", unfolded this]
      from parts show ?thesis by linarith
    qed
    moreover have "t = (?n * 86400 + ?r) * 1000000000 + t mod 1000000000" by simp
    ultimately have "t = (?n * 86400 + (?r div 3600 * 3600 + ?r div 60 mod 60 * 60 + ?r mod 60)) * 1000000000 + t mod 1000000000" by simp
    then have "int t = int ((?n * 86400 + (?r div 3600 * 3600 + ?r div 60 mod 60 * 60 + ?r mod 60)) * 1000000000 + t mod 1000000000)"
      by (rule arg_cong)
    then show ?thesis by (simp only: of_nat_add of_nat_mult of_nat_numeral add.assoc)
  qed
  have ns: "t mod 1000000000 < 10 ^ 9" by simp
  show ?thesis
    unfolding time_text_fields [OF c] parse_fields [OF y f(2-4) civil_day_in [OF c] hms ns] f(1)
    using time by simp
qed


section \<open>Properties\<close>

text \<open>
  The texts of times are read back exactly and are ordered as the times are, up to the year
  9999: comparing the \<open>expires_at\<close> column with the text of the present is comparing the times.
\<close>

theorem time_texts:
  assumes "t < year_limit" "t' < year_limit"
  shows "parse_time (time_text t) = Some (int t) \<and> (time_text t < time_text t' \<longleftrightarrow> t < t')"
proof -
  have "\<not> time_text t < time_text t'" if "\<not> t < t'"
    using that time_text_less [of t' t] assms(1) by (cases "t = t'") auto
  then show ?thesis using parse_time_text [OF assms(1)] time_text_less [OF _ assms(2)] by blast
qed

lemma time_texts_witness:
  "parse_time (time_text 5) = Some (int 5) \<and> (time_text 5 < time_text 7 \<longleftrightarrow> (5 :: nat) < 7)"
  by (rule time_texts) (simp_all add: year_limit_def)

end
