(* ===== verification/Database.thy ===== *)
theory Database
  imports World Clock
begin

text \<open>
  The manager's own database (\<open>internal/database\<close>): the tables of
  \<open>migrations/001_initial.sql\<close> and one operation per method of \<open>DB\<close>.

  A statement reads or changes the tables as SQL says, constraints included, or fails; an
  oracle list says which of the next statements fail. A transaction that ends in an error,
  also one of its commit, leaves the tables as they were: this is what the SQLite driver
  promises, and the only thing about it that the theorems use. The connection pool has one
  connection, so operations do not interleave. Every call of \<open>Now\<close> reads a clock that may
  go either way. Rows of equal time that SQL returns in an unspecified order come in the
  order of their insertion.
\<close>

section \<open>Tables\<close>

record user_row =
  us_name :: string
  us_hash :: string
  us_created :: string
  us_login :: "string option"

record session_row =
  se_id :: string
  se_token :: string
  se_expires :: string
  se_created :: string

record file_row =
  fr_sha :: string
  fr_seen :: string
  fr_modified :: bool

record snapshot_row =
  sn_reason :: string
  sn_manifest :: string
  sn_created :: string

record audit =
  au_id :: int
  au_actor :: string
  au_action :: string
  au_resource :: string
  au_detail :: string
  au_result :: string
  au_created :: string

record job =
  jb_id :: string
  jb_type :: string
  jb_state :: string
  jb_progress :: int
  jb_result :: string
  jb_created :: string
  jb_finished :: "string option"

text \<open>\<open>db_users\<close> has at most the row with \<open>id = 1\<close>, to which every session belongs;
  \<open>db_audit_seq\<close> is the largest audit identifier ever given (\<open>AUTOINCREMENT\<close>).\<close>

record tables =
  db_settings :: "(string, string \<times> string) fmap"
  db_user :: "user_row option"
  db_sessions :: "session_row list"
  db_files :: "(string, file_row) fmap"
  db_snapshots :: "(string, snapshot_row) fmap"
  db_audit :: "audit list"
  db_audit_seq :: int
  db_jobs :: "job list"

record database =
  sq_tables :: tables
  sq_faults :: "bool list"
  sq_clock :: "nat \<Rightarrow> nat"
  sq_tick :: nat

section \<open>Statements and transactions\<close>

type_synonym 'a sql = "database \<Rightarrow> 'a result \<times> database"

definition done_sql :: "'a \<Rightarrow> 'a sql" where
  "done_sql x s = (Inr x, s)"

definition fail_sql :: "error \<Rightarrow> 'a sql" where
  "fail_sql e s = (Inl e, s)"

definition bind_sql :: "'a sql \<Rightarrow> ('a \<Rightarrow> 'b sql) \<Rightarrow> 'b sql" where
  "bind_sql m f s = (case m s of (Inl e, s') \<Rightarrow> (Inl e, s') | (Inr x, s') \<Rightarrow> f x s')"

abbreviation then_sql :: "'a sql \<Rightarrow> 'b sql \<Rightarrow> 'b sql" where
  "then_sql m n \<equiv> bind_sql m (\<lambda>_. n)"

text \<open>The next statement of the schedule runs, or fails without effect.\<close>

definition faulty :: "'a sql \<Rightarrow> 'a sql" where
  "faulty m s =
     (case sq_faults s of
        True # fs \<Rightarrow> (Inl Fault, s\<lparr>sq_faults := fs\<rparr>)
      | False # fs \<Rightarrow> m (s\<lparr>sq_faults := fs\<rparr>)
      | [] \<Rightarrow> m s)"

definition query :: "(tables \<Rightarrow> 'a result) \<Rightarrow> 'a sql" where
  "query f = faulty (\<lambda>s. (f (sq_tables s), s))"

definition exec :: "(tables \<Rightarrow> ('a \<times> tables) result) \<Rightarrow> 'a sql" where
  "exec f = faulty (\<lambda>s. case f (sq_tables s) of
     Inl e \<Rightarrow> (Inl e, s) | Inr (n, t) \<Rightarrow> (Inr n, s\<lparr>sq_tables := t\<rparr>))"

definition transaction :: "'a sql \<Rightarrow> 'a sql" where
  "transaction m =
     then_sql (faulty (done_sql ())) (\<lambda>s.
       let (r, s') = bind_sql m (\<lambda>x. then_sql (faulty (done_sql ())) (done_sql x)) s in
       case r of
         Inl e \<Rightarrow> (Inl e, s'\<lparr>sq_tables := sq_tables s\<rparr>)
       | Inr x \<Rightarrow> (Inr x, s'))"

fun each :: "('a \<Rightarrow> unit sql) \<Rightarrow> 'a list \<Rightarrow> unit sql" where
  "each f [] = done_sql ()"
| "each f (x # xs) = then_sql (f x) (each f xs)"

definition clock :: "nat sql" where
  "clock s = (Inr (sq_clock s (sq_tick s)), s\<lparr>sq_tick := Suc (sq_tick s)\<rparr>)"

definition Now :: "string sql" where
  "Now = bind_sql clock (\<lambda>t. done_sql (time_text t))"

definition constraint :: error where
  "constraint = Msg ''constraint failed''"

definition ErrNoRows :: error where
  "ErrNoRows = Msg ''sql: no rows in result set''"

section \<open>Audit log and settings\<close>

definition Audit :: "string \<Rightarrow> string \<Rightarrow> string \<Rightarrow> string \<Rightarrow> string result \<Rightarrow> unit sql" where
  "Audit actor action resource result detail =
     (case detail of Inl e \<Rightarrow> fail_sql e | Inr text \<Rightarrow>
        bind_sql Now (\<lambda>now. exec (\<lambda>t. Inr ((), t\<lparr>
          db_audit := db_audit t @ [\<lparr>au_id = db_audit_seq t + 1, au_actor = actor, au_action = action,
            au_resource = resource, au_detail = text, au_result = result, au_created = now\<rparr>],
          db_audit_seq := db_audit_seq t + 1\<rparr>))))"

definition Audits :: "int \<Rightarrow> int \<Rightarrow> audit list sql" where
  "Audits bound limit =
     (let limit = (if limit < 1 \<or> limit > 200 then 100 else limit);
          bound = (if bound \<le> 0 then 2 ^ 63 - 1 else bound) in
      query (\<lambda>t. Inr (take (nat limit)
        (rev (sort_key au_id (filter (\<lambda>a. au_id a < bound) (db_audit t)))))))"

definition Setting :: "string \<Rightarrow> string sql" where
  "Setting key = query (\<lambda>t. case fmlookup (db_settings t) key of None \<Rightarrow> Inl ErrNoRows | Some (v, _) \<Rightarrow> Inr v)"

definition put_setting :: "string \<Rightarrow> string \<Rightarrow> unit sql" where
  "put_setting k v =
     bind_sql Now (\<lambda>now. exec (\<lambda>t. Inr ((), t\<lparr>db_settings := fmupd k (v, now) (db_settings t)\<rparr>)))"

definition SetSetting :: "string \<Rightarrow> string \<Rightarrow> unit sql" where
  "SetSetting key v = put_setting key v"

section \<open>Accepted files and drift\<close>

definition clear_files :: "unit sql" where
  "clear_files = exec (\<lambda>t. Inr ((), t\<lparr>db_files := fmempty\<rparr>))"

definition insert_file :: "string \<Rightarrow> string \<Rightarrow> unit sql" where
  "insert_file p hash =
     bind_sql Now (\<lambda>now. exec (\<lambda>t.
       if p |\<in>| fmdom (db_files t) then Inl constraint
       else Inr ((), t\<lparr>db_files := fmupd p \<lparr>fr_sha = hash, fr_seen = now, fr_modified = False\<rparr> (db_files t)\<rparr>)))"

definition insert_files :: "(string, string) fmap \<Rightarrow> unit sql" where
  "insert_files hashes = each (\<lambda>p. insert_file p (fm_get [] hashes p)) (sorted_keys hashes)"

definition AcceptFiles :: "(string, string) fmap \<Rightarrow> unit sql" where
  "AcceptFiles hashes = transaction (then_sql clear_files (insert_files hashes))"

record drift =
  dr_path :: string
  dr_managed :: string
  dr_disk :: string

definition observe_file :: "(string, string) fmap \<Rightarrow> (string, string) fmap \<Rightarrow> string \<Rightarrow> unit sql" where
  "observe_file hashes known p =
     bind_sql Now (\<lambda>now. exec (\<lambda>t. Inr ((), case fmlookup (db_files t) p of
         None \<Rightarrow> t
       | Some r \<Rightarrow> t\<lparr>db_files := fmupd p (r\<lparr>fr_modified := (fm_get [] hashes p \<noteq> fm_get [] known p), fr_seen := now\<rparr>)
           (db_files t)\<rparr>)))"

definition drift_of :: "(string, string) fmap \<Rightarrow> (string, string) fmap \<Rightarrow> drift list" where
  "drift_of hashes known =
     map (\<lambda>p. \<lparr>dr_path = p, dr_managed = fm_get [] known p, dr_disk = fm_get [] hashes p\<rparr>)
       (filter (\<lambda>p. fm_get [] hashes p \<noteq> fm_get [] known p) (sorted_keys known))
     @ map (\<lambda>p. \<lparr>dr_path = p, dr_managed = [], dr_disk = fm_get [] hashes p\<rparr>)
       (filter (\<lambda>p. p |\<notin>| fmdom known) (sorted_keys hashes))"

definition ObserveFiles :: "(string, string) fmap \<Rightarrow> drift list sql" where
  "ObserveFiles hashes =
     transaction
       (bind_sql (query (\<lambda>t. Inr (fmmap fr_sha (db_files t)))) (\<lambda>known.
        then_sql (each (observe_file hashes known) (sorted_keys known))
          (done_sql (drift_of hashes known))))"

section \<open>Jobs\<close>

definition job_states :: "string list" where
  "job_states = [''queued'', ''running'', ''succeeded'', ''failed'', ''interrupted'']"

definition open_job :: "job \<Rightarrow> bool" where
  "open_job j \<longleftrightarrow> jb_state j = ''queued'' \<or> jb_state j = ''running''"

definition CreateJob :: "string \<Rightarrow> string \<Rightarrow> unit sql" where
  "CreateJob i kind =
     bind_sql Now (\<lambda>now. exec (\<lambda>t.
       if i \<in> jb_id ` set (db_jobs t) then Inl constraint
       else Inr ((), t\<lparr>db_jobs := db_jobs t @ [\<lparr>jb_id = i, jb_type = kind, jb_state = ''queued'',
         jb_progress = 0, jb_result = [], jb_created = now, jb_finished = None\<rparr>]\<rparr>)))"

text \<open>An update of the rows that satisfy \<open>P\<close>, which counts them.\<close>

definition update_jobs :: "(job \<Rightarrow> bool) \<Rightarrow> (job \<Rightarrow> job) \<Rightarrow> nat sql" where
  "update_jobs P f = exec (\<lambda>t.
     if \<exists>j\<in>set (db_jobs t). P j \<and>
         (jb_state (f j) \<notin> set job_states \<or> jb_progress (f j) < 0 \<or> jb_progress (f j) > 100)
     then Inl constraint
     else Inr (length (filter P (db_jobs t)), t\<lparr>db_jobs := map (\<lambda>j. if P j then f j else j) (db_jobs t)\<rparr>))"

definition UpdateJob :: "string \<Rightarrow> string \<Rightarrow> int \<Rightarrow> string \<Rightarrow> unit sql" where
  "UpdateJob i state progress result =
     bind_sql (if state = ''succeeded'' \<or> state = ''failed'' \<or> state = ''interrupted''
               then bind_sql Now (\<lambda>now. done_sql (Some now)) else done_sql None) (\<lambda>finished.
     bind_sql (update_jobs (\<lambda>j. jb_id j = i \<and> open_job j)
        (\<lambda>j. j\<lparr>jb_state := state, jb_progress := progress, jb_result := result, jb_finished := finished\<rparr>)) (\<lambda>n.
     if n \<noteq> 1 then fail_sql (Msg ''job missing or already terminal'') else done_sql ()))"

definition interrupted_text :: string where
  "interrupted_text = ''Manager restarted before job completion; inspect host state before retrying''"

definition InterruptJobs :: "unit sql" where
  "InterruptJobs =
     bind_sql Now (\<lambda>now.
     then_sql (update_jobs open_job
        (\<lambda>j. j\<lparr>jb_state := ''interrupted'', jb_result := interrupted_text, jb_finished := Some now\<rparr>)) (done_sql ()))"

definition Jobs :: "job list sql" where
  "Jobs = query (\<lambda>t. Inr (take 100 (rev (sort_key jb_created (rev (db_jobs t))))))"

section \<open>Baseline and snapshot index\<close>

definition compact_object :: "(string \<times> string) list \<Rightarrow> string" where
  "compact_object kvs = ''{'' @ join_with '','' (map (\<lambda>(k, v). json_quote k @ '':'' @ v) kvs) @ ''}''"

definition manifest_text :: "manifest \<Rightarrow> string" where
  "manifest_text m = compact_object
     [(''id'', json_quote (m_id m)), (''reason'', json_quote (m_reason m)),
      (''createdAt'', json_time (m_created m)),
      (''files'', compact_object (map (\<lambda>p. (p, case fmlookup (m_files m) p of None \<Rightarrow> []
         | Some e \<Rightarrow> compact_object [(''sha256'', json_quote (me_sha e)), (''mode'', nat_dec (unat (me_mode e))),
             (''uid'', int_dec (me_uid e)), (''gid'', int_dec (me_gid e))]))
        (sorted_keys (m_files m))))]"

definition upsert_snapshot :: "manifest \<Rightarrow> unit sql" where
  "upsert_snapshot m = exec (\<lambda>t. Inr ((), t\<lparr>db_snapshots :=
     (case fmlookup (db_snapshots t) (m_id m) of
        Some r \<Rightarrow> fmupd (m_id m) (r\<lparr>sn_manifest := manifest_text m\<rparr>) (db_snapshots t)
      | None \<Rightarrow> fmupd (m_id m) \<lparr>sn_reason = m_reason m, sn_manifest = manifest_text m,
          sn_created = time_text (m_created m)\<rparr> (db_snapshots t))\<rparr>))"

definition SaveBaseline :: "manifest \<Rightarrow> string \<Rightarrow> (string, string) fmap \<Rightarrow> unit sql" where
  "SaveBaseline m revision hashes =
     transaction
       (then_sql clear_files
       (then_sql (insert_files hashes)
       (then_sql (each (\<lambda>(k, v). put_setting k v)
          [(''managed_revision'', revision), (''managed_snapshot'', m_id m)])
       (upsert_snapshot m))))"

definition insert_snapshot :: "manifest \<Rightarrow> unit sql" where
  "insert_snapshot m = exec (\<lambda>t.
     if m_id m |\<in>| fmdom (db_snapshots t) then Inl constraint
     else Inr ((), t\<lparr>db_snapshots := fmupd (m_id m) \<lparr>sn_reason = m_reason m, sn_manifest = manifest_text m,
       sn_created = time_text (m_created m)\<rparr> (db_snapshots t)\<rparr>))"

definition SyncSnapshots :: "manifest list \<Rightarrow> unit sql" where
  "SyncSnapshots list =
     transaction (then_sql (exec (\<lambda>t. Inr ((), t\<lparr>db_snapshots := fmempty\<rparr>))) (each insert_snapshot list))"

section \<open>Reasoning about operations\<close>

text \<open>
  \<open>does m R\<close>: a successful run of \<open>m\<close> relates the tables before, the result and the tables
  after by \<open>R\<close>. \<open>atomic m\<close>: an unsuccessful one leaves the tables as they were.
\<close>

definition does :: "'a sql \<Rightarrow> (tables \<Rightarrow> 'a \<Rightarrow> tables \<Rightarrow> bool) \<Rightarrow> bool" where
  "does m R \<longleftrightarrow> (\<forall>s x s'. m s = (Inr x, s') \<longrightarrow> R (sq_tables s) x (sq_tables s'))"

definition atomic :: "'a sql \<Rightarrow> bool" where
  "atomic m \<longleftrightarrow> (\<forall>s e s'. m s = (Inl e, s') \<longrightarrow> sq_tables s' = sq_tables s)"

named_theorems db_rules \<open>rules for \<open>does\<close> and \<open>atomic\<close>\<close>

lemma doesD: "does m R \<Longrightarrow> m s = (Inr x, s') \<Longrightarrow> R (sq_tables s) x (sq_tables s')"
  by (simp add: does_def)

lemma atomicD: "atomic m \<Longrightarrow> m s = (Inl e, s') \<Longrightarrow> sq_tables s' = sq_tables s"
  by (simp add: atomic_def)

lemma atomicI: "(\<And>s e s'. m s = (Inl e, s') \<Longrightarrow> sq_tables s' = sq_tables s) \<Longrightarrow> atomic m"
  by (simp add: atomic_def)

lemma does_conseq: "does m R \<Longrightarrow> (\<And>t x t'. R t x t' \<Longrightarrow> S t x t') \<Longrightarrow> does m S"
  by (simp add: does_def)

lemma does_done [db_rules]: "does (done_sql x) (\<lambda>t y t'. y = x \<and> t' = t)"
  by (simp add: does_def done_sql_def)

lemma does_fail [db_rules]: "does (fail_sql e) (\<lambda>_ _ _. False)"
  by (simp add: does_def fail_sql_def)

lemma does_bind:
  assumes "does m R" "\<And>x. does (f x) (S x)"
  shows "does (bind_sql m f) (\<lambda>t y t'. \<exists>x u. R t x u \<and> S x u y t')"
  using assms by (fastforce simp: does_def bind_sql_def split: prod.splits sum.splits)

lemma does_last: "does (bind_sql m (\<lambda>_. done_sql x)) (\<lambda>_ y _. y = x)"
  by (auto simp: does_def bind_sql_def done_sql_def split: sum.splits prod.splits)

lemma faulty_cases:
  "faulty m s = (r, s') \<Longrightarrow>
     (r = Inl Fault \<and> sq_tables s' = sq_tables s) \<or> (\<exists>u. sq_tables u = sq_tables s \<and> m u = (r, s'))"
  by (auto simp: faulty_def split: list.splits bool.splits)

lemma does_faulty: "does m R \<Longrightarrow> does (faulty m) R"
  unfolding does_def by (metis faulty_cases Inl_Inr_False)

lemma atomic_faulty: "atomic m \<Longrightarrow> atomic (faulty m)"
  unfolding atomic_def by (metis faulty_cases)

lemma does_query: "does (query f) (\<lambda>t x t'. f t = Inr x \<and> t' = t)"
  unfolding query_def by (intro does_faulty) (auto simp: does_def)

lemma does_exec: "does (exec f) (\<lambda>t x t'. f t = Inr (x, t'))"
  unfolding exec_def by (intro does_faulty) (auto simp: does_def split: sum.splits)

lemma does_Now [db_rules]: "does Now (\<lambda>t _ t'. t' = t)"
  by (auto simp: does_def Now_def clock_def bind_sql_def done_sql_def)

lemma does_clock [db_rules]: "does clock (\<lambda>t _ t'. t' = t)"
  by (auto simp: does_def clock_def)


lemma atomic_query [db_rules]: "atomic (query f)"
  unfolding query_def by (intro atomic_faulty) (simp add: atomic_def)

lemma atomic_exec [db_rules]: "atomic (exec f)"
  unfolding exec_def by (intro atomic_faulty) (auto simp: atomic_def split: sum.splits)

lemma atomic_basic [db_rules]:
  "atomic (done_sql x)" "atomic (fail_sql e)" "atomic clock" "atomic Now"
  by (auto simp: atomic_def done_sql_def fail_sql_def clock_def Now_def bind_sql_def)

text \<open>Reading first, then one atomic step, is atomic; a transaction always is.\<close>

definition reads :: "'a sql \<Rightarrow> bool" where
  "reads m \<longleftrightarrow> (\<forall>s. sq_tables (snd (m s)) = sq_tables s)"

lemma reads_basic [db_rules]:
  "reads (done_sql x)" "reads (fail_sql e)" "reads clock" "reads Now" "reads (query f)"
  by (auto simp: reads_def done_sql_def fail_sql_def clock_def Now_def bind_sql_def query_def faulty_def
      split: list.splits bool.splits)

lemma reads_bind [db_rules]: "reads m \<Longrightarrow> (\<And>x. reads (f x)) \<Longrightarrow> reads (bind_sql m f)"
  unfolding reads_def bind_sql_def by (metis (mono_tags, lifting) case_prod_beta old.sum.exhaust snd_conv sum.simps(5,6))

lemma atomic_bind [db_rules]: "reads m \<Longrightarrow> (\<And>x. atomic (f x)) \<Longrightarrow> atomic (bind_sql m f)"
proof (rule atomicI)
  fix s e s'
  assume m: "reads m" and f: "\<And>x. atomic (f x)" and run: "bind_sql m f s = (Inl e, s')"
  obtain r u where u: "m s = (r, u)" by fastforce
  then have "sq_tables u = sq_tables s" using m by (metis reads_def snd_conv)
  then show "sq_tables s' = sq_tables s"
    using run u atomicD [OF f] by (cases r) (auto simp: bind_sql_def)
qed

lemma atomic_reads: "reads m \<Longrightarrow> atomic m"
  by (metis atomic_def reads_def snd_conv)

lemma faulty_done: "faulty (done_sql ()) s = (r, s') \<Longrightarrow> sq_tables s' = sq_tables s"
  by (auto simp: faulty_def done_sql_def split: list.splits bool.splits)

lemma atomic_transaction [db_rules]: "atomic (transaction m)"
  unfolding atomic_def transaction_def bind_sql_def
  by (auto simp: Let_def split: prod.splits sum.splits dest!: faulty_done)

lemma does_transaction: "does m R \<Longrightarrow> does (transaction m) R"
  unfolding does_def transaction_def bind_sql_def
  by (fastforce simp: Let_def done_sql_def split: prod.splits sum.splits dest!: faulty_done)

lemma does_now_exec:
  assumes "\<And>now t x t'. f now t = Inr (x, t') \<Longrightarrow> R t x t'"
  shows "does (bind_sql Now (\<lambda>now. exec (f now))) R"
  by (rule does_conseq [OF does_bind [OF does_Now does_exec]]) (use assms in auto)


section \<open>The ledger\<close>

text \<open>
  What the database is for: the hashes of the accepted files, the settings, the index of the
  snapshots, the states of the jobs and the entries of the audit log, without times and flags.
  \<open>book\<close> says what an operation does to it.
\<close>

record ledger =
  lg_files :: "(string, string) fmap"
  lg_settings :: "(string, string) fmap"
  lg_snapshots :: "(string, string) fmap"
  lg_jobs :: "(string \<times> string) list"
  lg_audit :: "(string \<times> string \<times> string \<times> string) list"

definition ledger_of :: "tables \<Rightarrow> ledger" where
  "ledger_of t = \<lparr>lg_files = fmmap fr_sha (db_files t), lg_settings = fmmap fst (db_settings t),
     lg_snapshots = fmmap sn_manifest (db_snapshots t),
     lg_jobs = map (\<lambda>j. (jb_id j, jb_state j)) (db_jobs t),
     lg_audit = map (\<lambda>a. (au_actor a, au_action a, au_resource a, au_result a)) (db_audit t)\<rparr>"

datatype db_op =
    OpAudit string string string string "string result"
  | OpSet string string
  | OpAccept "(string, string) fmap"
  | OpObserve "(string, string) fmap"
  | OpSave manifest string "(string, string) fmap"
  | OpSync "manifest list"
  | OpCreate string string
  | OpUpdate string string int string
  | OpInterrupt

fun run_op :: "db_op \<Rightarrow> unit sql" where
  "run_op (OpAudit a c r res d) = Audit a c r res d"
| "run_op (OpSet k v) = SetSetting k v"
| "run_op (OpAccept h) = AcceptFiles h"
| "run_op (OpObserve h) = bind_sql (ObserveFiles h) (\<lambda>_. done_sql ())"
| "run_op (OpSave m v h) = SaveBaseline m v h"
| "run_op (OpSync ms) = SyncSnapshots ms"
| "run_op (OpCreate i k) = CreateJob i k"
| "run_op (OpUpdate i s n r) = UpdateJob i s n r"
| "run_op OpInterrupt = InterruptJobs"

definition open_state :: "string \<Rightarrow> bool" where
  "open_state s \<longleftrightarrow> s = ''queued'' \<or> s = ''running''"

fun book :: "db_op \<Rightarrow> ledger \<Rightarrow> ledger" where
  "book (OpAudit a c r res d) l = l\<lparr>lg_audit := lg_audit l @ [(a, c, r, res)]\<rparr>"
| "book (OpSet k v) l = l\<lparr>lg_settings := fmupd k v (lg_settings l)\<rparr>"
| "book (OpAccept h) l = l\<lparr>lg_files := h\<rparr>"
| "book (OpObserve h) l = l"
| "book (OpSave m v h) l = l\<lparr>lg_files := h,
     lg_settings := fmupd ''managed_snapshot'' (m_id m) (fmupd ''managed_revision'' v (lg_settings l)),
     lg_snapshots := fmupd (m_id m) (manifest_text m) (lg_snapshots l)\<rparr>"
| "book (OpSync ms) l = l\<lparr>lg_snapshots := fold (\<lambda>m. fmupd (m_id m) (manifest_text m)) ms fmempty\<rparr>"
| "book (OpCreate i k) l = l\<lparr>lg_jobs := lg_jobs l @ [(i, ''queued'')]\<rparr>"
| "book (OpUpdate i s n r) l =
     l\<lparr>lg_jobs := map (\<lambda>(j, st). if j = i \<and> open_state st then (j, s) else (j, st)) (lg_jobs l)\<rparr>"
| "book OpInterrupt l =
     l\<lparr>lg_jobs := map (\<lambda>(j, st). if open_state st then (j, ''interrupted'') else (j, st)) (lg_jobs l)\<rparr>"

lemma fmmap_fmupd [simp]: "fmmap f (fmupd k v m) = fmupd k (f v) (fmmap f m)"
  by (rule fmap_ext) simp

text \<open>\<open>books m f\<close>: a successful run of \<open>m\<close> changes the ledger by \<open>f\<close>.\<close>

definition books :: "'a sql \<Rightarrow> (ledger \<Rightarrow> ledger) \<Rightarrow> bool" where
  "books m f \<longleftrightarrow> does m (\<lambda>t _ t'. ledger_of t' = f (ledger_of t))"

lemma books_cong: "books m f \<Longrightarrow> (\<And>l. f l = g l) \<Longrightarrow> books m g"
  by (simp add: books_def)

lemma books_done: "books (done_sql x) (\<lambda>l. l)" "books Now (\<lambda>l. l)" "books (fail_sql e) f"
  by (auto simp: books_def does_def done_sql_def fail_sql_def Now_def clock_def bind_sql_def)

lemma books_query: "books (query f) (\<lambda>l. l)"
  unfolding books_def by (rule does_conseq [OF does_query]) simp

lemma books_exec:
  assumes "\<And>t x t'. f t = Inr (x, t') \<Longrightarrow> ledger_of t' = g (ledger_of t)"
  shows "books (exec f) g"
  unfolding books_def by (rule does_conseq [OF does_exec]) (rule assms)

lemma books_bind: "books m f \<Longrightarrow> (\<And>x. books (n x) g) \<Longrightarrow> books (bind_sql m n) (\<lambda>l. g (f l))"
  unfolding books_def by (rule does_conseq [OF does_bind]) auto

lemma books_now: "(\<And>now. books (n now) g) \<Longrightarrow> books (bind_sql Now n) g"
  using books_bind [OF books_done(2)] .

lemma books_each: "(\<And>x. books (f x) (g x)) \<Longrightarrow> books (each f xs) (fold g xs)"
  by (induction xs) (auto simp: comp_def id_def intro: books_done books_bind)

lemma books_transaction: "books m f \<Longrightarrow> books (transaction m) f"
  unfolding books_def by (rule does_transaction)

lemma books_clear: "books clear_files (\<lambda>l. l\<lparr>lg_files := fmempty\<rparr>)"
  unfolding clear_files_def by (rule books_exec) (auto simp: ledger_of_def)

lemma books_insert: "books (insert_file p h) (\<lambda>l. l\<lparr>lg_files := fmupd p h (lg_files l)\<rparr>)"
  unfolding insert_file_def
  by (intro books_now books_exec) (auto simp: ledger_of_def split: if_splits)

lemma fold_files: "fold (\<lambda>p l. l\<lparr>lg_files := fmupd p (g p) (lg_files l)\<rparr>) ps l =
    l\<lparr>lg_files := fold (\<lambda>p. fmupd p (g p)) ps (lg_files l)\<rparr>"
  by (induction ps arbitrary: l) auto

lemma fold_fmupd_keys:
  "fmlookup (fold (\<lambda>p. fmupd p (g p)) ps m) k = (if k \<in> set ps then Some (g k) else fmlookup m k)"
  by (induction ps arbitrary: m) auto

lemma fold_all_keys [simp]:
  "fold (\<lambda>p. fmupd p (fm_get z m p)) (sorted_keys m) fmempty = m"
  by (rule fmap_ext) (auto simp: fold_fmupd_keys fm_get_def fmdom_notD split: option.splits)

lemma books_files:
  "books (then_sql clear_files (insert_files h)) (\<lambda>l. l\<lparr>lg_files := h\<rparr>)"
  unfolding insert_files_def
  by (rule books_cong [OF books_bind [OF books_clear books_each [OF books_insert]]]) (simp add: fold_files)

lemma books_setting: "books (put_setting k v) (\<lambda>l. l\<lparr>lg_settings := fmupd k v (lg_settings l)\<rparr>)"
  unfolding put_setting_def by (intro books_now books_exec) (auto simp: ledger_of_def)

lemma books_snapshot: "books (upsert_snapshot m) (\<lambda>l. l\<lparr>lg_snapshots := fmupd (m_id m) (manifest_text m) (lg_snapshots l)\<rparr>)"
  unfolding upsert_snapshot_def by (rule books_exec) (auto simp: ledger_of_def split: option.splits)

lemma books_index: "books (insert_snapshot m) (\<lambda>l. l\<lparr>lg_snapshots := fmupd (m_id m) (manifest_text m) (lg_snapshots l)\<rparr>)"
  unfolding insert_snapshot_def by (rule books_exec) (auto simp: ledger_of_def split: if_splits)

lemma fold_snapshots: "fold (\<lambda>m l. l\<lparr>lg_snapshots := fmupd (m_id m) (manifest_text m) (lg_snapshots l)\<rparr>) ms l =
    l\<lparr>lg_snapshots := fold (\<lambda>m. fmupd (m_id m) (manifest_text m)) ms (lg_snapshots l)\<rparr>"
  by (induction ms arbitrary: l) auto

lemma books_SaveBaseline: "books (SaveBaseline m v h) (book (OpSave m v h))"
proof -
  have "books (each (\<lambda>(k, v). put_setting k v) kvs) (fold (\<lambda>(k, v) l. l\<lparr>lg_settings := fmupd k v (lg_settings l)\<rparr>) kvs)"
    for kvs by (rule books_each) (auto intro: books_setting)
  from books_bind [OF this books_snapshot]
  have tail: "books (then_sql (each (\<lambda>(k, v). put_setting k v) kvs) (upsert_snapshot m)) (\<lambda>l.
      (\<lambda>l. l\<lparr>lg_snapshots := fmupd (m_id m) (manifest_text m) (lg_snapshots l)\<rparr>)
        (fold (\<lambda>(k, v) l. l\<lparr>lg_settings := fmupd k v (lg_settings l)\<rparr>) kvs l))" for kvs .
  have "books (insert_files h) (\<lambda>l. l\<lparr>lg_files := fold (\<lambda>p. fmupd p (fm_get [] h p)) (sorted_keys h) (lg_files l)\<rparr>)"
    unfolding insert_files_def by (rule books_cong [OF books_each [OF books_insert]]) (simp add: fold_files)
  then show ?thesis
    unfolding SaveBaseline_def
    by (intro books_transaction books_cong [OF books_bind [OF books_clear books_bind [OF _ tail]]]) auto
qed

lemma books_update:
  "books (update_jobs P f) (\<lambda>l. l\<lparr>lg_jobs := map g (lg_jobs l)\<rparr>)"
  if "\<And>j. g (jb_id j, jb_state j) = (if P j then (jb_id (f j), jb_state (f j)) else (jb_id j, jb_state j))"
  unfolding update_jobs_def using that
  by (intro books_exec) (auto simp: ledger_of_def split: if_splits)

lemma books_observe: "books (observe_file h k p) (\<lambda>l. l)"
  unfolding observe_file_def
proof (intro books_now books_exec)
  fix now x and t t' :: tables
  assume "Inr ((), case fmlookup (db_files t) p of None \<Rightarrow> t
      | Some r \<Rightarrow> t\<lparr>db_files := fmupd p (r\<lparr>fr_modified := fm_get [] h p \<noteq> fm_get [] k p, fr_seen := now\<rparr>) (db_files t)\<rparr>)
      = Inr (x, t')"
  moreover have "fmmap fr_sha (fmupd p (r\<lparr>fr_modified := b, fr_seen := now\<rparr>) m) = fmmap fr_sha m"
    if "fmlookup m p = Some r" for m r b using that by (auto intro!: fmap_ext)
  ultimately show "ledger_of t' = ledger_of t" by (auto simp: ledger_of_def split: option.splits)
qed

lemma fold_same [simp]: "fold (\<lambda>_ x. x) xs = (\<lambda>x. x)"
  by (induction xs) (auto simp: id_def comp_def)

lemma books_op: "books (run_op op) (book op)"
proof (cases op)
  case (OpAudit a c r res d)
  then show ?thesis
    by (auto simp: Audit_def intro!: books_done books_now books_exec split: sum.split) (simp add: ledger_of_def)
next
  case (OpObserve h)
  have "books (each (observe_file h k) ps) (\<lambda>l. l)" for k ps
    by (rule books_cong [OF books_each [OF books_observe]]) simp
  then have "books (then_sql (each (observe_file h k) ps) (done_sql x)) (\<lambda>l. l)" for k ps x
    by (rule books_bind [OF _ books_done(1)])
  then have "books (ObserveFiles h) (\<lambda>l. l)"
    unfolding ObserveFiles_def by (intro books_transaction books_bind [OF books_query])
  then show ?thesis using books_bind [OF _ books_done(1)] by (fastforce simp: OpObserve intro: books_cong)
next
  case (OpSync ms)
  have "books (exec (\<lambda>t. Inr ((), t\<lparr>db_snapshots := fmempty\<rparr>))) (\<lambda>l. l\<lparr>lg_snapshots := fmempty\<rparr>)"
    by (rule books_exec) (auto simp: ledger_of_def)
  then show ?thesis
    unfolding OpSync run_op.simps SyncSnapshots_def
    by (intro books_transaction books_cong [OF books_bind [OF _ books_each [OF books_index]]]) (auto simp: fold_snapshots)
next
  case (OpCreate i k)
  then show ?thesis
    by (auto simp: CreateJob_def intro!: books_now books_exec split: if_splits) (simp add: ledger_of_def)
next
  case (OpUpdate i st n r)
  let ?fin = "if st = ''succeeded'' \<or> st = ''failed'' \<or> st = ''interrupted''
      then bind_sql Now (\<lambda>now. done_sql (Some now)) else done_sql None"
  have fin: "books ?fin (\<lambda>l. l)" by (auto intro: books_done books_now)
  have upd: "books (update_jobs (\<lambda>j. jb_id j = i \<and> open_job j)
      (\<lambda>j. j\<lparr>jb_state := st, jb_progress := n, jb_result := r, jb_finished := f\<rparr>))
      (\<lambda>l. l\<lparr>lg_jobs := map (\<lambda>(j, s). if j = i \<and> open_state s then (j, st) else (j, s)) (lg_jobs l)\<rparr>)" for f
    by (rule books_update) (auto simp: open_job_def open_state_def)
  have last: "books (if k \<noteq> (1 :: nat) then fail_sql e else done_sql ()) (\<lambda>l. l)" for k e
    by (auto intro: books_done)
  show ?thesis
    unfolding OpUpdate run_op.simps UpdateJob_def
    by (rule books_cong [OF books_bind [OF fin books_bind [OF upd last]]]) simp
next
  case OpInterrupt
  have "books (update_jobs open_job (\<lambda>j. j\<lparr>jb_state := ''interrupted'', jb_result := interrupted_text, jb_finished := Some now\<rparr>))
      (\<lambda>l. l\<lparr>lg_jobs := map (\<lambda>(j, s). if open_state s then (j, ''interrupted'') else (j, s)) (lg_jobs l)\<rparr>)" for now
    by (rule books_update) (auto simp: open_job_def open_state_def)
  then show ?thesis
    unfolding OpInterrupt run_op.simps InterruptJobs_def
    by (intro books_now books_cong [OF books_bind [OF _ books_done(1)]]) simp_all
next
  case (OpSet k v)
  then show ?thesis using books_setting [of k v] by (auto simp: SetSetting_def intro: books_cong)
next
  case (OpAccept h)
  then show ?thesis
    using books_files [of h] by (auto simp: AcceptFiles_def intro!: books_transaction intro: books_cong)
qed (auto intro: books_SaveBaseline)

section \<open>Well-formed tables\<close>

text \<open>
  What the schema and the operations keep: keys are unique, a job has one of the five states, a
  progress within bounds and a finishing time exactly when it is over, audit identifiers grow and
  are never given twice, sessions belong to the administrator.
\<close>

definition job_ok :: "job \<Rightarrow> bool" where
  "job_ok j \<longleftrightarrow> jb_state j \<in> set job_states \<and> 0 \<le> jb_progress j \<and> jb_progress j \<le> 100 \<and>
     (jb_finished j = None \<longleftrightarrow> open_job j)"

definition well_kept :: "tables \<Rightarrow> bool" where
  "well_kept t \<longleftrightarrow> distinct (map jb_id (db_jobs t)) \<and> (\<forall>j\<in>set (db_jobs t). job_ok j) \<and>
     sorted_wrt (<) (map au_id (db_audit t)) \<and> (\<forall>a\<in>set (db_audit t). 0 < au_id a \<and> au_id a \<le> db_audit_seq t) \<and>
     0 \<le> db_audit_seq t \<and>
     distinct (map se_id (db_sessions t)) \<and> distinct (map se_token (db_sessions t)) \<and>
     (db_sessions t \<noteq> [] \<longrightarrow> db_user t \<noteq> None)"

definition keeps :: "'a sql \<Rightarrow> bool" where
  "keeps m \<longleftrightarrow> does m (\<lambda>t _ t'. well_kept t \<longrightarrow> well_kept t')"

lemma keeps_reads [db_rules]: "reads m \<Longrightarrow> keeps m"
  by (auto simp: keeps_def does_def reads_def) (metis snd_conv)

lemmas keeps_done [db_rules] = reads_basic [THEN keeps_reads]

lemma keeps_bind [db_rules]: "keeps m \<Longrightarrow> (\<And>x. keeps (f x)) \<Longrightarrow> keeps (bind_sql m f)"
  unfolding keeps_def by (rule does_conseq [OF does_bind]) auto

lemma keeps_exec: "(\<And>t x t'. f t = Inr (x, t') \<Longrightarrow> well_kept t \<Longrightarrow> well_kept t') \<Longrightarrow> keeps (exec f)"
  unfolding keeps_def by (rule does_conseq [OF does_exec]) auto

lemma keeps_each [db_rules]: "(\<And>x. keeps (f x)) \<Longrightarrow> keeps (each f xs)"
  by (induction xs) (auto intro: db_rules)

lemma keeps_transaction [db_rules]: "keeps m \<Longrightarrow> keeps (transaction m)"
  unfolding keeps_def by (rule does_transaction)

lemma keeps_update:
  assumes "\<And>j. jb_id (f j) = jb_id j"
    and "\<And>j. P j \<Longrightarrow> jb_state (f j) \<in> set job_states \<Longrightarrow> jb_finished (f j) = None \<longleftrightarrow> open_job (f j)"
  shows "keeps (update_jobs P f)"
  unfolding update_jobs_def using assms
  by (intro keeps_exec) (auto simp: well_kept_def job_ok_def comp_def if_distrib cong: if_cong split: if_splits)

lemma keeps_basic [db_rules]:
  "keeps clear_files" "keeps (insert_file p h)" "keeps (put_setting k v)" "keeps (upsert_snapshot m)"
  "keeps (insert_snapshot m)" "keeps (observe_file hs ks p)" "keeps (exec (\<lambda>t. Inr ((), t\<lparr>db_snapshots := fmempty\<rparr>)))"
  unfolding clear_files_def insert_file_def put_setting_def upsert_snapshot_def insert_snapshot_def observe_file_def
  by (intro keeps_bind keeps_done keeps_exec; auto simp: well_kept_def split: if_splits option.splits)+

lemma keeps_bind_if:
  assumes "does m (\<lambda>t x t'. P x \<and> t' = t)" "\<And>x. P x \<Longrightarrow> keeps (f x)"
  shows "keeps (bind_sql m f)"
  unfolding keeps_def
proof (rule does_conseq [OF does_bind [OF assms(1), where S = "\<lambda>x t _ t'. P x \<longrightarrow> well_kept t \<longrightarrow> well_kept t'"]])
  show "does (f x) (\<lambda>t _ t'. P x \<longrightarrow> well_kept t \<longrightarrow> well_kept t')" for x
    using assms(2) by (cases "P x") (auto simp: keeps_def does_def)
qed auto

definition finishing :: "string \<Rightarrow> string option sql" where
  "finishing state = (if state = ''succeeded'' \<or> state = ''failed'' \<or> state = ''interrupted''
     then bind_sql Now (\<lambda>now. done_sql (Some now)) else done_sql None)"

definition finished :: "string \<Rightarrow> bool" where
  "finished state \<longleftrightarrow> state = ''succeeded'' \<or> state = ''failed'' \<or> state = ''interrupted''"

lemma finished_open: "st \<in> set job_states \<Longrightarrow> finished st \<longleftrightarrow> st \<noteq> ''queued'' \<and> st \<noteq> ''running''"
  by (simp add: job_states_def finished_def, elim disjE; simp)

lemma finishing_does: "does (finishing st) (\<lambda>t f t'. (f = None \<longleftrightarrow> \<not> finished st) \<and> t' = t)"
  by (auto simp: finishing_def finished_def does_def Now_def clock_def bind_sql_def done_sql_def)

lemma finishing_reads: "reads (finishing st)"
  by (auto simp: finishing_def intro!: db_rules)

lemma UpdateJob_alt: "UpdateJob i st n r =
    bind_sql (finishing st) (\<lambda>fin. bind_sql (update_jobs (\<lambda>j. jb_id j = i \<and> open_job j)
      (\<lambda>j. j\<lparr>jb_state := st, jb_progress := n, jb_result := r, jb_finished := fin\<rparr>)) (\<lambda>k.
     if k \<noteq> 1 then fail_sql (Msg ''job missing or already terminal'') else done_sql ()))"
  by (simp add: UpdateJob_def finishing_def)

lemma keeps_UpdateJob: "keeps (UpdateJob i st n r)"
  unfolding UpdateJob_alt
proof (rule keeps_bind_if [OF finishing_does])
  fix fin :: "string option"
  assume "fin = None \<longleftrightarrow> \<not> finished st"
  then have "keeps (update_jobs (\<lambda>j. jb_id j = i \<and> open_job j)
      (\<lambda>j. j\<lparr>jb_state := st, jb_progress := n, jb_result := r, jb_finished := fin\<rparr>))"
    by (intro keeps_update) (simp_all add: finished_open open_job_def)
  then show "keeps (bind_sql (update_jobs (\<lambda>j. jb_id j = i \<and> open_job j)
      (\<lambda>j. j\<lparr>jb_state := st, jb_progress := n, jb_result := r, jb_finished := fin\<rparr>))
      (\<lambda>k. if k \<noteq> 1 then fail_sql (Msg ''job missing or already terminal'') else done_sql ()))"
    by (rule keeps_bind) (auto intro: keeps_done)
qed

lemma keeps_Audit: "keeps (Audit a c r res d)"
proof (cases d)
  case (Inr d)
  have "well_kept (t\<lparr>db_audit := db_audit t @ [\<lparr>au_id = db_audit_seq t + 1, au_actor = a, au_action = c,
      au_resource = r, au_detail = d', au_result = res, au_created = now\<rparr>], db_audit_seq := db_audit_seq t + 1\<rparr>)"
    if "well_kept t" for t now d'
    using that by (simp add: well_kept_def sorted_wrt_append) fastforce
  then show ?thesis by (auto simp: Inr Audit_def intro!: keeps_bind keeps_done keeps_exec)
qed (auto simp: Audit_def intro: keeps_done)

lemma keeps_CreateJob: "keeps (CreateJob i k)"
proof -
  have "well_kept (t\<lparr>db_jobs := db_jobs t @ [\<lparr>jb_id = i, jb_type = k, jb_state = ''queued'',
      jb_progress = 0, jb_result = [], jb_created = now, jb_finished = None\<rparr>]\<rparr>)"
    if "well_kept t" "i \<notin> jb_id ` set (db_jobs t)" for t now
    using that by (simp add: well_kept_def) (auto simp: job_ok_def job_states_def open_job_def)
  then show ?thesis by (auto simp: CreateJob_def intro!: keeps_bind keeps_done keeps_exec split: if_splits)
qed

lemma keeps_InterruptJobs: "keeps InterruptJobs"
  unfolding InterruptJobs_def
  by (intro keeps_bind keeps_done keeps_update) (auto simp: open_job_def)

lemma keeps_op: "keeps (run_op op)"
  by (cases op)
    (auto simp: SetSetting_def AcceptFiles_def ObserveFiles_def SaveBaseline_def SyncSnapshots_def insert_files_def
      keeps_Audit keeps_CreateJob keeps_InterruptJobs keeps_UpdateJob
      intro!: keeps_transaction keeps_bind keeps_each keeps_basic keeps_done)

text \<open>Only \<open>UpdateJob\<close> tests a count after its change, which is then empty.\<close>

lemma few_jobs: "distinct (map jb_id js) \<Longrightarrow> length (filter (\<lambda>j. jb_id j = i \<and> P j) js) \<le> 1"
proof (induction js)
  case (Cons a js)
  then have "jb_id a = i \<Longrightarrow> filter (\<lambda>j. jb_id j = i \<and> P j) js = []" by (auto simp: filter_empty_conv image_iff)
  then show ?case using Cons by auto
qed simp

lemma no_jobs: "filter P js = [] \<Longrightarrow> map (\<lambda>j. if P j then g j else j) js = js"
  by (induction js) (auto split: if_splits)

lemma update_jobs_outcome:
  assumes "update_jobs P f s = (r, s')"
  shows "(isl r \<and> sq_tables s' = sq_tables s) \<or>
    (r = Inr (length (filter P (db_jobs (sq_tables s)))) \<and>
     sq_tables s' = (sq_tables s)\<lparr>db_jobs := map (\<lambda>j. if P j then f j else j) (db_jobs (sq_tables s))\<rparr>)"
  using assms unfolding update_jobs_def exec_def
  by (auto dest!: faulty_cases split: sum.splits if_splits)

lemma atomic_UpdateJob:
  assumes "UpdateJob i st n r s = (Inl e, s')" "well_kept (sq_tables s)"
  shows "sq_tables s' = sq_tables s"
proof -
  let ?P = "\<lambda>j. jb_id j = i \<and> open_job j"
  obtain f u where u: "finishing st s = (f, u)" by fastforce
  then have su: "sq_tables u = sq_tables s" using finishing_reads by (metis reads_def snd_conv)
  show ?thesis
  proof (cases f)
    case Inl
    then show ?thesis using assms(1) u su by (simp add: UpdateJob_alt bind_sql_def)
  next
    case (Inr fin)
    let ?f = "\<lambda>j. j\<lparr>jb_state := st, jb_progress := n, jb_result := r, jb_finished := fin\<rparr>"
    obtain k v where v: "update_jobs ?P ?f u = (k, v)" by fastforce
    have s': "sq_tables s' = sq_tables v" "k \<noteq> Inr 1"
      using assms(1) u Inr v
      by (auto simp: UpdateJob_alt bind_sql_def fail_sql_def done_sql_def split: sum.splits if_splits)
    moreover have "length (filter ?P (db_jobs (sq_tables s))) \<le> 1"
      using assms(2) by (intro few_jobs) (simp add: well_kept_def)
    ultimately have "sq_tables v = sq_tables u"
      using update_jobs_outcome [OF v] su no_jobs [of ?P "db_jobs (sq_tables s)" ?f]
      by (cases "filter ?P (db_jobs (sq_tables s))") auto
    with s' su show ?thesis by simp
  qed
qed

lemma atomic_done: "atomic m \<Longrightarrow> atomic (bind_sql m (\<lambda>x. done_sql (f x)))"
  by (auto simp: atomic_def bind_sql_def done_sql_def split: sum.splits prod.splits)

lemma atomic_op:
  assumes "run_op op s = (Inl e, s')" "well_kept (sq_tables s)"
  shows "sq_tables s' = sq_tables s"
proof (cases "\<exists>i st n r. op = OpUpdate i st n r")
  case True
  then show ?thesis using assms atomic_UpdateJob by auto
next
  case False
  then have "atomic (run_op op)"
    by (cases op) (auto simp: Audit_def SetSetting_def put_setting_def AcceptFiles_def ObserveFiles_def SaveBaseline_def
      SyncSnapshots_def CreateJob_def InterruptJobs_def update_jobs_def atomic_basic
      intro!: atomic_done atomic_transaction atomic_exec atomic_bind [OF reads_basic(4)] split: sum.split)
  then show ?thesis using assms(1) by (rule atomicD)
qed


section \<open>Properties\<close>

text \<open>
  C26. The database refines the ledger: an operation that succeeds changes exactly the entries that
  it is about, as \<open>book\<close> says; one that fails, at whichever of its statements or at its commit,
  changes nothing.
\<close>

theorem ledger_refined:
  assumes "run_op op s = (r, s')" "well_kept (sq_tables s)"
  shows "ledger_of (sq_tables s') = (if is_ok r then book op (ledger_of (sq_tables s)) else ledger_of (sq_tables s))"
  using assms atomic_op books_op [of op] by (cases r) (auto simp: books_def does_def)

definition empty_tables :: tables where
  "empty_tables = \<lparr>db_settings = fmempty, db_user = None, db_sessions = [], db_files = fmempty,
     db_snapshots = fmempty, db_audit = [], db_audit_seq = 0, db_jobs = []\<rparr>"

definition sample_db :: "bool list \<Rightarrow> tables \<Rightarrow> database" where
  "sample_db fs t = \<lparr>sq_tables = t, sq_faults = fs, sq_clock = (\<lambda>n. n), sq_tick = 0\<rparr>"

lemma sample_db_tables [simp]: "sq_tables (sample_db fs t) = t"
  by (simp add: sample_db_def)

lemma empty_well_kept: "well_kept empty_tables"
  by (simp add: well_kept_def empty_tables_def)

lemma ledger_refined_witness:
  "ledger_of (sq_tables (snd (run_op (OpCreate ''one'' ''check-update'') (sample_db [] empty_tables)))) =
     (ledger_of empty_tables)\<lparr>lg_jobs := [(''one'', ''queued'')]\<rparr> \<and>
   ledger_of (sq_tables (snd (run_op (OpCreate ''one'' ''check-update'') (sample_db [True] empty_tables)))) =
     ledger_of empty_tables"
proof -
  let ?run = "\<lambda>fs. run_op (OpCreate ''one'' ''check-update'') (sample_db fs empty_tables)"
  have "is_ok (fst (?run []))" "isl (fst (?run [True]))"
    by (simp_all add: CreateJob_def bind_sql_def Now_def clock_def done_sql_def exec_def faulty_def sample_db_def empty_tables_def)
  moreover have "lg_jobs (ledger_of empty_tables) = []" by (simp add: ledger_of_def empty_tables_def)
  ultimately show ?thesis
    using ledger_refined [of "OpCreate ''one'' ''check-update''" "sample_db [] empty_tables" "fst (?run [])" "snd (?run [])"]
      ledger_refined [of "OpCreate ''one'' ''check-update''" "sample_db [True] empty_tables" "fst (?run [True])" "snd (?run [True])"]
      empty_well_kept
    by simp
qed

text \<open>
  C27. The tables stay well formed under every operation, whether it succeeds or fails: identifiers
  stay unique, and a job has one of the five states, a progress between 0 and 100 and a finishing
  time exactly when it is over.
\<close>

theorem tables_well_formed:
  assumes "well_kept (sq_tables s)"
  shows "well_kept (sq_tables (snd (fold (\<lambda>op (_, s). run_op op s) ops (Inr (), s))))"
proof -
  have step: "well_kept (sq_tables (snd (run_op op s)))" if "well_kept (sq_tables s)" for op s
  proof (cases "run_op op s")
    case (Pair r u)
    then show ?thesis
      using that atomic_op keeps_op [of op] by (cases r) (auto simp: keeps_def does_def)
  qed
  have "well_kept (sq_tables u) \<Longrightarrow> well_kept (sq_tables (snd (fold (\<lambda>op (_, s). run_op op s) ops (r, u))))" for r u
  proof (induction ops arbitrary: r u)
    case (Cons op ops)
    then show ?case using step [of u op] by (cases "run_op op u") auto
  qed simp
  from this [OF assms] show ?thesis .
qed

lemma tables_well_formed_witness:
  "well_kept (sq_tables (snd (fold (\<lambda>op (_, s). run_op op s)
     [OpCreate ''one'' ''check-update'', OpUpdate ''one'' ''bogus'' 30 [], OpInterrupt, OpUpdate ''one'' ''running'' 30 []]
     (Inr (), sample_db [] empty_tables))))"
  by (rule tables_well_formed) (simp add: empty_well_kept)

text \<open>
  C28. Observing the disk never accepts it: the accepted hashes stay, and what is reported as drift
  are exactly the paths whose hash on the disk is another than the accepted one, so nothing is
  reported exactly when the disk is as accepted.
\<close>

theorem observe_drift:
  assumes "ObserveFiles hashes s = (Inr ds, s')" "accepted = fmmap fr_sha (db_files (sq_tables s))"
    and "\<And>p h. fmlookup hashes p = Some h \<or> fmlookup accepted p = Some h \<Longrightarrow> h \<noteq> []"
  shows "fmmap fr_sha (db_files (sq_tables s')) = accepted \<and>
    set (map dr_path ds) = {p. fmlookup hashes p \<noteq> fmlookup accepted p} \<and>
    distinct (map dr_path ds) \<and> (ds = [] \<longleftrightarrow> hashes = accepted)"
proof -
  have "does (ObserveFiles hashes) (\<lambda>t ds t'. ds = drift_of hashes (fmmap fr_sha (db_files t)))"
    unfolding ObserveFiles_def
    by (rule does_transaction, rule does_conseq [OF does_bind [OF does_query does_last]]) auto
  from doesD [OF this assms(1)] have ds: "ds = drift_of hashes accepted" by (simp add: assms(2))
  have "ledger_of (sq_tables s') = ledger_of (sq_tables s)"
    using books_op [of "OpObserve hashes"] assms(1) by (auto simp: books_def does_def bind_sql_def done_sql_def)
  then have "fmmap fr_sha (db_files (sq_tables s')) = accepted" by (simp add: ledger_of_def assms(2))
  moreover have paths: "map dr_path ds = filter (\<lambda>p. fm_get [] hashes p \<noteq> fm_get [] accepted p) (sorted_keys accepted)
      @ filter (\<lambda>p. p |\<notin>| fmdom accepted) (sorted_keys hashes)"
    by (simp add: ds drift_of_def comp_def)
  have differ: "fm_get [] hashes p \<noteq> fm_get [] accepted p \<longleftrightarrow> fmlookup hashes p \<noteq> fmlookup accepted p" for p
    using assms(3) [of p] by (auto simp: fm_get_def split: option.splits)
  have set: "set (map dr_path ds) = {p. fmlookup hashes p \<noteq> fmlookup accepted p}"
  proof (intro set_eqI)
    fix p
    have dom: "p |\<in>| fmdom m \<longleftrightarrow> fmlookup m p \<noteq> None" for m :: "(string, string) fmap"
      by (simp add: fmlookup_dom_iff)
    show "p \<in> set (map dr_path ds) \<longleftrightarrow> p \<in> {p. fmlookup hashes p \<noteq> fmlookup accepted p}"
      unfolding paths by (cases "fmlookup hashes p"; cases "fmlookup accepted p") (simp_all add: differ dom)
  qed
  moreover have "distinct (map dr_path ds)" unfolding paths by auto
  moreover have "ds = [] \<longleftrightarrow> hashes = accepted"
    using set by (cases ds) (auto simp: fmap_ext_iff)
  ultimately show ?thesis by blast
qed


lemma observe_drift_witness:
  "set (map dr_path (case fst (ObserveFiles (fmap_of_list [(''hosts'', ''edited'')])
      (sample_db [] (empty_tables\<lparr>db_files := fmap_of_list [(''a'', \<lparr>fr_sha = ''old'', fr_seen = [], fr_modified = False\<rparr>)]\<rparr>)))
     of Inr ds \<Rightarrow> ds | Inl _ \<Rightarrow> [])) = {''a'', ''hosts''}"
proof -
  let ?h = "fmap_of_list [(''hosts'', ''edited'')]"
  let ?t = "empty_tables\<lparr>db_files := fmap_of_list [(''a'', \<lparr>fr_sha = ''old'', fr_seen = [], fr_modified = False\<rparr>)]\<rparr>"
  have "is_ok (fst (ObserveFiles ?h (sample_db [] ?t)))"
    by (simp add: ObserveFiles_def transaction_def bind_sql_def faulty_def sample_db_def done_sql_def query_def
        sorted_keys_upd observe_file_def Now_def clock_def exec_def Let_def)
  then obtain ds u where run: "ObserveFiles ?h (sample_db [] ?t) = (Inr ds, u)"
    by (cases "ObserveFiles ?h (sample_db [] ?t)"; cases "fst (ObserveFiles ?h (sample_db [] ?t))") auto
  let ?a = "fmmap fr_sha (db_files (sq_tables (sample_db [] ?t)))"
  have look: "fmlookup ?h p = (if p = ''hosts'' then Some ''edited'' else None)"
      "fmlookup ?a p = (if p = ''a'' then Some ''old'' else None)" for p by auto
  have full: "h \<noteq> []" if "fmlookup ?h p = Some h \<or> fmlookup ?a p = Some h" for p h
    using that unfolding look by (auto split: if_splits)
  have "set (map dr_path ds) = {p. fmlookup ?h p \<noteq> fmlookup ?a p}"
    by (rule observe_drift [OF run refl, THEN conjunct2, THEN conjunct1]) (rule full)
  also have "\<dots> = {''a'', ''hosts''}" unfolding look by auto
  finally show ?thesis by (simp only: run fst_conv sum.case)
qed

end
