(* ===== verification/Auth.thy ===== *)
theory Auth
  imports Database "HOL-Library.Multiset"
begin

text \<open>
  Authentication of the administrator (\<open>internal/auth\<close>): password hashes, the limit on login
  attempts, sessions and their CSRF tokens. Argon2id (\<open>golang.org/x/crypto/argon2\<close>) is the
  parameter \<open>A\<close>, from password and salt to the key; base64, HMAC and SHA-256 are written out.
  The bytes that \<open>crypto/rand\<close> gives are arguments. The occupation of the two slots for
  password verification by concurrent logins is a number in the state.
\<close>

unbundle bit_operations_syntax

section \<open>Password hashes\<close>

type_synonym kdf = "string \<Rightarrow> string \<Rightarrow> string"

definition memory :: nat where "memory = 64 * 1024"
definition iterations :: nat where "iterations = 3"
definition parallelism :: nat where "parallelism = 2"

text \<open>\<open>base64.RawStdEncoding\<close>: six bits per character, no padding; decoding skips line ends.\<close>

definition b64_char :: "nat \<Rightarrow> char" where
  "b64_char v = char_of (if v < 26 then 65 + v else if v < 52 then 71 + v else if v < 62 then v - 4
     else if v = 62 then 43 else 47)"

definition b64_val :: "char \<Rightarrow> nat option" where
  "b64_val c =
     (let b = byte_of c in
      if 65 \<le> b \<and> b \<le> 90 then Some (b - 65) else if 97 \<le> b \<and> b \<le> 122 then Some (b - 71)
      else if 48 \<le> b \<and> b \<le> 57 then Some (b + 4) else if b = 43 then Some 62 else if b = 47 then Some 63 else None)"

fun b64_sextets :: "nat list \<Rightarrow> nat list" where
  "b64_sextets (a # b # c # r) =
     a div 4 # (a mod 4 * 16 + b div 16) # (b mod 16 * 4 + c div 64) # c mod 64 # b64_sextets r"
| "b64_sextets [a, b] = [a div 4, a mod 4 * 16 + b div 16, b mod 16 * 4]"
| "b64_sextets [a] = [a div 4, a mod 4 * 16]"
| "b64_sextets [] = []"

fun b64_bytes :: "nat list \<Rightarrow> nat list" where
  "b64_bytes (p # q # r # s # vs) =
     (p * 4 + q div 16) # (q mod 16 * 16 + r div 4) # (r mod 4 * 64 + s) # b64_bytes vs"
| "b64_bytes [p, q, r] = [p * 4 + q div 16, q mod 16 * 16 + r div 4]"
| "b64_bytes [p, q] = [p * 4 + q div 16]"
| "b64_bytes _ = []"

definition b64_encode :: "string \<Rightarrow> string" where
  "b64_encode s = map b64_char (b64_sextets (map byte_of s))"

definition b64_decode :: "string \<Rightarrow> string option" where
  "b64_decode s =
     (let cs = filter (\<lambda>c. c \<noteq> cr \<and> c \<noteq> nl) s in
      if list_all (\<lambda>c. b64_val c \<noteq> None) cs \<and> length cs mod 4 \<noteq> 1
      then Some (map char_of (b64_bytes (map (the \<circ> b64_val) cs))) else None)"

definition kdf_params :: string where
  "kdf_params = ''m='' @ nat_dec memory @ '',t='' @ nat_dec iterations @ '',p='' @ nat_dec parallelism"

definition HashPassword :: "kdf \<Rightarrow> string \<Rightarrow> string result \<Rightarrow> string result" where
  "HashPassword A password salt =
     (if length password < 12 \<or> length password > 1024 \<or> \<not> utf8_valid password
      then Inl (Msg ''password must contain 12-1024 UTF-8 bytes'')
      else bind_res salt (\<lambda>salt.
        Inr (''$argon2id$v=19$'' @ kdf_params @ ''$'' @ b64_encode salt @ ''$'' @ b64_encode (A password salt))))"

definition VerifyPassword :: "kdf \<Rightarrow> string \<Rightarrow> string \<Rightarrow> bool" where
  "VerifyPassword A encoded password =
     (if length password > 1024 then False
      else (let parts = split_on (CHR ''$'') encoded in
        if length parts \<noteq> 6 \<or> parts ! 1 \<noteq> ''argon2id'' \<or> parts ! 2 \<noteq> ''v=19'' then False
        else if parts ! 3 \<noteq> kdf_params then False
        else (case b64_decode (parts ! 4) of None \<Rightarrow> False | Some salt \<Rightarrow>
          if length salt \<noteq> 16 then False
          else (case b64_decode (parts ! 5) of None \<Rightarrow> False | Some want \<Rightarrow>
            if length want \<noteq> 32 then False else A password salt = want))))"

section \<open>Attempts\<close>

definition minute :: nat where "minute = 60 * 1000000000"

type_synonym attempts = "(string, nat \<times> nat) fmap"

definition allow :: "nat \<Rightarrow> string \<Rightarrow> attempts \<Rightarrow> bool \<times> attempts" where
  "allow time key attempts =
     (let attempts = fmfilter (\<lambda>k. \<not> time > snd (fm_get (0, 0) attempts k)) attempts;
          (count, expires) = fm_get (0, 0) attempts key in
      if count \<ge> 5 then (False, attempts)
      else if count = 0 \<and> fcard (fmdom attempts) \<ge> 4096 then (False, attempts)
      else (True, fmupd key (count + 1, if count = 0 then time + 15 * minute else expires) attempts))"

section \<open>Accounts and sessions\<close>

record auth =
  at_attempts :: attempts
  at_verify :: nat
  at_dummy :: string

record session =
  ss_user :: string
  ss_csrf :: string
  ss_expires :: int

definition ErrCredentials :: error where
  "ErrCredentials = Msg ''invalid username or password''"

definition ErrRateLimit :: error where
  "ErrRateLimit = Msg ''too many login attempts; try again later''"

definition ErrSession :: error where
  "ErrSession = Msg ''session expired or invalid''"

definition username_ok :: "string \<Rightarrow> bool" where
  "username_ok u \<longleftrightarrow> 1 \<le> length u \<and> length u \<le> 64 \<and>
     list_all (\<lambda>c. is_alnum c \<or> c = CHR ''_'' \<or> c = CHR ''.'' \<or> c = CHR ''-'') u"

definition tokenHash :: "string \<Rightarrow> string" where
  "tokenHash token = digest token"

definition randomToken :: "string result \<Rightarrow> string result" where
  "randomToken raw = bind_res raw (\<lambda>b. Inr (hex_encode b))"

text \<open>\<open>crypto/hmac\<close> with SHA-256.\<close>

definition hmac_key :: "string \<Rightarrow> nat list" where
  "hmac_key key =
     (let k = map byte_of (if length key > 64 then sha256 key else key) in k @ replicate (64 - length k) 0)"

definition hmac_sha256 :: "string \<Rightarrow> string \<Rightarrow> string" where
  "hmac_sha256 key msg =
     sha256 (map (\<lambda>b. char_of (b XOR 92)) (hmac_key key)
       @ sha256 (map (\<lambda>b. char_of (b XOR 54)) (hmac_key key) @ msg))"

definition csrf :: "string \<Rightarrow> string" where
  "csrf token = hex_encode (hmac_sha256 token ''avahi-manager csrf v1'')"

definition auth_new :: "kdf \<Rightarrow> string result \<Rightarrow> string result \<Rightarrow> auth result" where
  "auth_new A raw salt =
     bind_res (randomToken raw) (\<lambda>token. bind_res (HashPassword A token salt) (\<lambda>dummy.
       Inr \<lparr>at_attempts = fmempty, at_verify = 0, at_dummy = dummy\<rparr>))"

definition HasAdmin :: "bool sql" where
  "HasAdmin = query (\<lambda>t. Inr (db_user t \<noteq> None))"

definition CreateAdmin :: "kdf \<Rightarrow> string \<Rightarrow> string \<Rightarrow> string result \<Rightarrow> unit sql" where
  "CreateAdmin A username password salt =
     (if \<not> username_ok username
      then fail_sql (Msg ''username must be 1-64 letters, digits, dots, underscores or hyphens'')
      else (case HashPassword A password salt of Inl e \<Rightarrow> fail_sql e | Inr hash \<Rightarrow>
        bind_sql Now (\<lambda>now. exec (\<lambda>t.
          if db_user t \<noteq> None then Inl constraint
          else Inr ((), t\<lparr>db_user := Some \<lparr>us_name = username, us_hash = hash, us_created = now, us_login = None\<rparr>\<rparr>)))))"

definition lift_sql :: "'a result \<Rightarrow> 'a sql" where
  "lift_sql r s = (r, s)"

definition drop_expired :: "unit sql" where
  "drop_expired = bind_sql Now (\<lambda>now. exec (\<lambda>t.
     Inr ((), t\<lparr>db_sessions := filter (\<lambda>r. \<not> se_expires r \<le> now) (db_sessions t)\<rparr>)))"

text \<open>The newest 19 sessions stay.\<close>

definition drop_oldest :: "unit sql" where
  "drop_oldest = exec (\<lambda>t.
     let old = map se_id (drop 19 (rev (sort_key se_created (db_sessions t)))) in
     Inr ((), t\<lparr>db_sessions := filter (\<lambda>r. se_id r \<notin> set old) (db_sessions t)\<rparr>))"

definition insert_session :: "string \<Rightarrow> string \<Rightarrow> string \<Rightarrow> unit sql" where
  "insert_session i hash expires = bind_sql Now (\<lambda>now. exec (\<lambda>t.
     if i \<in> se_id ` set (db_sessions t) \<or> hash \<in> se_token ` set (db_sessions t) \<or> db_user t = None
     then Inl constraint
     else Inr ((), t\<lparr>db_sessions := db_sessions t @
       [\<lparr>se_id = i, se_token = hash, se_expires = expires, se_created = now\<rparr>]\<rparr>)))"

definition stamp_login :: "unit sql" where
  "stamp_login = bind_sql Now (\<lambda>now. exec (\<lambda>t.
     Inr ((), t\<lparr>db_user := map_option (\<lambda>u. u\<lparr>us_login := Some now\<rparr>) (db_user t)\<rparr>)))"

text \<open>\<open>Login\<close> after the limits: the credentials, and the transaction that stores the session.\<close>

definition login_session :: "string \<Rightarrow> string \<Rightarrow> string \<Rightarrow> (string \<times> session) sql" where
  "login_session token i user =
     bind_sql clock (\<lambda>now.
       let expires = now + 12 * 60 * minute in
       then_sql
         (transaction (then_sql drop_expired (then_sql drop_oldest
           (then_sql (insert_session i (tokenHash token) (time_text expires)) stamp_login))))
         (done_sql (token, \<lparr>ss_user = user, ss_csrf = csrf token, ss_expires = int expires\<rparr>)))"

definition login_db :: "kdf \<Rightarrow> string \<Rightarrow> string \<Rightarrow> string \<Rightarrow> string result \<Rightarrow> string result \<Rightarrow> (string \<times> session) sql" where
  "login_db A dummy username password raw1 raw2 =
     bind_sql (query (\<lambda>t. Inr (db_user t))) (\<lambda>u.
       let stored = (case u of None \<Rightarrow> [] | Some r \<Rightarrow> us_name r);
           hash = (case u of None \<Rightarrow> [] | Some r \<Rightarrow> us_hash r);
           hash = (if hash = [] then dummy else hash);
           valid = VerifyPassword A hash password in
       if u = None \<or> \<not> valid \<or> username \<noteq> stored then fail_sql ErrCredentials
       else bind_sql (lift_sql (randomToken raw1)) (\<lambda>token.
         bind_sql (lift_sql (randomToken raw2)) (\<lambda>i. login_session token i stored)))"

definition Login :: "kdf \<Rightarrow> string \<Rightarrow> string \<Rightarrow> string \<Rightarrow> string result \<Rightarrow> string result \<Rightarrow>
    auth \<Rightarrow> database \<Rightarrow> (string \<times> session) result \<times> auth \<times> database" where
  "Login A ip username password raw1 raw2 a db =
     (let (time, db) = (sq_clock db (sq_tick db), db\<lparr>sq_tick := Suc (sq_tick db)\<rparr>);
          (ok, attempts) = allow time ip (at_attempts a);
          a = a\<lparr>at_attempts := attempts\<rparr> in
      if \<not> ok then (Inl ErrRateLimit, a, db)
      else if at_verify a \<ge> 2 then (Inl ErrRateLimit, a, db)
      else (case login_db A (at_dummy a) username password raw1 raw2 db of
          (Inl e, db) \<Rightarrow> (Inl e, a, db)
        | (Inr r, db) \<Rightarrow> (Inr r, a\<lparr>at_attempts := fmdrop ip attempts\<rparr>, db)))"

definition Session :: "string \<Rightarrow> session sql" where
  "Session token =
     (if length token \<noteq> 64 then fail_sql ErrSession
      else bind_sql Now (\<lambda>now.
        bind_sql (query (\<lambda>t.
          case (db_user t, find (\<lambda>r. se_token r = tokenHash token \<and> se_expires r > now) (db_sessions t)) of
            (Some u, Some r) \<Rightarrow> Inr (us_name u, se_expires r)
          | _ \<Rightarrow> Inl ErrSession)) (\<lambda>(user, expires).
        case parse_time expires of
          None \<Rightarrow> fail_sql (Msg ''cannot parse time'')
        | Some t \<Rightarrow> done_sql \<lparr>ss_user = user, ss_csrf = csrf token, ss_expires = t\<rparr>)))"

definition Logout :: "string \<Rightarrow> unit sql" where
  "Logout token = exec (\<lambda>t.
     Inr ((), t\<lparr>db_sessions := filter (\<lambda>r. se_token r \<noteq> tokenHash token) (db_sessions t)\<rparr>))"

section \<open>Base64 and password hashes\<close>

lemma b64_val_char:
  assumes "v < 64"
  shows "b64_val (b64_char v) = Some v"
proof -
  have byte: "byte_of (char_of n) = n" if "n < 256" for n using that by (simp add: byte_of_def)
  consider "v < 26" | "26 \<le> v" "v < 52" | "52 \<le> v" "v < 62" | "v = 62" | "v = 63" using assms by linarith
  then show ?thesis by cases (auto simp: b64_val_def b64_char_def byte Let_def)
qed

lemma b64_char_safe: "v < 64 \<Longrightarrow> b64_char v \<noteq> CHR ''$'' \<and> b64_char v \<noteq> cr \<and> b64_char v \<noteq> nl"
proof -
  assume "v < 64"
  moreover have "b64_val (CHR ''$'') = None" "b64_val cr = None" "b64_val nl = None"
    by (simp_all add: b64_val_def byte_of_def)
  ultimately show ?thesis using b64_val_char [of v] by (metis option.distinct(1))
qed

lemma b64_parts:
  fixes a b c :: nat
  assumes "b < 256" "c < 256"
  shows "a div 4 * 4 + (a mod 4 * 16 + b div 16) div 16 = a"
    "(a mod 4 * 16 + b div 16) mod 16 * 16 + (b mod 16 * 4 + c div 64) div 4 = b"
    "(b mod 16 * 4 + c div 64) mod 4 * 64 + c mod 64 = c"
    "(a mod 4 * 16 + b div 16) mod 16 * 16 + b mod 16 = b"
proof -
  have "b div 16 < 16" "c div 64 < 4" using assms by (simp_all add: less_mult_imp_div_less)
  moreover have "(x * 16 + y) div 16 = x" "(x * 16 + y) mod 16 = y" if "y < 16" for x y :: nat using that by simp_all
  moreover have "(x * 4 + y) div 4 = x" "(x * 4 + y) mod 4 = y" if "y < 4" for x y :: nat using that by simp_all
  ultimately show "a div 4 * 4 + (a mod 4 * 16 + b div 16) div 16 = a"
    "(a mod 4 * 16 + b div 16) mod 16 * 16 + (b mod 16 * 4 + c div 64) div 4 = b"
    "(b mod 16 * 4 + c div 64) mod 4 * 64 + c mod 64 = c"
    "(a mod 4 * 16 + b div 16) mod 16 * 16 + b mod 16 = b"
    by (simp_all only: div_mult_mod_eq)
qed

lemma b64_roundtrip_bytes:
  "(\<forall>b\<in>set bs. b < 256) \<Longrightarrow> b64_bytes (b64_sextets bs) = bs"
proof (induction bs rule: b64_sextets.induct)
  case (1 a b c r)
  then have "b < 256" "c < 256" "b64_bytes (b64_sextets r) = r" by simp_all
  then show ?case by (simp only: b64_sextets.simps b64_bytes.simps b64_parts)
next
  case (2 a b)
  then show ?case using b64_parts(1) [of b 0] b64_parts(4) [of b 0] by simp
qed simp_all

lemma b64_sextets_lt: "(\<forall>b\<in>set bs. b < 256) \<Longrightarrow> v \<in> set (b64_sextets bs) \<Longrightarrow> v < 64"
  by (induction bs rule: b64_sextets.induct) auto

lemma b64_sextets_length: "length (b64_sextets bs) mod 4 \<noteq> 1"
  by (induction bs rule: b64_sextets.induct) auto

lemma b64_roundtrip: "b64_decode (b64_encode s) = Some s"
proof -
  let ?vs = "b64_sextets (map byte_of s)"
  have lt: "v < 64" if "v \<in> set ?vs" for v
    using b64_sextets_lt [OF _ that] byte_of_lt by auto
  have "filter (\<lambda>c. c \<noteq> cr \<and> c \<noteq> nl) (b64_encode s) = b64_encode s"
    using lt b64_char_safe by (auto simp: b64_encode_def filter_id_conv)
  moreover have "list_all (\<lambda>c. b64_val c \<noteq> None) (b64_encode s)"
    using lt b64_val_char by (auto simp: b64_encode_def list_all_iff)
  moreover have "map (the \<circ> b64_val) (b64_encode s) = ?vs"
    unfolding b64_encode_def map_map using lt b64_val_char by (intro map_idI) auto
  moreover have "map char_of (b64_bytes ?vs) = s"
    using byte_of_lt by (subst b64_roundtrip_bytes) (auto simp: comp_def byte_of_def)
  ultimately show ?thesis
    using b64_sextets_length [of "map byte_of s"] by (simp add: b64_decode_def b64_encode_def)
qed

lemma b64_no_dollar: "CHR ''$'' \<notin> set (b64_encode s)"
  using b64_sextets_lt [of "map byte_of s"] byte_of_lt b64_char_safe by (fastforce simp: b64_encode_def)

lemma split_at: "c \<notin> set a \<Longrightarrow> split_on c (a @ c # b) = a # split_on c b"
  by (induction a) auto

lemma kdf_params_text: "kdf_params = ''m=65536,t=3,p=2''"
  by (simp add: kdf_params_def memory_def iterations_def parallelism_def nat_dec_def digits_base.simps digit_char_def) (simp add: char_of_def bit_0)

lemma verify_hash:
  assumes "HashPassword A password (Inr salt) = Inr hash" "length salt = 16" "length (A password salt) = 32"
  shows "VerifyPassword A hash candidate \<longleftrightarrow> length candidate \<le> 1024 \<and> A candidate salt = A password salt"
proof -
  have "hash = ''$argon2id$v=19$'' @ kdf_params @ ''$'' @ b64_encode salt @ ''$'' @ b64_encode (A password salt)"
    using assms(1) by (auto simp: HashPassword_def split: if_splits)
  then have "split_on (CHR ''$'') hash =
      [[], ''argon2id'', ''v=19'', kdf_params, b64_encode salt, b64_encode (A password salt)]"
    using split_at [OF b64_no_dollar [of salt]] split_on_single [OF b64_no_dollar [of "A password salt"]]
    by (simp add: kdf_params_text)
  then show ?thesis using assms(2,3) by (simp add: VerifyPassword_def b64_roundtrip Let_def)
qed

text \<open>
  C32. A stored password hash is verified by exactly the passwords from which Argon2id derives the same key:
  hashing and verifying agree on format, parameters, salt and key.
\<close>

theorem password_hash_verifies:
  assumes "HashPassword A password (Inr salt) = Inr hash" "length salt = 16" "length (A password salt) = 32"
  shows "VerifyPassword A hash candidate \<longleftrightarrow> length candidate \<le> 1024 \<and> A candidate salt = A password salt"
  by (rule verify_hash [OF assms])

lemma password_hash_verifies_witness:
  "VerifyPassword (\<lambda>p s. replicate 32 (last p)) (''$argon2id$v=19$'' @ kdf_params @ ''$'' @ b64_encode (replicate 16 (CHR ''s''))
     @ ''$'' @ b64_encode (replicate 32 (CHR ''r''))) ''another secret for'' = True"
proof -
  have "HashPassword (\<lambda>p s. replicate 32 (last p)) ''correct horse for'' (Inr (replicate 16 (CHR ''s''))) =
      Inr (''$argon2id$v=19$'' @ kdf_params @ ''$'' @ b64_encode (replicate 16 (CHR ''s'')) @ ''$'' @ b64_encode (replicate 32 (CHR ''r'')))"
    by (simp add: HashPassword_def runes_ascii byte_of_def)
  from password_hash_verifies [OF this, of "''another secret for''"] show ?thesis by simp
qed

section \<open>The limit on attempts\<close>

definition window :: nat where "window = 15 * minute"

lemma window_positive: "0 < window" by (simp add: window_def minute_def)













definition allowed :: "(nat \<times> string) list \<Rightarrow> bool list \<Rightarrow> string \<Rightarrow> nat list" where
  "allowed calls oks key = map (fst \<circ> fst) (filter (\<lambda>(c, ok). ok \<and> snd c = key) (zip calls oks))"

lemma allowed_Nil [simp]: "allowed [] oks key = []" "allowed calls [] key = []"
  by (simp_all add: allowed_def)

lemma allowed_Cons [simp]:
  "allowed ((t, k) # calls) (ok # oks) key = (if ok \<and> key = k then [t] else []) @ allowed calls oks key"
  by (auto simp: allowed_def)


















section \<open>Sessions\<close>

lemma transaction_ok:
  "transaction m s = (Inr x, s') \<Longrightarrow> \<exists>u v. sq_tables u = sq_tables s \<and> m u = (Inr x, v) \<and> sq_tables s' = sq_tables v"
  by (auto simp: transaction_def bind_sql_def done_sql_def Let_def split: prod.splits sum.splits dest!: faulty_done)

definition row_ok :: "string \<Rightarrow> string \<Rightarrow> session_row \<Rightarrow> bool" where
  "row_ok hash expires r \<longleftrightarrow> se_token r = hash \<and> se_expires r = expires"

lemma sessions_kept:
  "does drop_expired (\<lambda>t _ t'. db_user t' = db_user t \<and> (\<exists>P. db_sessions t' = filter P (db_sessions t)))"
  "does drop_oldest (\<lambda>t _ t'. db_user t' = db_user t \<and> (well_kept t \<longrightarrow> length (db_sessions t') \<le> 19))"
  "does (insert_session i h e) (\<lambda>t _ t'. db_user t' = db_user t \<and> db_user t \<noteq> None \<and> h \<notin> se_token ` set (db_sessions t) \<and>
     (\<exists>now. db_sessions t' = db_sessions t @ [\<lparr>se_id = i, se_token = h, se_expires = e, se_created = now\<rparr>]))"
  "does stamp_login (\<lambda>t _ t'. map_option us_name (db_user t') = map_option us_name (db_user t) \<and> db_sessions t' = db_sessions t)"
proof -
  show "does drop_expired (\<lambda>t _ t'. db_user t' = db_user t \<and> (\<exists>P. db_sessions t' = filter P (db_sessions t)))"
    unfolding drop_expired_def by (rule does_now_exec) auto
  show "does (insert_session i h e) (\<lambda>t _ t'. db_user t' = db_user t \<and> db_user t \<noteq> None \<and> h \<notin> se_token ` set (db_sessions t) \<and>
     (\<exists>now. db_sessions t' = db_sessions t @ [\<lparr>se_id = i, se_token = h, se_expires = e, se_created = now\<rparr>]))"
    unfolding insert_session_def by (rule does_now_exec) (auto split: if_splits)
  show "does stamp_login (\<lambda>t _ t'. map_option us_name (db_user t') = map_option us_name (db_user t) \<and> db_sessions t' = db_sessions t)"
    unfolding stamp_login_def by (rule does_now_exec) (auto simp: option.map_comp comp_def)
  have "length (filter (\<lambda>r. se_id r \<notin> set (map se_id (drop 19 (rev (sort_key se_created rs))))) rs) \<le> 19" if "distinct (map se_id rs)" for rs
  proof -
    let ?s = "rev (sort_key se_created rs)"
    have ms: "mset ?s = mset rs" by simp
    have d: "distinct (map se_id ?s)" using that by (metis ms distinct_map mset_eq_imp_distinct_iff mset_map)
    have "length (filter (\<lambda>r. se_id r \<notin> set (map se_id (drop 19 ?s))) rs)
        = length (filter (\<lambda>r. se_id r \<notin> set (map se_id (drop 19 ?s))) ?s)"
      by (metis ms mset_filter size_mset)
    also have "filter (\<lambda>r. se_id r \<notin> set (map se_id (drop 19 ?s))) ?s
        = filter (\<lambda>r. se_id r \<notin> set (map se_id (drop 19 ?s))) (take 19 ?s @ drop 19 ?s)" by simp
    also have "\<dots> = filter (\<lambda>r. se_id r \<notin> set (map se_id (drop 19 ?s))) (take 19 ?s)"
      unfolding filter_append by (simp add: filter_empty_conv)
    also have "length \<dots> \<le> length (take 19 ?s)" by (rule length_filter_le)
    also have "\<dots> \<le> 19" by simp
    finally show ?thesis .
  qed
  then show "does drop_oldest (\<lambda>t _ t'. db_user t' = db_user t \<and> (well_kept t \<longrightarrow> length (db_sessions t') \<le> 19))"
    unfolding drop_oldest_def by (intro does_conseq [OF does_exec]) (auto simp: well_kept_def Let_def)
qed


text \<open>What a stored session is worth to \<open>Session\<close>.\<close>

lemma find_snoc: "find P (xs @ [x]) = (case find P xs of Some y \<Rightarrow> Some y | None \<Rightarrow> if P x then Some x else None)"
  by (induction xs) auto

lemma Session_quiet:
  assumes "length token = 64" "sq_faults db = []" "db_user (sq_tables db) = Some u"
    and "db_sessions (sq_tables db) = rs @ [r]" "tokenHash token \<notin> se_token ` set rs" "se_token r = tokenHash token"
    and "se_expires r = time_text e" "e < year_limit" "sq_clock db (sq_tick db) < year_limit"
  shows "fst (Session token db) = (if sq_clock db (sq_tick db) < e
    then Inr \<lparr>ss_user = us_name u, ss_csrf = csrf token, ss_expires = int e\<rparr> else Inl ErrSession)"
proof -
  let ?now = "sq_clock db (sq_tick db)"
  have none: "find (\<lambda>r. se_token r = tokenHash token \<and> se_expires r > time_text ?now) rs = None"
    using assms(5) by (auto simp: find_None_iff image_iff)
  have lt: "time_text e > time_text ?now \<longleftrightarrow> ?now < e"
    using time_text_less assms(8,9) by (metis less_asym linorder_neqE_nat)
  show ?thesis
    using assms parse_time_text [OF assms(8)]
    by (auto simp: Session_def bind_sql_def Now_def clock_def done_sql_def fail_sql_def query_def faulty_def find_snoc none lt)
qed

lemma login_cases:
  assumes "login_db A dummy username password raw1 raw2 db = (Inr (token, s), db')"
  obtains u i db1 where "db_user (sq_tables db) = Some u" "us_name u = username"
    "VerifyPassword A (if us_hash u = [] then dummy else us_hash u) password"
    "randomToken raw1 = Inr token" "randomToken raw2 = Inr i"
    "sq_tables db1 = sq_tables db" "sq_clock db1 = sq_clock db" "login_session token i username db1 = (Inr (token, s), db')"
proof -
  have q: "query f db = (Inr x, d) \<Longrightarrow> f (sq_tables db) = Inr x \<and> sq_tables d = sq_tables db \<and> sq_clock d = sq_clock db"
    for f and x :: "user_row option" and d
    by (auto simp: query_def faulty_def split: list.splits bool.splits)
  show ?thesis
    using assms that
    by (auto simp: login_db_def bind_sql_def Let_def fail_sql_def lift_sql_def login_session_def done_sql_def clock_def
        split: prod.splits sum.splits if_splits option.splits dest!: q)
qed


text \<open>What the transaction of a login leaves.\<close>

lemma login_session_ok:
  assumes "login_session token i user db = (Inr (tok, s), db')" "well_kept (sq_tables db)"
  shows "tok = token" "s = \<lparr>ss_user = user, ss_csrf = csrf token, ss_expires = int (sq_clock db (sq_tick db) + 12 * 60 * minute)\<rparr>"
    "map_option us_name (db_user (sq_tables db')) = map_option us_name (db_user (sq_tables db))"
    "\<exists>rs r. db_sessions (sq_tables db') = rs @ [r] \<and> length rs \<le> 19 \<and> tokenHash token \<notin> se_token ` set rs \<and>
       se_token r = tokenHash token \<and> se_expires r = time_text (sq_clock db (sq_tick db) + 12 * 60 * minute)"
proof -
  let ?e = "sq_clock db (sq_tick db) + 12 * 60 * minute"
  let ?body = "then_sql drop_expired (then_sql drop_oldest (then_sql (insert_session i (tokenHash token) (time_text ?e)) stamp_login))"
  let ?db = "db\<lparr>sq_tick := Suc (sq_tick db)\<rparr>"
  obtain v where v: "transaction ?body ?db = (Inr (), v)"
    and res: "tok = token" "s = \<lparr>ss_user = user, ss_csrf = csrf token, ss_expires = int ?e\<rparr>" "db' = v"
    using assms(1) by (auto simp: login_session_def bind_sql_def clock_def done_sql_def Let_def split: prod.splits sum.splits)
  show "tok = token" "s = \<lparr>ss_user = user, ss_csrf = csrf token, ss_expires = int ?e\<rparr>" by (fact res)+
  have keep: "does drop_expired (\<lambda>t _ t'. well_kept t \<longrightarrow> well_kept t')"
    unfolding drop_expired_def
    by (rule does_now_exec) (auto simp: well_kept_def distinct_map intro: inj_on_subset filter_is_subset)
  have "does drop_expired (\<lambda>t _ t'. db_user t' = db_user t \<and> (well_kept t \<longrightarrow> well_kept t'))"
    using sessions_kept(1) keep by (auto simp: does_def)
  from does_bind [OF this does_bind [OF sessions_kept(2) does_bind [OF sessions_kept(3) sessions_kept(4)]]]
  have "does ?body (\<lambda>t _ t'. map_option us_name (db_user t') = map_option us_name (db_user t) \<and> (well_kept t \<longrightarrow>
      (\<exists>rs r. db_sessions t' = rs @ [r] \<and> length rs \<le> 19 \<and> tokenHash token \<notin> se_token ` set rs \<and>
       se_token r = tokenHash token \<and> se_expires r = time_text ?e)))"
    by (rule does_conseq) fastforce
  from doesD [OF does_transaction [OF this] v] assms(2)
  show "map_option us_name (db_user (sq_tables db')) = map_option us_name (db_user (sq_tables db))"
    "\<exists>rs r. db_sessions (sq_tables db') = rs @ [r] \<and> length rs \<le> 19 \<and> tokenHash token \<notin> se_token ` set rs \<and>
       se_token r = tokenHash token \<and> se_expires r = time_text ?e"
    by (simp_all add: res)
qed

lemma length_tokens: "randomToken (Inr b) = Inr token \<Longrightarrow> length b = 32 \<Longrightarrow> length token = 64"
  by (auto simp: randomToken_def)

lemma Session_gone:
  assumes "sq_faults db = []" "\<And>r. r \<in> set (db_sessions (sq_tables db)) \<Longrightarrow> se_token r \<noteq> tokenHash token"
  shows "fst (Session token db) = Inl ErrSession"
proof -
  have "find (\<lambda>r. se_token r = tokenHash token \<and> se_expires r > e) (db_sessions (sq_tables db)) = None" for e
    using assms(2) by (auto simp: find_None_iff)
  then show ?thesis
    using assms(1)
    by (auto simp: Session_def bind_sql_def Now_def clock_def done_sql_def fail_sql_def query_def faulty_def split: option.splits)
qed

text \<open>
  C29. A login succeeds only for the stored administrator with a password that verifies. It leaves at most
  20 sessions, and its token then gives back exactly the session it returned, at every time before
  the session expires, and \<open>ErrSession\<close> from then on, as after a logout.
\<close>

theorem login_gives_session:
  assumes "Login A ip username password (Inr b) raw a db = (Inr (token, s), a', db')" "length b = 32"
    and "well_kept (sq_tables db)" "\<And>i. sq_clock db i + 12 * 60 * minute < year_limit"
  shows "(\<exists>u. db_user (sq_tables db) = Some u \<and> us_name u = username \<and>
      VerifyPassword A (if us_hash u = [] then at_dummy a else us_hash u) password) \<and>
    length (db_sessions (sq_tables db')) \<le> 20 \<and>
    (\<forall>t < year_limit. fst (Session token (db'\<lparr>sq_faults := [], sq_clock := \<lambda>_. t\<rparr>)) =
       (if int t < ss_expires s then Inr s else Inl ErrSession)) \<and>
    fst (Session token (snd (Logout token (db'\<lparr>sq_faults := []\<rparr>)))) = Inl ErrSession"
proof -
  let ?db = "db\<lparr>sq_tick := Suc (sq_tick db)\<rparr>"
  have "login_db A (at_dummy a) username password (Inr b) raw ?db = (Inr (token, s), db')"
    using assms(1) by (auto simp: Login_def Let_def split: prod.splits sum.splits if_splits)
  then obtain u i db1 where u: "db_user (sq_tables ?db) = Some u" "us_name u = username"
      "VerifyPassword A (if us_hash u = [] then at_dummy a else us_hash u) password"
      "randomToken (Inr b) = Inr token" "sq_tables db1 = sq_tables ?db" "sq_clock db1 = sq_clock ?db"
      "login_session token i username db1 = (Inr (token, s), db')"
    by (rule login_cases)
  have "well_kept (sq_tables db1)" using assms(3) u(5) by simp
  note out = login_session_ok [OF u(7) this]
  let ?e = "sq_clock db1 (sq_tick db1) + 12 * 60 * minute"
  obtain rs r where rows: "db_sessions (sq_tables db') = rs @ [r]" "length rs \<le> 19" "tokenHash token \<notin> se_token ` set rs"
      "se_token r = tokenHash token" "se_expires r = time_text ?e"
    using out(4) by blast
  have e: "?e < year_limit" using assms(4) [of "sq_tick db1"] u(6) by simp
  have "map_option us_name (db_user (sq_tables db')) = Some username" using out(3) u(1,2,5) by simp
  then obtain u' where u': "db_user (sq_tables db') = Some u'" "us_name u' = username" by auto
  have "fst (Session token (db'\<lparr>sq_faults := [], sq_clock := \<lambda>_. t\<rparr>)) = (if int t < ss_expires s then Inr s else Inl ErrSession)"
    if "t < year_limit" for t
    using Session_quiet [OF length_tokens [OF u(4) assms(2)], of "db'\<lparr>sq_faults := [], sq_clock := \<lambda>_. t\<rparr>" u' rs r ?e]
      u' rows e that out(2) by simp
  moreover have "fst (Session token (snd (Logout token (db'\<lparr>sq_faults := []\<rparr>)))) = Inl ErrSession"
    by (rule Session_gone) (auto simp: Logout_def exec_def faulty_def)
  moreover have "length (db_sessions (sq_tables db')) \<le> 20" using rows by simp
  ultimately show ?thesis using u(1-3) by auto
qed

lemma atomic_login_db: "atomic (login_db A d u p r1 r2)"
proof -
  have "reads (lift_sql r)" for r :: "string result" by (simp add: reads_def lift_sql_def)
  moreover have "atomic (login_session t i n)" for t i n
    unfolding login_session_def Let_def
    by (intro atomic_bind [OF reads_basic(3)] atomic_done atomic_transaction)
  ultimately show ?thesis
    unfolding login_db_def Let_def
    by (intro atomic_bind reads_basic) (auto intro!: atomic_bind atomic_basic)
qed

text \<open>
  C30. A login that is refused, for the limit, the credentials or any failure of the database at any of
  its statements, changes nothing in the database; wrong credentials are answered with the one
  message that does not tell the name from the password.
\<close>

theorem refused_login:
  assumes "Login A ip username password raw1 raw2 a db = (Inl e, a', db')"
  shows "sq_tables db' = sq_tables db \<and>
    (sq_faults db = [] \<and> fst (allow (sq_clock db (sq_tick db)) ip (at_attempts a)) \<and> at_verify a < 2 \<and>
     (\<forall>u. db_user (sq_tables db) = Some u \<longrightarrow> us_name u \<noteq> username \<or>
        \<not> VerifyPassword A (if us_hash u = [] then at_dummy a else us_hash u) password) \<longrightarrow> e = ErrCredentials)"
proof -
  let ?db = "db\<lparr>sq_tick := Suc (sq_tick db)\<rparr>"
  from atomicD [OF atomic_login_db] have "sq_tables db' = sq_tables db"
    using assms by (auto simp: Login_def Let_def split: prod.splits sum.splits if_splits)
  moreover have "e = ErrCredentials" if "sq_faults db = []"
      "fst (allow (sq_clock db (sq_tick db)) ip (at_attempts a))" "at_verify a < 2"
      "\<forall>u. db_user (sq_tables db) = Some u \<longrightarrow> us_name u \<noteq> username \<or>
        \<not> VerifyPassword A (if us_hash u = [] then at_dummy a else us_hash u) password"
  proof -
    have "fst (login_db A (at_dummy a) username password raw1 raw2 ?db) = Inl ErrCredentials"
      using that(1,4)
      by (cases "db_user (sq_tables db)") (auto simp: login_db_def bind_sql_def query_def faulty_def Let_def fail_sql_def)
    then show ?thesis using assms that(2,3) by (auto simp: Login_def Let_def split: prod.splits sum.splits if_splits)
  qed
  ultimately show ?thesis by blast
qed

definition sample_kdf :: kdf where
  "sample_kdf = (\<lambda>p s. replicate 32 (last p))"

definition sample_account :: tables where
  "sample_account = empty_tables\<lparr>db_user := Some \<lparr>us_name = ''admin'', us_hash = [], us_created = [], us_login = None\<rparr>\<rparr>"

definition sample_dummy :: string where
  "sample_dummy = ''$argon2id$v=19$'' @ kdf_params @ ''$'' @ b64_encode (replicate 16 (CHR ''s'')) @ ''$'' @ b64_encode (replicate 32 (CHR ''r''))"

definition sample_auth :: auth where
  "sample_auth = \<lparr>at_attempts = fmempty, at_verify = 0, at_dummy = sample_dummy\<rparr>"


lemma sample_verify: "VerifyPassword sample_kdf sample_dummy p \<longleftrightarrow> length p \<le> 1024 \<and> last p = CHR ''r''"
proof -
  have "HashPassword sample_kdf ''correct horse for'' (Inr (replicate 16 (CHR ''s''))) = Inr sample_dummy"
    by (simp add: HashPassword_def runes_ascii byte_of_def sample_kdf_def sample_dummy_def)
  from verify_hash [OF this] show ?thesis by (simp add: sample_kdf_def)
qed

lemma sample_account_kept: "well_kept sample_account"
  by (simp add: sample_account_def well_kept_def empty_tables_def)

lemma sample_login:
  "\<exists>token s a' db'. Login sample_kdf ''10.0.0.1'' ''admin'' ''another secret for'' (Inr (replicate 32 (CHR ''x''))) (Inr [])
     sample_auth ((sample_db [] sample_account)\<lparr>sq_clock := \<lambda>_. 3\<rparr>) = (Inr (token, s), a', db')"
  by (simp add: Login_def Let_def sample_auth_def sample_db_def allow_def login_db_def bind_sql_def query_def faulty_def
      sample_account_def empty_tables_def sample_verify lift_sql_def randomToken_def login_session_def clock_def transaction_def
      done_sql_def drop_expired_def drop_oldest_def insert_session_def stamp_login_def Now_def exec_def fcard.rep_eq)

lemma login_gives_session_witness:
  "\<exists>token s db'. length (db_sessions (sq_tables db')) \<le> 20 \<and>
     fst (Session token (snd (Logout token (db'\<lparr>sq_faults := []\<rparr>)))) = Inl ErrSession \<and>
     fst (Session token (db'\<lparr>sq_faults := [], sq_clock := \<lambda>_. 5\<rparr>)) = (if 5 < ss_expires s then Inr s else Inl ErrSession)"
proof -
  obtain token s a' db' where run: "Login sample_kdf ''10.0.0.1'' ''admin'' ''another secret for'' (Inr (replicate 32 (CHR ''x''))) (Inr [])
     sample_auth ((sample_db [] sample_account)\<lparr>sq_clock := \<lambda>_. 3\<rparr>) = (Inr (token, s), a', db')"
    using sample_login by blast
  have "length (replicate 32 (CHR ''x'')) = 32" "well_kept (sq_tables ((sample_db [] sample_account)\<lparr>sq_clock := \<lambda>_. 3\<rparr>))"
    by (simp_all add: sample_account_kept)
  from login_gives_session [OF run this] show ?thesis
    by (intro exI [of _ token] exI [of _ s] exI [of _ db']) (auto simp: sample_db_def minute_def year_limit_def)
qed

lemma refused_login_witness:
  "\<exists>e a' db'. Login sample_kdf ''10.0.0.1'' ''admin'' ''a wrong password'' (Inr []) (Inr []) sample_auth (sample_db [] sample_account) =
     (Inl e, a', db') \<and> sq_tables db' = sample_account \<and> e = ErrCredentials"
proof -
  obtain e a' db' where run: "Login sample_kdf ''10.0.0.1'' ''admin'' ''a wrong password'' (Inr []) (Inr []) sample_auth
      (sample_db [] sample_account) = (Inl e, a', db')"
    by (simp add: Login_def Let_def sample_auth_def sample_db_def allow_def login_db_def bind_sql_def query_def faulty_def
      sample_account_def empty_tables_def sample_verify fail_sql_def fcard.rep_eq)
  from refused_login [OF run] have "sq_tables db' = sample_account \<and> e = ErrCredentials"
    by (simp add: sample_db_def sample_auth_def allow_def Let_def sample_account_def sample_verify fcard.rep_eq)
  with run show ?thesis by blast
qed

end
