(* ===== verification/Discovery.thy ===== *)
theory Discovery
  imports Image
begin

text \<open>
  The cache of discovered services (\<open>internal/avahi/browser.go\<close>) and the browse loop that fills it
  from Avahi's signals. A subscriber's channel has room for one state. D-Bus is the environment: an
  event of the loop carries the signal or the result of a resolution, and what the call for a
  new browser would return. The eight workers are the environment too: they take requests from
  the queue in its order and give results back in any order, or never.
\<close>

section \<open>Services\<close>

record identity =
  id_interface :: "32 word"
  id_protocol :: "32 word"
  id_name :: string
  id_type :: string
  id_domain :: string

definition Key :: "identity \<Rightarrow> string" where
  "Key i = int_dec (sint (id_interface i)) @ [nul] @ int_dec (sint (id_protocol i)) @ [nul] @ id_name i @ [nul]
     @ id_type i @ [nul] @ id_domain i"

text \<open>A time that is \<open>None\<close> is the zero \<open>time.Time\<close>.\<close>

record avahi_service =
  sv_identity :: identity
  sv_host :: string
  sv_addr_protocol :: "32 word"
  sv_address :: string
  sv_port :: "16 word"
  sv_txt :: "string list"
  sv_flags :: "32 word"
  sv_first :: "nat option"
  sv_last :: "nat option"
  sv_error :: string

definition bare_service :: "identity \<Rightarrow> avahi_service" where
  "bare_service i = \<lparr>sv_identity = i, sv_host = [], sv_addr_protocol = 0, sv_address = [], sv_port = 0, sv_txt = [],
     sv_flags = 0, sv_first = None, sv_last = None, sv_error = []\<rparr>"

section \<open>The cache\<close>

record discovery_state =
  ds_services :: "avahi_service list"
  ds_connected :: bool
  ds_error :: string

text \<open>\<open>dc_subs\<close> maps a channel to its content.\<close>

record discovery =
  dc_services :: "(string, avahi_service) fmap"
  dc_connected :: bool
  dc_err :: string
  dc_subs :: "(nat, discovery_state option) fmap"

definition NewDiscovery :: discovery where
  "NewDiscovery = \<lparr>dc_services = fmempty, dc_connected = False, dc_err = [], dc_subs = fmempty\<rparr>"

definition service_key :: "avahi_service \<Rightarrow> string" where
  "service_key s = Key (sv_identity s)"

definition discovery_view :: "discovery \<Rightarrow> discovery_state" where
  "discovery_view d = \<lparr>ds_services = sort_key service_key (map (the \<circ> fmlookup (dc_services d)) (sorted_keys (dc_services d))),
     ds_connected = dc_connected d, ds_error = dc_err d\<rparr>"

definition Subscribe :: "nat \<Rightarrow> discovery \<Rightarrow> discovery" where
  "Subscribe ch d = d\<lparr>dc_subs := fmupd ch (Some (discovery_view d)) (dc_subs d)\<rparr>"

definition Unsubscribe :: "nat \<Rightarrow> discovery \<Rightarrow> discovery" where
  "Unsubscribe ch d = d\<lparr>dc_subs := fmdrop ch (dc_subs d)\<rparr>"

text \<open>A send that does not wait; when the channel is full, \<open>notify\<close> takes the old state out and sends again.\<close>

definition try_send :: "'a \<Rightarrow> 'a option \<Rightarrow> bool \<times> 'a option" where
  "try_send s content = (case content of None \<Rightarrow> (True, Some s) | Some old \<Rightarrow> (False, content))"

definition offer :: "'a \<Rightarrow> 'a option \<Rightarrow> 'a option" where
  "offer s content =
     (case try_send s content of
        (True, content) \<Rightarrow> content
      | (False, content) \<Rightarrow> snd (try_send s None))"

definition notify :: "discovery \<Rightarrow> discovery" where
  "notify d = d\<lparr>dc_subs := fmmap (offer (discovery_view d)) (dc_subs d)\<rparr>"

definition reset :: "bool \<Rightarrow> string option \<Rightarrow> discovery \<Rightarrow> discovery" where
  "reset connected err d =
     notify (d\<lparr>dc_services := fmempty, dc_connected := connected, dc_err := (case err of None \<Rightarrow> [] | Some e \<Rightarrow> e)\<rparr>)"

definition upsert :: "nat \<Rightarrow> avahi_service \<Rightarrow> discovery \<Rightarrow> discovery" where
  "upsert time s d =
     (let s = (case fmlookup (dc_services d) (service_key s) of
                Some old \<Rightarrow> s\<lparr>sv_first := sv_first old\<rparr>
              | None \<Rightarrow> if sv_first s = None then s\<lparr>sv_first := Some time\<rparr> else s);
          s = s\<lparr>sv_last := Some time\<rparr> in
      notify (d\<lparr>dc_services := fmupd (service_key s) s (dc_services d)\<rparr>))"

definition remove :: "identity \<Rightarrow> discovery \<Rightarrow> discovery" where
  "remove i d = notify (d\<lparr>dc_services := fmdrop (Key i) (dc_services d)\<rparr>)"

section \<open>The browse loop\<close>

text \<open>\<open>sg_text\<close> is the body as \<open>fmt\<close> prints it.\<close>

datatype signal_body =
    TypeBody string string
  | ItemBody identity "32 word"
  | OtherBody

record signal =
  sg_name :: string
  sg_path :: string
  sg_body :: signal_body
  sg_text :: string

record resolve_request =
  rr_identity :: identity
  rr_generation :: "64 word"

text \<open>\<open>br_jobs\<close> is the content of the queue, \<open>br_running\<close> what the workers have taken.\<close>

record browse =
  br_objects :: "(string, string) fmap"
  br_types :: "(string, string) fmap"
  br_generations :: "(string, 64 word) fmap"
  br_generation :: "64 word"
  br_jobs :: "resolve_request list"
  br_running :: "resolve_request list"

definition Destination :: string where
  "Destination = ''org.freedesktop.Avahi''"

datatype flow =
    Continue browse discovery
  | Stop string discovery

datatype event =
    Cancelled
  | Disconnected
  | StreamClosed
  | NoSignal
  | Take
  | Result nat resolve_request "avahi_service + string"
  | Signal nat signal "string + string"

definition on_result :: "nat \<Rightarrow> resolve_request \<Rightarrow> avahi_service + string \<Rightarrow> browse \<Rightarrow> discovery \<Rightarrow> flow" where
  "on_result time req r b d =
     (if fm_get 0 (br_generations b) (Key (rr_identity req)) \<noteq> rr_generation req then Continue b d
      else (let s = (case r of Inl s \<Rightarrow> s | Inr e \<Rightarrow> (bare_service (rr_identity req))\<lparr>sv_error := e\<rparr>) in
        Continue b (upsert time s d)))"

definition on_type :: "string \<Rightarrow> string \<Rightarrow> string + string \<Rightarrow> browse \<Rightarrow> discovery \<Rightarrow> flow" where
  "on_type typ domain reply b d =
     (let key = typ @ [nul] @ domain in
      if key |\<in>| fmdom (br_types b) then Continue b d
      else if fcard (fmdom (br_types b)) \<ge> 256 then Stop ''service type limit exceeded'' d
      else (case reply of
          Inr e \<Rightarrow> Stop e d
        | Inl p \<Rightarrow> Continue (b\<lparr>br_types := fmupd key p (br_types b),
            br_objects := fmupd p (Destination @ ''.ServiceBrowser'') (br_objects b)\<rparr>) d))"

definition on_item :: "nat \<Rightarrow> bool \<Rightarrow> identity \<Rightarrow> 32 word \<Rightarrow> browse \<Rightarrow> discovery \<Rightarrow> flow" where
  "on_item time removed i flags b d =
     (if removed then
        Continue (b\<lparr>br_generations := fmdrop (Key i) (br_generations b)\<rparr>) (remove i d)
      else if fcard (fmdom (br_generations b)) \<ge> 4096 then Stop ''discovered service limit exceeded'' d
      else (let g = br_generation b + 1;
                b = b\<lparr>br_generation := g, br_generations := fmupd (Key i) g (br_generations b)\<rparr>;
                d = upsert time ((bare_service i)\<lparr>sv_flags := flags\<rparr>) d in
        if length (br_jobs b) < 512
        then Continue (b\<lparr>br_jobs := br_jobs b @ [\<lparr>rr_identity = i, rr_generation = g\<rparr>]\<rparr>) d
        else Stop ''service resolution queue full'' d))"

definition on_signal :: "nat \<Rightarrow> signal \<Rightarrow> string + string \<Rightarrow> browse \<Rightarrow> discovery \<Rightarrow> flow" where
  "on_signal time sig reply b d =
     (if sg_name sig = ''org.freedesktop.DBus.NameOwnerChanged'' then Stop ''Avahi owner changed; reconnecting'' d
      else if sg_path sig |\<notin>| fmdom (br_objects b) then Continue b d
      else if suffix ''.Failure'' (sg_name sig) then Stop (''Avahi browser failure: '' @ sg_text sig) d
      else if sg_name sig = Destination @ ''.ServiceTypeBrowser.ItemNew'' then
        (case sg_body sig of TypeBody typ domain \<Rightarrow> on_type typ domain reply b d | _ \<Rightarrow> Stop ''dbus.Store: type mismatch'' d)
      else if sg_name sig = Destination @ ''.ServiceBrowser.ItemNew''
          \<or> sg_name sig = Destination @ ''.ServiceBrowser.ItemRemove'' then
        (case sg_body sig of ItemBody i flags \<Rightarrow> on_item time (suffix ''.ItemRemove'' (sg_name sig)) i flags b d
         | _ \<Rightarrow> Stop ''dbus.Store: type mismatch'' d)
      else Continue b d)"

definition browse_step :: "event \<Rightarrow> browse \<Rightarrow> discovery \<Rightarrow> flow" where
  "browse_step ev b d =
     (case ev of
        Cancelled \<Rightarrow> Stop ''context canceled'' d
      | Disconnected \<Rightarrow> Stop ''system D-Bus disconnected'' d
      | StreamClosed \<Rightarrow> Stop ''D-Bus signal stream closed'' d
      | NoSignal \<Rightarrow> Continue b d
      | Take \<Rightarrow> (case br_jobs b of [] \<Rightarrow> Continue b d
          | req # jobs \<Rightarrow> Continue (b\<lparr>br_jobs := jobs, br_running := req # br_running b\<rparr>) d)
      | Result time req r \<Rightarrow> on_result time req r (b\<lparr>br_running := remove1 req (br_running b)\<rparr>) d
      | Signal time sig reply \<Rightarrow> on_signal time sig reply b d)"

text \<open>The start of \<open>browse\<close>: the matches, the browser for service types, and the fresh cache.\<close>

definition browse_start :: "(unit + string) list \<Rightarrow> string + string \<Rightarrow> discovery \<Rightarrow> flow" where
  "browse_start matches root d =
     (case find (\<lambda>m. \<not> isl m) matches of
        Some (Inr e) \<Rightarrow> Stop e d
      | _ \<Rightarrow> (case root of
          Inr e \<Rightarrow> Stop e d
        | Inl p \<Rightarrow> Continue \<lparr>br_objects = fmupd p (Destination @ ''.ServiceTypeBrowser'') fmempty, br_types = fmempty,
            br_generations = fmempty, br_generation = 0, br_jobs = [], br_running = []\<rparr> (reset True None d)))"

fun browse_loop :: "event list \<Rightarrow> flow \<Rightarrow> flow" where
  "browse_loop (ev # evs) (Continue b d) = browse_loop evs (browse_step ev b d)"
| "browse_loop evs fl = fl"

text \<open>\<open>Run\<close>: connect, browse until it fails, reset, and again unless the context is done.\<close>

record connection =
  cn_connect :: "string option"
  cn_matches :: "(unit + string) list"
  cn_root :: "string + string"
  cn_events :: "event list"
  cn_done :: bool

definition run_once :: "connection \<Rightarrow> discovery \<Rightarrow> discovery" where
  "run_once c d =
     (case cn_connect c of
        Some e \<Rightarrow> if cn_done c then d else reset False (Some e) d
      | None \<Rightarrow> (case browse_loop (cn_events c) (browse_start (cn_matches c) (cn_root c) d) of
          Continue b d \<Rightarrow> d
        | Stop e d \<Rightarrow> if cn_done c then d else reset False (Some e) d))"

section \<open>Keys\<close>

text \<open>
  Two services have the same key only if they are the same: interface, protocol, name, type and
  domain, as the strings of D-Bus hold no NUL.
\<close>

theorem key_injective:
  assumes "\<forall>s\<in>{id_name i, id_type i, id_domain i, id_name j, id_type j, id_domain j}. nul \<notin> set s"
  shows "Key i = Key j \<longleftrightarrow> i = j"
proof -
  have n: "nul \<notin> set (int_dec k)" for k
    using int_dec_chars [of nul k] by (auto simp: is_digit_def byte_of_def)
  show ?thesis
    using assms by (auto simp: Key_def append_stop_eq [OF n n] append_stop_eq int_dec_inj signed_word_eqI intro!: identity.equality)
qed

lemma key_injective_witness:
  "Key \<lparr>id_interface = 1, id_protocol = - 1, id_name = ''a'', id_type = ''_http._tcp'', id_domain = ''local''\<rparr> \<noteq>
   Key \<lparr>id_interface = 1, id_protocol = - 1, id_name = ''b'', id_type = ''_http._tcp'', id_domain = ''local''\<rparr>"
  by (subst key_injective) simp_all

section \<open>Subscribers\<close>

text \<open>
  The cache with what each subscriber has received last. Any operation of the cache may
  happen next, and any subscriber may take the state out of its channel.
\<close>

record watched =
  wt_cache :: discovery
  wt_seen :: "nat \<Rightarrow> discovery_state option"

inductive cache_step :: "watched \<Rightarrow> watched \<Rightarrow> bool" where
  subscribe: "ch |\<notin>| fmdom (dc_subs (wt_cache w)) \<Longrightarrow>
     cache_step w (w\<lparr>wt_cache := Subscribe ch (wt_cache w), wt_seen := (wt_seen w)(ch := None)\<rparr>)"
| unsubscribe: "cache_step w (w\<lparr>wt_cache := Unsubscribe ch (wt_cache w)\<rparr>)"
| reset: "cache_step w (w\<lparr>wt_cache := reset connected err (wt_cache w)\<rparr>)"
| upsert: "cache_step w (w\<lparr>wt_cache := upsert time s (wt_cache w)\<rparr>)"
| remove: "cache_step w (w\<lparr>wt_cache := remove i (wt_cache w)\<rparr>)"
| receive: "fmlookup (dc_subs (wt_cache w)) ch = Some (Some s) \<Longrightarrow>
     cache_step w (w\<lparr>wt_cache := (wt_cache w)\<lparr>dc_subs := fmupd ch None (dc_subs (wt_cache w))\<rparr>,
       wt_seen := (wt_seen w)(ch := Some s)\<rparr>)"

definition up_to_date :: "watched \<Rightarrow> bool" where
  "up_to_date w \<longleftrightarrow>
     (\<forall>ch s. fmlookup (dc_subs (wt_cache w)) ch = Some (Some s) \<longrightarrow> s = discovery_view (wt_cache w)) \<and>
     (\<forall>ch. fmlookup (dc_subs (wt_cache w)) ch = Some None \<longrightarrow> wt_seen w ch = Some (discovery_view (wt_cache w)))"

lemma view_subs [simp]: "discovery_view (d\<lparr>dc_subs := m\<rparr>) = discovery_view d"
  by (simp add: discovery_view_def)

lemma view_notify [simp]: "discovery_view (notify d) = discovery_view d"
  by (simp add: notify_def)

lemma offer_some [simp]: "offer s c = Some s"
  by (simp add: offer_def try_send_def split: option.split)

lemma notify_up_to_date: "up_to_date \<lparr>wt_cache = notify d, wt_seen = f\<rparr>"
  by (auto simp: up_to_date_def) (auto simp: notify_def)

lemma up_to_date_step:
  assumes "cache_step w w'" "up_to_date w"
  shows "up_to_date w'"
  using assms
proof cases
  case (reset c e)
  then show ?thesis using notify_up_to_date by (cases w) (simp add: reset_def)
next
  case (upsert time s)
  then show ?thesis using notify_up_to_date by (cases w) (simp add: upsert_def Let_def)
next
  case (remove i)
  then show ?thesis using notify_up_to_date by (cases w) (simp add: remove_def)
next
  case (receive ch s)
  then have "s = discovery_view (wt_cache w)" using assms(2) by (auto simp: up_to_date_def)
  then show ?thesis using assms(2) receive(1) by (simp add: up_to_date_def)
qed (auto simp: up_to_date_def Subscribe_def Unsubscribe_def split: if_splits)

text \<open>
  C34. A slow browser is never left behind: whatever the cache does and whenever the subscribers
  read, a subscriber whose channel is empty has received the present state, and what waits in a
  channel is the present state; so reading once always gives the present.
\<close>

theorem subscribers_up_to_date:
  assumes "cache_step\<^sup>*\<^sup>* \<lparr>wt_cache = NewDiscovery, wt_seen = (\<lambda>_. None)\<rparr> w"
    and "fmlookup (dc_subs (wt_cache w)) ch = Some content"
  shows "content = Some (discovery_view (wt_cache w)) \<or>
    content = None \<and> wt_seen w ch = Some (discovery_view (wt_cache w))"
proof -
  have "up_to_date w"
    using assms(1)
  proof (induction rule: rtranclp_induct)
    case base
    show ?case by (simp add: up_to_date_def NewDiscovery_def)
  qed (rule up_to_date_step)
  then show ?thesis using assms(2) unfolding up_to_date_def by (cases content) blast+
qed

lemma subscribers_up_to_date_witness:
  "\<exists>w :: watched. fmlookup (dc_subs (wt_cache w)) 0 = Some None \<and> wt_seen w 0 = Some (discovery_view (wt_cache w))"
proof -
  define w0 where "w0 = \<lparr>wt_cache = NewDiscovery, wt_seen = (\<lambda>_. None)\<rparr>"
  define w1 where "w1 = w0\<lparr>wt_cache := Subscribe 0 (wt_cache w0), wt_seen := (wt_seen w0)(0 := None)\<rparr>"
  define w2 where "w2 = w1\<lparr>wt_cache := reset True None (wt_cache w1)\<rparr>"
  define s where "s = discovery_view (wt_cache w2)"
  define w3 where "w3 = w2\<lparr>wt_cache := (wt_cache w2)\<lparr>dc_subs := fmupd 0 None (dc_subs (wt_cache w2))\<rparr>,
    wt_seen := (wt_seen w2)(0 := Some s)\<rparr>"
  have "cache_step w0 w1" unfolding w1_def by (rule cache_step.subscribe) (simp add: w0_def NewDiscovery_def)
  moreover have "cache_step w1 w2" unfolding w2_def by (rule cache_step.reset)
  moreover have "fmlookup (dc_subs (wt_cache w2)) 0 = Some (Some s)"
    by (simp add: s_def w2_def w1_def reset_def notify_def Subscribe_def discovery_view_def)
  then have "cache_step w2 w3" unfolding w3_def by (rule cache_step.receive)
  ultimately have "cache_step\<^sup>*\<^sup>* w0 w3" by (meson rtranclp.rtrancl_into_rtrancl rtranclp.rtrancl_refl)
  from subscribers_up_to_date [OF this [unfolded w0_def], of 0 None]
  have "fmlookup (dc_subs (wt_cache w3)) 0 = Some None \<Longrightarrow> wt_seen w3 0 = Some (discovery_view (wt_cache w3))" by simp
  moreover have "fmlookup (dc_subs (wt_cache w3)) 0 = Some None" by (simp add: w3_def)
  ultimately show ?thesis by blast
qed

section \<open>The browse loop\<close>

definition announce :: "event \<Rightarrow> browse \<Rightarrow> string set \<Rightarrow> string set" where
  "announce ev b A =
     (case ev of
        Signal time sig reply \<Rightarrow>
          (if sg_path sig |\<in>| fmdom (br_objects b) then
            (case sg_body sig of
               ItemBody i flags \<Rightarrow>
                 if sg_name sig = Destination @ ''.ServiceBrowser.ItemNew'' then insert (Key i) A
                 else if sg_name sig = Destination @ ''.ServiceBrowser.ItemRemove'' then A - {Key i} else A
             | _ \<Rightarrow> A)
           else A)
      | _ \<Rightarrow> A)"

text \<open>
  The environment gives results only of requests that a worker has taken, and of the service that
  was asked for; a session sees fewer than \<open>2 ^ 64\<close> announcements.
\<close>

definition environment :: "event \<Rightarrow> browse \<Rightarrow> bool" where
  "environment ev b \<longleftrightarrow> unat (br_generation b) < 2 ^ 64 - 1 \<and>
     (case ev of Result time req r \<Rightarrow> req \<in> set (br_running b) \<and> (\<forall>s. r = Inl s \<longrightarrow> sv_identity s = rr_identity req)
      | _ \<Rightarrow> True)"

inductive browsing :: "string set \<Rightarrow> browse \<Rightarrow> discovery \<Rightarrow> bool" where
  start: "browse_start matches root d = Continue b d' \<Longrightarrow> browsing {} b d'"
| step: "browsing A b d \<Longrightarrow> environment ev b \<Longrightarrow> browse_step ev b d = Continue b' d' \<Longrightarrow> browsing (announce ev b A) b' d'"

definition tracks :: "string set \<Rightarrow> browse \<Rightarrow> discovery \<Rightarrow> bool" where
  "tracks A b d \<longleftrightarrow> fset (fmdom (dc_services d)) = A \<and> fset (fmdom (br_generations b)) = A \<and>
     (\<forall>k s. fmlookup (dc_services d) k = Some s \<longrightarrow> service_key s = k) \<and>
     card A \<le> 4096 \<and> fcard (fmdom (br_types b)) \<le> 256 \<and> length (br_jobs b) \<le> 512 \<and>
     (\<forall>req\<in>set (br_jobs b) \<union> set (br_running b). 1 \<le> unat (rr_generation req))"


lemma dc_notify [simp]: "dc_services (notify d) = dc_services d"
  by (simp add: notify_def)

lemma upsert_services:
  "\<exists>s'. dc_services (upsert time s d) = fmupd (service_key s) s' (dc_services d) \<and> sv_identity s' = sv_identity s"
  by (auto simp: upsert_def Let_def service_key_def split: option.split)

lemma upsert_keys:
  assumes "\<forall>k s. fmlookup (dc_services d) k = Some s \<longrightarrow> service_key s = k"
  shows "fset (fmdom (dc_services (upsert time s d))) = insert (service_key s) (fset (fmdom (dc_services d)))"
    "\<forall>k s'. fmlookup (dc_services (upsert time s d)) k = Some s' \<longrightarrow> service_key s' = k"
  using upsert_services [of time s d] assms by (auto simp: service_key_def split: if_splits)

lemma signal_names:
  "suffix ''.ItemRemove'' (Destination @ ''.ServiceBrowser.ItemRemove'')"
  "\<not> suffix ''.ItemRemove'' (Destination @ ''.ServiceBrowser.ItemNew'')"
  "\<not> suffix ''.Failure'' (Destination @ ''.ServiceBrowser.ItemNew'')"
  "\<not> suffix ''.Failure'' (Destination @ ''.ServiceBrowser.ItemRemove'')"
  "Destination @ ''.ServiceBrowser.ItemNew'' \<noteq> ''org.freedesktop.DBus.NameOwnerChanged''"
  "Destination @ ''.ServiceBrowser.ItemRemove'' \<noteq> ''org.freedesktop.DBus.NameOwnerChanged''"
  "Destination @ ''.ServiceBrowser.ItemNew'' \<noteq> Destination @ ''.ServiceTypeBrowser.ItemNew''"
  "Destination @ ''.ServiceBrowser.ItemRemove'' \<noteq> Destination @ ''.ServiceTypeBrowser.ItemNew''"
  by code_simp+

lemma tracks_start: "browse_start matches root d = Continue b d' \<Longrightarrow> tracks {} b d'"
  by (auto simp: browse_start_def tracks_def reset_def fcard.rep_eq split: option.splits sum.splits)

lemma tracks_item:
  assumes "tracks A b d" "on_item time rem i flags b d = Continue b' d'" "unat (br_generation b) < 2 ^ 64 - 1"
  shows "tracks (if rem then A - {Key i} else insert (Key i) A) b' d'"
proof (cases rem)
  case True
  have "card (A - {Key i}) \<le> card A" using assms(1) by (intro card_mono) (auto simp: tracks_def)
  then show ?thesis
    using assms True by (auto simp: on_item_def tracks_def remove_def split: if_splits)
next
  case False
  let ?s = "(bare_service i)\<lparr>sv_flags := flags\<rparr>"
  have key: "service_key ?s = Key i" by (simp add: service_key_def bare_service_def)
  have small: "fcard (fmdom (br_generations b)) < 4096" "length (br_jobs b) < 512"
    using assms(2) False by (auto simp: on_item_def Let_def split: if_splits)
  then have "card A < 4096" using assms(1) by (simp add: tracks_def fcard.rep_eq)
  then have card: "card (insert (Key i) A) \<le> 4096" using card_insert_le_m1 [of 4096 A] by (simp add: card_insert_if)
  have "unat (br_generation b + 1) = unat (br_generation b) + 1" using assms(3) by (simp add: unat_plus_simple unat_word_ariths)
  moreover have "d' = upsert time ?s d" "b' = b\<lparr>br_generation := br_generation b + 1,
      br_generations := fmupd (Key i) (br_generation b + 1) (br_generations b),
      br_jobs := br_jobs b @ [\<lparr>rr_identity = i, rr_generation = br_generation b + 1\<rparr>]\<rparr>"
    using assms(2) False by (auto simp: on_item_def Let_def split: if_splits)
  ultimately have d': "d' = upsert time ?s d" and b': "br_types b' = br_types b" "br_running b' = br_running b"
      "br_generations b' = fmupd (Key i) (br_generation b + 1) (br_generations b)"
      "br_jobs b' = br_jobs b @ [\<lparr>rr_identity = i, rr_generation = br_generation b + 1\<rparr>]"
    and g: "1 \<le> unat (br_generation b + 1)" by simp_all
  have keys: "\<forall>k s. fmlookup (dc_services d) k = Some s \<longrightarrow> service_key s = k" "fset (fmdom (dc_services d)) = A"
      "fset (fmdom (br_generations b)) = A" "fcard (fmdom (br_types b)) \<le> 256"
      "\<forall>req\<in>set (br_jobs b) \<union> set (br_running b). 1 \<le> unat (rr_generation req)"
    using assms(1) by (simp_all add: tracks_def)
  have "\<forall>req\<in>set (br_jobs b') \<union> set (br_running b'). 1 \<le> unat (rr_generation req)"
    using keys(5) g unfolding b' by (simp only: set_append list.set) (metis UnE UnI1 UnI2 empty_iff insert_iff resolve_request.select_convs(2))
  moreover have "fset (fmdom (dc_services d')) = insert (Key i) A"
    unfolding d' using upsert_keys(1) [OF keys(1), of time ?s] keys(2) key by simp
  moreover have "\<forall>k s. fmlookup (dc_services d') k = Some s \<longrightarrow> service_key s = k"
    unfolding d' by (rule upsert_keys(2) [OF keys(1)])
  moreover have "fset (fmdom (br_generations b')) = insert (Key i) A" unfolding b' using keys(3) by simp
  ultimately show ?thesis unfolding tracks_def using False card keys(4) small(2) b' by simp
qed

lemma tracks_result:
  assumes "tracks A b d" "on_result time req r b d = Continue b' d'"
    and "1 \<le> unat (rr_generation req)" "\<forall>s. r = Inl s \<longrightarrow> sv_identity s = rr_identity req"
  shows "tracks A b' d'"
proof (cases "fm_get 0 (br_generations b) (Key (rr_identity req)) = rr_generation req")
  case True
  then have "Key (rr_identity req) |\<in>| fmdom (br_generations b)"
    using assms(3) by (cases "fmlookup (br_generations b) (Key (rr_identity req))") (auto intro: fmdomI)
  then have "Key (rr_identity req) \<in> A" using assms(1) by (auto simp: tracks_def)
  moreover obtain s where "d' = upsert time s d" "b' = b" "sv_identity s = rr_identity req"
    using assms(2,4) True by (auto simp: on_result_def Let_def bare_service_def split: sum.splits)
  ultimately show ?thesis
    using assms(1) upsert_keys [of d time s] by (auto simp: tracks_def service_key_def insert_absorb)
qed (use assms in \<open>auto simp: on_result_def\<close>)

lemma tracks_type:
  assumes "tracks A b d" "on_type typ dom' reply b d = Continue b' d'"
  shows "tracks A b' d'"
  using assms by (auto simp: on_type_def tracks_def Let_def fcard_finsert_if split: if_splits sum.splits)

lemma tracks_step:
  assumes "tracks A b d" "environment ev b" "browse_step ev b d = Continue b' d'"
  shows "tracks (announce ev b A) b' d'"
proof (cases ev)
  case Take
  then show ?thesis using assms by (auto simp: browse_step_def tracks_def announce_def split: list.splits)
next
  case (Result time req r)
  then have "1 \<le> unat (rr_generation req)" "\<forall>s. r = Inl s \<longrightarrow> sv_identity s = rr_identity req"
    using assms(1,2) by (auto simp: tracks_def environment_def)
  moreover have "tracks A (b\<lparr>br_running := remove1 req (br_running b)\<rparr>) d"
    using assms(1) notin_set_remove1 [of _ "br_running b" req] by (auto simp: tracks_def)
  ultimately show ?thesis
    using tracks_result assms(3) Result by (auto simp: browse_step_def announce_def)
next
  case (Signal time sig reply)
  have gen: "unat (br_generation b) < 2 ^ 64 - 1" using assms(2) by (simp add: environment_def)
  show ?thesis
  proof (cases "sg_path sig |\<in>| fmdom (br_objects b)")
    case False
    then show ?thesis using assms(1,3) Signal by (auto simp: browse_step_def on_signal_def announce_def split: if_splits)
  next
    case True
    consider (new) i flags where "sg_body sig = ItemBody i flags" "sg_name sig = Destination @ ''.ServiceBrowser.ItemNew''"
      | (gone) i flags where "sg_body sig = ItemBody i flags" "sg_name sig = Destination @ ''.ServiceBrowser.ItemRemove''"
      | (other) "sg_name sig \<noteq> Destination @ ''.ServiceBrowser.ItemNew'' \<and> sg_name sig \<noteq> Destination @ ''.ServiceBrowser.ItemRemove''
          \<or> (\<forall>i flags. sg_body sig \<noteq> ItemBody i flags)"
      by (cases "sg_body sig") auto
    then show ?thesis
    proof cases
      case new
      then have "on_item time False i flags b d = Continue b' d'"
        using assms(3) Signal True signal_names by (simp add: browse_step_def on_signal_def)
      from tracks_item [OF assms(1) this gen] show ?thesis using Signal True new by (simp add: announce_def)
    next
      case gone
      then have "on_item time True i flags b d = Continue b' d'"
        using assms(3) Signal True signal_names by (simp add: browse_step_def on_signal_def)
      from tracks_item [OF assms(1) this gen] show ?thesis
        using Signal True gone by (simp add: announce_def Destination_def)
    next
      case other
      then have "announce ev b A = A" using Signal by (auto simp: announce_def split: signal_body.split)
      moreover have "tracks A b' d'"
        using assms(1,3) Signal other tracks_type [OF assms(1)]
        by (auto simp: browse_step_def on_signal_def split: if_splits signal_body.splits)
      ultimately show ?thesis by simp
    qed
  qed
qed (use assms in \<open>auto simp: browse_step_def announce_def\<close>)

text \<open>
  C33. The cache holds exactly the services that Avahi has announced and not withdrawn, each under its
  own key, however late, in whatever order or not at all the results of resolutions come in; and it
  never holds more than 4096 services, 256 types and 512 waiting requests.
\<close>

theorem cache_tracks_announcements:
  assumes "browsing A b d"
  shows "fset (fmdom (dc_services d)) = A \<and> (\<forall>k s. fmlookup (dc_services d) k = Some s \<longrightarrow> service_key s = k) \<and>
    card A \<le> 4096 \<and> fcard (fmdom (br_types b)) \<le> 256 \<and> length (br_jobs b) \<le> 512"
proof -
  have "tracks A b d" using assms by induction (auto intro: tracks_start tracks_step)
  then show ?thesis by (simp add: tracks_def)
qed

lemma cache_tracks_announcements_witness:
  "\<exists>d :: discovery. fset (fmdom (dc_services d)) =
     {Key (\<lparr>id_interface = 1, id_protocol = 0, id_name = ''a'', id_type = ''t'', id_domain = ''local''\<rparr>)}"
proof -
  define i where "i = \<lparr>id_interface = 1, id_protocol = 0, id_name = ''a'', id_type = ''t'', id_domain = ''local''\<rparr>"
  define ev where "ev = Signal 3 \<lparr>sg_name = Destination @ ''.ServiceBrowser.ItemNew'', sg_path = ''/root'', sg_body = ItemBody i 0, sg_text = []\<rparr> (Inr [])"
  obtain b d where 1: "browse_start [] (Inl ''/root'') NewDiscovery = Continue b d" and b: "br_generation b = 0"
      "br_generations b = fmempty" "br_jobs b = []" "br_objects b = fmupd ''/root'' (Destination @ ''.ServiceTypeBrowser'') fmempty"
    by (simp add: browse_start_def)
  obtain b' d' where 2: "browse_step ev b d = Continue b' d'"
    using signal_names b by (simp add: browse_step_def ev_def on_signal_def on_item_def Let_def fcard.rep_eq)
  have "browsing (announce ev b {}) b' d'"
    by (rule browsing.step [OF browsing.start [OF 1] _ 2]) (simp add: environment_def b ev_def)
  moreover have "announce ev b {} = {Key i}" by (simp add: announce_def ev_def b)
  ultimately have "fset (fmdom (dc_services d')) = {Key i} \<and> card {Key i} \<le> 4096"
    using cache_tracks_announcements [of "{Key i}" b' d'] by simp
  then show ?thesis unfolding i_def by (intro exI [of _ d']) simp
qed

end
