(* ===== verification/Network.thy ===== *)
theory Network
  imports Reach "HOL-Library.Multiset"
begin

text \<open>
  The interfaces of the host (\<open>internal/network/interfaces.go\<close>) and the state of the system
  (\<open>internal/detect/detect.go\<close>). What netlink tells of the links is an input; the probe reads the
  configuration through the store's model and asks the buses through the model of the controllers.
\<close>

section \<open>Interfaces\<close>

definition Enabled :: "string \<Rightarrow> string list \<Rightarrow> string list \<Rightarrow> bool" where
  "Enabled name allow deny =
     (if \<exists>s\<in>set deny. trim_space s = name then False
      else (let named = filter (\<lambda>s. trim_space s \<noteq> []) allow in
        (\<exists>s\<in>set named. trim_space s = name) \<or> length named = 0))"

text \<open>
  An address as netlink gives it: the bytes, and the length of the prefix. A link's kind is what
  \<open>Link.Type\<close> returns.
\<close>

record ipnet =
  in_ip :: "nat list"
  in_prefix :: nat

record link =
  lk_name :: string
  lk_index :: int
  lk_mac :: string
  lk_flags :: string
  lk_loopback :: bool
  lk_ptp :: bool
  lk_state :: string
  lk_mtu :: int
  lk_kind :: string
  lk_addrs :: "ipnet option list result"

record interface =
  if_name :: string
  if_index :: int
  if_mac :: string
  if_flags :: string
  if_state :: string
  if_mtu :: int
  if_kind :: string
  if_addresses :: "string list"
  if_category :: string
  if_mdns :: bool

text \<open>\<open>net.IPNet.String\<close> for a mask that is a prefix, and \<open>netip.AddrFromSlice\<close>.\<close>

definition ipnet_string :: "ipnet \<Rightarrow> string" where
  "ipnet_string n =
     (let a = unmap \<lparr>octets = in_ip n, zone = []\<rparr> in
      if length (in_ip n) \<noteq> 4 \<and> length (in_ip n) \<noteq> 16 then ''<nil>''
      else addr_string a @ ''/'' @ nat_dec (if is_4in6 \<lparr>octets = in_ip n, zone = []\<rparr> then in_prefix n - 96 else in_prefix n))"

definition addr_from_slice :: "nat list \<Rightarrow> addr option" where
  "addr_from_slice b = (if length b = 4 \<or> length b = 16 then Some \<lparr>octets = b, zone = []\<rparr> else None)"

definition is_loopback :: "addr \<Rightarrow> bool" where
  "is_loopback a =
     (let b = octets (unmap a) in
      if length b = 4 then b ! 0 = 127 else b = replicate 15 0 @ [1])"

definition is_link_local :: "addr \<Rightarrow> bool" where
  "is_link_local a =
     (let b = octets (unmap a) in
      if length b = 4 then b ! 0 = 169 \<and> b ! 1 = 254
      else length b = 16 \<and> b ! 0 = 254 \<and> b ! 1 div 64 = 2)"

definition is_private :: "addr \<Rightarrow> bool" where
  "is_private a =
     (let b = octets (unmap a) in
      if length b = 4 then b ! 0 = 10 \<or> b ! 0 = 172 \<and> b ! 1 div 16 = 1 \<or> b ! 0 = 192 \<and> b ! 1 = 168
      else length b = 16 \<and> b ! 0 div 2 = 126)"

text \<open>\<open>IsGlobalUnicast\<close>; the limited broadcast address and the unspecified one are not.\<close>

definition is_global_unicast :: "addr \<Rightarrow> bool" where
  "is_global_unicast a =
     (let b = octets (unmap a) in
      b \<noteq> replicate 4 0 \<and> b \<noteq> replicate 4 255 \<and> b \<noteq> replicate 16 0
      \<and> \<not> is_loopback a \<and> \<not> is_multicast a \<and> \<not> is_link_local a)"

definition public_address :: "ipnet \<Rightarrow> bool" where
  "public_address n =
     (case addr_from_slice (in_ip n) of None \<Rightarrow> False | Some a \<Rightarrow> is_global_unicast a \<and> \<not> is_private a)"

definition category :: "link \<Rightarrow> ipnet list \<Rightarrow> string" where
  "category l addrs =
     (if lk_loopback l then ''Loopback''
      else if lk_kind l = ''wireguard'' then ''WireGuard''
      else if prefix ''docker'' (lk_name l) \<or> prefix ''br-'' (lk_name l) then ''Docker''
      else if lk_kind l = ''tun'' \<or> lk_kind l = ''tuntap'' then ''VPN''
      else if list_ex public_address addrs then ''Public candidate'' else ''LAN'')"

definition interface_of :: "string list \<Rightarrow> string list \<Rightarrow> link \<Rightarrow> interface result" where
  "interface_of allow deny l =
     bind_res (lk_addrs l) (\<lambda>as.
       let nets = map the (filter (\<lambda>a. a \<noteq> None) as) in
       Inr \<lparr>if_name = lk_name l, if_index = lk_index l, if_mac = lk_mac l, if_flags = lk_flags l,
         if_state = lk_state l, if_mtu = lk_mtu l, if_kind = lk_kind l,
         if_addresses = sort (map ipnet_string nets), if_category = category l nets,
         if_mdns = (Enabled (lk_name l) allow deny \<and> \<not> lk_loopback l \<and> \<not> lk_ptp l)\<rparr>)"

fun map_res :: "('a \<Rightarrow> 'b result) \<Rightarrow> 'a list \<Rightarrow> 'b list result" where
  "map_res f [] = Inr []"
| "map_res f (x # xs) = bind_res (f x) (\<lambda>y. bind_res (map_res f xs) (\<lambda>ys. Inr (y # ys)))"

text \<open>The outer \<open>result\<close> is the netlink handle and its list of links.\<close>

definition Interfaces :: "link list result \<Rightarrow> string list \<Rightarrow> string list \<Rightarrow> interface list result" where
  "Interfaces links allow deny =
     bind_res links (\<lambda>ls. bind_res (map_res (interface_of allow deny) ls) (\<lambda>items. Inr (sort_key if_index items)))"

section \<open>The state of the system\<close>

record detect_status =
  dt_state :: string
  dt_os :: "(string, string) fmap"
  dt_installed :: bool
  dt_systemd :: systemd_status
  dt_avahi :: avahi_state
  dt_files :: "(string, bool) fmap"
  dt_errors :: "string list"
  dt_checked :: nat
  dt_update :: bool

definition quote_char :: "char \<Rightarrow> bool" where
  "quote_char c \<longleftrightarrow> c = CHR 0x22 \<or> c = CHR 0x27"

text \<open>\<open>strings.Trim\<close> with the two quotes.\<close>

definition trim_quotes :: "string \<Rightarrow> string" where
  "trim_quotes s = rev (dropWhile quote_char (rev (dropWhile quote_char s)))"

definition os_line :: "string \<Rightarrow> (string, string) fmap \<Rightarrow> (string, string) fmap" where
  "os_line l m =
     (if prefix ''#'' l then m
      else (case cut (CHR ''='') l of (key, val, True) \<Rightarrow> fmupd key (trim_quotes val) m | _ \<Rightarrow> m))"

definition OSRelease :: "string \<Rightarrow> (string, string) fmap" where
  "OSRelease data = fold os_line (split_on nl data) fmempty"

definition Classify :: "detect_status \<Rightarrow> string" where
  "Classify s =
     (let service = st_service (dt_systemd s); socket = st_socket (dt_systemd s) in
      if \<not> dt_installed s then ''NOT_INSTALLED''
      else if dt_errors s \<noteq> [] then ''CONFIG_ERROR''
      else if \<not> st_available (dt_systemd s) then ''DBUS_UNAVAILABLE''
      else if un_error service \<noteq> [] \<or> un_load service = ''not-found'' then ''RUNNING_DEGRADED''
      else if un_active service \<noteq> ''active'' then
        (if un_active service = ''failed'' then ''RUNNING_DEGRADED'' else ''INSTALLED_STOPPED'')
      else if \<not> av_available (dt_avahi s) then ''DBUS_UNAVAILABLE''
      else if av_state (dt_avahi s) \<noteq> 2 \<or> un_active socket \<noteq> ''active'' then ''RUNNING_DEGRADED''
      else if dt_update s then ''UPDATE_AVAILABLE''
      else ''RUNNING'')"

text \<open>
  What \<open>Probe\<close> sees outside the configuration directory: the time, the text of
  \<open>/etc/os-release\<close>, kind and mode of the daemon's program, and which of the paths below the
  directory \<open>os.Stat\<close> finds.
\<close>

record probe_env =
  pe_time :: nat
  pe_os :: string
  pe_daemon :: "(bool \<times> 32 word) option"
  pe_exists :: "string \<Rightarrow> bool"

definition probe_paths :: "string list" where
  "probe_paths = [''avahi-daemon.conf'', ''hosts'', ''services'']"

definition installed :: "probe_env \<Rightarrow> bool" where
  "installed e = (case pe_daemon e of None \<Rightarrow> False | Some (regular, mode) \<Rightarrow> regular \<and> mode AND 73 \<noteq> 0)"

definition no_unit :: unit_info where
  "no_unit = \<lparr>un_name = [], un_load = [], un_active = [], un_sub = [], un_file = [], un_error = []\<rparr>"

definition probe_systemd :: "systemd_status io" where
  "probe_systemd = bind_io (ask ConnectSystemd) (\<lambda>r. case r of
     ReplyError e \<Rightarrow> return \<lparr>st_available = False, st_service = no_unit, st_socket = no_unit, st_error = e\<rparr>
   | _ \<Rightarrow> Status)"

definition no_avahi :: avahi_state where
  "no_avahi = \<lparr>av_available = False, av_state = 0, av_version = [], av_hostname = [], av_domain = [], av_error = []\<rparr>"

definition probe_avahi :: "avahi_state io" where
  "probe_avahi = bind_io (ask ConnectAvahi) (\<lambda>r. case r of
     ReplyError e \<Rightarrow> return (no_avahi\<lparr>av_error := e\<rparr>)
   | _ \<Rightarrow> bind_io avahi_status (\<lambda>(a, _). return a))"

definition probe_errors :: "xml_codec \<Rightarrow> string list io" where
  "probe_errors X = bind_io (try_io (bind_io read (\<lambda>im. lift_res (ValidateImage X im)))) (\<lambda>r.
     return (case r of Inl e \<Rightarrow> [error_text e] | Inr _ \<Rightarrow> []))"

definition Probe :: "xml_codec \<Rightarrow> probe_env \<Rightarrow> detect_status io" where
  "Probe X e =
     bind_io probe_systemd (\<lambda>sd.
     bind_io probe_avahi (\<lambda>av.
     bind_io (if installed e then probe_errors X else return []) (\<lambda>errs.
       let s = \<lparr>dt_state = [], dt_os = OSRelease (pe_os e), dt_installed = installed e, dt_systemd = sd, dt_avahi = av,
             dt_files = fmap_of_list (map (\<lambda>p. (p, pe_exists e p)) probe_paths), dt_errors = errs, dt_checked = pe_time e,
             dt_update = False\<rparr> in
       return (s\<lparr>dt_state := Classify s\<rparr>))))"

section \<open>Interfaces\<close>

lemma map_res_ok: "map_res f xs = Inr ys \<Longrightarrow> list_all2 (\<lambda>x y. f x = Inr y) xs ys"
  by (induction xs arbitrary: ys) (auto simp: bind_res_def split: sum.splits)

text \<open>
  The list of interfaces has every link exactly once, in the order of the indexes, or is an error.
  Avahi's lists decide whether a link is used: one is denied by name, and once any name is allowed
  every other is not; a loopback or point-to-point link never is. White space around names does not
  count, and blank entries allow nothing.
\<close>

theorem interfaces_listed:
  assumes "Interfaces (Inr links) allow deny = Inr items"
  shows "sorted (map if_index items) \<and> mset (map if_name items) = mset (map lk_name links) \<and>
    (\<forall>i\<in>set items. \<exists>l\<in>set links. interface_of allow deny l = Inr i \<and>
       (if_mdns i \<longleftrightarrow> \<not> lk_loopback l \<and> \<not> lk_ptp l \<and> lk_name l \<notin> trim_space ` set deny \<and>
          (trim_space ` set allow \<subseteq> {[]} \<or> lk_name l \<noteq> [] \<and> lk_name l \<in> trim_space ` set allow)))"
proof -
  obtain js where l: "list_all2 (\<lambda>l i. interface_of allow deny l = Inr i) links js" and s: "items = sort_key if_index js"
    using assms by (auto simp: Interfaces_def bind_res_def dest!: map_res_ok split: sum.splits)
  have name: "interface_of allow deny l = Inr i \<Longrightarrow> if_name i = lk_name l" for l i
    by (auto simp: interface_of_def bind_res_def split: sum.splits)
  have "map if_name js = map lk_name links"
    using l by (induction rule: list_all2_induct) (auto simp: name)
  then have m: "mset (map if_name items) = mset (map lk_name links)"
    unfolding s by (metis mset_map mset_sort)
  have e: "Enabled n allow deny \<longleftrightarrow> n \<notin> trim_space ` set deny \<and>
      (trim_space ` set allow \<subseteq> {[]} \<or> n \<noteq> [] \<and> n \<in> trim_space ` set allow)" for n
    unfolding Enabled_def Let_def by (auto simp: filter_empty_conv)
  have "if_mdns i \<longleftrightarrow> Enabled (lk_name l) allow deny \<and> \<not> lk_loopback l \<and> \<not> lk_ptp l"
    if "interface_of allow deny l = Inr i" for l i
    using that by (auto simp: interface_of_def bind_res_def split: sum.splits)
  moreover have "\<exists>l\<in>set links. interface_of allow deny l = Inr i" if "i \<in> set items" for i
  proof -
    obtain k where k: "k < length js" "js ! k = i" using \<open>i \<in> set items\<close> by (auto simp: s in_set_conv_nth)
    then have "interface_of allow deny (links ! k) = Inr i" "k < length links" using l by (auto simp: list_all2_conv_all_nth)
    then show ?thesis using nth_mem by blast
  qed
  ultimately have "\<forall>i\<in>set items. \<exists>l\<in>set links. interface_of allow deny l = Inr i \<and>
      (if_mdns i \<longleftrightarrow> Enabled (lk_name l) allow deny \<and> \<not> lk_loopback l \<and> \<not> lk_ptp l)" by blast
  then have "\<forall>i\<in>set items. \<exists>l\<in>set links. interface_of allow deny l = Inr i \<and>
       (if_mdns i \<longleftrightarrow> \<not> lk_loopback l \<and> \<not> lk_ptp l \<and> lk_name l \<notin> trim_space ` set deny \<and>
          (trim_space ` set allow \<subseteq> {[]} \<or> lk_name l \<noteq> [] \<and> lk_name l \<in> trim_space ` set allow))"
    unfolding e by (simp only: conj_ac)
  moreover have "sorted (map if_index items)" by (simp add: s)
  ultimately show ?thesis using m by blast
qed

definition sample_link :: link where
  "sample_link = \<lparr>lk_name = ''eth0'', lk_index = 2, lk_mac = [], lk_flags = ''up'', lk_loopback = False, lk_ptp = False,
     lk_state = ''up'', lk_mtu = 1500, lk_kind = ''device'', lk_addrs = Inr []\<rparr>"

lemma interfaces_listed_witness:
  "\<exists>items. Interfaces (Inr [sample_link]) [''eth1''] [] = Inr items \<and> sorted (map if_index items) \<and>
     mset (map if_name items) = {#''eth0''#}"
proof -
  obtain items where i: "Interfaces (Inr [sample_link]) [''eth1''] [] = Inr items"
    by (simp add: Interfaces_def bind_res_def interface_of_def sample_link_def)
  then show ?thesis using interfaces_listed [OF i] by (auto simp: sample_link_def)
qed

section \<open>The probe\<close>

lemma bind_done: "m w = (Done x, w') \<Longrightarrow> bind_io m k w = k x w'"
  by (simp add: bind_io_def)

definition bus_total :: "'a io \<Rightarrow> bool" where
  "bus_total m \<longleftrightarrow> (\<forall>w. \<exists>x cs. m w = (Done x, w\<lparr>w_bus := (w_bus w)\<lparr>b_calls := cs\<rparr>\<rparr>))"

lemma bus_total_return: "bus_total (return x)"
  unfolding bus_total_def
proof
  fix w :: world
  have "w = w\<lparr>w_bus := (w_bus w)\<lparr>b_calls := b_calls (w_bus w)\<rparr>\<rparr>" by simp
  then show "\<exists>y cs. return x w = (Done y, w\<lparr>w_bus := (w_bus w)\<lparr>b_calls := cs\<rparr>\<rparr>)"
    unfolding return_def by blast
qed

lemma bus_total_ask: "bus_total (ask c)"
  unfolding bus_total_def ask_def Let_def by auto

lemma bus_total_bind:
  assumes "bus_total m" "\<And>x. bus_total (k x)"
  shows "bus_total (bind_io m k)"
  unfolding bus_total_def
proof
  fix w
  obtain x cs where m: "m w = (Done x, w\<lparr>w_bus := (w_bus w)\<lparr>b_calls := cs\<rparr>\<rparr>)" using assms(1) unfolding bus_total_def by blast
  obtain y ds where "k x (w\<lparr>w_bus := (w_bus w)\<lparr>b_calls := cs\<rparr>\<rparr>) =
      (Done y, w\<lparr>w_bus := (w_bus w)\<lparr>b_calls := ds\<rparr>\<rparr>)"
    using assms(2) [of x, unfolded bus_total_def, rule_format, of "w\<lparr>w_bus := (w_bus w)\<lparr>b_calls := cs\<rparr>\<rparr>"] by auto
  then show "\<exists>y ds. bind_io m k w = (Done y, w\<lparr>w_bus := (w_bus w)\<lparr>b_calls := ds\<rparr>\<rparr>)"
    by (auto simp: bind_io_def m)
qed

lemma bus_total_unit: "bus_total (unit_state u)"
  unfolding unit_state_def Let_def by (intro bus_total_bind bus_total_ask bus_total_return)

lemma bus_total_probe_systemd: "bus_total probe_systemd"
  unfolding probe_systemd_def Status_def
  by (intro bus_total_bind bus_total_ask) (auto split: reply.split intro!: bus_total_bind bus_total_unit bus_total_return)

lemma bus_total_avahi: "bus_total (probe ms s)"
  by (induction ms arbitrary: s)
    (auto simp: probe.simps(2) intro!: bus_total_bind bus_total_ask bus_total_return split: sum.split)

lemma bus_total_probe_avahi: "bus_total probe_avahi"
  unfolding probe_avahi_def avahi_status_def
  by (intro bus_total_bind bus_total_ask) (auto split: reply.split intro!: bus_total_bind bus_total_avahi bus_total_return)

definition config_ok :: "xml_codec \<Rightarrow> disk \<Rightarrow> bool" where
  "config_ok X d \<longleftrightarrow> (case pure read d of Done im \<Rightarrow> ValidateImage X im = Inr () | _ \<Rightarrow> False)"

lemma probe_errors_run:
  assumes "w_sched w = []"
  shows "\<exists>errs. probe_errors X w = (Done errs, w) \<and> (errs = [] \<longleftrightarrow> config_ok X (w_disk w))"
proof -
  let ?m = "bind_io read (\<lambda>im. lift_res (ValidateImage X im))"
  have ro: "ro ?m" by (intro ro_rules)
  obtain s where "set s \<subseteq> set (w_sched w)" "snd (?m w) = w\<lparr>w_sched := s\<rparr>"
      "fst (?m w) = pure ?m (w_disk w) \<or> w_sched w \<noteq> [] \<and> faulted (fst (?m w))"
    using roD [OF ro, of w] assms by (auto simp: calm_def)
  then have m: "?m w = (pure ?m (w_disk w), w)" using assms by (cases "?m w") auto
  have "pure ?m (w_disk w) \<noteq> Crashed" by (rule ro_not_crashed [OF ro])
  moreover have "pure ?m (w_disk w) = Done () \<longleftrightarrow> config_ok X (w_disk w)"
    by (auto simp: pure_bind [OF ro_read] config_ok_def split: outcome.splits sum.splits)
  moreover have "probe_errors X w = (case pure ?m (w_disk w) of
      Done _ \<Rightarrow> (Done [], w) | Failed e \<Rightarrow> (Done [error_text e], w) | Crashed \<Rightarrow> (Crashed, w))"
  proof -
    have "try_io ?m w = (case pure ?m (w_disk w) of Done x \<Rightarrow> (Done (Inr x), w) | Failed e \<Rightarrow> (Done (Inl e), w) | Crashed \<Rightarrow> (Crashed, w))"
      unfolding try_io_def m by (simp split: outcome.split)
    then show ?thesis
      by (simp add: probe_errors_def bind_io_def [of "try_io ?m"] return_def split: outcome.split)
  qed
  ultimately show ?thesis by (cases "pure ?m (w_disk w)") auto
qed

definition bus_healthy :: "detect_status \<Rightarrow> bool" where
  "bus_healthy s \<longleftrightarrow> st_available (dt_systemd s) \<and> un_error (st_service (dt_systemd s)) = [] \<and>
     un_load (st_service (dt_systemd s)) \<noteq> ''not-found'' \<and> un_active (st_service (dt_systemd s)) = ''active'' \<and>
     un_active (st_socket (dt_systemd s)) = ''active'' \<and> av_available (dt_avahi s) \<and> av_state (dt_avahi s) = 2"

text \<open>
  The probe always gives a state and changes nothing. It says that Avahi runs exactly when its program
  is installed, the configuration on disk can be read and is valid, both units are active and the
  daemon answers that it runs; with an installed program it reports a configuration error exactly when
  the configuration cannot be read or is not valid.
\<close>

theorem probe_state:
  assumes "w_sched w = []"
  shows "\<exists>s. fst (Probe X e w) = Done s \<and> w_disk (snd (Probe X e w)) = w_disk w \<and>
    (dt_state s = ''RUNNING'' \<longleftrightarrow> installed e \<and> config_ok X (w_disk w) \<and> bus_healthy s) \<and>
    (dt_state s = ''NOT_INSTALLED'' \<longleftrightarrow> \<not> installed e) \<and>
    (dt_state s = ''CONFIG_ERROR'' \<longleftrightarrow> installed e \<and> \<not> config_ok X (w_disk w))"
proof -
  obtain sd cs where 1: "probe_systemd w = (Done sd, w\<lparr>w_bus := (w_bus w)\<lparr>b_calls := cs\<rparr>\<rparr>)"
    using bus_total_probe_systemd unfolding bus_total_def by blast
  let ?v = "w\<lparr>w_bus := (w_bus w)\<lparr>b_calls := cs\<rparr>\<rparr>"
  obtain av ds where 2: "probe_avahi ?v = (Done av, ?v\<lparr>w_bus := (w_bus ?v)\<lparr>b_calls := ds\<rparr>\<rparr>)"
    using bus_total_probe_avahi unfolding bus_total_def by blast
  let ?u = "?v\<lparr>w_bus := (w_bus ?v)\<lparr>b_calls := ds\<rparr>\<rparr>"
  obtain errs where 3: "(if installed e then probe_errors X else return []) ?u = (Done errs, ?u)"
      "installed e \<longrightarrow> (errs = [] \<longleftrightarrow> config_ok X (w_disk w))"
    using probe_errors_run [of ?u X] assms by (cases "installed e") (auto simp: return_def)
  let ?s = "\<lparr>dt_state = [], dt_os = OSRelease (pe_os e), dt_installed = installed e, dt_systemd = sd, dt_avahi = av,
    dt_files = fmap_of_list (map (\<lambda>p. (p, pe_exists e p)) probe_paths), dt_errors = errs, dt_checked = pe_time e, dt_update = False\<rparr>"
  have "Probe X e w = (Done (?s\<lparr>dt_state := Classify ?s\<rparr>), ?u)"
    unfolding Probe_def Let_def bind_done [of probe_systemd, OF 1] bind_done [of probe_avahi, OF 2] bind_done [of "if installed e then probe_errors X else return []", OF 3(1)]
    by (simp add: return_def)
  then show ?thesis using 3(2) by (auto simp: Classify_def bus_healthy_def Let_def)
qed

lemma probe_state_witness:
  "\<exists>s. fst (Probe sample_codec \<lparr>pe_time = 0, pe_os = [], pe_daemon = None, pe_exists = (\<lambda>_. False)\<rparr> (sample_world [])) = Done s \<and>
     dt_state s = ''NOT_INSTALLED''"
  using probe_state [of "sample_world []" sample_codec "\<lparr>pe_time = 0, pe_os = [], pe_daemon = None, pe_exists = (\<lambda>_. False)\<rparr>"]
  by (auto simp: sample_world_def installed_def)

end
