(* ===== verification/Journal.thy ===== *)
theory Journal
  imports Json Clock
begin

text \<open>
  Reading the daemon's journal (\<open>internal/journal/reader.go\<close>): the arguments of
  \<open>journalctl\<close>, one entry of its output, and the loop that reads it. The process is the
  environment: what it writes and how it ends.
\<close>

section \<open>Arguments\<close>

record log_query =
  lq_search :: string
  lq_priority :: string
  lq_since :: string
  lq_until :: string
  lq_limit :: int

text \<open>\<open>regexp.QuoteMeta\<close>.\<close>

definition meta_char :: "char \<Rightarrow> bool" where
  "meta_char c \<longleftrightarrow> c \<in> set (CHR 0x5C # ''.+*?()|[]{}^$'')"

definition quote_meta :: "string \<Rightarrow> string" where
  "quote_meta s = concat (map (\<lambda>c. if meta_char c then [CHR 0x5C, c] else [c]) s)"

definition levels :: "(string \<times> string) list" where
  "levels = [(''info'', ''6''), (''warning'', ''4''), (''error'', ''3''), (''all'', []), ([], [])]"

text \<open>The layout \<open>2006-01-02 15:04:05 UTC\<close> of a time in nanoseconds, whose year may be before 1970.\<close>

definition utc_text :: "int \<Rightarrow> string" where
  "utc_text t =
     (let s = t div 1000000000; r = nat (s mod 86400);
          (y, m, d) = civil (nat (s div 86400 + 730485));
          year = int y - 2000
      in (if year < 0 then ''-'' else []) @ (if year < 10000 then pad_dec 4 (nat \<bar>year\<bar>) else nat_dec (nat year))
         @ ''-'' @ pad_dec 2 m @ ''-'' @ pad_dec 2 d
         @ '' '' @ pad_dec 2 (r div 3600) @ '':'' @ pad_dec 2 (r div 60 mod 60) @ '':'' @ pad_dec 2 (r mod 60) @ '' UTC'')"

text \<open>\<open>time.Time.IsZero\<close>: the start of the year 1.\<close>

definition zero_time :: int where
  "zero_time = days_of 1 1 1 * 86400 * 1000000000"

definition time_argument :: "string \<Rightarrow> string \<Rightarrow> (string list \<times> int) result" where
  "time_argument flag val =
     (if val = [] then Inr ([], zero_time)
      else (case parse_time val of
          None \<Rightarrow> Inl (Msg (flag @ '' requires RFC3339 timestamp''))
        | Some t \<Rightarrow> Inr ([flag, utc_text t], t)))"

definition fixed_arguments :: "string list" where
  "fixed_arguments = [''--unit'', ''avahi-daemon.service'', ''--output=json'', ''--no-pager'', ''--all'']"

definition Arguments :: "log_query \<Rightarrow> bool \<Rightarrow> string list result" where
  "Arguments q follow =
     (let limit = (if lq_limit q = 0 then 200 else lq_limit q) in
      if limit < 1 \<or> limit > 1000 then Inl (Msg (''log limit must be 1'' @ [CHR 0xE2, CHR 0x80, CHR 0x93] @ ''1000''))
      else
        let args = fixed_arguments @ (if follow then [''--follow'', ''--lines=0''] else [''--lines'', int_dec limit]) in
        if length (lq_search q) > 256 \<or> nul \<in> set (lq_search q) then Inl (Msg ''invalid log search'')
        else
          let args = args @ (if lq_search q \<noteq> [] then [''--grep'', quote_meta (lq_search q), ''--case-sensitive=no''] else []) in
          case map_of levels (lq_priority q) of
            None \<Rightarrow> Inl (Msg ''invalid priority'')
          | Some p \<Rightarrow>
              let args = args @ (if p \<noteq> [] then [''--priority'', p] else []) in
              bind_res (time_argument ''--since'' (lq_since q)) (\<lambda>(as, since).
              bind_res (time_argument ''--until'' (lq_until q)) (\<lambda>(bs, until).
                if since \<noteq> zero_time \<and> until \<noteq> zero_time \<and> since > until then Inl (Msg ''since must precede until'')
                else Inr (args @ as @ bs))))"

section \<open>Entries\<close>

record log_entry =
  le_cursor :: string
  le_micros :: int
  le_priority :: int
  le_message :: string
  le_identifier :: string

text \<open>\<open>strconv.ParseInt\<close> with base 10 and 64 bits, which \<open>Atoi\<close> is too.\<close>

definition parse_int64 :: "string \<Rightarrow> int option" where
  "parse_int64 s =
     (let (neg, ds) = (case s of [] \<Rightarrow> (False, []) | c # r \<Rightarrow> if c = CHR ''-'' then (True, r) else if c = CHR ''+'' then (False, r) else (False, s)) in
      if ds \<noteq> [] \<and> list_all is_digit ds \<and> dec_value ds < (if neg then 2 ^ 63 + 1 else 2 ^ 63)
      then Some (if neg then - int (dec_value ds) else int (dec_value ds)) else None)"

text \<open>\<open>json.Unmarshal\<close> of a whole document; \<open>None\<close> is an error.\<close>

definition json_document :: "string \<Rightarrow> json option" where
  "json_document data =
     (case next_json data of JsonValue v rest \<Rightarrow> if skip_ws rest = [] then Some v else None | _ \<Rightarrow> None)"

text \<open>A field is a string, or an array of bytes when it is not valid UTF-8; anything else is empty.\<close>

definition field_text :: "(string \<times> json) list \<Rightarrow> string \<Rightarrow> string" where
  "field_text ms k =
     (case map_of (rev ms) k of
        None \<Rightarrow> []
      | Some j \<Rightarrow> (case dec_string j [] of
          Inr s \<Rightarrow> s
        | Inl _ \<Rightarrow> (case dec_slice 0 (dec_uint 8) j None of
            Inr (Some bs) \<Rightarrow> map char_of bs
          | _ \<Rightarrow> [])))"

definition journal_entry :: "(string \<times> json) list \<Rightarrow> log_entry result" where
  "journal_entry ms =
     (case parse_int64 (field_text ms ''__REALTIME_TIMESTAMP'') of
        None \<Rightarrow> Inl (Msg ''invalid journal timestamp'')
      | Some micros \<Rightarrow>
          let raw = field_text ms ''PRIORITY'';
              p = (if raw = [] then Some 6 else (case parse_int64 raw of
                     Some p \<Rightarrow> if p < 0 \<or> p > 7 then None else Some p | None \<Rightarrow> None)) in
          case p of
            None \<Rightarrow> Inl (Msg ''invalid journal priority'')
          | Some p \<Rightarrow> Inr \<lparr>le_cursor = field_text ms ''__CURSOR'', le_micros = micros, le_priority = p,
              le_message = field_text ms ''MESSAGE'', le_identifier = field_text ms ''SYSLOG_IDENTIFIER''\<rparr>)"

definition journal_parse :: "string \<Rightarrow> log_entry result" where
  "journal_parse data =
     (case json_document data of
        Some (JObj ms) \<Rightarrow> journal_entry ms
      | Some JNull \<Rightarrow> journal_entry []
      | Some _ \<Rightarrow> type_error
      | None \<Rightarrow> Inl (Msg ''invalid JSON''))"

section \<open>The reading loop\<close>

definition capped_limit :: nat where
  "capped_limit = 8192"

text \<open>\<open>cappedBuffer.Write\<close>: keeps what fits and reports everything as written.\<close>

definition capped_write :: "string \<Rightarrow> string \<Rightarrow> nat \<times> string" where
  "capped_write b p =
     (length p,
      if length b < capped_limit
      then (let limit = capped_limit - length b in b @ (if length p > limit then take limit p else p))
      else b)"

text \<open>
  The process: whether it starts, its output, whether reading that fails, what it writes to its
  standard error, its exit code (\<open>None\<close> when waiting fails otherwise), and whether the context
  has ended when it has been waited for.
\<close>

record process =
  pr_start :: "error option"
  pr_stdout :: string
  pr_broken :: "error option"
  pr_stderr :: "string list"
  pr_exit :: "nat option"
  pr_cancelled :: bool

definition max_output :: nat where
  "max_output = 8388608"

definition max_line :: nat where
  "max_line = 1048576"

text \<open>\<open>emit\<close> consumes an entry; it may refuse.\<close>

fun read_lines :: "bool \<Rightarrow> ('s \<Rightarrow> log_entry \<Rightarrow> 's result) \<Rightarrow> string list \<Rightarrow> nat \<Rightarrow> 's \<Rightarrow> nat \<times> error option \<times> 's" where
  "read_lines follow emit [] n s = (n, None, s)"
| "read_lines follow emit (l # ls) n s =
     (let n = n + length l in
      if \<not> follow \<and> n > max_output then (n, Some (Msg ''journal response exceeds 8 MiB''), s)
      else (case journal_parse l of
          Inl e \<Rightarrow> (n, Some e, s)
        | Inr e \<Rightarrow> (case emit s e of
            Inl err \<Rightarrow> (n, Some err, s)
          | Inr s \<Rightarrow> read_lines follow emit ls n s)))"

definition captured_stderr :: "process \<Rightarrow> string" where
  "captured_stderr P = fold (\<lambda>p b. snd (capped_write b p)) (pr_stderr P) []"

definition journal_run :: "process \<Rightarrow> log_query \<Rightarrow> bool \<Rightarrow> ('s \<Rightarrow> log_entry \<Rightarrow> 's result) \<Rightarrow> 's \<Rightarrow> error option \<times> 's" where
  "journal_run P q follow emit s =
     (case Arguments q follow of
        Inl e \<Rightarrow> (Some e, s)
      | Inr args \<Rightarrow> (case pr_start P of
          Some e \<Rightarrow> (Some e, s)
        | None \<Rightarrow>
            let (ls, too_long) = scan_lines max_line (pr_stdout P);
                (n, err, s) = read_lines follow emit ls 0 s;
                err = (if err = None then (if too_long then Some (Msg ''bufio.Scanner: token too long'') else pr_broken P) else err);
                text = captured_stderr P in
            if err \<noteq> None then (err, s)
            else if pr_cancelled P then (Some (Msg ''context canceled''), s)
            else if pr_exit P = Some 1 \<and> n = 0 \<and> text = [] \<and> lq_search q \<noteq> [] then (None, s)
            else if pr_exit P \<noteq> Some 0 then (Some (Wrap ''journalctl'' (Msg (trim_space text))), s)
            else (None, s)))"

definition journal_read :: "process \<Rightarrow> log_query \<Rightarrow> log_entry list \<times> error option" where
  "journal_read P q = (let (err, es) = journal_run P q False (\<lambda>es e. Inr (es @ [e])) [] in (es, err))"

definition Follow :: "process \<Rightarrow> log_query \<Rightarrow> ('s \<Rightarrow> log_entry \<Rightarrow> 's result) \<Rightarrow> 's \<Rightarrow> error option \<times> 's" where
  "Follow P q emit s = journal_run P q True emit s"

section \<open>What the arguments can hold\<close>

text \<open>The text that a pattern stands for when it has no operator left.\<close>

fun literal :: "string \<Rightarrow> string option" where
  "literal [] = Some []"
| "literal (c # p) =
     (if c = CHR 0x5C then
        (case p of [] \<Rightarrow> None | d # r \<Rightarrow> if meta_char d then map_option ((#) d) (literal r) else None)
      else if meta_char c then None else map_option ((#) c) (literal p))"

lemma literal_quote: "literal (quote_meta s) = Some s"
proof (induction s)
  case (Cons c s)
  have "quote_meta (c # s) = (if meta_char c then [CHR 0x5C, c] else [c]) @ quote_meta s"
    by (simp add: quote_meta_def)
  moreover have "meta_char (CHR 0x5C)" by (simp add: meta_char_def)
  ultimately show ?case using Cons by auto
qed (simp add: quote_meta_def)

lemma time_argument_ok:
  "time_argument flag val = Inr (as, t) \<longleftrightarrow>
     val = [] \<and> as = [] \<and> t = zero_time \<or> val \<noteq> [] \<and> parse_time val = Some t \<and> as = [flag, utc_text t]"
  by (auto simp: time_argument_def split: option.split)

definition time_option :: "string \<Rightarrow> string \<Rightarrow> string list" where
  "time_option flag val = (case parse_time val of None \<Rightarrow> [] | Some t \<Rightarrow> [flag, utc_text t])"

lemma parse_time_empty: "parse_time [] = None"
  by (simp add: parse_time_def take_num_def opt_bind_def)

lemma time_argument_option: "time_argument flag val = Inr (as, t) \<Longrightarrow> as = time_option flag val"
  by (auto simp: time_argument_ok time_option_def parse_time_empty)

text \<open>
  What a query can tell \<open>journalctl\<close>: the unit and the output format are fixed, the number of
  lines is 1 to 1000, the search is one value whose pattern has no operator and stands for exactly
  the searched text, the priority is one of three digits, and each time is the text of a time that was
  parsed, the first not after the second. No other query is accepted, and no argument is ever an
  option of the caller's.
\<close>

theorem journal_arguments:
  assumes "Arguments q follow = Inr args"
  shows "(\<exists>limit p. 1 \<le> limit \<and> limit \<le> 1000 \<and> (lq_limit q = 0 \<and> limit = 200 \<or> lq_limit q = limit) \<and>
      p \<in> {[], ''6'', ''4'', ''3''} \<and>
      args = fixed_arguments @ (if follow then [''--follow'', ''--lines=0''] else [''--lines'', int_dec limit])
        @ (if lq_search q = [] then [] else [''--grep'', quote_meta (lq_search q), ''--case-sensitive=no''])
        @ (if p = [] then [] else [''--priority'', p])
        @ time_option ''--since'' (lq_since q) @ time_option ''--until'' (lq_until q)) \<and>
    literal (quote_meta (lq_search q)) = Some (lq_search q) \<and> length (lq_search q) \<le> 256 \<and> nul \<notin> set (lq_search q) \<and>
    (\<forall>a b. parse_time (lq_since q) = Some a \<longrightarrow> parse_time (lq_until q) = Some b \<longrightarrow>
       a = zero_time \<or> b = zero_time \<or> a \<le> b)"
proof -
  define limit where "limit = (if lq_limit q = 0 then 200 else lq_limit q)"
  have l: "1 \<le> limit" "limit \<le> 1000"
    and s: "length (lq_search q) \<le> 256" "nul \<notin> set (lq_search q)"
    using assms by (auto simp: Arguments_def limit_def Let_def split: if_splits)
  obtain p where p: "map_of levels (lq_priority q) = Some p"
    using assms by (auto simp: Arguments_def Let_def split: if_splits option.splits)
  obtain as a bs b where t: "time_argument ''--since'' (lq_since q) = Inr (as, a)"
      "time_argument ''--until'' (lq_until q) = Inr (bs, b)"
    using assms p by (auto simp: Arguments_def Let_def bind_res_def split: if_splits sum.splits)
  have "args = fixed_arguments @ (if follow then [''--follow'', ''--lines=0''] else [''--lines'', int_dec limit])
        @ (if lq_search q = [] then [] else [''--grep'', quote_meta (lq_search q), ''--case-sensitive=no''])
        @ (if p = [] then [] else [''--priority'', p]) @ as @ bs"
    and o: "\<not> (a \<noteq> zero_time \<and> b \<noteq> zero_time \<and> a > b)"
    using assms p t l s by (auto simp: Arguments_def limit_def [symmetric] bind_res_def split: if_splits)
  moreover have "p \<in> {[], ''6'', ''4'', ''3''}" using p by (auto simp: levels_def split: if_splits)
  moreover have "as = time_option ''--since'' (lq_since q)" "bs = time_option ''--until'' (lq_until q)"
    using t by (auto intro: time_argument_option)
  moreover have "parse_time (lq_since q) = Some x \<Longrightarrow> x = a" "parse_time (lq_until q) = Some x \<Longrightarrow> x = b" for x
    using t by (auto simp: time_argument_ok parse_time_empty)
  moreover have "lq_limit q = 0 \<and> limit = 200 \<or> lq_limit q = limit" by (simp add: limit_def)
  ultimately show ?thesis using l s literal_quote by auto
qed

definition sample_query :: log_query where
  "sample_query = \<lparr>lq_search = ''a.*'', lq_priority = ''warning'', lq_since = [], lq_until = [], lq_limit = 50\<rparr>"

lemma sample_search: "lq_search sample_query \<noteq> []"
  by (simp add: sample_query_def)

lemma sample_arguments:
  "Arguments sample_query False = Inr (fixed_arguments @ [''--lines'', int_dec 50, ''--grep'', quote_meta ''a.*'', ''--case-sensitive=no'', ''--priority'', ''4''])"
  by (simp add: Arguments_def sample_query_def levels_def time_argument_def bind_res_def)

lemma journal_arguments_witness:
  "literal (quote_meta ''a.*'') = Some ''a.*'' \<and> length ''a.*'' \<le> (256 :: nat)"
  using journal_arguments [OF sample_arguments] by (simp add: sample_query_def)

section \<open>What is read\<close>

lemma capped_take: "length b \<le> capped_limit \<Longrightarrow> snd (capped_write b p) = take capped_limit (b @ p)"
  by (auto simp: capped_write_def Let_def)

lemma captured_take: "captured_stderr P = take capped_limit (concat (pr_stderr P))"
proof -
  have "fold (\<lambda>p b. snd (capped_write b p)) ps (take capped_limit b) = take capped_limit (b @ concat ps)" for ps b
  proof (induction ps arbitrary: b)
    case (Cons p ps)
    have "snd (capped_write (take capped_limit b) p) = take capped_limit (b @ p)"
      by (subst capped_take) (auto simp: min_def)
    then show ?case using Cons [of "b @ p"] by simp
  qed simp
  from this [of "pr_stderr P" "[]"] show ?thesis by (simp add: captured_stderr_def)
qed

fun parse_all :: "string list \<Rightarrow> log_entry list result" where
  "parse_all [] = Inr []"
| "parse_all (l # ls) = bind_res (journal_parse l) (\<lambda>e. bind_res (parse_all ls) (\<lambda>es. Inr (e # es)))"

lemma read_lines_collect:
  "read_lines False (\<lambda>es e. Inr (es @ [e])) ls n es = (m, err, es') \<Longrightarrow>
     \<exists>k new. parse_all (take k ls) = Inr new \<and> es' = es @ new \<and>
       (err = None \<longrightarrow> k \<ge> length ls \<and> m = n + sum_list (map length ls) \<and> (ls = [] \<or> m \<le> max_output))"
proof (induction ls arbitrary: n es)
  case Nil
  then show ?case by (intro exI [of _ 0] exI [of _ "[]"]) simp
next
  case (Cons l ls)
  show ?case
  proof (cases "n + length l > max_output")
    case True
    then show ?thesis using Cons.prems by (intro exI [of _ 0] exI [of _ "[]"]) (auto simp: Let_def)
  next
    case False
    show ?thesis
    proof (cases "journal_parse l")
      case (Inl e)
      then show ?thesis using Cons.prems False by (intro exI [of _ 0] exI [of _ "[]"]) (auto simp: Let_def)
    next
      case (Inr e)
      then have "read_lines False (\<lambda>es e. Inr (es @ [e])) ls (n + length l) (es @ [e]) = (m, err, es')"
        using Cons.prems False by (simp add: Let_def)
      from Cons.IH [OF this] obtain k new where k: "parse_all (take k ls) = Inr new" "es' = (es @ [e]) @ new"
        "err = None \<longrightarrow> k \<ge> length ls \<and> m = n + length l + sum_list (map length ls) \<and> (ls = [] \<or> m \<le> max_output)" by blast
      then show ?thesis using Inr False
        by (intro exI [of _ "Suc k"] exI [of _ "e # new"]) (auto simp: bind_res_def)
    qed
  qed
qed

text \<open>
  C23. A journal that is read without error is complete and healthy: every line of the output was
  an entry, all of them are returned in their order, the output was at most 8 MiB without an overlong
  line, and \<open>journalctl\<close> succeeded, or ended with 1 for a search that matched nothing, with no word
  on its standard error. With any error, what is returned are the entries of a first part of the output.
\<close>

theorem journal_read_complete:
  assumes "journal_read P q = (es, err)"
  shows "(\<exists>k. parse_all (take k (fst (scan_lines max_line (pr_stdout P)))) = Inr es) \<and>
    (err = None \<longrightarrow>
       parse_all (fst (scan_lines max_line (pr_stdout P))) = Inr es \<and> \<not> snd (scan_lines max_line (pr_stdout P)) \<and>
       sum_list (map length (fst (scan_lines max_line (pr_stdout P)))) \<le> max_output \<and>
       pr_start P = None \<and> pr_broken P = None \<and> \<not> pr_cancelled P \<and>
       (pr_exit P = Some 0 \<or> pr_exit P = Some 1 \<and> lq_search q \<noteq> [] \<and> concat (pr_stderr P) = [] \<and>
          concat (fst (scan_lines max_line (pr_stdout P))) = []))"
proof -
  have no: "parse_all (take 0 ls) = Inr []" for ls by simp
  obtain ls long where scan: "scan_lines max_line (pr_stdout P) = (ls, long)" by fastforce
  obtain n err' es' where r: "read_lines False (\<lambda>es e. Inr (es @ [e])) ls 0 [] = (n, err', es')" by (metis prod_cases3)
  obtain k where k: "parse_all (take k ls) = Inr es'"
      "err' = None \<longrightarrow> k \<ge> length ls \<and> n = sum_list (map length ls) \<and> (ls = [] \<or> n \<le> max_output)"
    using read_lines_collect [OF r] by auto
  have "n = 0 \<Longrightarrow> err' = None \<Longrightarrow> concat ls = []" using k(2) by (auto simp: sum_list_eq_0_iff)
  moreover have "captured_stderr P = [] \<Longrightarrow> concat (pr_stderr P) = []"
    by (simp add: captured_take capped_limit_def)
  moreover have "sum_list (map length ls) \<le> max_output" if "err' = None" using k(2) that by auto
  moreover have "parse_all ls = Inr es'" if "err' = None" using k that by simp
  moreover have "es = [] \<and> err \<noteq> None \<or> es = es' \<and> (err = None \<longrightarrow> err' = None \<and> \<not> long \<and> pr_start P = None \<and>
      pr_broken P = None \<and> \<not> pr_cancelled P \<and>
      (pr_exit P = Some 0 \<or> pr_exit P = Some 1 \<and> n = 0 \<and> captured_stderr P = [] \<and> lq_search q \<noteq> []))"
  proof (cases "\<exists>args. Arguments q False = Inr args \<and> pr_start P = None")
    case True
    then show ?thesis
      using assms by (auto simp: journal_read_def journal_run_def scan r Let_def split: if_splits)
  next
    case False
    then show ?thesis
      using assms by (auto simp: journal_read_def journal_run_def split: sum.splits option.splits)
  qed
  ultimately show ?thesis using k(1) no [of ls] unfolding scan fst_conv snd_conv by blast
qed

lemma journal_read_complete_witness:
  "\<exists>es. journal_read \<lparr>pr_start = None, pr_stdout = [], pr_broken = None, pr_stderr = [], pr_exit = Some 1, pr_cancelled = False\<rparr>
     sample_query = (es, None) \<and> es = []"
proof -
  let ?P = "\<lparr>pr_start = None, pr_stdout = [], pr_broken = None, pr_stderr = [], pr_exit = Some 1, pr_cancelled = False\<rparr>"
  have "\<exists>es. journal_read ?P sample_query = (es, None)"
    by (simp add: journal_read_def journal_run_def sample_arguments scan_lines_def Let_def captured_stderr_def sample_search)
  then obtain es where e: "journal_read ?P sample_query = (es, None)" by blast
  then have "parse_all [] = Inr es" using journal_read_complete [OF e] by (simp add: scan_lines_def)
  then show ?thesis using e by auto
qed

end
