(* ===== verification/Protocol.thy ===== *)
theory Protocol
  imports Helper Database
begin

text \<open>
  The two ends of the helper's socket put together: the requests that \<open>Client.Call\<close> sends
  (\<open>internal/helper/client.go\<close>), as the types of \<open>protocol.go\<close> print them, and the helper's process
  that answers them (\<open>Serve\<close> in \<open>internal/helper/server.go\<close>), which recovers when it starts and may
  die and be started again at any time. Results are handed over as values; of an error only code
  and message, which \<open>rpc_error_roundtrip\<close> shows to survive the encoding.
\<close>

section \<open>Inputs\<close>

datatype rpc_input =
    InEmpty
  | InRevision revision_req
  | InDaemon write_daemon_req
  | InHosts write_hosts_req
  | InService write_service_req
  | InDelete delete_service_req
  | InRestore restore_req
  | InSnapshot snapshot_id_req
  | InReason create_snapshot_req

definition json_list :: "string list \<Rightarrow> string" where
  "json_list xs = ''['' @ join_with '','' xs @ '']''"

definition unless_empty :: "string \<Rightarrow> string \<Rightarrow> (string \<times> string) list" where
  "unless_empty k s = (if s = [] then [] else [(k, json_quote s)])"

definition settings_text :: "(string, string) fmap \<Rightarrow> string" where
  "settings_text m = compact_object (map (\<lambda>k. (k, json_quote (fm_get [] m k))) (sorted_keys m))"

definition daemon_text :: "daemon option \<Rightarrow> string" where
  "daemon_text d = (case d of
     None \<Rightarrow> ''null''
   | Some d \<Rightarrow> compact_object (map (\<lambda>k. (k, settings_text (fm_get fmempty d k))) (sorted_keys d)))"

definition host_text :: "host \<Rightarrow> string" where
  "host_text h = compact_object [(''address'', json_quote (Address h)), (''hostname'', json_quote (Hostname h))]"

definition hosts_text :: "host list option \<Rightarrow> string" where
  "hosts_text hs = (case hs of None \<Rightarrow> ''null'' | Some hs \<Rightarrow> json_list (map host_text hs))"

definition txt_text :: "txt_record \<Rightarrow> string" where
  "txt_text t = compact_object ([(''value'', json_quote (tx_value t))] @ unless_empty ''format'' (tx_format t))"

text \<open>A nil slice and an empty one are the same here; both decode to a slice without elements.\<close>

definition service_text :: "service \<Rightarrow> string" where
  "service_text s = compact_object
     ([(''protocol'', json_quote (sv_protocol s)), (''type'', json_quote (sv_type s))]
      @ unless_empty ''domain'' (sv_domain s) @ unless_empty ''host'' (sv_host s)
      @ [(''port'', nat_dec (unat (sv_port s))), (''subtypes'', json_list (map json_quote (sv_subtypes s))),
         (''txt'', json_list (map txt_text (sv_txt s)))])"

definition group_text :: "service_group \<Rightarrow> string" where
  "group_text g = compact_object
     [(''name'', compact_object [(''value'', json_quote (sn_value (g_name g))),
        (''replaceWildcards'', json_quote (sn_wildcards (g_name g)))]),
      (''services'', json_list (map service_text (g_services g)))]"

definition revision_text_field :: "'a revision_req_scheme \<Rightarrow> string \<times> string" where
  "revision_text_field r = (''revision'', json_quote (rq_revision r))"

fun input_text :: "rpc_input \<Rightarrow> string" where
  "input_text InEmpty = compact_object []"
| "input_text (InRevision r) = compact_object [revision_text_field r]"
| "input_text (InDaemon r) = compact_object [revision_text_field r, (''config'', daemon_text (rq_config r))]"
| "input_text (InHosts r) = compact_object [revision_text_field r, (''hosts'', hosts_text (rq_hosts r))]"
| "input_text (InService r) =
     compact_object ([revision_text_field r] @ unless_empty ''id'' (rq_service r) @ [(''group'', group_text (rq_group r))])"
| "input_text (InDelete r) = compact_object [revision_text_field r, (''id'', json_quote (rq_delete r))]"
| "input_text (InRestore r) = compact_object [revision_text_field r, (''id'', json_quote (rq_restore r))]"
| "input_text (InSnapshot r) = compact_object [(''id'', json_quote (rq_snapshot r))]"
| "input_text (InReason r) = compact_object [(''reason'', json_quote (rq_reason r))]"

section \<open>The helper's process\<close>

text \<open>
  What happens around one call: perhaps a start of the process, in the world that it finds; then
  whether the caller has left, whether the context of the call ends, the world of the call, and
  whether the reply gets lost. The world's disk is the helper's.
\<close>

record turn =
  tn_start :: "world option"
  tn_gone :: bool
  tn_cancelled :: bool
  tn_world :: world
  tn_lost :: bool

text \<open>\<open>hp_log\<close> are the requests that have been served, each with the disk that it met.\<close>

record helper =
  hp_disk :: disk
  hp_up :: bool
  hp_turns :: "turn list"
  hp_log :: "(http_request \<times> disk) list"

definition on_disk :: "disk \<Rightarrow> world \<Rightarrow> world" where
  "on_disk d w = w\<lparr>w_disk := d\<rparr>"

definition helper_start :: "world \<Rightarrow> helper \<Rightarrow> helper" where
  "helper_start w h =
     (let (r, w') = Recover (Some helper_controller) (on_disk (hp_disk h) w) in
      h\<lparr>hp_disk := w_disk w', hp_up := (r = Done ())\<rparr>)"

text \<open>Without further events a call meets no fault.\<close>

definition quiet_turn :: turn where
  "quiet_turn = \<lparr>tn_start = None, tn_gone = False, tn_cancelled = False,
     tn_world = still \<lparr>d_conf = empty_tree, d_top = empty_tree, d_snaps = fmempty\<rparr>, tn_lost = False\<rparr>"

definition next_turn :: "helper \<Rightarrow> turn \<times> helper" where
  "next_turn h =
     (let (t, ts) = (case hp_turns h of [] \<Rightarrow> (quiet_turn, []) | t # ts \<Rightarrow> (t, ts));
          h = h\<lparr>hp_turns := ts\<rparr> in
      (t, case tn_start t of None \<Rightarrow> h | Some w \<Rightarrow> helper_start w h))"

definition reply_outcome :: "http_reply outcome \<Rightarrow> answer call_outcome" where
  "reply_outcome r =
     (case r of
        Done (Accepted a) \<Rightarrow> Returned a
      | Done (Rejected c code msg) \<Rightarrow> RemoteError \<lparr>re_code = code, re_message = json_string msg\<rparr>
      | Done (Unrouted c) \<Rightarrow> CallFailed (Msg (''helper RPC returned HTTP '' @ nat_dec c))
      | _ \<Rightarrow> CallFailed (Msg ''EOF''))"

definition helper_call :: "xml_codec \<Rightarrow> string \<Rightarrow> rpc_input \<Rightarrow> helper \<Rightarrow> answer call_outcome \<times> helper" where
  "helper_call X m i h =
     (case call_request m (Inr (input_text i)) of
        Inl e \<Rightarrow> (CallFailed e, h)
      | Inr req \<Rightarrow>
          let (t, h) = next_turn h in
          if \<not> hp_up h then (CallFailed (Msg ''connection refused''), h)
          else (let (r, w) = handler X helper_runtime (tn_gone t) (tn_cancelled t) req (on_disk (hp_disk h) (tn_world t)) in
            (if tn_lost t then CallFailed (Msg ''connection reset'') else reply_outcome r,
             h\<lparr>hp_disk := w_disk w, hp_up := (r \<noteq> Crashed), hp_log := (req, hp_disk h) # hp_log h\<rparr>)))"

end
