(* ===== verification/Api.thy ===== *)
theory Api
  imports Protocol Auth Discovery Network Journal
begin

text \<open>
  The web server (\<open>internal/api\<close>): the checks that stand before every request, the audit around
  every mutation, the operations behind the routes, and the event streams. The helper is the
  function \<open>call\<close> of the interface \<open>RPC\<close> over a state of its own; what else lies outside the process
  (the kernel's links, the journal's process, the state of the system, the random source) is in \<open>env\<close>.
  Requests hold one at a time: the handlers of mutations run under a lock.
\<close>

section \<open>Requests and responses\<close>

text \<open>
  \<open>q_path\<close> is the escaped path; \<open>q_query\<close> holds the decoded parameters in their order; a header
  that is missing is empty.
\<close>

record web_request =
  q_method :: string
  q_path :: string
  q_host :: string
  q_origin :: string
  q_site :: string
  q_type :: string
  q_csrf :: string
  q_cookie :: "string option"
  q_body :: string
  q_remote :: string
  q_tls :: bool
  q_query :: "(string \<times> string) list"

record config_view =
  cv_config :: configuration
  cv_drift :: "drift list"
  cv_snapshot :: string

record host_entry =
  he_host :: host
  he_id :: string

datatype payload =
    PError string string
  | PEmpty
  | PSession session
  | PAnswer answer
  | PConfig config_view
  | PSchema
  | PServices string "published list"
  | PHosts string "host_entry list"
  | PProbe detect_status
  | POverview detect_status nat "config_view + string"
  | PInterfaces "interface list"
  | PDiscovery discovery_state
  | PLogs "log_entry list"
  | PManifests "manifest list"
  | PAudits "audit list"
  | PJobs "job list"
  | PStream string
  | PRedirect string
  | PText string

record cookie =
  ck_value :: string
  ck_expires :: "int option"
  ck_max_age :: int
  ck_secure :: bool
  ck_http_only :: bool
  ck_strict :: bool

record response =
  rs_status :: nat
  rs_cookie :: "cookie option"
  rs_retry :: bool
  rs_allow :: bool
  rs_payload :: payload

definition respond :: "nat \<Rightarrow> payload \<Rightarrow> response" where
  "respond status p = \<lparr>rs_status = status, rs_cookie = None, rs_retry = False, rs_allow = False, rs_payload = p\<rparr>"

definition reject :: "nat \<Rightarrow> string \<Rightarrow> string \<Rightarrow> response" where
  "reject status code message = respond status (PError code message)"

datatype api_error = Remote rpc_error | Local error

definition refuse :: "api_error \<Rightarrow> response" where
  "refuse e =
     (case e of
        Remote e \<Rightarrow> reject (if re_code e = ''conflict'' then 409 else 422) (re_code e) (re_message e)
      | Local e \<Rightarrow> reject 503 ''unavailable'' (error_text e))"

fun api_error_text :: "api_error \<Rightarrow> string" where
  "api_error_text (Remote e) = re_code e @ '': '' @ re_message e"
| "api_error_text (Local e) = error_text e"

text \<open>\<open>body\<close>: exactly one JSON object with known fields, announced as such.\<close>

definition body :: "'a struct_fields \<Rightarrow> 'a \<Rightarrow> web_request \<Rightarrow> response + 'a" where
  "body fs zero req =
     (let bad = (\<lambda>m. Inl (reject 400 ''invalid_json'' m)) in
      if q_type req \<noteq> ''application/json'' then Inl (reject 415 ''content_type'' ''Content-Type must be application/json'')
      else (case next_json (take MaxRequest (q_body req)) of
          JsonEOF \<Rightarrow> bad ''EOF''
        | JsonError \<Rightarrow> bad ''invalid character''
        | JsonValue j rest \<Rightarrow> (case j of
            JObj ms \<Rightarrow> (case dec_members True fs ms zero of
                Inl e \<Rightarrow> bad (error_text e)
              | Inr v \<Rightarrow>
                  if length (q_body req) \<le> MaxRequest \<and> next_json rest = JsonEOF then Inr v
                  else bad ''expected one JSON object'')
          | _ \<Rightarrow> bad ''expected JSON object'')))"

section \<open>The server's state\<close>

record gate =
  gt_hosts :: "string list"
  gt_origins :: "string list"
  gt_secure :: bool

text \<open>A parsed URL; \<open>net/url\<close> is the parameter \<open>parse_url\<close> of \<open>gate_of\<close>.\<close>

record url =
  u_scheme :: string
  u_user :: "string option"
  u_host :: string
  u_path :: string
  u_query :: string
  u_fragment :: string

fun gate_of :: "(string \<Rightarrow> url option) \<Rightarrow> string list \<Rightarrow> gate \<Rightarrow> gate result" where
  "gate_of parse_url [] g = Inr g"
| "gate_of parse_url (origin # origins) g =
     (let bad = Inl (Msg (''invalid public origin '' @ origin)) in
      case parse_url origin of
        None \<Rightarrow> bad
      | Some u \<Rightarrow>
          if u_host u = [] \<or> u_user u \<noteq> None \<or> u_query u \<noteq> [] \<or> u_fragment u \<noteq> [] \<or> u_path u \<noteq> []
             \<or> u_scheme u \<noteq> ''http'' \<and> u_scheme u \<noteq> ''https''
          then bad
          else gate_of parse_url origins
            \<lparr>gt_hosts = u_host u # gt_hosts g, gt_origins = origin # gt_origins g,
             gt_secure = (gt_secure g \<or> u_scheme u = ''https'')\<rparr>)"

definition default_origins :: "string list" where
  "default_origins = [''http://127.0.0.1:8053'', ''http://localhost:8053'']"

definition api_new :: "(string \<Rightarrow> url option) \<Rightarrow> string list \<Rightarrow> gate result" where
  "api_new parse_url origins =
     gate_of parse_url (if origins = [] then default_origins else origins)
       \<lparr>gt_hosts = [], gt_origins = [], gt_secure = False\<rparr>"

text \<open>\<open>ap_subs\<close> tells for each subscriber of configuration changes whether its channel holds a token.\<close>

record 'h api =
  ap_db :: database
  ap_auth :: auth
  ap_helper :: 'h
  ap_discovery :: discovery
  ap_subs :: "(nat, bool) fmap"
  ap_slots :: nat

record request_state =
  rt_actor :: string
  rt_token :: string
  rt_session :: session

record env =
  en_kdf :: kdf
  en_token :: "string result"
  en_session_id :: "string result"
  en_request_id :: string
  en_status :: detect_status
  en_links :: "link list result"
  en_process :: process

type_synonym ('h, 'a) web = "'h api \<Rightarrow> (api_error + 'a) \<times> 'h api"

type_synonym 'h rpc = "string \<Rightarrow> rpc_input \<Rightarrow> 'h \<Rightarrow> answer call_outcome \<times> 'h"

definition give :: "'a \<Rightarrow> ('h, 'a) web" where
  "give x s = (Inr x, s)"

definition bind_web :: "('h, 'a) web \<Rightarrow> ('a \<Rightarrow> ('h, 'b) web) \<Rightarrow> ('h, 'b) web" where
  "bind_web m f s = (case m s of (Inl e, s') \<Rightarrow> (Inl e, s') | (Inr x, s') \<Rightarrow> f x s')"

definition db :: "'a sql \<Rightarrow> ('h, 'a) web" where
  "db m s = (let (r, d) = m (ap_db s) in (case r of Inl e \<Rightarrow> Inl (Local e) | Inr x \<Rightarrow> Inr x, s\<lparr>ap_db := d\<rparr>))"

text \<open>A call of the helper, whose answer has to be of the type that the caller decodes.\<close>

definition invoke :: "'h rpc \<Rightarrow> string \<Rightarrow> rpc_input \<Rightarrow> (answer \<Rightarrow> 'a option) \<Rightarrow> ('h, 'a) web" where
  "invoke call m i pick s =
     (let (r, h) = call m i (ap_helper s) in
      (case r of
         Returned a \<Rightarrow> (case pick a of Some x \<Rightarrow> Inr x | None \<Rightarrow> Inl (Local (Msg ''json: cannot unmarshal'')))
       | RemoteError e \<Rightarrow> Inl (Remote e)
       | CallFailed e \<Rightarrow> Inl (Local e), s\<lparr>ap_helper := h\<rparr>))"

definition as_snapshot :: "answer \<Rightarrow> (manifest \<times> configuration) option" where
  "as_snapshot a = (case a of ASnapshot m c \<Rightarrow> Some (m, c) | _ \<Rightarrow> None)"

definition as_configuration :: "answer \<Rightarrow> configuration option" where
  "as_configuration a = (case a of AConfiguration c \<Rightarrow> Some c | _ \<Rightarrow> None)"

definition as_manifests :: "answer \<Rightarrow> manifest list option" where
  "as_manifests a = (case a of AManifests ms \<Rightarrow> Some ms | _ \<Rightarrow> None)"

section \<open>The accepted configuration\<close>

definition syncBaseline :: "'h rpc \<Rightarrow> ('h, unit) web" where
  "syncBaseline call =
     bind_web (invoke call ''ReadBaseline'' InEmpty as_snapshot) (\<lambda>(m, c).
       db (SaveBaseline m (cf_revision c) (cf_hashes c)))"

definition Bootstrap :: "'h rpc \<Rightarrow> ('h, unit) web" where
  "Bootstrap call = bind_web (db InterruptJobs) (\<lambda>_. syncBaseline call)"

definition missing_setting :: "api_error \<Rightarrow> bool" where
  "missing_setting e = (case e of Local e \<Rightarrow> errors_is e ErrNoRows | Remote _ \<Rightarrow> False)"

definition api_configuration :: "'h rpc \<Rightarrow> ('h, config_view) web" where
  "api_configuration call s =
     (case db (Setting ''managed_snapshot'') s of
        (r, s) \<Rightarrow>
          bind_web
            (case r of
               Inl e \<Rightarrow> if missing_setting e then syncBaseline call else (\<lambda>s. (Inl e, s))
             | Inr _ \<Rightarrow> give ()) (\<lambda>_.
          bind_web (invoke call ''ReadConfiguration'' InEmpty as_configuration) (\<lambda>c.
          bind_web (db (ObserveFiles (cf_hashes c))) (\<lambda>ds.
          bind_web (db (Setting ''managed_snapshot'')) (\<lambda>i.
            give \<lparr>cv_config = c, cv_drift = ds, cv_snapshot = i\<rparr>)))) s)"

definition notifyConfig :: "'h api \<Rightarrow> 'h api" where
  "notifyConfig s = s\<lparr>ap_subs := fmmap (\<lambda>_. True) (ap_subs s)\<rparr>"

text \<open>The answer of a mutation, of the helper's result and of the synchronization after it.\<close>

definition mutate_reply :: "api_error + answer \<Rightarrow> api_error + unit \<Rightarrow> response" where
  "mutate_reply r sync =
     (case r of
        Inl e \<Rightarrow> refuse e
      | Inr a \<Rightarrow> (case sync of
          Inl e \<Rightarrow> reject 503 ''reconcile_failed''
            (''operation completed but baseline synchronization failed: '' @ api_error_text e)
        | Inr _ \<Rightarrow> respond 200 (PAnswer a)))"

definition mutate :: "'h rpc \<Rightarrow> string \<Rightarrow> rpc_input \<Rightarrow> 'h api \<Rightarrow> response \<times> 'h api" where
  "mutate call m i s =
     (let (r, s) = invoke call m i Some s;
          (sync, s) = syncBaseline call s in
      (mutate_reply r sync, notifyConfig s))"

section \<open>The checks before every request\<close>

text \<open>\<open>url.PathUnescape\<close>; a text that is not escaped well stays as it is.\<close>

fun unescape_from :: "string \<Rightarrow> string option" where
  "unescape_from [] = Some []"
| "unescape_from (c # s) =
     (if c \<noteq> CHR ''%'' then map_option ((#) c) (unescape_from s)
      else (case s of
          a # b # r \<Rightarrow> (case (json_hex a, json_hex b) of
              (Some x, Some y) \<Rightarrow> map_option ((#) (char_of (16 * x + y))) (unescape_from r)
            | _ \<Rightarrow> None)
        | _ \<Rightarrow> None))"

definition unescape :: "string \<Rightarrow> string" where
  "unescape s = (case unescape_from s of None \<Rightarrow> s | Some t \<Rightarrow> t)"

definition url_path :: "web_request \<Rightarrow> string" where
  "url_path r = unescape (q_path r)"

definition mutating :: "web_request \<Rightarrow> bool" where
  "mutating r \<longleftrightarrow> q_method r \<noteq> ''GET'' \<and> q_method r \<noteq> ''HEAD''"

definition login_path :: string where
  "login_path = ''/api/v1/auth/login''"

type_synonym 'h handling = "web_request \<Rightarrow> request_state \<Rightarrow> 'h api \<Rightarrow> response \<times> request_state \<times> 'h api"

definition session_error :: "api_error \<Rightarrow> response" where
  "session_error e =
     (if (case e of Local e \<Rightarrow> errors_is e ErrSession | Remote _ \<Rightarrow> False)
      then reject 401 ''unauthorized'' ''session expired or invalid'' else refuse e)"

definition security :: "gate \<Rightarrow> 'h handling \<Rightarrow> 'h handling" where
  "security G next r st s =
     (if q_host r \<notin> set (gt_hosts G) then (reject 403 ''host_rejected'' ''unrecognized Host'', st, s)
      else if mutating r \<and> q_origin r = [] \<or> q_origin r \<noteq> [] \<and> q_origin r \<notin> set (gt_origins G)
          \<or> q_site r = ''cross-site''
      then (reject 403 ''origin_rejected'' ''same-origin request required'', st, s)
      else if url_path r = login_path \<and> q_method r = ''POST'' then next r st s
      else if \<not> prefix ''/api/'' (url_path r) then next r st s
      else (case q_cookie r of
          None \<Rightarrow> (reject 401 ''unauthorized'' ''sign in required'', st, s)
        | Some token \<Rightarrow> (case db (Session token) s of
            (Inl e, s) \<Rightarrow> (session_error e, st, s)
          | (Inr ss, s) \<Rightarrow>
              let st = \<lparr>rt_actor = ss_user ss, rt_token = token, rt_session = ss\<rparr> in
              if mutating r \<and> q_csrf r \<noteq> ss_csrf ss then (reject 403 ''csrf_rejected'' ''invalid CSRF token'', st, s)
              else next r st s)))"

section \<open>The audit\<close>

definition no_session :: session where
  "no_session = \<lparr>ss_user = [], ss_csrf = [], ss_expires = zero_time\<rparr>"

definition anonymous :: request_state where
  "anonymous = \<lparr>rt_actor = ''anonymous'', rt_token = [], rt_session = no_session\<rparr>"

definition audit_detail :: "env \<Rightarrow> web_request \<Rightarrow> nat option \<Rightarrow> string" where
  "audit_detail E r status = compact_object
     ([(''method'', json_quote (q_method r)), (''requestId'', json_quote (en_request_id E))]
      @ (case status of None \<Rightarrow> [] | Some n \<Rightarrow> [(''status'', nat_dec n)]))"

definition audit_result :: "nat \<Rightarrow> string" where
  "audit_result status = (if status \<ge> 400 then ''failed'' else ''success'')"

definition first_actor :: "web_request \<Rightarrow> 'h api \<Rightarrow> request_state \<times> 'h api" where
  "first_actor r s =
     (case q_cookie r of
        None \<Rightarrow> (anonymous, s)
      | Some token \<Rightarrow> (case db (Session token) s of
          (Inl e, s) \<Rightarrow> (anonymous, s)
        | (Inr ss, s) \<Rightarrow> (anonymous\<lparr>rt_actor := ss_user ss\<rparr>, s)))"

definition web_audit :: "env \<Rightarrow> 'h handling \<Rightarrow> web_request \<Rightarrow> 'h api \<Rightarrow> response \<times> 'h api" where
  "web_audit E next r s =
     (if \<not> mutating r then (let (resp, st, s) = next r anonymous s in (resp, s))
      else
        let (st, s) = first_actor r s;
            record = (\<lambda>actor result status. db (Audit actor (q_method r) (url_path r) result (Inr (audit_detail E r status)))) in
        (case record (rt_actor st) ''started'' None s of
           (Inl e, s) \<Rightarrow> (reject 503 ''audit_unavailable'' ''cannot record operation; no action performed'', s)
         | (Inr _, s) \<Rightarrow>
             let (resp, st, s) = next r st s in
             (case record (rt_actor st) (audit_result (rs_status resp)) (Some (rs_status resp)) s of
                (Inl e, s) \<Rightarrow> (reject 503 ''audit_incomplete''
                  ''operation may have completed; audit completion failed; inspect current state before retrying'', s)
              | (Inr _, s) \<Rightarrow> (resp, s))))"

section \<open>Login and logout\<close>

record login_req =
  rq_user :: string
  rq_password :: string

definition login_fields :: "login_req struct_fields" where
  "login_fields = [(''username'', field dec_string rq_user rq_user_update),
     (''password'', field dec_string rq_password rq_password_update)]"

text \<open>\<open>net.SplitHostPort\<close>, and the whole text where that fails.\<close>

definition remote_ip :: "string \<Rightarrow> string" where
  "remote_ip s =
     (let before = rev (dropWhile (\<lambda>c. c \<noteq> CHR '':'') (rev s)); h = butlast before in
      if before = [] then s
      else if hd s = CHR ''['' then
        (let inner = tl h in
         if h \<noteq> [] \<and> inner \<noteq> [] \<and> last inner = CHR '']''
            \<and> CHR '']'' \<notin> set (butlast inner) \<and> CHR ''['' \<notin> set inner \<and> set (drop (length before) s) \<inter> {CHR ''['', CHR '']''} = {}
         then butlast inner else s)
      else if CHR '':'' \<in> set h \<or> CHR ''['' \<in> set s \<or> CHR '']'' \<in> set s then s
      else h)"

definition session_cookie :: "gate \<Rightarrow> web_request \<Rightarrow> string \<Rightarrow> int option \<Rightarrow> int \<Rightarrow> cookie" where
  "session_cookie G r token expires age =
     \<lparr>ck_value = token, ck_expires = expires, ck_max_age = age, ck_secure = (gt_secure G \<or> q_tls r),
      ck_http_only = True, ck_strict = True\<rparr>"

definition login_error :: "error \<Rightarrow> response" where
  "login_error e =
     (if errors_is e ErrRateLimit then (reject 429 ''rate_limited'' (error_text e))\<lparr>rs_retry := True\<rparr>
      else if errors_is e ErrCredentials then reject 401 ''invalid_credentials'' (error_text e)
      else refuse (Local e))"

definition login :: "gate \<Rightarrow> env \<Rightarrow> 'h handling" where
  "login G E r st s =
     (case body login_fields \<lparr>rq_user = [], rq_password = []\<rparr> r of
        Inl resp \<Rightarrow> (resp, st, s)
      | Inr v \<Rightarrow>
          let (out, a, d) = Login (en_kdf E) (remote_ip (q_remote r)) (rq_user v) (rq_password v) (en_token E) (en_session_id E)
                (ap_auth s) (ap_db s);
              s = s\<lparr>ap_auth := a, ap_db := d\<rparr> in
          case out of
            Inl e \<Rightarrow> (login_error e, st, s)
          | Inr (token, ss) \<Rightarrow>
              ((respond 200 (PSession ss))\<lparr>rs_cookie := Some (session_cookie G r token (Some (ss_expires ss)) 43200)\<rparr>,
               st\<lparr>rt_actor := ss_user ss\<rparr>, s))"

definition logout :: "gate \<Rightarrow> 'h handling" where
  "logout G r st s =
     (case body [] () r of
        Inl resp \<Rightarrow> (resp, st, s)
      | Inr _ \<Rightarrow> (case db (Logout (rt_token st)) s of
          (Inl e, s) \<Rightarrow> (refuse e, st, s)
        | (Inr _, s) \<Rightarrow> ((respond 200 PEmpty)\<lparr>rs_cookie := Some (session_cookie G r [] None (-1))\<rparr>, st, s)))"

section \<open>Hosts\<close>

definition hostID :: "host \<Rightarrow> string" where
  "hostID h = digest (Address h @ [nul] @ Hostname h)"

text \<open>The loop over the table: the first host with the identifier is taken out or replaced.\<close>

fun change_host :: "string \<Rightarrow> host option \<Rightarrow> host list \<Rightarrow> host list option" where
  "change_host i new [] = None"
| "change_host i new (h # hs) =
     (if hostID h = i then Some (case new of None \<Rightarrow> hs | Some n \<Rightarrow> n # hs)
      else map_option ((#) h) (change_host i new hs))"

record change_host_req = revision_req +
  rq_host :: "host option"

definition no_host :: host where
  "no_host = \<lparr>Address = [], Hostname = []\<rparr>"

definition dec_ptr :: "'a \<Rightarrow> 'a decoder \<Rightarrow> 'a option decoder" where
  "dec_ptr zero dec j old =
     (case j of JNull \<Rightarrow> Inr None | _ \<Rightarrow> bind_res (dec j (case old of None \<Rightarrow> zero | Some x \<Rightarrow> x)) (\<lambda>v. Inr (Some v)))"

definition change_host_fields :: "change_host_req struct_fields" where
  "change_host_fields = revision_field
     @ [(''host'', field (dec_ptr no_host (dec_struct True host_fields)) rq_host rq_host_update)]"

text \<open>What the request makes of the table; \<open>None\<close> is a host that is not there.\<close>

definition changed_hosts :: "web_request \<Rightarrow> string \<Rightarrow> host option \<Rightarrow> host list \<Rightarrow> host list option" where
  "changed_hosts r i new hs =
     (if q_method r = ''POST'' then Some (hs @ [case new of None \<Rightarrow> no_host | Some h \<Rightarrow> h])
      else if q_method r = ''DELETE'' then change_host i None hs
      else change_host i (Some (case new of None \<Rightarrow> no_host | Some h \<Rightarrow> h)) hs)"

definition hostsChange :: "'h rpc \<Rightarrow> string \<Rightarrow> 'h handling" where
  "hostsChange call i r st s =
     (case body change_host_fields \<lparr>rq_revision = [], rq_host = None\<rparr> r of
        Inl resp \<Rightarrow> (resp, st, s)
      | Inr v \<Rightarrow>
          if q_method r \<noteq> ''DELETE'' \<and> rq_host v = None then (reject 400 ''invalid_host'' ''host required'', st, s)
          else (case invoke call ''ReadConfiguration'' InEmpty as_configuration s of
              (Inl e, s) \<Rightarrow> (refuse e, st, s)
            | (Inr c, s) \<Rightarrow>
                if cf_revision c \<noteq> rq_revision v
                then (reject 409 ''conflict'' ''configuration changed on disk; reload before saving'', st, s)
                else (case changed_hosts r i (rq_host v) (cf_hosts c) of
                    None \<Rightarrow> (reject 404 ''not_found'' ''host not found'', st, s)
                  | Some hs \<Rightarrow>
                      let (resp, s) = mutate call ''WriteHosts'' (InHosts \<lparr>rq_revision = rq_revision v, rq_hosts = Some hs\<rparr>) s in
                      (resp, st, s))))"

definition hostsList :: "'h rpc \<Rightarrow> 'h handling" where
  "hostsList call r st s =
     (case invoke call ''ReadConfiguration'' InEmpty as_configuration s of
        (Inl e, s) \<Rightarrow> (refuse e, st, s)
      | (Inr c, s) \<Rightarrow> (respond 200 (PHosts (cf_revision c) (map (\<lambda>h. \<lparr>he_host = h, he_id = hostID h\<rparr>) (cf_hosts c))), st, s))"

section \<open>The other handlers\<close>

text \<open>A handler that answers with what a computation gives.\<close>

definition answering :: "('h, 'a) web \<Rightarrow> ('a \<Rightarrow> payload) \<Rightarrow> 'h handling" where
  "answering m f r st s = (case m s of (Inl e, s) \<Rightarrow> (refuse e, st, s) | (Inr x, s) \<Rightarrow> (respond 200 (f x), st, s))"

text \<open>A handler that decodes a body and hands a call to the helper.\<close>

definition mutation :: "'h rpc \<Rightarrow> 'a struct_fields \<Rightarrow> 'a \<Rightarrow> string \<Rightarrow> ('a \<Rightarrow> rpc_input) \<Rightarrow> 'h handling" where
  "mutation call fs zero m input r st s =
     (case body fs zero r of
        Inl resp \<Rightarrow> (resp, st, s)
      | Inr v \<Rightarrow> (let (resp, s) = mutate call m (input v) s in (resp, st, s)))"

definition write_service_zero :: write_service_req where
  "write_service_zero = \<lparr>rq_revision = [], rq_service = [], rq_group = empty_group\<rparr>"

definition writeService :: "'h rpc \<Rightarrow> string \<Rightarrow> 'h handling" where
  "writeService call i r st s =
     (case body write_service_fields write_service_zero r of
        Inl resp \<Rightarrow> (resp, st, s)
      | Inr v \<Rightarrow>
          if rq_service v \<noteq> [] \<and> rq_service v \<noteq> i then (reject 400 ''invalid_id'' ''service ID must match URL'', st, s)
          else (let (resp, s) = mutate call ''WriteService'' (InService (v\<lparr>rq_service := i\<rparr>)) s in (resp, st, s)))"

definition overview :: "'h rpc \<Rightarrow> env \<Rightarrow> 'h handling" where
  "overview call E r st s =
     (let (v, s) = api_configuration call s in
      (respond 200 (POverview (en_status E) (length (ds_services (discovery_view (ap_discovery s))))
         (case v of Inl e \<Rightarrow> Inr (api_error_text e) | Inr c \<Rightarrow> Inl c)), st, s))"

definition server_names :: "string \<Rightarrow> configuration \<Rightarrow> string list" where
  "server_names k c =
     split_on (CHR '','') (case cf_daemon c of None \<Rightarrow> [] | Some d \<Rightarrow> fm_get [] (fm_get fmempty d ''server'') k)"

definition interfaces :: "'h rpc \<Rightarrow> env \<Rightarrow> ('h, interface list) web" where
  "interfaces call E =
     bind_web (invoke call ''ReadConfiguration'' InEmpty as_configuration) (\<lambda>c.
       case Interfaces (en_links E) (server_names ''allow-interfaces'' c) (server_names ''deny-interfaces'' c) of
         Inl e \<Rightarrow> (\<lambda>s. (Inl (Local e), s))
       | Inr xs \<Rightarrow> give xs)"

definition query_value :: "web_request \<Rightarrow> string \<Rightarrow> string" where
  "query_value r k = (case map_of (q_query r) k of None \<Rightarrow> [] | Some v \<Rightarrow> v)"

definition logQuery :: "web_request \<Rightarrow> log_query result" where
  "logQuery r =
     bind_res
       (case map_of (q_query r) ''limit'' of
          None \<Rightarrow> Inr 200
        | Some v \<Rightarrow> (case parse_int64 v of
            None \<Rightarrow> Inl (Msg (''strconv.Atoi: parsing '' @ v @ '': invalid syntax''))
          | Some n \<Rightarrow> Inr n)) (\<lambda>limit.
       let q = \<lparr>lq_search = query_value r ''search'', lq_priority = query_value r ''priority'', lq_since = query_value r ''since'',
             lq_until = query_value r ''until'', lq_limit = limit\<rparr> in
       bind_res (Arguments q False) (\<lambda>_. Inr q))"

definition logs :: "env \<Rightarrow> 'h handling" where
  "logs E r st s =
     (case logQuery r of
        Inl e \<Rightarrow> (reject 400 ''invalid_query'' (error_text e), st, s)
      | Inr q \<Rightarrow> (case journal_read (en_process E) q of
          (_, Some e) \<Rightarrow> (refuse (Local e), st, s)
        | (es, None) \<Rightarrow> (respond 200 (PLogs es), st, s)))"

definition snapshots_synced :: "'h rpc \<Rightarrow> ('h, manifest list) web" where
  "snapshots_synced call =
     bind_web (invoke call ''ListSnapshots'' InEmpty as_manifests) (\<lambda>ms.
       bind_web (db (SyncSnapshots ms)) (\<lambda>_. give ms))"

text \<open>\<open>ParseInt\<close> with its error ignored: zero, or the nearest value of the type.\<close>

definition int_or_zero :: "string \<Rightarrow> int" where
  "int_or_zero s =
     (case parse_int64 s of
        Some n \<Rightarrow> n
      | None \<Rightarrow>
          let ds = (if prefix ''-'' s \<or> prefix ''+'' s then tl s else s) in
          if ds = [] \<or> \<not> list_all is_digit ds then 0 else if prefix ''-'' s then - (2 ^ 63) else 2 ^ 63 - 1)"

definition audits_before :: "web_request \<Rightarrow> ('h, audit list) web" where
  "audits_before r = db (Audits (int_or_zero (query_value r ''before'')) 100)"

section \<open>Event streams\<close>

definition stream_slots :: nat where
  "stream_slots = 16"

text \<open>The start of a stream: one of the slots, and a subscription with a token or a state in it.\<close>

definition take_slot :: "'h api \<Rightarrow> 'h api option" where
  "take_slot s = (if ap_slots s < stream_slots then Some (s\<lparr>ap_slots := ap_slots s + 1\<rparr>) else None)"

definition stream_limit :: response where
  "stream_limit = reject 429 ''stream_limit'' ''too many event streams''"

text \<open>\<open>ch\<close> is the new channel.\<close>

definition configEvents :: "nat \<Rightarrow> 'h handling" where
  "configEvents ch r st s =
     (case take_slot s of
        None \<Rightarrow> (stream_limit, st, s)
      | Some s \<Rightarrow> (respond 200 (PStream ''configuration''), st, s\<lparr>ap_subs := fmupd ch True (ap_subs s)\<rparr>))"

definition discoveryEvents :: "nat \<Rightarrow> 'h handling" where
  "discoveryEvents ch r st s =
     (case take_slot s of
        None \<Rightarrow> (stream_limit, st, s)
      | Some s \<Rightarrow> (respond 200 (PStream ''discovery''), st, s\<lparr>ap_discovery := Subscribe ch (ap_discovery s)\<rparr>))"

definition logEvents :: "'h handling" where
  "logEvents r st s =
     (case logQuery r of
        Inl e \<Rightarrow> (reject 400 ''invalid_query'' (error_text e), st, s)
      | Inr q \<Rightarrow> (case take_slot s of
          None \<Rightarrow> (stream_limit, st, s)
        | Some s \<Rightarrow> (respond 200 (PStream ''logs''), st, s)))"

text \<open>
  One turn of a stream's loop: the context has ended, there is news, or the ticker fires. \<open>ok\<close> tells
  whether the write succeeds. News are taken out of the channel first.
\<close>

datatype stream_event = StreamDone | News nat bool | Tick bool

datatype stream_out = Closed | Sent payload | Heartbeat | Waiting

definition send_news :: "request_state \<Rightarrow> nat \<Rightarrow> bool \<Rightarrow> payload \<Rightarrow> stream_out" where
  "send_news st time ok p =
     (if int time > ss_expires (rt_session st) then Closed else if ok then Sent p else Closed)"

definition tick_stream :: "request_state \<Rightarrow> bool \<Rightarrow> 'h api \<Rightarrow> stream_out \<times> 'h api" where
  "tick_stream st ok s =
     (case db (Session (rt_token st)) s of
        (Inl e, s) \<Rightarrow> (Closed, s)
      | (Inr _, s) \<Rightarrow> (if ok then Heartbeat else Closed, s))"

definition config_stream :: "'h rpc \<Rightarrow> nat \<Rightarrow> request_state \<Rightarrow> stream_event \<Rightarrow> 'h api \<Rightarrow> stream_out \<times> 'h api" where
  "config_stream call ch st ev s =
     (case ev of
        StreamDone \<Rightarrow> (Closed, s)
      | Tick ok \<Rightarrow> tick_stream st ok s
      | News time ok \<Rightarrow>
          let s = s\<lparr>ap_subs := fmupd ch False (ap_subs s)\<rparr> in
          if int time > ss_expires (rt_session st) then (Closed, s)
          else (let (v, s) = api_configuration call s in
            (send_news st time ok (case v of Inl e \<Rightarrow> PError ''unavailable'' (api_error_text e) | Inr c \<Rightarrow> PConfig c), s)))"

definition discovery_stream :: "nat \<Rightarrow> request_state \<Rightarrow> stream_event \<Rightarrow> 'h api \<Rightarrow> stream_out \<times> 'h api" where
  "discovery_stream ch st ev s =
     (case ev of
        StreamDone \<Rightarrow> (Closed, s)
      | Tick ok \<Rightarrow> tick_stream st ok s
      | News time ok \<Rightarrow> (case fmlookup (dc_subs (ap_discovery s)) ch of
          Some (Some v) \<Rightarrow>
            (send_news st time ok (PDiscovery v),
             s\<lparr>ap_discovery := (ap_discovery s)\<lparr>dc_subs := fmupd ch None (dc_subs (ap_discovery s))\<rparr>\<rparr>)
        | _ \<Rightarrow> (Waiting, s)))"

text \<open>
  The loop of the log stream, whose news are entries from the journal's process; when that ends with an
  error, the reader is told before the stream closes.
\<close>

datatype log_event =
    LogDone
  | JournalEnded "error option" bool bool
  | LogEntry nat log_entry bool
  | LogTick bool

definition log_stream :: "request_state \<Rightarrow> log_event \<Rightarrow> 'h api \<Rightarrow> stream_out list \<times> 'h api" where
  "log_stream st ev s =
     (case ev of
        LogDone \<Rightarrow> ([Closed], s)
      | JournalEnded err cancelled ok \<Rightarrow>
          ((case err of
              Some e \<Rightarrow> if \<not> cancelled \<and> ok then [Sent (PError ''journal_unavailable'' (error_text e)), Closed] else [Closed]
            | None \<Rightarrow> [Closed]), s)
      | LogEntry time x ok \<Rightarrow> ([send_news st time ok (PLogs [x])], s)
      | LogTick ok \<Rightarrow> (let (out, s) = tick_stream st ok s in ([out], s)))"

definition leave_stream :: "nat \<Rightarrow> 'h api \<Rightarrow> 'h api" where
  "leave_stream ch s =
     s\<lparr>ap_slots := ap_slots s - 1, ap_subs := fmdrop ch (ap_subs s), ap_discovery := Unsubscribe ch (ap_discovery s)\<rparr>"

section \<open>Routes\<close>

text \<open>A pattern has \<open>None\<close> for \<open>{id}\<close>, which stands for one segment that is not empty.\<close>

fun match_path :: "string option list \<Rightarrow> string list \<Rightarrow> string option \<Rightarrow> string option option" where
  "match_path [] [] i = Some i"
| "match_path (Some l # ps) (x # xs) i = (if l = x then match_path ps xs i else None)"
| "match_path (None # ps) (x # xs) i = (if x \<noteq> [] then match_path ps xs (Some x) else None)"
| "match_path _ _ i = None"

definition pat :: "string list \<Rightarrow> string option list" where
  "pat ss = map Some ([''api'', ''v1''] @ ss)"

text \<open>\<open>ch\<close> is the channel that a stream would get.\<close>

definition routes :: "gate \<Rightarrow> env \<Rightarrow> 'h rpc \<Rightarrow> nat \<Rightarrow> (string \<times> string option list \<times> (string \<Rightarrow> 'h handling)) list" where
  "routes G E call ch =
     [(''POST'', pat [''auth'', ''login''], \<lambda>_. login G E),
      (''POST'', pat [''auth'', ''logout''], \<lambda>_. logout G),
      (''GET'', pat [''auth'', ''session''], \<lambda>_ r st s. (respond 200 (PSession (rt_session st)), st, s)),
      (''GET'', pat [''config''], \<lambda>_. answering (api_configuration call) PConfig),
      (''GET'', pat [''config'', ''schema''], \<lambda>_ r st s. (respond 200 PSchema, st, s)),
      (''GET'', pat [''config'', ''events''], \<lambda>_. configEvents ch),
      (''PUT'', pat [''config''], \<lambda>_. mutation call daemon_fields \<lparr>rq_revision = [], rq_config = None\<rparr> ''WriteDaemonConfig'' InDaemon),
      (''POST'', pat [''config'', ''reload''], \<lambda>_. mutation call revision_field revision_zero ''AcceptDisk'' InRevision),
      (''GET'', pat [''config'', ''managed''], \<lambda>_. answering (invoke call ''ReadBaseline'' InEmpty as_snapshot)
         (\<lambda>(m, c). PAnswer (ASnapshot m c))),
      (''GET'', pat [''services''], \<lambda>_. answering (invoke call ''ReadConfiguration'' InEmpty as_configuration)
         (\<lambda>c. PServices (cf_revision c) (cf_services c))),
      (''POST'', pat [''services''], \<lambda>_. writeService call []),
      (''PUT'', pat [''services''] @ [None], writeService call),
      (''DELETE'', pat [''services''] @ [None], \<lambda>i. mutation call revision_field revision_zero ''DeleteService''
         (\<lambda>v. InDelete \<lparr>rq_revision = rq_revision v, rq_delete = i\<rparr>)),
      (''GET'', pat [''hosts''], \<lambda>_. hostsList call),
      (''POST'', pat [''hosts''], \<lambda>_. hostsChange call []),
      (''PUT'', pat [''hosts''] @ [None], hostsChange call),
      (''DELETE'', pat [''hosts''] @ [None], hostsChange call)]
     @ map (\<lambda>(rpc, action). (''POST'', pat [''avahi'', action], \<lambda>_. mutation call [] () rpc (\<lambda>_. InEmpty))) control_actions
     @ [(''GET'', pat [''avahi'', ''status''], \<lambda>_ r st s. (respond 200 (PProbe (en_status E)), st, s)),
      (''GET'', pat [''status''], \<lambda>_. overview call E),
      (''GET'', pat [''interfaces''], \<lambda>_. answering (interfaces call E) PInterfaces),
      (''GET'', pat [''discovery''], \<lambda>_ r st s. (respond 200 (PDiscovery (discovery_view (ap_discovery s))), st, s)),
      (''GET'', pat [''discovery'', ''events''], \<lambda>_. discoveryEvents ch),
      (''GET'', pat [''logs''], \<lambda>_. logs E),
      (''GET'', pat [''logs'', ''events''], \<lambda>_. logEvents),
      (''GET'', pat [''snapshots''], \<lambda>_. answering (snapshots_synced call) PManifests),
      (''POST'', pat [''snapshots''], \<lambda>_. mutation call create_snapshot_fields \<lparr>rq_reason = []\<rparr> ''CreateSnapshot'' InReason),
      (''GET'', pat [''snapshots''] @ [None], \<lambda>i. answering (invoke call ''ViewSnapshot'' (InSnapshot \<lparr>rq_snapshot = i\<rparr>) as_snapshot)
         (\<lambda>(m, c). PAnswer (ASnapshot m c))),
      (''DELETE'', pat [''snapshots''] @ [None], \<lambda>i. mutation call [] () ''DeleteSnapshot'' (\<lambda>_. InSnapshot \<lparr>rq_snapshot = i\<rparr>)),
      (''POST'', pat [''snapshots''] @ [None, Some ''restore''], \<lambda>i. mutation call revision_field revision_zero ''RestoreSnapshot''
         (\<lambda>v. InRestore \<lparr>rq_revision = rq_revision v, rq_restore = i\<rparr>)),
      (''GET'', pat [''audit''], \<lambda>_ r. answering (audits_before r) PAudits r),
      (''GET'', pat [''jobs''], \<lambda>_. answering (db Jobs) PJobs)]"

text \<open>The multiplexer: the path is cleaned by a redirect, and a pattern for \<open>GET\<close> serves \<open>HEAD\<close> too.\<close>

definition clean_url :: "string \<Rightarrow> string" where
  "clean_url p =
     (let p = (if prefix ''/'' p then p else ''/'' @ p); n = path_clean p in
      if suffix ''/'' p \<and> n \<noteq> ''/'' then n @ ''/'' else n)"

definition segments :: "web_request \<Rightarrow> string list" where
  "segments r = map unescape (tl (split_on (CHR ''/'') (q_path r)))"

definition method_serves :: "string \<Rightarrow> string \<Rightarrow> bool" where
  "method_serves m m' \<longleftrightarrow> m = m' \<or> m = ''GET'' \<and> m' = ''HEAD''"

definition route :: "(string \<times> string option list \<times> (string \<Rightarrow> 'h handling)) list \<Rightarrow> web_request \<Rightarrow> 'h handling option" where
  "route table r =
     (case find (\<lambda>(m, p, h). method_serves m (q_method r) \<and> match_path p (segments r) None \<noteq> None) table of
        None \<Rightarrow> None
      | Some (m, p, h) \<Rightarrow> (case match_path p (segments r) None of
          Some (Some i) \<Rightarrow> Some (h i) | _ \<Rightarrow> Some (h [])))"

text \<open>\<open>ui\<close> serves everything outside \<open>/api/\<close>.\<close>

definition serve_ui :: "(web_request \<Rightarrow> response) option \<Rightarrow> web_request \<Rightarrow> response" where
  "serve_ui ui r =
     (case ui of
        None \<Rightarrow> respond 404 (PText ''404 page not found'')
      | Some f \<Rightarrow>
          if mutating r
          then (reject 405 ''method_not_allowed'' ''static assets only support GET and HEAD'')\<lparr>rs_allow := True\<rparr>
          else f r)"

definition below_api :: "web_request \<Rightarrow> bool" where
  "below_api r \<longleftrightarrow> (case segments r of a # b # _ \<Rightarrow> a = ''api'' | _ \<Rightarrow> False)"

definition serve_mux :: "gate \<Rightarrow> env \<Rightarrow> 'h rpc \<Rightarrow> nat \<Rightarrow> (web_request \<Rightarrow> response) option \<Rightarrow> 'h handling" where
  "serve_mux G E call ch ui r st s =
     (if segments r = [''api''] then (respond 307 (PRedirect ''/api/''), st, s)
      else if q_method r \<noteq> ''CONNECT'' \<and> clean_url (q_path r) \<noteq> q_path r
      then (respond 307 (PRedirect (clean_url (q_path r))), st, s)
      else (case route (routes G E call ch) r of
          Some h \<Rightarrow> h r st s
        | None \<Rightarrow> (if below_api r then reject 404 ''not_found'' ''API endpoint not found'' else serve_ui ui r, st, s)))"

definition Handler :: "gate \<Rightarrow> env \<Rightarrow> 'h rpc \<Rightarrow> nat \<Rightarrow> (web_request \<Rightarrow> response) option \<Rightarrow> web_request \<Rightarrow> 'h api \<Rightarrow> response \<times> 'h api" where
  "Handler G E call ch ui = web_audit E (security G (serve_mux G E call ch ui))"

end
