(* ===== verification/Watch.thy ===== *)
theory Watch
  imports Api
begin

text \<open>
  The watcher of the configuration directory (\<open>internal/config/watch.go\<close>) as a machine: one turn of its
  loop handles one event of the \<open>select\<close>, at a time, in what the file system then is. \<open>fsnotify\<close> is the
  environment: it delivers names of changed files, errors, or closes its channels. The timer gives its
  value to the loop at any time from its deadline on; \<open>Stop\<close> and \<open>Reset\<close> leave no stale value in its
  channel (Go 1.23 and later). The calls that the loop makes are recorded in their order.
\<close>

section \<open>The loop\<close>

datatype watch_call = Attach string | Report error | Changed

text \<open>\<open>wv_dirs\<close> are the directories that exist, \<open>wv_add\<close> tells which \<open>w.Add\<close> fails.\<close>

record watch_env =
  wv_dirs :: "string list"
  wv_add :: "string \<Rightarrow> error option"

text \<open>\<open>wa_timer\<close> is the timer with its deadline, \<open>wa_tick\<close> tells that \<open>tick\<close> is its channel and not nil.\<close>

record watch =
  wa_timer :: "nat option"
  wa_tick :: bool
  wa_calls :: "watch_call list"

datatype watch_event =
    Cancelled error
  | WatchError "error option"
  | FileEvent "string option"
  | Fired

datatype watch_turn = Continue watch | Return "error option" watch

type_synonym watch_input = "watch_env \<times> nat \<times> watch_event"

definition debounce :: nat where
  "debounce = 150 * 1000000"

definition add_calls :: "watch_call list \<Rightarrow> watch \<Rightarrow> watch" where
  "add_calls cs w = w\<lparr>wa_calls := wa_calls w @ cs\<rparr>"

definition services_dir :: "string \<Rightarrow> string" where
  "services_dir dir = path_join dir ''services''"

definition attach :: "watch_env \<Rightarrow> string \<Rightarrow> watch_call list" where
  "attach E dir =
     concat (map (\<lambda>p. if p \<in> set (wv_dirs E)
         then Attach p # (case wv_add E p of None \<Rightarrow> [] | Some e \<Rightarrow> [Report e]) else [])
       [dir, services_dir dir])"

definition watched_name :: "string \<Rightarrow> string \<Rightarrow> bool" where
  "watched_name dir name \<longleftrightarrow> name = dir \<or> path_dir name = dir \<or> path_dir name = services_dir dir"

definition tick_due :: "nat \<Rightarrow> watch \<Rightarrow> bool" where
  "tick_due time w \<longleftrightarrow> wa_tick w \<and> (case wa_timer w of None \<Rightarrow> False | Some t \<Rightarrow> t \<le> time)"

text \<open>A tick that is not due is no case of the \<open>select\<close>: nothing happens.\<close>

fun watch_step :: "string \<Rightarrow> watch_input \<Rightarrow> watch \<Rightarrow> watch_turn" where
  "watch_step dir (E, time, Cancelled e) w = Return (Some e) w"
| "watch_step dir (E, time, WatchError None) w = Return None w"
| "watch_step dir (E, time, WatchError (Some e)) w = Continue (add_calls [Report e, Changed] w)"
| "watch_step dir (E, time, FileEvent None) w = Return None w"
| "watch_step dir (E, time, FileEvent (Some name)) w =
     (if \<not> watched_name dir name then Continue w
      else Continue (w\<lparr>wa_timer := Some (time + debounce), wa_tick := True\<rparr>))"
| "watch_step dir (E, time, Fired) w =
     (if tick_due time w then Continue (add_calls (attach E dir @ [Changed]) (w\<lparr>wa_tick := False\<rparr>)) else Continue w)"

fun watch_run :: "string \<Rightarrow> watch_input list \<Rightarrow> watch \<Rightarrow> watch_turn" where
  "watch_run dir [] w = Continue w"
| "watch_run dir (x # xs) w =
     (case watch_step dir x w of Continue w \<Rightarrow> watch_run dir xs w | Return e w \<Rightarrow> Return e w)"

definition watch_start :: watch where
  "watch_start = \<lparr>wa_timer = None, wa_tick = False, wa_calls = []\<rparr>"

text \<open>\<open>created\<close> is the error of \<open>fsnotify.NewWatcher\<close>.\<close>

definition Watch :: "string \<Rightarrow> error option \<Rightarrow> watch_env \<Rightarrow> watch_input list \<Rightarrow> watch_turn" where
  "Watch dir created E xs =
     (let parent = path_dir (path_clean dir) in
      case created of
        Some e \<Rightarrow> Return (Some e) watch_start
      | None \<Rightarrow>
          (let w = add_calls [Attach parent] watch_start in
           case wv_add E parent of
             Some e \<Rightarrow> Return (Some e) w
           | None \<Rightarrow> watch_run dir xs (add_calls (attach E dir @ [Changed]) w)))"

text \<open>\<open>Server.WatchConfiguration\<close>: every report of a change wakes the subscribers.\<close>

definition wake :: "watch_call list \<Rightarrow> 'h api \<Rightarrow> 'h api" where
  "wake cs s = fold (\<lambda>c s. if c = Changed then notifyConfig s else s) cs s"

section \<open>No change is lost\<close>

lemma watch_run_append:
  "watch_run dir (xs @ ys) w = (case watch_run dir xs w of Continue w \<Rightarrow> watch_run dir ys w | Return e w \<Rightarrow> Return e w)"
  by (induction xs arbitrary: w) (auto split: watch_turn.split)

lemma add_calls_fields [simp]:
  "wa_timer (add_calls cs w) = wa_timer w" "wa_tick (add_calls cs w) = wa_tick w" "wa_calls (add_calls cs w) = wa_calls w @ cs"
  by (simp_all add: add_calls_def)

text \<open>The time of the last event that matters, and whether the loop owes a report for one.\<close>

definition matters :: "string \<Rightarrow> watch_input \<Rightarrow> bool" where
  "matters dir x = (case x of (E, time, FileEvent (Some name)) \<Rightarrow> watched_name dir name | _ \<Rightarrow> False)"

fun last_change :: "string \<Rightarrow> nat \<Rightarrow> watch_input list \<Rightarrow> nat" where
  "last_change dir t [] = t"
| "last_change dir t (x # xs) = last_change dir (if matters dir x then fst (snd x) else t) xs"

definition armed :: "nat \<Rightarrow> watch \<Rightarrow> bool" where
  "armed t w \<longleftrightarrow> wa_tick w \<and> wa_timer w = Some (t + debounce)"

lemma step_calls:
  "watch_step dir x w = Continue w' \<Longrightarrow> \<exists>cs. wa_calls w' = wa_calls w @ cs"
  by (cases "(dir, x, w)" rule: watch_step.cases) (auto split: if_splits)

lemma run_calls: "watch_run dir xs w = Continue w' \<Longrightarrow> \<exists>cs. wa_calls w' = wa_calls w @ cs"
proof (induction xs arbitrary: w)
  case (Cons x xs)
  then obtain u where u: "watch_step dir x w = Continue u" "watch_run dir xs u = Continue w'"
    by (auto split: watch_turn.splits)
  then show ?case using step_calls [OF u(1)] Cons.IH [OF u(2)] by force
qed simp

text \<open>One turn of an armed loop: it stays armed for the last change, or it reports.\<close>

lemma armed_step:
  assumes "armed t w" "watch_step dir x w = Continue w'"
  shows "armed (if matters dir x then fst (snd x) else t) w' \<or> (\<exists>cs. wa_calls w' = wa_calls w @ cs \<and> Changed \<in> set cs)"
  using assms
  by (cases "(dir, x, w)" rule: watch_step.cases) (auto simp: armed_def matters_def split: if_splits)

lemma armed_run:
  assumes "armed t w" "watch_run dir xs w = Continue w'"
  shows "armed (last_change dir t xs) w' \<or> (\<exists>cs. wa_calls w' = wa_calls w @ cs \<and> Changed \<in> set cs)"
  using assms
proof (induction xs arbitrary: w t)
  case (Cons x xs)
  then obtain u where u: "watch_step dir x w = Continue u" "watch_run dir xs u = Continue w'"
    by (auto split: watch_turn.splits)
  from armed_step [OF Cons.prems(1) u(1)] show ?case
  proof
    assume "armed (if matters dir x then fst (snd x) else t) u"
    from Cons.IH [OF this u(2)] show ?thesis using step_calls [OF u(1)] by force
  next
    assume "\<exists>cs. wa_calls u = wa_calls w @ cs \<and> Changed \<in> set cs"
    then show ?thesis using run_calls [OF u(2)] by force
  qed
qed simp

lemma wake_keeps: "fmdom (ap_subs (wake cs s)) = fmdom (ap_subs s)"
  by (induction cs arbitrary: s) (auto simp: wake_def notifyConfig_def)

lemma notify_wakes: "ch |\<in>| fmdom (ap_subs s) \<Longrightarrow> fmlookup (ap_subs (notifyConfig s)) ch = Some True"
  by (auto simp: notifyConfig_def fmlookup_dom_iff)

lemma wake_stays: "fmlookup (ap_subs s) ch = Some True \<Longrightarrow> fmlookup (ap_subs (wake cs s)) ch = Some True"
  by (induction cs arbitrary: s) (auto simp: wake_def notifyConfig_def)

lemma wake_tokens:
  assumes "Changed \<in> set cs" "ch |\<in>| fmdom (ap_subs s)"
  shows "fmlookup (ap_subs (wake cs s)) ch = Some True"
proof -
  obtain a b where cs: "cs = a @ Changed # b" using split_list [OF assms(1)] by blast
  have "wake cs s = wake b (notifyConfig (wake a s))" by (simp add: cs wake_def)
  then show ?thesis using wake_stays notify_wakes assms(2) wake_keeps by metis
qed

text \<open>
  C21. No change of the configuration is lost: as long as the watcher runs, a change of a watched name has either
  been reported since, or the timer is set for 150 ms after the last change. When that tick is received,
  the directories that exist are attached again, the change is reported, and every stream that is
  subscribed has a token in its channel.
\<close>

theorem watch_loses_nothing:
  fixes s :: "'h api"
  assumes "watched_name dir name"
    and "watch_run dir xs w = Continue u"
    and "watch_run dir (xs @ (E, t, FileEvent (Some name)) # ys) w = Continue w'"
  shows "(\<exists>cs. wa_calls w' = wa_calls u @ cs \<and> Changed \<in> set cs \<and>
        (\<forall>ch. ch |\<in>| fmdom (ap_subs s) \<longrightarrow> fmlookup (ap_subs (wake cs s)) ch = Some True)) \<or>
    (wa_tick w' \<and> wa_timer w' = Some (last_change dir t ys + debounce) \<and>
      (\<forall>E' t'. last_change dir t ys + debounce \<le> t' \<longrightarrow> watch_step dir (E', t', Fired) w' =
         Continue (w'\<lparr>wa_tick := False, wa_calls := wa_calls w' @ attach E' dir @ [Changed]\<rparr>)))"
proof -
  let ?u = "u\<lparr>wa_timer := Some (t + debounce), wa_tick := True\<rparr>"
  have "watch_run dir ys ?u = Continue w'" using assms by (simp add: watch_run_append)
  from armed_run [OF _ this, of t]
  have "armed (last_change dir t ys) w' \<or> (\<exists>cs. wa_calls w' = wa_calls u @ cs \<and> Changed \<in> set cs)"
    by (simp add: armed_def)
  then show ?thesis
  proof
    assume "armed (last_change dir t ys) w'"
    then show ?thesis by (intro disjI2) (auto simp: armed_def tick_due_def add_calls_def)
  next
    assume "\<exists>cs. wa_calls w' = wa_calls u @ cs \<and> Changed \<in> set cs"
    then show ?thesis using wake_tokens by blast
  qed
qed

definition sample_edit :: "nat \<Rightarrow> watch_input" where
  "sample_edit time = (\<lparr>wv_dirs = [''/e''], wv_add = Map.empty\<rparr>, time, FileEvent (Some ''/e/hosts''))"

lemma sample_watched: "watched_name ''/e'' ''/e/hosts''"
  by (simp add: watched_name_def path_dir_def path_clean_def Let_def)

lemma watch_loses_nothing_witness:
  "watch_step ''/e'' (\<lparr>wv_dirs = [''/e''], wv_add = Map.empty\<rparr>, 5 + debounce, Fired)
     \<lparr>wa_timer = Some (5 + debounce), wa_tick = True, wa_calls = []\<rparr> =
   Continue \<lparr>wa_timer = Some (5 + debounce), wa_tick = False, wa_calls = [Attach ''/e'', Changed]\<rparr>"
proof -
  let ?w = "\<lparr>wa_timer = Some (5 + debounce), wa_tick = True, wa_calls = []\<rparr>"
  have "watch_run ''/e'' ([] @ sample_edit 3 # [sample_edit 5]) watch_start = Continue ?w"
    by (simp add: sample_edit_def sample_watched watch_start_def)
  then have "\<forall>E' t'. 5 + debounce \<le> t' \<longrightarrow> watch_step ''/e'' (E', t', Fired) ?w =
      Continue (?w\<lparr>wa_tick := False, wa_calls := wa_calls ?w @ attach E' ''/e'' @ [Changed]\<rparr>)"
    using watch_loses_nothing [OF sample_watched, of "[]" watch_start watch_start _ 3 "[sample_edit 5]" ?w]
    by (simp add: sample_edit_def matters_def sample_watched watch_start_def)
  then show ?thesis by (simp add: attach_def services_dir_def path_join_def path_clean_def Let_def)
qed

section \<open>Reports wait for quiet\<close>

lemma tick_last_step:
  assumes "wa_tick w \<longrightarrow> armed t w" "watch_step dir x w = Continue w'"
  shows "wa_tick w' \<longrightarrow> armed (if matters dir x then fst (snd x) else t) w'"
  using assms
  by (cases "(dir, x, w)" rule: watch_step.cases) (auto simp: armed_def matters_def split: if_splits)

lemma tick_last:
  assumes "wa_tick w \<longrightarrow> armed t w" "watch_run dir xs w = Continue w'"
  shows "wa_tick w' \<longrightarrow> armed (last_change dir t xs) w'"
  using assms
proof (induction xs arbitrary: w t)
  case (Cons x xs)
  then obtain u where u: "watch_step dir x w = Continue u" "watch_run dir xs u = Continue w'"
    by (auto split: watch_turn.splits)
  show ?case using Cons.IH [OF tick_last_step [OF Cons.prems(1) u(1)] u(2)] by simp
qed simp

lemma last_change_last:
  "sorted (t # map (fst \<circ> snd) xs) \<Longrightarrow> t \<le> last_change dir t xs \<and>
     (\<forall>x\<in>set xs. matters dir x \<longrightarrow> fst (snd x) \<le> last_change dir t xs)"
proof (induction xs arbitrary: t)
  case (Cons x xs)
  let ?t = "if matters dir x then fst (snd x) else t"
  have "sorted (?t # map (fst \<circ> snd) xs)" using Cons.prems by (auto simp: comp_def)
  from Cons.IH [OF this] show ?case using Cons.prems by (auto split: if_splits)
qed simp

text \<open>
  C22. Reports wait for quiet: in the order of time, the watcher takes a tick only when 150 ms have gone by since
  the last change of a watched name, so that a save in several steps is read after its last step.
\<close>

theorem watch_waits_for_quiet:
  assumes "watch_run dir xs watch_start = Continue w" "sorted (map (fst \<circ> snd) xs)"
    and "watch_step dir (E, t, Fired) w = Continue w'" "wa_calls w' \<noteq> wa_calls w"
    and "(E', t', FileEvent (Some name)) \<in> set xs" "watched_name dir name"
  shows "t' + debounce \<le> t"
proof -
  have due: "tick_due t w" using assms(3,4) by (auto split: if_splits)
  have "armed (last_change dir 0 xs) w"
    using tick_last [OF _ assms(1), of 0] due by (simp add: watch_start_def tick_due_def)
  moreover have "t' \<le> last_change dir 0 xs"
    using last_change_last [of 0 xs dir] assms(2,5,6) by (force simp: matters_def)
  ultimately show ?thesis using due by (simp add: armed_def tick_due_def)
qed

lemma watch_waits_for_quiet_witness:
  "wa_calls \<lparr>wa_timer = Some (5 + debounce), wa_tick = True, wa_calls = []\<rparr> = [] \<and> 3 + debounce \<le> 5 + debounce"
proof -
  let ?w = "\<lparr>wa_timer = Some (5 + debounce), wa_tick = True, wa_calls = []\<rparr>"
  have r: "watch_run ''/e'' [sample_edit 3, sample_edit 5] watch_start = Continue ?w"
    by (simp add: sample_edit_def sample_watched watch_start_def)
  have "watch_step ''/e'' (\<lparr>wv_dirs = [], wv_add = Map.empty\<rparr>, 5 + debounce, Fired) ?w =
      Continue \<lparr>wa_timer = Some (5 + debounce), wa_tick = False, wa_calls = [Changed]\<rparr>"
    by (simp add: tick_due_def attach_def add_calls_def)
  from watch_waits_for_quiet [OF r _ this _ _ sample_watched, of "\<lparr>wv_dirs = [''/e''], wv_add = Map.empty\<rparr>" 3]
  show ?thesis by (simp add: sample_edit_def)
qed

text \<open>
  A configuration directory that is not given in its clean form is watched only in its services: the names of the
  files in it are below the clean form.
\<close>

lemma unclean_dir_missed:
  "\<not> watched_name ''/etc/avahi/'' ''/etc/avahi/hosts''" "\<not> watched_name ''/etc/avahi/'' ''/etc/avahi/avahi-daemon.conf''"
  by (simp_all add: watched_name_def services_dir_def path_dir_def path_clean_def path_join_def Let_def)

end
