(* ===== verification/ApiLaws.thy ===== *)
theory ApiLaws
  imports Api
begin

text \<open>
  What the web server keeps, whatever is sent to it: only signed-in requests of known origins reach the
  operations; every mutation is audited, before and after; what runs leaves the audit trail and the
  helper's state as the locale \<open>api_frame\<close> says; the accepted baseline follows every successful
  mutation; a host edit changes one entry; and the disk behind the helper stays sound.
\<close>

section \<open>Paths\<close>

definition slashed :: "string list \<Rightarrow> string" where
  "slashed ss = concat (map (\<lambda>s. CHR ''/'' # s) ss)"

lemma hex_no_slash: "json_hex (CHR ''/'') = None"
  by code_simp

lemma unescape_pieces:
  "unescape_from p = Some u \<Longrightarrow> \<exists>us. map unescape_from (split_on (CHR ''/'') p) = map Some us \<and> CHR ''/'' # u = slashed us"
proof (induction p arbitrary: u rule: unescape_from.induct)
  case 1
  then show ?case by (intro exI [of _ "[[]]"]) (simp add: slashed_def)
next
  case (2 c s)
  show ?case
  proof (cases "c = CHR ''%''")
    case False
    then obtain v where v: "unescape_from s = Some v" "u = c # v" using 2(3) by auto
    from 2(1) [OF False v(1)] obtain us where us: "map unescape_from (split_on (CHR ''/'') s) = map Some us" "CHR ''/'' # v = slashed us" by blast
    obtain p ps where p: "split_on (CHR ''/'') s = p # ps" by (cases "split_on (CHR ''/'') s") auto
    then obtain w ws where w: "us = w # ws" "unescape_from p = Some w" using us(1) by (cases us) auto
    show ?thesis
    proof (cases "c = CHR ''/''")
      case True
      then show ?thesis using us v p by (intro exI [of _ "[] # us"]) (simp add: slashed_def)
    next
      case 3: False
      then show ?thesis using us v p w False by (intro exI [of _ "(c # w) # ws"]) (simp add: slashed_def)
    qed
  next
    case True
    then obtain a b r x y v where r: "s = a # b # r" "json_hex a = Some x" "json_hex b = Some y" "unescape_from r = Some v"
        "u = char_of (16 * x + y) # v"
      using 2(3) by (auto split: list.splits option.splits)
    have n: "a \<noteq> CHR ''/''" "b \<noteq> CHR ''/''" using r(2,3) hex_no_slash by auto
    have "unescape_from r = Some v \<Longrightarrow> \<exists>us. map unescape_from (split_on (CHR ''/'') r) = map Some us \<and> CHR ''/'' # v = slashed us"
      using 2(2) r True by auto
    then obtain us where us: "map unescape_from (split_on (CHR ''/'') r) = map Some us" "CHR ''/'' # v = slashed us"
      using r(4) by blast
    obtain p ps where p: "split_on (CHR ''/'') r = p # ps" by (cases "split_on (CHR ''/'') r") auto
    then obtain w ws where w: "us = w # ws" "unescape_from p = Some w" using us(1) by (cases us) auto
    show ?thesis
      using us r p w True n
      by (intro exI [of _ "(char_of (16 * x + y) # w) # ws"]) (simp add: slashed_def)
  qed
qed

lemma slashed_simps [simp]: "slashed [] = []" "slashed (s # ss) = CHR ''/'' # s @ slashed ss"
  by (simp_all add: slashed_def)

lemma unescape_all: "map f xs = map Some us \<Longrightarrow> map (\<lambda>s. case f s of None \<Rightarrow> s | Some t \<Rightarrow> t) xs = us"
  by (induction xs arbitrary: us) (auto simp: Cons_eq_map_conv)

text \<open>The path that the checks see is made of the segments that the multiplexer sees.\<close>

lemma url_path_segments:
  assumes "unescape_from (q_path r) \<noteq> None" "prefix ''/'' (q_path r)"
  shows "url_path r = slashed (segments r)"
proof -
  obtain p where p: "q_path r = CHR ''/'' # p" using assms(2) by (auto simp: prefix_def)
  then obtain u where u: "unescape_from p = Some u" using assms(1) by auto
  then obtain us where us: "map unescape_from (split_on (CHR ''/'') p) = map Some us" "CHR ''/'' # u = slashed us"
    using unescape_pieces by blast
  have "map unescape (split_on (CHR ''/'') p) = us"
    using us(1) unescape_all by (simp add: unescape_def [abs_def])
  then show ?thesis using u us(2) p by (simp add: url_path_def unescape_def segments_def)
qed

lemma clean_url_rooted: "clean_url p = p \<Longrightarrow> prefix ''/'' p"
proof -
  have "prefix ''/'' (clean_url p)"
    by (auto simp: clean_url_def path_clean_def Let_def)
  then show "clean_url p = p \<Longrightarrow> prefix ''/'' p" by simp
qed

section \<open>What the database operations leave alone\<close>

definition trail_of :: "database \<Rightarrow> (string \<times> string \<times> string \<times> string) list" where
  "trail_of d = lg_audit (ledger_of (sq_tables d))"

definition unlogged :: "'a sql \<Rightarrow> bool" where
  "unlogged m \<longleftrightarrow> (\<forall>d. trail_of (snd (m d)) = trail_of d)"

named_theorems unlogged_rules

lemma unlogged_reads: "reads m \<Longrightarrow> unlogged m"
  by (simp add: unlogged_def reads_def trail_of_def)

lemma unlogged_books:
  assumes "atomic m" "books m f" "\<And>l. lg_audit (f l) = lg_audit l"
  shows "unlogged m"
  unfolding unlogged_def
proof
  fix d
  obtain r d' where r: "m d = (r, d')" by fastforce
  show "trail_of (snd (m d)) = trail_of d"
  proof (cases r)
    case (Inl e)
    then show ?thesis using atomicD [OF assms(1)] r by (simp add: trail_of_def)
  next
    case (Inr x)
    then have "ledger_of (sq_tables d') = f (ledger_of (sq_tables d))"
      using assms(2) r unfolding books_def does_def by blast
    then show ?thesis using assms(3) r by (simp add: trail_of_def)
  qed
qed

lemma unlogged_store [unlogged_rules]:
  "unlogged (SaveBaseline m v h)" "unlogged (SyncSnapshots ms)"
proof -
  have "atomic (SaveBaseline m v h)" "atomic (SyncSnapshots ms)"
    by (auto simp: SaveBaseline_def SyncSnapshots_def intro: atomic_transaction)
  then show "unlogged (SaveBaseline m v h)" "unlogged (SyncSnapshots ms)"
    using books_op [of "OpSave m v h"] books_op [of "OpSync ms"] by (auto intro: unlogged_books)
qed

lemma unlogged_observe [unlogged_rules]: "unlogged (ObserveFiles h)"
proof -
  have "atomic (bind_sql (ObserveFiles h) (\<lambda>_. done_sql ()))"
    unfolding ObserveFiles_def by (intro atomic_done atomic_transaction)
  then have "unlogged (bind_sql (ObserveFiles h) (\<lambda>_. done_sql ()))"
    using books_op [of "OpObserve h"] by (auto intro: unlogged_books)
  moreover have "snd (bind_sql (ObserveFiles h) (\<lambda>_. done_sql ()) d) = snd (ObserveFiles h d)" for d
    by (auto simp: bind_sql_def done_sql_def split: prod.split sum.split)
  ultimately show ?thesis by (simp add: unlogged_def)
qed

lemma reads_Session: "reads (Session token)"
  unfolding Session_def by (auto intro!: reads_bind reads_basic split: option.split)

lemma unlogged_queries [unlogged_rules]:
  "unlogged (Setting k)" "unlogged (Session token)" "unlogged Jobs" "unlogged (Audits n l)"
  by (auto simp: Setting_def Jobs_def Audits_def Let_def intro!: unlogged_reads reads_basic reads_Session)

lemma unlogged_interrupt [unlogged_rules]: "unlogged InterruptJobs"
proof -
  have "atomic InterruptJobs"
    unfolding InterruptJobs_def update_jobs_def by (intro atomic_bind reads_basic atomic_done atomic_exec)
  then show ?thesis using books_op [of OpInterrupt] by (auto intro: unlogged_books)
qed

lemma unlogged_Logout [unlogged_rules]: "unlogged (Logout token)"
  unfolding Logout_def
  by (rule unlogged_books [OF atomic_exec books_exec [where g = "\<lambda>l. l"]]) (auto simp: ledger_of_def)

lemma books_login: "books (login_db A dummy u p r1 r2) (\<lambda>l. l)"
proof -
  have 1: "books drop_expired (\<lambda>l. l)" "books drop_oldest (\<lambda>l. l)" "books (insert_session i h e) (\<lambda>l. l)" "books stamp_login (\<lambda>l. l)"
    for i h e
    unfolding drop_expired_def drop_oldest_def insert_session_def stamp_login_def
    by (intro books_now books_exec; auto simp: ledger_of_def Let_def split: if_splits)+
  have 2: "books (lift_sql r) (\<lambda>l. l)" for r :: "string result" by (auto simp: books_def does_def lift_sql_def)
  have 3: "books clock (\<lambda>l. l)" by (auto simp: books_def does_def clock_def)
  note b = books_bind [where f = "\<lambda>l. l" and g = "\<lambda>l. l"]
  have "books (login_session t i n) (\<lambda>l. l)" for t i n
    unfolding login_session_def Let_def
    by (intro b [OF 3] b [OF books_transaction] b 1 books_done)
  then show ?thesis
    unfolding login_db_def Let_def by (intro b books_query) (auto intro!: b 2 books_done)
qed

lemma trail_login:
  assumes "Login A ip u p r1 r2 a d = (out, a', d')"
  shows "trail_of d' = trail_of d"
proof -
  have "unlogged (login_db A dummy u p r1 r2)" for dummy
    by (rule unlogged_books [OF atomic_login_db books_login]) simp
  then have "trail_of (snd (login_db A dummy u p r1 r2 (d\<lparr>sq_tick := Suc (sq_tick d)\<rparr>))) = trail_of d" for dummy
    by (simp add: unlogged_def trail_of_def)
  from this [of "at_dummy a"] show ?thesis
    using assms by (auto simp: Login_def Let_def trail_of_def split: prod.splits sum.splits if_splits)
qed

section \<open>What every handler leaves alone\<close>

text \<open>
  A predicate on the server's state that a call of the helper keeps, and every change of the database
  that writes no audit entry, is kept by every handler. \<open>stays\<close> and \<open>holds_in\<close> are this property of
  a computation and of a handler.
\<close>

definition stays :: "('h api \<Rightarrow> bool) \<Rightarrow> ('h api \<Rightarrow> 'r \<times> 'h api) \<Rightarrow> bool" where
  "stays P m \<longleftrightarrow> (\<forall>s. P s \<longrightarrow> P (snd (m s)))"

definition handler_stays :: "('h api \<Rightarrow> bool) \<Rightarrow> 'h handling \<Rightarrow> bool" where
  "handler_stays P h \<longleftrightarrow> (\<forall>r st s. P s \<longrightarrow> P (snd (snd (h r st s))))"

lemma staysD: "stays P m \<Longrightarrow> m s = (x, s') \<Longrightarrow> P s \<Longrightarrow> P s'"
  by (force simp: stays_def)

lemma stays_give: "stays P (give x)"
  by (simp add: stays_def give_def)

lemma stays_fail: "stays P (\<lambda>s. (Inl e, s))"
  by (simp add: stays_def)

lemma stays_bind: "stays P m \<Longrightarrow> (\<And>x. stays P (f x)) \<Longrightarrow> stays P (bind_web m f)"
  by (force simp: stays_def bind_web_def split: prod.splits sum.splits)

lemma route_in: "route table r = Some h \<Longrightarrow> \<exists>m p k i. (m, p, k) \<in> set table \<and> h = k i \<and> match_path p (segments r) None \<noteq> None \<and> method_serves m (q_method r)"
proof -
  assume r: "route table r = Some h"
  then obtain x where x: "find (\<lambda>(m, p, h). method_serves m (q_method r) \<and> match_path p (segments r) None \<noteq> None) table = Some x"
    by (auto simp: route_def split: option.splits)
  then have "x \<in> set table" "case x of (m, p, h) \<Rightarrow> method_serves m (q_method r) \<and> match_path p (segments r) None \<noteq> None"
    by (auto simp: find_Some_iff intro: nth_mem)
  moreover obtain m p k where "x = (m, p, k)" by (cases x)
  moreover have "\<exists>i. h = k i" if "x = (m, p, k)" for m p k
    using r x that by (auto simp: route_def split: option.splits)
  ultimately show ?thesis by blast
qed

locale api_frame =
  fixes call :: "'h rpc" and P :: "'h api \<Rightarrow> bool"
  assumes call_keeps: "P s \<Longrightarrow> P (s\<lparr>ap_helper := snd (call m i (ap_helper s))\<rparr>)"
    and db_keeps: "P s \<Longrightarrow> trail_of d = trail_of (ap_db s) \<Longrightarrow> P (s\<lparr>ap_db := d\<rparr>)"
    and memory_keeps: "P s \<Longrightarrow> P (s\<lparr>ap_auth := a, ap_discovery := c, ap_subs := ss, ap_slots := n\<rparr>)"
begin

lemma stays_invoke: "stays P (invoke call m i pick)"
  by (auto simp: stays_def invoke_def Let_def call_keeps split: prod.split) (metis call_keeps snd_conv)

lemma stays_db: "unlogged m \<Longrightarrow> stays P (db m)"
  by (auto simp: stays_def db_def unlogged_def split: prod.split) (metis db_keeps snd_conv)

lemma keeps_parts:
  "P s \<Longrightarrow> P (s\<lparr>ap_subs := ss\<rparr>)" "P s \<Longrightarrow> P (s\<lparr>ap_auth := a\<rparr>)" "P s \<Longrightarrow> P (s\<lparr>ap_slots := n\<rparr>)"
  "P s \<Longrightarrow> P (s\<lparr>ap_discovery := c\<rparr>)"
  using memory_keeps [where s = s and a = a and c = "ap_discovery s" and ss = "ap_subs s" and n = "ap_slots s"]
    memory_keeps [where s = s and a = "ap_auth s" and c = "ap_discovery s" and ss = ss and n = "ap_slots s"]
    memory_keeps [where s = s and a = "ap_auth s" and c = "ap_discovery s" and ss = "ap_subs s" and n = n]
    memory_keeps [where s = s and a = "ap_auth s" and c = c and ss = "ap_subs s" and n = "ap_slots s"]
  by simp_all

lemma stays_sync: "stays P (syncBaseline call)"
  unfolding syncBaseline_def
  by (intro stays_bind stays_invoke) (auto intro: stays_db unlogged_rules)

lemma stays_configuration: "stays P (api_configuration call)"
  unfolding stays_def api_configuration_def
proof (intro allI impI)
  fix s assume s: "P s"
  obtain r s1 where r: "db (Setting ''managed_snapshot'') s = (r, s1)" by fastforce
  then have s1: "P s1" using staysD [OF stays_db [OF unlogged_queries(1)] r s] by simp
  have "stays P (bind_web (case r of
               Inl e \<Rightarrow> if missing_setting e then syncBaseline call else (\<lambda>s. (Inl e, s))
             | Inr _ \<Rightarrow> give ()) (\<lambda>_.
          bind_web (invoke call ''ReadConfiguration'' InEmpty as_configuration) (\<lambda>c.
          bind_web (db (ObserveFiles (cf_hashes c))) (\<lambda>ds.
          bind_web (db (Setting ''managed_snapshot'')) (\<lambda>i.
            give \<lparr>cv_config = c, cv_drift = ds, cv_snapshot = i\<rparr>)))))"
    by (intro stays_bind stays_invoke stays_db unlogged_rules stays_give)
      (auto intro: stays_sync stays_fail stays_give split: sum.split)
  then show "P (snd (case db (Setting ''managed_snapshot'') s of (r, s) \<Rightarrow>
        bind_web (case r of Inl e \<Rightarrow> if missing_setting e then syncBaseline call else (\<lambda>s. (Inl e, s)) | Inr _ \<Rightarrow> give ())
          (\<lambda>_. bind_web (invoke call ''ReadConfiguration'' InEmpty as_configuration) (\<lambda>c.
            bind_web (db (ObserveFiles (cf_hashes c))) (\<lambda>ds. bind_web (db (Setting ''managed_snapshot''))
              (\<lambda>i. give \<lparr>cv_config = c, cv_drift = ds, cv_snapshot = i\<rparr>)))) s))"
    using s1 by (simp add: r stays_def)
qed

lemma stays_mutate: "stays P (mutate call m i)"
  unfolding stays_def mutate_def
  by (auto simp: Let_def notifyConfig_def split: prod.split
      intro!: keeps_parts(1) dest: staysD [OF stays_invoke] staysD [OF stays_sync])

lemma handler_answering: "stays P m \<Longrightarrow> handler_stays P (answering m f)"
  by (auto simp: handler_stays_def answering_def split: prod.split sum.split dest: staysD)

lemma handler_mutation: "handler_stays P (mutation call fs zero m input)"
  by (auto simp: handler_stays_def mutation_def Let_def split: prod.split sum.split dest: staysD [OF stays_mutate])

lemma handler_const: "(\<And>r st s. snd (snd (h r st s)) = s) \<Longrightarrow> handler_stays P h"
  by (simp add: handler_stays_def)

lemma handler_login: "handler_stays P (login G E)"
  unfolding handler_stays_def
proof (intro allI impI)
  fix r st s assume s: "P s"
  have "P (s\<lparr>ap_auth := a, ap_db := d\<rparr>)" if "Login K ip u p r1 r2 (ap_auth s) (ap_db s) = (out, a, d)" for K ip u p r1 r2 out a d
    using db_keeps [OF keeps_parts(2) [OF s], of d a] trail_login [OF that] by simp
  then show "P (snd (snd (login G E r st s)))"
    using s by (auto simp: login_def Let_def split: sum.split prod.split)
qed

lemma handler_logout: "handler_stays P (logout G)"
  by (auto simp: handler_stays_def logout_def split: prod.split sum.split dest: staysD [OF stays_db [OF unlogged_Logout]])

lemma handler_hosts: "handler_stays P (hostsChange call i)" "handler_stays P (hostsList call)"
  by (auto simp: handler_stays_def hostsChange_def hostsList_def Let_def split: prod.split sum.split option.split
      dest: staysD [OF stays_invoke] staysD [OF stays_mutate])

lemma handler_service: "handler_stays P (writeService call i)"
  by (auto simp: handler_stays_def writeService_def Let_def split: prod.split sum.split dest: staysD [OF stays_mutate])

lemma handler_overview: "handler_stays P (overview call E)"
  by (auto simp: handler_stays_def overview_def Let_def split: prod.split dest: staysD [OF stays_configuration])

lemma handler_streams: "handler_stays P (configEvents ch)" "handler_stays P (discoveryEvents ch)" "handler_stays P logEvents"
proof -
  have "P s' \<Longrightarrow> P (s'\<lparr>ap_discovery := c\<rparr>)" "P s' \<Longrightarrow> P (s'\<lparr>ap_subs := ss\<rparr>)" for s' c ss
    by (rule keeps_parts; assumption)+
  then show "handler_stays P (configEvents ch)" "handler_stays P (discoveryEvents ch)" "handler_stays P logEvents"
    using keeps_parts(3)
    by (auto simp: handler_stays_def configEvents_def discoveryEvents_def logEvents_def take_slot_def split: sum.split option.splits if_splits)
qed

lemma stays_lists: "stays P (interfaces call E)" "stays P (snapshots_synced call)"
  unfolding interfaces_def snapshots_synced_def
  by (auto intro!: stays_bind stays_invoke stays_give stays_fail stays_db unlogged_rules split: sum.split)

lemma handler_audits: "handler_stays P (\<lambda>r. answering (audits_before r) PAudits r)"
proof -
  have "stays P (audits_before r)" for r unfolding audits_before_def by (intro stays_db unlogged_rules)
  from handler_answering [OF this] show ?thesis unfolding handler_stays_def by blast
qed

lemma handler_logs: "handler_stays P (logs E)"
  by (rule handler_const) (auto simp: logs_def split: sum.split prod.split option.split)

lemma routes_stay:
  assumes "(m, p, h) \<in> set (routes G E call ch)"
  shows "handler_stays P (h i)"
  using assms unfolding routes_def control_actions_def
  by (auto intro!: handler_answering handler_mutation handler_login handler_logout handler_hosts handler_service handler_overview
      handler_streams handler_audits handler_logs stays_configuration stays_invoke stays_lists stays_db unlogged_rules
      intro: handler_const)

lemma handler_mux: "handler_stays P (serve_mux G E call ch ui)"
  unfolding handler_stays_def
proof (intro allI impI)
  fix r st s assume s: "P s"
  have "P (snd (snd (h r st s)))" if "route (routes G E call ch) r = Some h" for h
    using route_in [OF that] routes_stay s by (auto simp: handler_stays_def)
  then show "P (snd (snd (serve_mux G E call ch ui r st s)))"
    using s by (auto simp: serve_mux_def split: option.split)
qed

lemma handler_security: "handler_stays P (security G (serve_mux G E call ch ui))"
  using handler_mux staysD [OF stays_db [OF unlogged_queries(2)]]
  by (auto simp: handler_stays_def security_def Let_def split: option.split prod.split sum.split)

end

section \<open>Only signed-in requests of known origins\<close>

text \<open>What a refused request may change: nothing but the database's clock, faults and audit.\<close>

definition untouched :: "'h api \<Rightarrow> 'h api \<Rightarrow> bool" where
  "untouched s s' \<longleftrightarrow> ap_helper s' = ap_helper s \<and> ap_auth s' = ap_auth s \<and> ap_discovery s' = ap_discovery s \<and>
     ap_subs s' = ap_subs s \<and> ap_slots s' = ap_slots s \<and> sq_clock (ap_db s') = sq_clock (ap_db s) \<and>
     (sq_tables (ap_db s'))\<lparr>db_audit := [], db_audit_seq := 0\<rparr> = (sq_tables (ap_db s))\<lparr>db_audit := [], db_audit_seq := 0\<rparr>"

lemma untouched_refl: "untouched s s"
  by (simp add: untouched_def)

lemma untouched_trans: "untouched s t \<Longrightarrow> untouched t u \<Longrightarrow> untouched s u"
  by (simp add: untouched_def)

definition from_here :: "gate \<Rightarrow> web_request \<Rightarrow> bool" where
  "from_here G r \<longleftrightarrow> q_host r \<in> set (gt_hosts G) \<and> q_site r \<noteq> ''cross-site'' \<and>
     (if q_origin r = [] then \<not> mutating r else q_origin r \<in> set (gt_origins G))"

text \<open>The request carries the token of a session that has not expired at the reading \<open>k\<close> of the clock.\<close>

definition session_at :: "nat \<Rightarrow> web_request \<Rightarrow> 'h api \<Rightarrow> bool" where
  "session_at k r s \<longleftrightarrow> (\<exists>token row. q_cookie r = Some token \<and> length token = 64 \<and> db_user (sq_tables (ap_db s)) \<noteq> None \<and>
     row \<in> set (db_sessions (sq_tables (ap_db s))) \<and> se_token row = tokenHash token \<and>
     time_text (sq_clock (ap_db s) k) < se_expires row \<and> (mutating r \<longrightarrow> q_csrf r = csrf token))"

text \<open>
  The reading that decides is made while the request is served: before it come at most that of the
  session of the actor and that of the audit entry, both of this request.
\<close>

definition signed_in :: "web_request \<Rightarrow> 'h api \<Rightarrow> bool" where
  "signed_in r s \<longleftrightarrow> (\<exists>k. sq_tick (ap_db s) \<le> k \<and> k \<le> sq_tick (ap_db s) + 2 \<and> session_at k r s)"

lemma Session_clock: "sq_clock (snd (Session token d)) = sq_clock d"
  unfolding Session_def bind_sql_def Now_def clock_def query_def faulty_def fail_sql_def done_sql_def
  by (auto simp: Let_def split: sum.split option.split list.split bool.split prod.split)

lemma Session_untouched: "db (Session token) s = (x, s') \<Longrightarrow> untouched s s'"
  using reads_Session [of token, unfolded reads_def, rule_format, of "ap_db s"] Session_clock [of token "ap_db s"]
  by (auto simp: db_def untouched_def split: prod.splits)

lemma faulty_query:
  "query f d = (Inr x, d') \<Longrightarrow> f (sq_tables d) = Inr x"
  by (auto simp: query_def faulty_def split: list.splits bool.splits)

lemma Session_live:
  assumes "Session token d = (Inr ss, d')"
  shows "ss_csrf ss = csrf token \<and> length token = 64 \<and> db_user (sq_tables d) \<noteq> None \<and>
    (\<exists>row. row \<in> set (db_sessions (sq_tables d)) \<and> se_token row = tokenHash token \<and>
       time_text (sq_clock d (sq_tick d)) < se_expires row)"
proof -
  have len: "length token = 64" using assms by (cases "length token = 64") (simp_all add: Session_def fail_sql_def)
  let ?now = "time_text (sq_clock d (sq_tick d))" and ?d = "d\<lparr>sq_tick := Suc (sq_tick d)\<rparr>"
  have now: "Now d = (Inr ?now, ?d)" by (simp add: Now_def bind_sql_def clock_def done_sql_def)
  let ?q = "\<lambda>t. case (db_user t, find (\<lambda>r. se_token r = tokenHash token \<and> se_expires r > ?now) (db_sessions t)) of
            (Some u, Some r) \<Rightarrow> Inr (us_name u, se_expires r) | _ \<Rightarrow> Inl ErrSession"
  obtain u e d1 where q: "query ?q ?d = (Inr (u, e), d1)"
    and s: "(case parse_time e of None \<Rightarrow> fail_sql (Msg ''cannot parse time'')
        | Some t \<Rightarrow> done_sql \<lparr>ss_user = u, ss_csrf = csrf token, ss_expires = t\<rparr>) d1 = (Inr ss, d')"
    using assms len by (auto simp: Session_def bind_sql_def [of Now] now bind_sql_def [of "query _"] split: prod.splits sum.splits)
  from faulty_query [OF q] obtain row where "db_user (sq_tables d) \<noteq> None" "row \<in> set (db_sessions (sq_tables d))"
      "se_token row = tokenHash token" "se_expires row > ?now"
    by (auto simp: find_Some_iff split: option.splits dest!: nth_mem)
  moreover have "ss_csrf ss = csrf token" using s by (auto simp: fail_sql_def done_sql_def split: option.splits)
  ultimately show ?thesis using len by blast
qed

lemma Audit_untouched: "db (Audit a c p r x) s = (y, s') \<Longrightarrow> untouched s s'"
  unfolding Audit_def untouched_def
  by (auto simp: db_def bind_sql_def Now_def clock_def done_sql_def exec_def faulty_def fail_sql_def Let_def
      split: prod.splits sum.splits list.splits bool.splits)

lemma Audit_tick:
  "db (Audit a c p r x) s = (y, s') \<Longrightarrow> sq_tick (ap_db s) \<le> sq_tick (ap_db s') \<and> sq_tick (ap_db s') \<le> Suc (sq_tick (ap_db s))"
  unfolding Audit_def
  by (auto simp: db_def bind_sql_def Now_def clock_def done_sql_def exec_def faulty_def fail_sql_def Let_def
      split: prod.splits sum.splits list.splits bool.splits)

lemma Session_tick:
  "sq_tick d \<le> sq_tick (snd (Session token d)) \<and> sq_tick (snd (Session token d)) \<le> Suc (sq_tick d)"
  unfolding Session_def bind_sql_def Now_def clock_def query_def faulty_def fail_sql_def done_sql_def
  by (auto simp: Let_def split: sum.split option.split list.split bool.split prod.split)

lemma first_actor_tick:
  assumes "first_actor r s = (st, s')"
  shows "sq_tick (ap_db s) \<le> sq_tick (ap_db s') \<and> sq_tick (ap_db s') \<le> Suc (sq_tick (ap_db s))"
proof (cases "q_cookie r")
  case None
  then show ?thesis using assms by (simp add: first_actor_def)
next
  case (Some token)
  obtain y d where d: "Session token (ap_db s) = (y, d)" by fastforce
  have "ap_db s' = d \<or> s' = s"
    using assms Some d by (auto simp: first_actor_def db_def split: prod.splits sum.splits if_splits)
  then show ?thesis using Session_tick [of "ap_db s" token] d by auto
qed

lemma first_actor_untouched: "first_actor r s = (st, s') \<Longrightarrow> untouched s s'"
  by (auto simp: first_actor_def untouched_refl split: option.splits prod.splits sum.splits dest: Session_untouched)

lemma untouched_tables:
  assumes "untouched s t"
  shows "db_user (sq_tables (ap_db t)) = db_user (sq_tables (ap_db s))"
    "db_sessions (sq_tables (ap_db t)) = db_sessions (sq_tables (ap_db s))"
proof -
  have e: "(sq_tables (ap_db t))\<lparr>db_audit := [], db_audit_seq := 0\<rparr> = (sq_tables (ap_db s))\<lparr>db_audit := [], db_audit_seq := 0\<rparr>"
    using assms by (simp add: untouched_def)
  show "db_user (sq_tables (ap_db t)) = db_user (sq_tables (ap_db s))" using arg_cong [OF e, of db_user] by simp
  show "db_sessions (sq_tables (ap_db t)) = db_sessions (sq_tables (ap_db s))" using arg_cong [OF e, of db_sessions] by simp
qed

lemma session_before: "untouched s t \<Longrightarrow> session_at k r t \<Longrightarrow> session_at k r s"
  using untouched_tables [of s t] by (simp add: session_at_def untouched_def)

section \<open>The route of a login\<close>

lemma match_path_iff:
  "match_path (Some l # ps) ss i = Some v \<longleftrightarrow> (\<exists>t. ss = l # t \<and> match_path ps t i = Some v)"
  "match_path (None # ps) ss i = Some v \<longleftrightarrow> (\<exists>x t. ss = x # t \<and> x \<noteq> [] \<and> match_path ps t (Some x) = Some v)"
  "match_path [] ss i = Some v \<longleftrightarrow> ss = [] \<and> v = i"
  by (cases ss; auto)+

lemma login_segments:
  assumes "slashed ss = login_path" "match_path p ss None \<noteq> None" "(''POST'', p, h) \<in> set (routes G E call ch)"
  shows "h = (\<lambda>_. login G E)"
  using assms
  by (auto simp: routes_def control_actions_def pat_def login_path_def match_path_iff)

lemma pattern_below_api:
  assumes "(m, p, h) \<in> set (routes G E call ch)" "match_path p ss None \<noteq> None"
  shows "prefix ''/api/'' (slashed ss)"
proof -
  have "\<exists>q ps. p = Some ''api'' # Some ''v1'' # q # ps"
    using assms(1) by (auto simp: routes_def control_actions_def pat_def)
  then show ?thesis using assms(2) by (auto simp: match_path_iff)
qed

lemma served_path:
  assumes "route (routes G E call ch) r = Some h" "clean_url (q_path r) = q_path r \<or> q_method r = ''CONNECT''"
    and "unescape_from (q_path r) \<noteq> None"
  shows "prefix ''/api/'' (url_path r)" "url_path r = login_path \<Longrightarrow> q_method r = ''POST'' \<Longrightarrow> h = login G E"
proof -
  obtain m p k i where h: "(m, p, k) \<in> set (routes G E call ch)" "h = k i" "match_path p (segments r) None \<noteq> None"
      "method_serves m (q_method r)"
    using route_in [OF assms(1)] by blast
  have "m \<in> {''GET'', ''POST'', ''PUT'', ''DELETE''}" using h(1) by (auto simp: routes_def control_actions_def)
  then have "q_method r \<noteq> ''CONNECT''" using h(4) by (auto simp: method_serves_def)
  then have u: "url_path r = slashed (segments r)"
    using assms(2,3) url_path_segments clean_url_rooted by blast
  show "prefix ''/api/'' (url_path r)" unfolding u by (rule pattern_below_api [OF h(1,3)])
  assume l: "url_path r = login_path" "q_method r = ''POST''"
  then have "m = ''POST''" using h(4) by (auto simp: method_serves_def)
  then show "h = login G E" using login_segments [of "segments r" p k] l u h by auto
qed

lemma mux_untouched:
  assumes "route (routes G E call ch) r = None \<or> \<not> (clean_url (q_path r) = q_path r \<or> q_method r = ''CONNECT'')"
  shows "snd (snd (serve_mux G E call ch ui r st s)) = s"
  using assms by (auto simp: serve_mux_def split: option.split)

lemma login_helper:
  "ap_helper (snd (snd (login G E r st s))) = ap_helper s"
  by (auto simp: login_def Let_def split: sum.split prod.split)

lemma mux_login_helper:
  assumes "serve_mux G E call ch ui r st t = (x, st', t')" "unescape_from (q_path r) \<noteq> None"
    and "url_path r = login_path" "q_method r = ''POST''"
  shows "ap_helper t' = ap_helper t"
proof (cases "route (routes G E call ch) r = None \<or> \<not> (clean_url (q_path r) = q_path r \<or> q_method r = ''CONNECT'')")
  case True
  then show ?thesis using mux_untouched [OF True, of ui st t] assms(1) by simp
next
  case False
  then obtain k where k: "route (routes G E call ch) r = Some k" by auto
  then have "k = login G E" using served_path(2) [OF k _ assms(2)] False assms(3,4) by blast
  then show ?thesis
    using assms(1) k login_helper [of G E r st t] by (auto simp: serve_mux_def split: if_splits)
qed

lemma mux_outside_untouched:
  assumes "serve_mux G E call ch ui r st t = (x, st', t')" "unescape_from (q_path r) \<noteq> None" "\<not> prefix ''/api/'' (url_path r)"
  shows "t' = t"
proof -
  have "route (routes G E call ch) r = None \<or> \<not> (clean_url (q_path r) = q_path r \<or> q_method r = ''CONNECT'')"
    using served_path(1) [OF _ _ assms(2)] assms(3) by (cases "route (routes G E call ch) r") auto
  from mux_untouched [OF this, of ui st t] show ?thesis using assms(1) by simp
qed

text \<open>A request for the operations runs only with a session and its token; the last case is that of the checks' refusal.\<close>

lemma security_inside:
  assumes "security G next r st t = (x, st', t')" "from_here G r"
    and "\<not> (url_path r = login_path \<and> q_method r = ''POST'')" "prefix ''/api/'' (url_path r)"
  shows "session_at (sq_tick (ap_db t)) r t \<or> untouched t t'"
proof (cases "q_cookie r")
  case None
  then show ?thesis using assms by (auto simp: security_def from_here_def untouched_refl split: if_splits)
next
  case (Some token)
  obtain y u where y: "db (Session token) t = (y, u)" by fastforce
  have tu: "untouched t u" by (rule Session_untouched [OF y])
  have run: "(case (y, u) of
        (Inl e, s) \<Rightarrow> (session_error e, st, s)
      | (Inr ss, s) \<Rightarrow>
          let st = \<lparr>rt_actor = ss_user ss, rt_token = token, rt_session = ss\<rparr> in
          if mutating r \<and> q_csrf r \<noteq> ss_csrf ss then (reject 403 ''csrf_rejected'' ''invalid CSRF token'', st, s)
          else next r st s) = (x, st', t')"
    using assms Some y by (auto simp: security_def from_here_def split: if_splits)
  show ?thesis
  proof (cases y)
    case (Inl e)
    then show ?thesis using run tu by simp
  next
    case (Inr ss)
    then obtain d where d: "Session token (ap_db t) = (Inr ss, d)"
      using y by (auto simp: db_def split: prod.splits sum.splits)
    show ?thesis
    proof (cases "mutating r \<and> q_csrf r \<noteq> ss_csrf ss")
      case True
      then have "t' = u" using run Inr by (auto simp: Let_def)
      then show ?thesis using tu by simp
    next
      case False
      then show ?thesis using Session_live [OF d] Some by (auto simp: session_at_def)
    qed
  qed
qed

lemma security_guarded:
  assumes "security G (serve_mux G E call ch ui) r st t = (x, st', t')" "unescape_from (q_path r) \<noteq> None"
  shows "untouched t t' \<or> from_here G r \<and>
    (session_at (sq_tick (ap_db t)) r t \<or> url_path r = login_path \<and> q_method r = ''POST'' \<and> ap_helper t' = ap_helper t)"
proof (cases "from_here G r")
  case False
  then show ?thesis using assms(1) by (auto simp: security_def from_here_def untouched_refl split: if_splits)
next
  case here: True
  then have h: "\<not> q_host r \<notin> set (gt_hosts G)" "\<not> (mutating r \<and> q_origin r = [] \<or> q_origin r \<noteq> [] \<and>
      q_origin r \<notin> set (gt_origins G) \<or> q_site r = ''cross-site'')"
    by (auto simp: from_here_def split: if_splits)
  consider (login) "url_path r = login_path" "q_method r = ''POST''" | (outside) "\<not> prefix ''/api/'' (url_path r)"
    | (inside) "\<not> (url_path r = login_path \<and> q_method r = ''POST'')" "prefix ''/api/'' (url_path r)" by blast
  then show ?thesis
  proof cases
    case login
    then have "serve_mux G E call ch ui r st t = (x, st', t')" using assms(1) h by (simp add: security_def)
    then show ?thesis using mux_login_helper [OF _ assms(2) login] here login by blast
  next
    case outside
    then have "url_path r \<noteq> login_path" by (auto simp: login_path_def)
    then have "serve_mux G E call ch ui r st t = (x, st', t')" using assms(1) h outside by (simp add: security_def)
    then show ?thesis using mux_outside_untouched [OF _ assms(2) outside] untouched_refl by blast
  next
    case inside
    then show ?thesis using security_inside [OF assms(1) here inside] here by blast
  qed
qed

text \<open>
  The frame of every request: what runs inside the checks is surrounded by steps that touch nothing but the
  audit log, and it may not run at all.
\<close>

lemma Handler_frame:
  assumes "Handler G E call ch ui r s = (resp, s')"
  shows "untouched s s' \<or> (\<exists>st u x st' v. untouched s u \<and> sq_tick (ap_db s) \<le> sq_tick (ap_db u) \<and>
    sq_tick (ap_db u) \<le> sq_tick (ap_db s) + 2 \<and> untouched v s' \<and>
    security G (serve_mux G E call ch ui) r st u = (x, st', v))"
proof (cases "mutating r")
  case False
  obtain x st' v where "security G (serve_mux G E call ch ui) r anonymous s = (x, st', v)" by (metis prod_cases3)
  moreover from this have "v = s'" using False assms by (simp add: Handler_def web_audit_def)
  ultimately show ?thesis using untouched_refl [of s] untouched_refl [of s'] by auto
next
  case True
  obtain st t where 1: "first_actor r s = (st, t)" by fastforce
  obtain y u where 2: "db (Audit (rt_actor st) (q_method r) (url_path r) ''started'' (Inr (audit_detail E r None))) t = (y, u)"
    by fastforce
  have su: "untouched s u" using untouched_trans [OF first_actor_untouched [OF 1] Audit_untouched [OF 2]] .
  show ?thesis
  proof (cases y)
    case (Inl e)
    then show ?thesis using assms True 1 2 su by (auto simp: Handler_def web_audit_def Let_def)
  next
    case (Inr z)
    obtain x st' v where 3: "security G (serve_mux G E call ch ui) r st u = (x, st', v)" by (metis prod_cases3)
    have "untouched v s'"
      using assms True 1 2 3 Inr Audit_untouched
      by (auto simp: Handler_def web_audit_def Let_def split: prod.splits sum.splits)
    moreover have "sq_tick (ap_db s) \<le> sq_tick (ap_db u)" "sq_tick (ap_db u) \<le> sq_tick (ap_db s) + 2"
      using first_actor_tick [OF 1] Audit_tick [OF 2] by linarith+
    ultimately show ?thesis using su 3 by blast
  qed
qed

text \<open>
  C5. No request reaches the helper, or changes anything but the audit log, unless it names a known host, comes
  from a known origin (which a request that changes something has to name), and carries the token of
  a session in the database that has not expired when the request is checked (at a reading of the clock
  made while this request is served), and then, unless it only reads, the CSRF token of that session.
  The one exception is the login itself, which never reaches the helper.
\<close>

theorem api_guarded:
  assumes "Handler G E call ch ui r s = (resp, s')" "unescape_from (q_path r) \<noteq> None"
  shows "untouched s s' \<or> from_here G r \<and>
    (signed_in r s \<or> url_path r = login_path \<and> q_method r = ''POST'' \<and> ap_helper s' = ap_helper s)"
  using Handler_frame [OF assms(1)]
proof (elim disjE exE conjE)
  fix st u x st' v
  assume f: "untouched s u" "untouched v s'"
    and tick: "sq_tick (ap_db s) \<le> sq_tick (ap_db u)" "sq_tick (ap_db u) \<le> sq_tick (ap_db s) + 2" and run: "security G (serve_mux G E call ch ui) r st u = (x, st', v)"
  have "untouched u v \<Longrightarrow> untouched s s'" using f untouched_trans by blast
  moreover have "ap_helper v = ap_helper u \<Longrightarrow> ap_helper s' = ap_helper s" using f by (simp add: untouched_def)
  moreover have "session_at (sq_tick (ap_db u)) r u \<Longrightarrow> signed_in r s"
    using session_before [OF f(1)] tick unfolding signed_in_def by blast
  ultimately show ?thesis using security_guarded [OF run assms(2)] by blast
qed blast

definition sample_gate :: gate where
  "sample_gate = \<lparr>gt_hosts = [''localhost:8053''], gt_origins = [''http://localhost:8053''], gt_secure = False\<rparr>"

definition sample_api :: "'h \<Rightarrow> 'h api" where
  "sample_api h = \<lparr>ap_db = sample_db [] sample_account, ap_auth = sample_auth, ap_helper = h, ap_discovery = NewDiscovery,
     ap_subs = fmempty, ap_slots = 0\<rparr>"

definition sample_env :: env where
  "sample_env = \<lparr>en_kdf = sample_kdf, en_token = Inr [], en_session_id = Inr [], en_request_id = ''ID'',
     en_status = \<lparr>dt_state = [], dt_os = fmempty, dt_installed = False,
       dt_systemd = \<lparr>st_available = False, st_service = no_unit, st_socket = no_unit, st_error = []\<rparr>, dt_avahi = no_avahi,
       dt_files = fmempty, dt_errors = [], dt_checked = 0, dt_update = False\<rparr>,
     en_links = Inr [], en_process = \<lparr>pr_start = None, pr_stdout = [], pr_broken = None, pr_stderr = [], pr_exit = Some 0, pr_cancelled = False\<rparr>\<rparr>"

definition sample_post :: web_request where
  "sample_post = \<lparr>q_method = ''POST'', q_path = ''/api/v1/avahi/stop'', q_host = ''localhost:8053'', q_origin = ''http://evil.example'',
     q_site = ''cross-site'', q_type = ''application/json'', q_csrf = [], q_cookie = None, q_body = ''{}'',
     q_remote = ''127.0.0.1:1'', q_tls = False, q_query = []\<rparr>"

lemma api_guarded_witness:
  "untouched (sample_api (0 :: nat)) (snd (Handler sample_gate sample_env (\<lambda>_ _ h. (CallFailed Fault, Suc h)) 0 None sample_post (sample_api 0)))"
proof -
  let ?run = "Handler sample_gate sample_env (\<lambda>_ _ h. (CallFailed Fault, Suc h)) 0 None sample_post (sample_api (0 :: nat))"
  have "unescape_from (q_path sample_post) \<noteq> None" by (simp add: sample_post_def)
  moreover have "\<not> from_here sample_gate sample_post" by (simp add: from_here_def sample_gate_def sample_post_def)
  moreover have "?run = (fst ?run, snd ?run)" by simp
  ultimately show ?thesis using api_guarded by blast
qed

section \<open>The audit\<close>

interpretation log_frame: api_frame call "\<lambda>s. trail_of (ap_db s) = c" for call :: "'h rpc" and c
  by unfold_locales auto

lemma security_trail: "security G (serve_mux G E call ch ui) r st s = (x, st', s') \<Longrightarrow> trail_of (ap_db s') = trail_of (ap_db s)"
  using log_frame.handler_security [where c = "trail_of (ap_db s)" and G = G and E = E and call = call and ch = ch and ui = ui] unfolding handler_stays_def
  by (metis snd_conv)

lemma Audit_trail:
  assumes "db (Audit a c p res (Inr x)) s = (y, s')"
  shows "trail_of (ap_db s') = trail_of (ap_db s) @ (if isl y then [] else [(a, c, p, res)])"
    "isl y \<Longrightarrow> sq_tables (ap_db s') = sq_tables (ap_db s)"
  using assms
  by (auto simp: db_def Audit_def bind_sql_def Now_def clock_def done_sql_def exec_def faulty_def Let_def trail_of_def ledger_of_def
      split: prod.splits sum.splits list.splits bool.splits)

lemma first_actor_trail: "first_actor r s = (st, s') \<Longrightarrow> sq_tables (ap_db s') = sq_tables (ap_db s)"
  using reads_Session unfolding reads_def
  by (auto simp: first_actor_def db_def split: option.splits prod.splits sum.splits) (metis snd_conv)+

text \<open>
  C6. A request that may change something is in the audit log before it is looked at, or nothing happens; and
  its outcome is in the log before the client hears of it: a response other than \<open>audit_incomplete\<close>
  follows an entry with the same method and path that tells success or failure as its status does. No
  request writes any other entry.
\<close>

theorem api_audited:
  assumes "Handler G E call ch ui r s = (resp, s')" "mutating r"
  shows "resp = reject 503 ''audit_unavailable'' ''cannot record operation; no action performed'' \<and>
      untouched s s' \<and> trail_of (ap_db s') = trail_of (ap_db s) \<or>
    (\<exists>actor rest. trail_of (ap_db s') = trail_of (ap_db s) @ (actor, q_method r, url_path r, ''started'') # rest \<and>
       (rest = [] \<and> resp = reject 503 ''audit_incomplete''
          ''operation may have completed; audit completion failed; inspect current state before retrying'' \<or>
        (\<exists>who. rest = [(who, q_method r, url_path r, if rs_status resp \<ge> 400 then ''failed'' else ''success'')])))"
proof -
  obtain st t where 1: "first_actor r s = (st, t)" by fastforce
  obtain y u where 2: "db (Audit (rt_actor st) (q_method r) (url_path r) ''started'' (Inr (audit_detail E r None))) t = (y, u)"
    by fastforce
  have t: "trail_of (ap_db t) = trail_of (ap_db s)" using first_actor_trail [OF 1] by (simp add: trail_of_def)
  show ?thesis
  proof (cases y)
    case (Inl e)
    have "untouched s u" using untouched_trans [OF first_actor_untouched [OF 1] Audit_untouched [OF 2]] .
    then show ?thesis
      using assms 1 2 Inl Audit_trail(1) [OF 2] t by (auto simp: Handler_def web_audit_def Let_def)
  next
    case (Inr z)
    obtain x st' v where 3: "security G (serve_mux G E call ch ui) r st u = (x, st', v)" by (metis prod_cases3)
    obtain w s2 where 4: "db (Audit (rt_actor st') (q_method r) (url_path r) (audit_result (rs_status x))
        (Inr (audit_detail E r (Some (rs_status x))))) v = (w, s2)" by fastforce
    have v: "trail_of (ap_db v) = trail_of (ap_db s) @ [(rt_actor st, q_method r, url_path r, ''started'')]"
      using security_trail [OF 3] Audit_trail(1) [OF 2] t Inr by simp
    have "s' = s2" "resp = (if isl w then reject 503 ''audit_incomplete''
          ''operation may have completed; audit completion failed; inspect current state before retrying'' else x)"
      using assms 1 2 3 4 Inr by (auto simp: Handler_def web_audit_def Let_def split: sum.splits)
    then show ?thesis using Audit_trail(1) [OF 4] v by (cases w) (auto simp: audit_result_def)
  qed
qed

lemma api_audited_witness:
  "\<exists>resp s'. Handler sample_gate sample_env (\<lambda>_ _ h. (CallFailed Fault, h)) 0 None sample_post (sample_api ()) = (resp, s') \<and>
     (resp = reject 503 ''audit_unavailable'' ''cannot record operation; no action performed'' \<or>
      (\<exists>actor rest. trail_of (ap_db s') = trail_of (ap_db (sample_api ())) @ (actor, ''POST'', url_path sample_post, ''started'') # rest))"
proof -
  obtain resp s' where r: "Handler sample_gate sample_env (\<lambda>_ _ h. (CallFailed Fault, h)) 0 None sample_post (sample_api ()) = (resp, s')"
    by fastforce
  have "mutating sample_post" "q_method sample_post = ''POST''" by (simp_all add: mutating_def sample_post_def)
  then show ?thesis using api_audited [OF r] r by metis
qed

section \<open>Mutations and the accepted baseline\<close>

lemma sync_ledger:
  assumes "syncBaseline call s = (r, s')"
  shows "ap_helper s' = snd (call ''ReadBaseline'' InEmpty (ap_helper s)) \<and> ap_subs s' = ap_subs s \<and>
    (r = Inr () \<longrightarrow> (\<exists>mf c. fst (call ''ReadBaseline'' InEmpty (ap_helper s)) = Returned (ASnapshot mf c) \<and>
       ledger_of (sq_tables (ap_db s')) = book (OpSave mf (cf_revision c) (cf_hashes c)) (ledger_of (sq_tables (ap_db s))))) \<and>
    (isl r \<longrightarrow> sq_tables (ap_db s') = sq_tables (ap_db s))"
proof -
  obtain x s1 where x: "invoke call ''ReadBaseline'' InEmpty as_snapshot s = (x, s1)" by fastforce
  then have h: "ap_helper s1 = snd (call ''ReadBaseline'' InEmpty (ap_helper s))" "ap_db s1 = ap_db s" "ap_subs s1 = ap_subs s"
    by (auto simp: invoke_def Let_def split: prod.splits)
  show ?thesis
  proof (cases x)
    case (Inl e)
    then show ?thesis using assms x h by (auto simp: syncBaseline_def bind_web_def)
  next
    case (Inr y)
    obtain mf c where y: "y = (mf, c)" by fastforce
    have a: "fst (call ''ReadBaseline'' InEmpty (ap_helper s)) = Returned (ASnapshot mf c)"
      using x Inr y by (auto simp: invoke_def as_snapshot_def Let_def split: prod.splits call_outcome.splits option.splits answer.splits)
    obtain z d where z: "SaveBaseline mf (cf_revision c) (cf_hashes c) (ap_db s) = (z, d)" by fastforce
    then have s': "s' = s1\<lparr>ap_db := d\<rparr>" "r = (case z of Inl e \<Rightarrow> Inl (Local e) | Inr u \<Rightarrow> Inr u)"
      using assms x Inr y h by (auto simp: syncBaseline_def bind_web_def db_def)
    show ?thesis
    proof (cases z)
      case (Inl e)
      have "atomic (SaveBaseline mf (cf_revision c) (cf_hashes c))" unfolding SaveBaseline_def by (rule atomic_transaction)
      then have "sq_tables d = sq_tables (ap_db s)" using atomicD z Inl by blast
      then show ?thesis using s' h Inl by simp
    next
      case (Inr u)
      then have "ledger_of (sq_tables d) = book (OpSave mf (cf_revision c) (cf_hashes c)) (ledger_of (sq_tables (ap_db s)))"
        using books_SaveBaseline z unfolding books_def does_def by blast
      then show ?thesis using s' h Inr a by auto
    qed
  qed
qed

text \<open>
  C16. However a mutation ends, the manager's records afterwards are what they were or the baseline that the
  helper told of after the call, never the disk's state for its own sake; a mutation is reported as
  done only when the helper has done it and its baseline is the one on record; and every subscriber is told.
\<close>

theorem mutate_synced:
  assumes "mutate call m i s = (resp, s')"
  shows "(\<forall>ch. ch |\<in>| fmdom (ap_subs s) \<longrightarrow> fmlookup (ap_subs s') ch = Some True) \<and>
    (ledger_of (sq_tables (ap_db s')) = ledger_of (sq_tables (ap_db s)) \<and> rs_status resp \<noteq> 200 \<or>
     (\<exists>mf c. fst (call ''ReadBaseline'' InEmpty (snd (call m i (ap_helper s)))) = Returned (ASnapshot mf c) \<and>
        ledger_of (sq_tables (ap_db s')) = book (OpSave mf (cf_revision c) (cf_hashes c)) (ledger_of (sq_tables (ap_db s))) \<and>
        (rs_status resp = 200 \<longrightarrow> (\<exists>a. fst (call m i (ap_helper s)) = Returned a \<and> rs_payload resp = PAnswer a))))"
proof -
  obtain x s1 where x: "invoke call m i Some s = (x, s1)" by fastforce
  obtain y s2 where y: "syncBaseline call s1 = (y, s2)" by fastforce
  have s1: "ap_helper s1 = snd (call m i (ap_helper s))" "ap_db s1 = ap_db s" "ap_subs s1 = ap_subs s"
    using x by (auto simp: invoke_def Let_def split: prod.splits)
  have out: "resp = mutate_reply x y" "s' = notifyConfig s2"
    using assms x y by (simp_all add: mutate_def)
  have a: "x = Inr a \<Longrightarrow> fst (call m i (ap_helper s)) = Returned a" for a
    using x by (auto simp: invoke_def Let_def split: prod.splits call_outcome.splits)
  have ok: "rs_status resp = 200 \<longleftrightarrow> \<not> isl x \<and> \<not> isl y"
    unfolding out(1) by (auto simp: mutate_reply_def refuse_def reject_def respond_def split: sum.split api_error.split)
  have "fmlookup (ap_subs s') ch = Some True" if "ch |\<in>| fmdom (ap_subs s)" for ch
    using that sync_ledger [OF y] s1(3) out(2) by (auto simp: notifyConfig_def)
  moreover have "ap_db s' = ap_db s2" using out(2) by (simp add: notifyConfig_def)
  ultimately show ?thesis
    using sync_ledger [OF y] s1 ok a out(1) by (cases x; cases y) (auto simp: mutate_reply_def respond_def)
qed

definition sample_manifest :: manifest where
  "sample_manifest = \<lparr>m_id = ''s'', m_reason = [], m_created = 0, m_files = fmempty\<rparr>"

definition sample_call :: "unit rpc" where
  "sample_call m i h = (if m = ''ReadBaseline'' then Returned (ASnapshot sample_manifest
     \<lparr>cf_revision = ''r'', cf_daemon = None, cf_raw = [], cf_hosts = [], cf_services = [], cf_hashes = fmempty, cf_errors = []\<rparr>)
     else Returned AEmpty, h)"

lemma mutate_synced_witness:
  "fmlookup (ap_subs (snd (mutate sample_call ''StopAvahi'' InEmpty ((sample_api ())\<lparr>ap_subs := fmupd 7 False fmempty\<rparr>)))) 7 = Some True"
proof -
  let ?s = "(sample_api ())\<lparr>ap_subs := fmupd 7 False fmempty\<rparr>"
  obtain resp s' where r: "mutate sample_call ''StopAvahi'' InEmpty ?s = (resp, s')" by fastforce
  have "7 |\<in>| fmdom (ap_subs ?s)" by simp
  then show ?thesis using mutate_synced [OF r] r by simp
qed

section \<open>Hosts\<close>

lemma change_host_none: "change_host i new hs = None \<longleftrightarrow> i \<notin> hostID ` set hs"
  by (induction hs) auto

lemma change_host_split:
  "i \<notin> hostID ` set a \<Longrightarrow> hostID h = i \<Longrightarrow>
     change_host i new (a @ h # b) = Some (a @ (case new of None \<Rightarrow> [] | Some n \<Rightarrow> [n]) @ b)"
  by (induction a) (auto split: option.split)

lemma change_host_some:
  assumes "change_host i new hs = Some hs'"
  shows "\<exists>a h b. hs = a @ h # b \<and> hostID h = i \<and> i \<notin> hostID ` set a \<and>
        hs' = a @ (case new of None \<Rightarrow> [] | Some n \<Rightarrow> [n]) @ b"
proof -
  have "\<exists>h\<in>set hs. hostID h = i" using assms change_host_none [of i new hs] by auto
  from split_list_first_prop [OF this] obtain a h b where s: "hs = a @ h # b" "hostID h = i" "\<forall>y\<in>set a. hostID y \<noteq> i" by blast
  then have "i \<notin> hostID ` set a" by auto
  with s show ?thesis using assms change_host_split [of i a h new b] by auto
qed

definition host_edit :: "string \<Rightarrow> string \<Rightarrow> host option \<Rightarrow> host list \<Rightarrow> host list \<Rightarrow> bool" where
  "host_edit method i new hs hs' \<longleftrightarrow>
     (if method = ''POST'' then \<exists>h. new = Some h \<and> hs' = hs @ [h]
      else \<exists>a h b. hs = a @ h # b \<and> hostID h = i \<and> i \<notin> hostID ` set a \<and>
        (if method = ''DELETE'' then hs' = a @ b else \<exists>n. new = Some n \<and> hs' = a @ n # b))"

lemma changed_hosts_edit:
  assumes "changed_hosts r i new hs = Some hs'" "q_method r = ''DELETE'' \<or> new \<noteq> None"
  shows "host_edit (q_method r) i new hs hs'"
proof (cases "q_method r = ''POST''")
  case True
  then show ?thesis using assms by (auto simp: changed_hosts_def host_edit_def)
next
  case False
  let ?n = "if q_method r = ''DELETE'' then None else new"
  have "change_host i ?n hs = Some hs'"
    using assms False by (cases "q_method r = ''DELETE''"; cases new) (simp_all add: changed_hosts_def)
  from change_host_some [OF this] obtain a h b
    where e: "hs = a @ h # b" "hostID h = i" "i \<notin> hostID ` set a" "hs' = a @ (case ?n of None \<Rightarrow> [] | Some n \<Rightarrow> [n]) @ b"
    by blast
  show ?thesis
  proof (cases "q_method r = ''DELETE''")
    case True
    then show ?thesis using e unfolding host_edit_def by simp blast
  next
    case F: False
    then obtain n where "new = Some n" using assms(2) by blast
    then have "hs' = a @ n # b" using e F by simp
    then show ?thesis using \<open>new = Some n\<close> e(1-3) False F unfolding host_edit_def by auto
  qed
qed

text \<open>
  C17. A change of a host either touches nothing and is not reported as done, or it is one \<open>WriteHosts\<close> of the
  revision that the browser has seen, which is still the one on disk, with the table of that revision in
  which exactly one entry is added, replaced or taken out: the first with the identifier.
\<close>

theorem host_changed:
  assumes "hostsChange call i r st s = (resp, st', s')"
  shows "(ap_db s' = ap_db s \<and> ap_subs s' = ap_subs s \<and> rs_status resp \<noteq> 200 \<and>
      (ap_helper s' = ap_helper s \<or> ap_helper s' = snd (call ''ReadConfiguration'' InEmpty (ap_helper s)))) \<or>
    (\<exists>v c h hs'. body change_host_fields \<lparr>rq_revision = [], rq_host = None\<rparr> r = Inr v \<and>
       call ''ReadConfiguration'' InEmpty (ap_helper s) = (Returned (AConfiguration c), h) \<and> cf_revision c = rq_revision v \<and>
       host_edit (q_method r) i (rq_host v) (cf_hosts c) hs' \<and>
       (resp, s') = mutate call ''WriteHosts'' (InHosts \<lparr>rq_revision = rq_revision v, rq_hosts = Some hs'\<rparr>) (s\<lparr>ap_helper := h\<rparr>))"
proof (cases "body change_host_fields \<lparr>rq_revision = [], rq_host = None\<rparr> r")
  case (Inl x)
  then have "rs_status x \<noteq> 200"
    by (auto simp: body_def reject_def respond_def Let_def split: if_splits read_json.splits json.splits sum.splits)
  then show ?thesis using assms Inl by (auto simp: hostsChange_def)
next
  case (Inr v)
  obtain x s1 where x: "invoke call ''ReadConfiguration'' InEmpty as_configuration s = (x, s1)" by fastforce
  have bad: "rs_status (refuse e) \<noteq> 200" "rs_status (reject 400 a b) \<noteq> 200" "rs_status (reject 409 a b) \<noteq> 200"
      "rs_status (reject 404 a b) \<noteq> 200" for e a b
    by (auto simp: refuse_def reject_def respond_def split: api_error.split)
  have s1: "s1 = s\<lparr>ap_helper := snd (call ''ReadConfiguration'' InEmpty (ap_helper s))\<rparr>"
    using x by (auto simp: invoke_def Let_def split: prod.splits)
  show ?thesis
  proof (cases "q_method r \<noteq> ''DELETE'' \<and> rq_host v = None")
    case True
    then show ?thesis using assms Inr bad by (auto simp: hostsChange_def)
  next
    case host: False
    show ?thesis
    proof (cases x)
      case (Inl e)
      then show ?thesis using assms Inr x host bad s1 by (auto simp: hostsChange_def)
    next
      case c: (Inr c)
      then have call: "call ''ReadConfiguration'' InEmpty (ap_helper s) = (Returned (AConfiguration c), ap_helper s1)"
        using x by (auto simp: invoke_def as_configuration_def Let_def split: prod.splits call_outcome.splits option.splits answer.splits)
      show ?thesis
      proof (cases "cf_revision c = rq_revision v \<and> changed_hosts r i (rq_host v) (cf_hosts c) \<noteq> None")
        case False
        then show ?thesis using assms Inr x host c bad s1 by (auto simp: hostsChange_def split: option.splits if_splits)
      next
        case True
        then obtain hs' where hs: "changed_hosts r i (rq_host v) (cf_hosts c) = Some hs'" by auto
        have "host_edit (q_method r) i (rq_host v) (cf_hosts c) hs'"
          by (rule changed_hosts_edit [OF hs]) (use host in simp)
        moreover have "(resp, s') = mutate call ''WriteHosts'' (InHosts \<lparr>rq_revision = rq_revision v, rq_hosts = Some hs'\<rparr>) s1"
          using assms Inr x host c True hs by (auto simp: hostsChange_def Let_def split: prod.splits)
        moreover have "s1 = s\<lparr>ap_helper := ap_helper s1\<rparr>" using s1 by simp
        ultimately show ?thesis using Inr call True by metis
      qed
    qed
  qed
qed

lemma host_changed_witness:
  "ap_db (snd (snd (hostsChange sample_call [] (sample_post\<lparr>q_type := ''text/plain''\<rparr>) anonymous (sample_api ())))) = ap_db (sample_api ())"
proof -
  obtain resp st' s' where r: "hostsChange sample_call [] (sample_post\<lparr>q_type := ''text/plain''\<rparr>) anonymous (sample_api ()) = (resp, st', s')"
    by (metis prod_cases3)
  have "body change_host_fields \<lparr>rq_revision = [], rq_host = None\<rparr> (sample_post\<lparr>q_type := ''text/plain''\<rparr>) \<noteq> Inr v" for v
    by (simp add: body_def)
  then show ?thesis using host_changed [OF r] r by auto
qed

text \<open>
  A table that cannot be parsed is shown as empty, so adding a host to it replaces it by that host.
\<close>

lemma malformed_hosts_replaced:
  assumes "parse_host_lines (fst (scan_lines hosts_line_limit (f_data (fm_get zero_file im hosts_path)))) = Inl e"
    and "q_method r = ''POST''"
  shows "changed_hosts r i (Some h) (cf_hosts (model X ps im)) = Some [h]"
  using assms by (auto simp: changed_hosts_def model_def parsed_hosts_def Let_def split: prod.split)

section \<open>The whole stack\<close>

text \<open>
  The state of the helper's process that every call keeps: as long as the requests fitted (\<open>request_fits\<close>), the
  disk is sound. The worlds of the calls to come hold no edits by others, and the process is root's.
\<close>

definition helper_inv :: "xml_codec \<Rightarrow> helper \<Rightarrow> bool" where
  "helper_inv X h \<longleftrightarrow>
     (\<forall>t\<in>set (hp_turns h). live False (tn_world t) \<and> (\<forall>w. tn_start t = Some w \<longrightarrow> live False w)) \<and>
     ((\<forall>(req, d)\<in>set (hp_log h). request_fits X req d) \<longrightarrow> sound (hp_disk h))"

lemma live_on_disk: "live False (on_disk d w) = live False w"
  by (simp add: live_def calm_def on_disk_def)

lemma disk_on_disk [simp]: "w_disk (on_disk d w) = d"
  by (simp add: on_disk_def)

lemma live_quiet: "live False (tn_world quiet_turn)"
  by (simp add: quiet_turn_def live_def still_def calm_def)

lemma start_inv:
  assumes "helper_inv X h" "live False w"
  shows "helper_inv X (helper_start w h)"
proof -
  obtain r w' where r: "Recover (Some helper_controller) (on_disk (hp_disk h) w) = (r, w')" by fastforce
  have "sound (w_disk w')" if "sound (hp_disk h)"
    using secure_run [of "on_disk (hp_disk h) w" "Recover (Some helper_controller)" False] secure_Recover [OF that] assms(2)
    by (simp add: r live_on_disk)
  then show ?thesis using assms(1) by (auto simp: helper_inv_def helper_start_def r)
qed

lemma next_turn_inv:
  assumes "helper_inv X h" "next_turn h = (t, h')"
  shows "helper_inv X h' \<and> live False (tn_world t)"
proof -
  obtain u us where u: "(case hp_turns h of [] \<Rightarrow> (quiet_turn, []) | t # ts \<Rightarrow> (t, ts)) = (u, us)" by fastforce
  have l: "live False (tn_world u)" "\<And>w. tn_start u = Some w \<Longrightarrow> live False w" "set us \<subseteq> set (hp_turns h)"
    using u assms(1) live_quiet by (auto simp: helper_inv_def quiet_turn_def split: list.splits)
  then have "helper_inv X (h\<lparr>hp_turns := us\<rparr>)" using assms(1) by (auto simp: helper_inv_def)
  then show ?thesis
    using assms(2) u l start_inv by (auto simp: next_turn_def Let_def split: option.splits)
qed

lemma call_inv:
  assumes "helper_inv X h"
  shows "helper_inv X (snd (helper_call X m i h))"
proof (cases "call_request m (Inr (input_text i))")
  case (Inl e)
  then show ?thesis using assms by (simp add: helper_call_def)
next
  case (Inr req)
  obtain t h1 where t: "next_turn h = (t, h1)" by fastforce
  have inv: "helper_inv X h1" "live False (tn_world t)" using next_turn_inv [OF assms t] by auto
  let ?w = "on_disk (hp_disk h1) (tn_world t)"
  have "sound (w_disk (snd (handler X helper_runtime (tn_gone t) (tn_cancelled t) req ?w)))"
    if "sound (hp_disk h1)" "request_fits X req (hp_disk h1)"
    using secure_run [of ?w "handler X helper_runtime (tn_gone t) (tn_cancelled t) req" False] secure_handler [OF that] inv(2)
    by (simp add: live_on_disk)
  then show ?thesis
    using inv Inr t by (auto simp: helper_call_def helper_inv_def Let_def split: prod.split)
qed

interpretation wire: api_frame "helper_call X" "\<lambda>s. helper_inv X (ap_helper s)" for X
  by unfold_locales (auto intro: call_inv)

lemma audit_keeps_helper: "db (Audit a c p r x) s = (y, s') \<Longrightarrow> ap_helper s' = ap_helper s"
  by (drule Audit_untouched) (simp add: untouched_def)

lemma Handler_inv:
  assumes "helper_inv X (ap_helper s)"
  shows "helper_inv X (ap_helper (snd (Handler G E (helper_call X) ch ui r s)))"
proof -
  let ?next = "security G (serve_mux G E (helper_call X) ch ui)"
  have n: "helper_inv X (ap_helper t')" if "?next r st t = (x, st', t')" "helper_inv X (ap_helper t)" for st t x st' t'
    using wire.handler_security [where X = X and G = G and E = E and ch = ch and ui = ui] that
    unfolding handler_stays_def by (metis snd_conv)
  show ?thesis
  proof (cases "mutating r")
    case False
    then show ?thesis using n assms by (auto simp: Handler_def web_audit_def split: prod.split)
  next
    case True
    obtain st t where 1: "first_actor r s = (st, t)" by fastforce
    have t: "ap_helper t = ap_helper s" using first_actor_untouched [OF 1] by (simp add: untouched_def)
    show ?thesis
      using True 1 t n assms
      by (auto simp: Handler_def web_audit_def Let_def split: prod.split sum.split dest!: audit_keeps_helper)
  qed
qed

text \<open>The requests that reach the web server, one after another, each with what the environment makes of it.\<close>

fun web_run :: "gate \<Rightarrow> 'h rpc \<Rightarrow> (web_request \<Rightarrow> response) option \<Rightarrow> (env \<times> nat \<times> web_request) list \<Rightarrow> 'h api \<Rightarrow> 'h api" where
  "web_run G call ui [] s = s"
| "web_run G call ui ((E, ch, r) # rs) s = web_run G call ui rs (snd (Handler G E call ch ui r s))"

text \<open>
  C4. From the browser to the disk: whatever requests reach the web server, and whatever happens to the helper
  meanwhile (system calls that fail, its death at any of them, its restarts, lost replies), the
  configuration and its backups on disk stay sound, and one recovery without faults makes them whole,
  or, when the files under a journal are together over \<open>MaxTotalSize\<close>, fails and leaves them as they are
  (\<open>recovers\<close>). It is assumed of the requests that reached the helper (\<open>request_fits\<close>) that the manifests
  of what they wrote or restored stay under the 1 MiB that \<open>readFile\<close> accepts, and that restored
  snapshots name files by clean UTF-8 paths; the code checks neither.
\<close>

theorem web_keeps_disk_sound:
  assumes "sound (hp_disk h)" "hp_log h = []"
    and "\<And>t. t \<in> set (hp_turns h) \<Longrightarrow> live False (tn_world t) \<and> (\<forall>w. tn_start t = Some w \<longrightarrow> live False w)"
    and "h' = ap_helper (web_run G (helper_call X) ui rs (s\<lparr>ap_helper := h\<rparr>))"
    and "\<And>req d. (req, d) \<in> set (hp_log h') \<Longrightarrow> request_fits X req d"
  shows "sound (hp_disk h') \<and> (\<forall>w. live True w \<and> w_disk w = hp_disk h' \<longrightarrow> recovers w)"
proof -
  have run: "helper_inv X (ap_helper (web_run G (helper_call X) ui rs s))" if "helper_inv X (ap_helper s)" for s
    using that
  proof (induction rs arbitrary: s)
    case (Cons x rs)
    obtain E ch r where "x = (E, ch, r)" by (metis prod_cases3)
    then show ?case using Cons.IH [OF Handler_inv [OF Cons.prems]] by simp
  qed simp
  have "helper_inv X h" using assms(1-3) by (auto simp: helper_inv_def)
  then have "helper_inv X h'" using run [of "s\<lparr>ap_helper := h\<rparr>"] assms(4) by simp
  then have "sound (hp_disk h')" using assms(5) by (auto simp: helper_inv_def)
  then show ?thesis using sound_recovers by metis
qed

text \<open>A request with the token of a session of \<open>sample_account\<close>, which stops Avahi.\<close>

definition sample_token :: string where
  "sample_token = replicate 64 (CHR ''a'')"

definition member_account :: tables where
  "member_account = sample_account\<lparr>db_sessions := [\<lparr>se_id = ''s'', se_token = tokenHash sample_token,
     se_expires = time_text 1000, se_created = time_text 0\<rparr>]\<rparr>"

definition sample_stop :: web_request where
  "sample_stop = sample_post\<lparr>q_origin := ''http://localhost:8053'', q_site := ''same-origin'',
     q_csrf := csrf sample_token, q_cookie := Some sample_token\<rparr>"

lemma sample_stop_simps [simp]:
  "q_method sample_stop = ''POST''" "q_path sample_stop = ''/api/v1/avahi/stop''" "q_host sample_stop = ''localhost:8053''"
  "q_origin sample_stop = ''http://localhost:8053''" "q_site sample_stop = ''same-origin''"
  "q_type sample_stop = ''application/json''" "q_body sample_stop = ''{}''" "q_csrf sample_stop = csrf sample_token"
  "q_cookie sample_stop = Some sample_token"
  by (simp_all add: sample_stop_def sample_post_def)

lemma sample_stop_facts:
  "url_path sample_stop = ''/api/v1/avahi/stop''" "clean_url ''/api/v1/avahi/stop'' = ''/api/v1/avahi/stop''"
  "segments sample_stop = [''api'', ''v1'', ''avahi'', ''stop'']"
proof -
  show "url_path sample_stop = ''/api/v1/avahi/stop''" unfolding url_path_def sample_stop_simps by code_simp
  show "clean_url ''/api/v1/avahi/stop'' = ''/api/v1/avahi/stop''" by code_simp
  show "segments sample_stop = [''api'', ''v1'', ''avahi'', ''stop'']" unfolding segments_def sample_stop_simps by code_simp
qed

lemma sample_session:
  assumes "sq_faults d = []" "db_user (sq_tables d) = Some u" "db_sessions (sq_tables d) = db_sessions member_account"
    and "sq_clock d = (\<lambda>n. n)" "sq_tick d < 1000"
  shows "Session sample_token d = (Inr \<lparr>ss_user = us_name u, ss_csrf = csrf sample_token, ss_expires = 1000\<rparr>,
    d\<lparr>sq_tick := Suc (sq_tick d)\<rparr>)"
proof -
  have lt: "time_text 1000 > time_text (sq_tick d)"
    using time_text_less [of "sq_tick d" 1000] assms(5) by (simp add: year_limit_def)
  have p: "parse_time (time_text 1000) = Some 1000" using parse_time_text [of 1000] by (simp add: year_limit_def)
  have "length sample_token = 64" unfolding sample_token_def by (rule length_replicate)
  then show ?thesis
    using assms lt p by (simp add: Session_def bind_sql_def Now_def clock_def done_sql_def query_def faulty_def member_account_def)
qed

lemma stop_route:
  "route (routes G E call ch) sample_stop = Some (mutation call [] () ''StopAvahi'' (\<lambda>_. InEmpty))"
  by (simp add: route_def routes_def pat_def sample_stop_facts(3) method_serves_def control_actions_def)

lemma empty_body: "take MaxRequest ''{}'' = ''{}''" "next_json ''{}'' = JsonValue (JObj []) []" "next_json [] = JsonEOF"
proof -
  show "take MaxRequest ''{}'' = ''{}''" by (simp add: MaxRequest_def)
  show "next_json ''{}'' = JsonValue (JObj []) []" "next_json [] = JsonEOF" by code_simp+
qed

lemma stop_runs:
  "mutation call [] () ''StopAvahi'' (\<lambda>_. InEmpty) sample_stop st s =
     (fst (mutate call ''StopAvahi'' InEmpty s), st, snd (mutate call ''StopAvahi'' InEmpty s))"
proof -
  have "body [] () sample_stop = Inr ()"
    using empty_body by (simp add: body_def Let_def MaxRequest_def)
  then show ?thesis by (simp add: mutation_def split: prod.split)
qed


definition member_api :: "'h \<Rightarrow> 'h api" where
  "member_api h = (sample_api h)\<lparr>ap_db := sample_db [] member_account\<rparr>"

lemma stop_handled:
  "\<exists>u. ap_helper u = h \<and> ap_helper (snd (Handler sample_gate sample_env call ch ui sample_stop (member_api h))) =
     ap_helper (snd (mutate call ''StopAvahi'' InEmpty u))"
proof -
  let ?s = "member_api h"
  define d1 where "d1 = (ap_db ?s)\<lparr>sq_tick := 1\<rparr>"
  have d1: "Session sample_token (ap_db ?s) = (Inr \<lparr>ss_user = ''admin'', ss_csrf = csrf sample_token, ss_expires = 1000\<rparr>, d1)"
    using sample_session [of "ap_db ?s" "\<lparr>us_name = ''admin'', us_hash = [], us_created = [], us_login = None\<rparr>"]
    by (simp add: d1_def member_api_def sample_api_def sample_db_def member_account_def sample_account_def)
  have f1: "sq_faults d1 = []" "sq_tables d1 = member_account" "sq_clock d1 = (\<lambda>n. n)" "sq_tick d1 = 1"
    by (simp_all add: d1_def member_api_def sample_db_def)
  let ?st = "anonymous\<lparr>rt_actor := ''admin''\<rparr>" and ?t = "?s\<lparr>ap_db := d1\<rparr>"
  have 1: "first_actor sample_stop ?s = (?st, ?t)" by (simp add: first_actor_def db_def d1)
  obtain u where 2: "db (Audit (rt_actor ?st) (q_method sample_stop) (url_path sample_stop) ''started''
      (Inr (audit_detail sample_env sample_stop None))) ?t = (Inr (), u)" "ap_helper u = h" "sq_faults (ap_db u) = []"
      "db_user (sq_tables (ap_db u)) = db_user member_account" "db_sessions (sq_tables (ap_db u)) = db_sessions member_account"
      "sq_clock (ap_db u) = (\<lambda>n. n)" "sq_tick (ap_db u) = 2"
    by (simp add: db_def Audit_def bind_sql_def Now_def clock_def done_sql_def exec_def faulty_def f1 member_api_def sample_api_def)
  let ?ss = "\<lparr>ss_user = ''admin'', ss_csrf = csrf sample_token, ss_expires = 1000\<rparr>"
  have 3: "Session sample_token (ap_db u) = (Inr ?ss, (ap_db u)\<lparr>sq_tick := 3\<rparr>)"
    using sample_session [of "ap_db u" "\<lparr>us_name = ''admin'', us_hash = [], us_created = [], us_login = None\<rparr>"] 2
    by (simp add: member_account_def sample_account_def)
  let ?v = "u\<lparr>ap_db := (ap_db u)\<lparr>sq_tick := 3\<rparr>\<rparr>"
  let ?st' = "\<lparr>rt_actor = ''admin'', rt_token = sample_token, rt_session = ?ss\<rparr>"
  let ?m = "mutate call ''StopAvahi'' InEmpty ?v"
  have mux: "serve_mux G sample_env call ch ui sample_stop st s =
      (fst (mutate call ''StopAvahi'' InEmpty s), st, snd (mutate call ''StopAvahi'' InEmpty s))" for G st s
    by (simp add: serve_mux_def sample_stop_facts stop_route stop_runs)
  have 4: "security sample_gate (serve_mux sample_gate sample_env call ch ui) sample_stop ?st u = (fst ?m, ?st', snd ?m)"
    by (simp add: security_def sample_gate_def mutating_def sample_stop_facts(1) login_path_def db_def 3 mux)
  obtain y v where 5: "db (Audit (rt_actor ?st') (q_method sample_stop) (url_path sample_stop) (audit_result (rs_status (fst ?m)))
      (Inr (audit_detail sample_env sample_stop (Some (rs_status (fst ?m)))))) (snd ?m) = (y, v)" by fastforce
  note 6 = 2(1) [simplified]
  have "ap_helper v = ap_helper (snd ?m)" using audit_keeps_helper [OF 5] .
  moreover have "ap_helper (snd (Handler sample_gate sample_env call ch ui sample_stop ?s)) = ap_helper v"
    using 5 by (simp add: Handler_def web_audit_def mutating_def 1 6 4 Let_def split: sum.split)
  ultimately show ?thesis using 2(2) by (intro exI [of _ ?v]) simp
qed

lemma mutate_helper:
  "ap_helper (snd (mutate call m i s)) = snd (call ''ReadBaseline'' InEmpty (snd (call m i (ap_helper s))))"
  by (auto simp: mutate_def invoke_def syncBaseline_def bind_web_def db_def notifyConfig_def Let_def split: prod.split sum.split
      call_outcome.split option.split)

lemma empty_request_fits:
  assumes "hr_type req = ''application/json''" "hr_body req = ''{}''"
  shows "request_fits sample_codec req d"
proof -
  have "decode fs zero req = Inr zero" for fs and zero :: 'a
    using assms empty_body by (simp add: decode_def decode_object_def bind_res_def MaxRequest_def)
  note dec = this
  have "group_marshal sample_codec empty_group \<noteq> Inr data" for data
    by (simp add: group_marshal_def empty_group_def group_validate_def)
  moreover have "\<not> loads [] im d" for im using loads_valid [of "[]" im d] by (auto simp: validSnapshotID_def)
  ultimately show ?thesis by (auto simp: request_fits_def dec restore_allowed_def)
qed

lemma empty_call_log:
  assumes "\<forall>(req, d)\<in>set (hp_log h). request_fits sample_codec req d"
  shows "\<forall>(req, d)\<in>set (hp_log (snd (helper_call sample_codec m InEmpty h))). request_fits sample_codec req d"
  using assms empty_request_fits
  by (auto simp: helper_call_def call_request_def next_turn_def helper_start_def Let_def compact_object_def
      split: prod.split option.split list.split)

text \<open>
  A helper that serves the first call, is restarted over a journal before the second, and dies in
  that one at a system call.
\<close>

definition busy_helper :: helper where
  "busy_helper = \<lparr>hp_disk = sample_pending, hp_up = True, hp_turns =
     [\<lparr>tn_start = None, tn_gone = False, tn_cancelled = False, tn_world = pending_world [Pass, Dies], tn_lost = True\<rparr>,
      \<lparr>tn_start = Some (pending_world [Pass, Fails]), tn_gone = False, tn_cancelled = False,
        tn_world = pending_world [Pass, Pass, Dies], tn_lost = False\<rparr>], hp_log = []\<rparr>"

lemma web_keeps_disk_sound_witness:
  "\<exists>h. h = ap_helper (web_run sample_gate (helper_call sample_codec) None [(sample_env, 0, sample_stop)] (member_api busy_helper)) \<and>
     hp_log h \<noteq> [] \<and> sound (hp_disk h)"
proof -
  let ?call = "helper_call sample_codec"
  let ?h1 = "snd (?call ''StopAvahi'' InEmpty busy_helper)"
  let ?h' = "ap_helper (web_run sample_gate ?call None [(sample_env, 0, sample_stop)] (member_api busy_helper))"
  have e: "(member_api busy_helper)\<lparr>ap_helper := busy_helper\<rparr> = member_api busy_helper"
    by (simp add: member_api_def sample_api_def)
  have h': "?h' = snd (?call ''ReadBaseline'' InEmpty ?h1)"
    using stop_handled [of busy_helper ?call 0 None] mutate_helper [of ?call] by auto
  have "method_ok ''StopAvahi''" by code_simp
  then have one: "hp_log ?h1 \<noteq> []"
    by (simp add: helper_call_def call_request_def busy_helper_def next_turn_def Let_def split: prod.split)
  have more: "hp_log (snd (?call m i h)) \<noteq> []" if "hp_log h \<noteq> []" for m i h
    using that by (auto simp: helper_call_def next_turn_def helper_start_def Let_def split: prod.split option.split sum.split list.split)
  have fits: "\<forall>(req, d)\<in>set (hp_log ?h'). request_fits sample_codec req d"
    unfolding h' by (intro empty_call_log) (simp add: busy_helper_def)
  have s: "sound (hp_disk busy_helper)" using sample_tx sample_sturdy by (auto simp: sound_def busy_helper_def)
  have l: "live False (pending_world es)" if "calm (pending_world es)" for es
    by (rule pending_live [OF that refl])
  have turns: "live False (tn_world t) \<and> (\<forall>w. tn_start t = Some w \<longrightarrow> live False w)" if "t \<in> set (hp_turns busy_helper)" for t
    using that by (auto simp: busy_helper_def intro!: l) (simp_all add: calm_def pending_world_def sample_world_def)
  have "sound (hp_disk ?h')"
    using web_keeps_disk_sound [OF s _ turns, of ?h' sample_gate sample_codec None "[(sample_env, 0, sample_stop)]" "member_api busy_helper"]
      fits e by (auto simp: busy_helper_def)
  moreover have "hp_log ?h' \<noteq> []" unfolding h' by (rule more [OF one])
  ultimately show ?thesis by blast
qed

end
