(* ===== verification/Commands.thy ===== *)
theory Commands
  imports ApiLaws
begin

text \<open>
  The commands of \<open>cmd/avahi-manager\<close> that decide who may do what: the set-up of the administrator, the
  start of the web server up to its handler, and the start of the helper up to its socket. Parsed flags
  (package \<open>flag\<close>), the effective user, the account database, the opened database and store and the sockets are
  arguments.
\<close>

section \<open>init-admin\<close>

record init_flags =
  if_name :: string
  if_missing :: bool
  if_args :: nat

text \<open>The password is read from the terminal, or is what standard input has.\<close>

datatype password_source = Terminal "string result" | Stdin "string result"

definition read_password :: "password_source \<Rightarrow> string result" where
  "read_password p =
     (case p of
        Terminal r \<Rightarrow> r
      | Stdin r \<Rightarrow> bind_res r (\<lambda>raw. Inr (trim_suffix (trim_suffix (take 1026 raw) [nl]) [cr])))"

definition init_admin :: "kdf \<Rightarrow> init_flags \<Rightarrow> password_source \<Rightarrow> string result \<Rightarrow> unit sql" where
  "init_admin A f source salt =
     bind_sql HasAdmin (\<lambda>has.
       if has
       then (if if_missing f then done_sql () else fail_sql (Msg ''administrator already exists''))
       else bind_sql (lift_sql (read_password source)) (\<lambda>password.
         then_sql (CreateAdmin A (if_name f) password salt)
           (Audit (if_name f) ''CreateAdmin'' ''administrator'' ''success'' (Inr ''null''))))"

text \<open>\<open>raw\<close> and \<open>dsalt\<close> are the random bytes of \<open>auth.New\<close>, \<open>salt\<close> those of the new hash.\<close>

definition runInitAdmin :: "kdf \<Rightarrow> init_flags result \<Rightarrow> nat \<Rightarrow> database result \<Rightarrow> string result \<Rightarrow> string result \<Rightarrow>
    password_source \<Rightarrow> string result \<Rightarrow> unit result \<times> database result" where
  "runInitAdmin A flags euid opened raw dsalt source salt =
     (case flags of Inl e \<Rightarrow> (Inl e, opened) | Inr f \<Rightarrow>
      if if_args f \<noteq> 0 then (Inl (Msg ''unexpected init-admin arguments''), opened)
      else if euid = 0 then (Inl (Msg ''initialize the administrator as the non-root manager account''), opened)
      else (case opened of Inl e \<Rightarrow> (Inl e, opened) | Inr d \<Rightarrow>
        (case auth_new A raw dsalt of Inl e \<Rightarrow> (Inl e, opened) | Inr _ \<Rightarrow>
          (let (r, d) = init_admin A f source salt d in (r, Inr d)))))"

section \<open>serve\<close>

record serve_flags =
  sf_origins :: string
  sf_args :: nat

text \<open>
  Up to the handler: \<open>h\<close> is the helper's state. A failed bootstrap is only logged, so it is part of
  the result.
\<close>

definition serve_start :: "(string \<Rightarrow> url option) \<Rightarrow> kdf \<Rightarrow> serve_flags result \<Rightarrow> nat \<Rightarrow> database result \<Rightarrow>
    string result \<Rightarrow> string result \<Rightarrow> 'h rpc \<Rightarrow> 'h \<Rightarrow> (gate \<times> (api_error + unit) \<times> 'h api) result" where
  "serve_start parse_url A flags euid opened raw dsalt call h =
     bind_res flags (\<lambda>f.
     if sf_args f \<noteq> 0 then Inl (Msg ''unexpected serve arguments'')
     else if euid = 0 then Inl (Msg ''HTTP server must run as a non-root account'')
     else bind_res opened (\<lambda>d.
       bind_res (auth_new A raw dsalt) (\<lambda>a.
       let (has, d) = HasAdmin d in
       bind_res has (\<lambda>has.
       if \<not> has then Inl (Msg ''administrator is not initialized; run init-admin as the manager account first'')
       else bind_res (api_new parse_url (split_on (CHR '','') (sf_origins f))) (\<lambda>G.
         let (r, s) = Bootstrap call \<lparr>ap_db = d, ap_auth = a, ap_helper = h, ap_discovery = NewDiscovery,
                ap_subs = fmempty, ap_slots = 0\<rparr> in
         Inr (G, r, s))))))"

section \<open>Opening the store\<close>

text \<open>
  \<open>OpenStore\<close> (\<open>internal/config/store.go\<close>): the results of its system calls in their order, the error of
  the lock's \<open>OpenFile\<close> included; the first component lists what is left open. A failed lock is
  reported with a text of its own.
\<close>

datatype handle = ConfigRoot | BackupRoot | WriterLock

record open_env =
  oe_root :: "unit result"
  oe_mkdir :: "unit result"
  oe_backups :: "unit result"
  oe_lock :: "unit result"
  oe_flock :: "unit result"

definition OpenStore :: "open_env \<Rightarrow> handle set \<times> unit result" where
  "OpenStore Q =
     (case oe_root Q of Inl e \<Rightarrow> ({}, Inl e) | Inr _ \<Rightarrow>
       let held = {ConfigRoot} in
       case oe_mkdir Q of Inl e \<Rightarrow> (held - {ConfigRoot}, Inl e) | Inr _ \<Rightarrow>
       case oe_backups Q of Inl e \<Rightarrow> (held - {ConfigRoot}, Inl e) | Inr _ \<Rightarrow>
       let held = held \<union> {BackupRoot};
           (held, r) = (case oe_lock Q of
               Inl e \<Rightarrow> (held, Inl e)
             | Inr _ \<Rightarrow> (held \<union> {WriterLock}, oe_flock Q)) in
       case r of
         Inl e \<Rightarrow> (held - {WriterLock} - {ConfigRoot} - {BackupRoot},
           Inl (Msg (''acquire configuration writer lock: '' @ error_text e)))
       | Inr _ \<Rightarrow> (held, Inr ()))"

section \<open>helper\<close>

record helper_flags =
  hf_account :: string
  hf_args :: nat

record account =
  ac_uid :: string
  ac_gid :: string

record socket =
  so_unix :: bool
  so_conns :: "conn result list"

text \<open>
  The sockets of the service manager (a missing one is \<open>None\<close>), and what binding a socket of one's own
  gives: the socket, and the error of \<open>Chown\<close> and \<open>Chmod\<close>.
\<close>

record socket_env =
  ke_activated :: "socket option list result"
  ke_listen :: "socket result"
  ke_permit :: "unit result"

definition parse_uint32 :: "string \<Rightarrow> nat option" where
  "parse_uint32 s = (if s \<noteq> [] \<and> list_all is_digit s \<and> dec_value s < 2 ^ 32 then Some (dec_value s) else None)"

text \<open>The first component lists the sockets that are closed again.\<close>

definition helper_listener :: "socket_env \<Rightarrow> socket list \<times> socket result" where
  "helper_listener K =
     (case ke_activated K of
        Inl e \<Rightarrow> ([], Inl e)
      | Inr ls \<Rightarrow>
          if ls \<noteq> [] then
            (if length ls \<noteq> 1 then (List.map_filter id ls, Inl (Msg ''helper expects exactly one activated socket''))
             else (case hd ls of
                 None \<Rightarrow> ([], Inl (Msg ''helper requires a Unix activation socket''))
               | Some l \<Rightarrow>
                   if \<not> so_unix l then ([l], Inl (Msg ''helper requires a Unix activation socket''))
                   else ([], Inr l)))
          else (case ke_listen K of
              Inl e \<Rightarrow> ([], Inl e)
            | Inr l \<Rightarrow> (case ke_permit K of Inl e \<Rightarrow> ([l], Inl e) | Inr _ \<Rightarrow> ([], Inr l))))"

text \<open>\<open>lookup\<close> is \<open>user.Lookup\<close>; the result is what \<open>Serve\<close> is called with.\<close>

definition helper_setup :: "(string \<Rightarrow> account result) \<Rightarrow> helper_flags result \<Rightarrow> nat \<Rightarrow> open_env \<Rightarrow> socket_env \<Rightarrow>
    (nat \<times> socket) result" where
  "helper_setup lookup flags euid Q K =
     bind_res flags (\<lambda>f.
     if hf_args f \<noteq> 0 then Inl (Msg ''unexpected helper arguments'')
     else if euid \<noteq> 0 then Inl (Msg ''helper must run as root'')
     else bind_res (lookup (hf_account f)) (\<lambda>u.
       case parse_uint32 (ac_uid u) of
         None \<Rightarrow> Inl (Msg ''strconv.ParseUint'')
       | Some uid \<Rightarrow> (case parse_int64 (ac_gid u) of
           None \<Rightarrow> Inl (Msg ''strconv.Atoi'')
         | Some gid \<Rightarrow>
             if uid = 0 then Inl (Msg ''manager account must be non-root'')
             else bind_res (snd (OpenStore Q)) (\<lambda>_. bind_res (snd (helper_listener K)) (\<lambda>l. Inr (uid, l))))))"

section \<open>One administrator\<close>

lemma does_lift: "does (lift_sql r) (\<lambda>t x t'. r = Inr x \<and> t' = t)"
  by (auto simp: does_def lift_sql_def)

lemma reads_lift: "reads (lift_sql r)"
  by (simp add: reads_def lift_sql_def)

lemma does_CreateAdmin:
  "does (CreateAdmin A name password salt) (\<lambda>t _ t'. username_ok name \<and> db_user t = None \<and>
     (\<exists>hash now. HashPassword A password salt = Inr hash \<and>
        t' = t\<lparr>db_user := Some \<lparr>us_name = name, us_hash = hash, us_created = now, us_login = None\<rparr>\<rparr>))"
proof (cases "username_ok name \<and> \<not> isl (HashPassword A password salt)")
  case False
  then show ?thesis by (auto simp: CreateAdmin_def does_def fail_sql_def split: sum.splits)
next
  case True
  then obtain hash where h: "HashPassword A password salt = Inr hash" by (cases "HashPassword A password salt") auto
  have c: "CreateAdmin A name password salt = bind_sql Now (\<lambda>now. exec (\<lambda>t. if db_user t \<noteq> None then Inl constraint
      else Inr ((), t\<lparr>db_user := Some \<lparr>us_name = name, us_hash = hash, us_created = now, us_login = None\<rparr>\<rparr>)))"
    using True h by (simp add: CreateAdmin_def)
  show ?thesis unfolding c by (rule does_now_exec) (use True h in \<open>auto split: if_splits\<close>)
qed

lemma does_Audit_user: "does (Audit a c p r x) (\<lambda>t _ t'. db_user t' = db_user t \<and> length (db_audit t') = Suc (length (db_audit t)))"
proof (cases x)
  case (Inl e)
  then show ?thesis by (simp add: Audit_def does_def fail_sql_def)
next
  case (Inr d)
  then show ?thesis unfolding Audit_def by simp (rule does_now_exec, auto)
qed

lemma does_init_admin:
  "does (init_admin A f source salt) (\<lambda>t _ t'.
     case db_user t of
       Some u \<Rightarrow> if_missing f \<and> t' = t
     | None \<Rightarrow> \<exists>u password. db_user t' = Some u \<and> us_name u = if_name f \<and> username_ok (if_name f) \<and>
         read_password source = Inr password \<and> HashPassword A password salt = Inr (us_hash u) \<and>
         length (db_audit t') = Suc (length (db_audit t)))"
proof -
  have has: "does HasAdmin (\<lambda>t b t'. b = (db_user t \<noteq> None) \<and> t' = t)"
    unfolding HasAdmin_def by (rule does_conseq [OF does_query]) auto
  let ?new = "bind_sql (lift_sql (read_password source)) (\<lambda>password. then_sql (CreateAdmin A (if_name f) password salt)
      (Audit (if_name f) ''CreateAdmin'' ''administrator'' ''success'' (Inr ''null'')))"
  let ?R = "\<lambda>t t'. \<exists>u password. db_user t' = Some u \<and> us_name u = if_name f \<and> username_ok (if_name f) \<and>
      read_password source = Inr password \<and> HashPassword A password salt = Inr (us_hash u) \<and>
      length (db_audit t') = Suc (length (db_audit t))"
  have new: "does ?new (\<lambda>t _ t'. ?R t t')"
    by (rule does_conseq [OF does_bind [OF does_lift does_bind [OF does_CreateAdmin does_Audit_user]]]) force
  let ?rest = "\<lambda>has. if has then (if if_missing f then done_sql () else fail_sql (Msg ''administrator already exists'')) else ?new"
  have rest: "does (?rest b) (\<lambda>t x t'. if b then if_missing f \<and> t' = t else ?R t t')" for b
  proof (cases b)
    case True
    then show ?thesis by (auto simp: does_def done_sql_def fail_sql_def)
  next
    case False
    then show ?thesis using new by simp
  qed
  show ?thesis unfolding init_admin_def
    by (rule does_conseq [OF does_bind [OF has rest]]) (auto split: option.splits)
qed

lemma init_admin_existing:
  assumes "db_user (sq_tables d) \<noteq> None" "init_admin A f source salt d = (r, d')"
  shows "sq_tables d' = sq_tables d"
proof -
  obtain q d1 where q: "HasAdmin d = (q, d1)" by fastforce
  then have t: "sq_tables d1 = sq_tables d" using reads_basic(5) unfolding HasAdmin_def reads_def by (metis snd_conv)
  show ?thesis
  proof (cases q)
    case (Inl e)
    then show ?thesis using q t assms(2) by (simp add: init_admin_def bind_sql_def)
  next
    case (Inr b)
    have "does HasAdmin (\<lambda>t b t'. b = (db_user t \<noteq> None))"
      unfolding HasAdmin_def by (rule does_conseq [OF does_query]) auto
    then have b using doesD q Inr assms(1) by fastforce
    then show ?thesis
      using q t Inr assms(2) by (auto simp: init_admin_def bind_sql_def done_sql_def fail_sql_def split: if_splits)
  qed
qed

text \<open>
  C18. There is one administrator: \<open>init-admin\<close> run again changes nothing, whatever name and password it is given,
  and succeeds only with \<open>-if-missing\<close>. When it succeeds the first time, it was not root, the account has
  the name it was given, the password that was read, and only a password with the same derived key, verifies
  against the stored hash, and the audit log has one entry more.
\<close>

theorem admin_initialised:
  assumes "runInitAdmin A (Inr f) euid (Inr d) raw dsalt source (Inr salt) = (r, Inr d')"
    and "length salt = 16" "\<And>p. length (A p salt) = 32"
  shows "(db_user (sq_tables d) \<noteq> None \<longrightarrow> sq_tables d' = sq_tables d \<and> (r = Inr () \<longrightarrow> if_missing f)) \<and>
    (db_user (sq_tables d) = None \<and> r = Inr () \<longrightarrow> euid \<noteq> 0 \<and>
      (\<exists>u password. db_user (sq_tables d') = Some u \<and> us_name u = if_name f \<and> username_ok (if_name f) \<and>
         read_password source = Inr password \<and> 12 \<le> length password \<and> length password \<le> 1024 \<and>
         (\<forall>c. VerifyPassword A (us_hash u) c \<longleftrightarrow> length c \<le> 1024 \<and> A c salt = A password salt) \<and>
         length (db_audit (sq_tables d')) = Suc (length (db_audit (sq_tables d)))))"
proof (cases "if_args f = 0 \<and> euid \<noteq> 0 \<and> \<not> isl (auth_new A raw dsalt)")
  case False
  then have "d' = d" "isl r" using assms(1) by (auto simp: runInitAdmin_def split: if_splits sum.splits)
  then show ?thesis by auto
next
  case True
  then have run: "init_admin A f source (Inr salt) d = (r, d')" and e: "euid \<noteq> 0"
    using assms(1) by (auto simp: runInitAdmin_def split: sum.splits prod.splits)
  show ?thesis
  proof (cases "db_user (sq_tables d)")
    case (Some u)
    then have "r = Inr () \<longrightarrow> if_missing f" using doesD [OF does_init_admin, of A f source "Inr salt" d "()" d'] run by auto
    then show ?thesis using init_admin_existing [OF _ run] Some by simp
  next
    case None
    have hash: "12 \<le> length p \<and> length p \<le> 1024" if "HashPassword A p (Inr salt) = Inr h" for p h
      using that by (auto simp: HashPassword_def split: if_splits)
    have verify: "VerifyPassword A h c \<longleftrightarrow> length c \<le> 1024 \<and> A c salt = A p salt" if "HashPassword A p (Inr salt) = Inr h" for p h c
      by (rule verify_hash [OF that assms(2,3)])
    show ?thesis
    proof (cases r)
      case (Inl x)
      then show ?thesis using None by simp
    next
      case (Inr x)
      then obtain u password where "db_user (sq_tables d') = Some u" "us_name u = if_name f" "username_ok (if_name f)"
          "read_password source = Inr password" and h: "HashPassword A password (Inr salt) = Inr (us_hash u)"
          and "length (db_audit (sq_tables d')) = Suc (length (db_audit (sq_tables d)))"
        using None doesD [OF does_init_admin, of A f source "Inr salt" d x d'] run by auto
      then show ?thesis using None e hash [OF h] verify [OF h] by auto
    qed
  qed
qed

lemma admin_initialised_witness:
  "\<exists>e d'. runInitAdmin sample_kdf (Inr \<lparr>if_name = ''root'', if_missing = False, if_args = 0\<rparr>) 1000
       (Inr (sample_db [] sample_account)) (Inr ''secret'') (Inr []) (Stdin (Inr ''a long enough password'')) (Inr (replicate 16 nl)) =
         (Inl e, Inr d') \<and>
     sq_tables d' = sample_account"
proof -
  let ?run = "runInitAdmin sample_kdf (Inr \<lparr>if_name = ''root'', if_missing = False, if_args = 0\<rparr>) 1000
       (Inr (sample_db [] sample_account)) (Inr ''secret'') (Inr []) (Stdin (Inr ''a long enough password'')) (Inr (replicate 16 nl))"
  have "\<not> isl (snd ?run)" by (auto simp: runInitAdmin_def split: sum.split prod.split)
  then obtain r d' where r: "?run = (r, Inr d')" by (metis isl_def prod.collapse sumE)
  show ?thesis using admin_initialised [OF r] r by (cases r) (auto simp: sample_kdf_def sample_account_def)
qed

section \<open>A server has an administrator\<close>

definition spares :: "'a sql \<Rightarrow> bool" where
  "spares m \<longleftrightarrow> does m (\<lambda>t _ t'. db_user t' = db_user t)"

lemma spares_bind: "spares m \<Longrightarrow> (\<And>x. spares (f x)) \<Longrightarrow> spares (bind_sql m f)"
  unfolding spares_def by (rule does_conseq [OF does_bind]) auto

lemma spares_exec: "(\<And>t x t'. f t = Inr (x, t') \<Longrightarrow> db_user t' = db_user t) \<Longrightarrow> spares (exec f)"
  unfolding spares_def by (rule does_conseq [OF does_exec])

lemma spares_basic: "spares (done_sql x)" "spares Now"
  unfolding spares_def by (rule does_conseq [OF does_done], simp) (rule does_Now [THEN does_conseq], simp)

lemma spares_each: "(\<And>x. spares (f x)) \<Longrightarrow> spares (each f xs)"
  by (induction xs) (auto intro: spares_basic spares_bind)

lemma spares_transaction: "spares m \<Longrightarrow> spares (transaction m)"
  unfolding spares_def by (rule does_transaction)

lemma spares_SaveBaseline: "spares (SaveBaseline m v h)"
  unfolding SaveBaseline_def clear_files_def insert_files_def insert_file_def put_setting_def upsert_snapshot_def
  by (intro spares_transaction spares_bind spares_each spares_exec spares_basic)
    (auto split: if_splits intro!: spares_bind spares_basic spares_exec)

lemma spares_InterruptJobs: "spares InterruptJobs"
  unfolding InterruptJobs_def update_jobs_def
  by (intro spares_bind spares_exec spares_basic) (auto split: if_splits)

lemma sparesD:
  assumes "spares m" "atomic m" "m d = (r, d')"
  shows "db_user (sq_tables d') = db_user (sq_tables d)"
  using assms by (cases r) (auto simp: spares_def dest: doesD atomicD)

lemma interrupt_closes: "x \<in> set (lg_jobs (book OpInterrupt l)) \<Longrightarrow> \<not> open_state (snd x)"
  by (auto simp: open_state_def split: if_splits)

text \<open>What the bootstrap leaves in the database.\<close>

lemma Bootstrap_ledger:
  assumes "Bootstrap call s = (r, s')"
  shows "db_user (sq_tables (ap_db s')) = db_user (sq_tables (ap_db s)) \<and>
    (r = Inr () \<longrightarrow> (\<exists>mf c. fst (call ''ReadBaseline'' InEmpty (ap_helper s)) = Returned (ASnapshot mf c) \<and>
       ledger_of (sq_tables (ap_db s')) =
         book (OpSave mf (cf_revision c) (cf_hashes c)) (book OpInterrupt (ledger_of (sq_tables (ap_db s))))))"
proof -
  obtain q d where q: "InterruptJobs (ap_db s) = (q, d)" by fastforce
  let ?s = "s\<lparr>ap_db := d\<rparr>"
  have "atomic InterruptJobs"
    unfolding InterruptJobs_def update_jobs_def by (intro atomic_bind reads_basic atomic_done atomic_exec)
  then have u: "db_user (sq_tables d) = db_user (sq_tables (ap_db s))" by (rule sparesD [OF spares_InterruptJobs _ q])
  show ?thesis
  proof (cases q)
    case (Inl e)
    then show ?thesis using assms q u by (auto simp: Bootstrap_def bind_web_def db_def)
  next
    case (Inr x)
    have l: "ledger_of (sq_tables d) = book OpInterrupt (ledger_of (sq_tables (ap_db s)))"
      using books_op [of OpInterrupt] q Inr unfolding books_def does_def by simp
    have y: "syncBaseline call ?s = (r, s')" using assms q Inr by (simp add: Bootstrap_def bind_web_def db_def)
    have "db_user (sq_tables (ap_db s')) = db_user (sq_tables d)"
    proof -
      obtain z s1 where z: "invoke call ''ReadBaseline'' InEmpty as_snapshot ?s = (z, s1)" by fastforce
      then have s1: "ap_db s1 = d" by (auto simp: invoke_def Let_def split: prod.splits)
      show ?thesis
      proof (cases z)
        case (Inl e)
        then show ?thesis using y z s1 by (simp add: syncBaseline_def bind_web_def)
      next
        case (Inr p)
        obtain mf c where p: "p = (mf, c)" by fastforce
        obtain w d2 where w: "SaveBaseline mf (cf_revision c) (cf_hashes c) d = (w, d2)" by fastforce
        have "atomic (SaveBaseline mf (cf_revision c) (cf_hashes c))" unfolding SaveBaseline_def by (rule atomic_transaction)
        then have "db_user (sq_tables d2) = db_user (sq_tables d)" by (rule sparesD [OF spares_SaveBaseline _ w])
        moreover have "ap_db s' = d2" using y z Inr p w s1 by (auto simp: syncBaseline_def bind_web_def db_def)
        ultimately show ?thesis by simp
      qed
    qed
    then show ?thesis using sync_ledger [OF y] u l by auto
  qed
qed

lemma gate_origins:
  assumes "gate_of parse_url os g = Inr G"
  shows "set (gt_origins G) = set os \<union> set (gt_origins g) \<and> set (gt_hosts g) \<subseteq> set (gt_hosts G) \<and>
    (\<forall>o'\<in>set os. \<exists>u. parse_url o' = Some u \<and> u_host u \<in> set (gt_hosts G) \<and> u_scheme u \<in> {''http'', ''https''} \<and>
       u_user u = None \<and> u_path u = [] \<and> (u_scheme u = ''https'' \<longrightarrow> gt_secure G)) \<and> (gt_secure g \<longrightarrow> gt_secure G)"
  using assms
proof (induction os arbitrary: g)
  case (Cons o' os)
  then obtain u where u: "parse_url o' = Some u" by (auto simp: Let_def split: option.splits)
  have ok: "u_user u = None" "u_path u = []" "u_scheme u = ''http'' \<or> u_scheme u = ''https''"
    using Cons.prems u by (auto simp: Let_def split: if_splits)
  have "gate_of parse_url os \<lparr>gt_hosts = u_host u # gt_hosts g, gt_origins = o' # gt_origins g,
      gt_secure = (gt_secure g \<or> u_scheme u = ''https'')\<rparr> = Inr G"
    using Cons.prems u by (auto simp: Let_def split: if_splits)
  from Cons.IH [OF this] show ?case using u ok by auto
qed simp

text \<open>
  C19. A server that starts is not root's and has an administrator, who is still there after the bootstrap; its
  origins are those it was given, all of them plain HTTP origins whose hosts it answers to; with one of
  them secure, its cookies are. When the bootstrap succeeds, no job of an earlier run is still open on record,
  and the accepted files are those of the helper's baseline.
\<close>

theorem serve_started:
  assumes "serve_start parse_url A (Inr f) euid (Inr d) raw dsalt call h = Inr (G, r, s)"
  shows "euid \<noteq> 0 \<and> db_user (sq_tables (ap_db s)) = db_user (sq_tables d) \<and> db_user (sq_tables d) \<noteq> None \<and>
    set (gt_origins G) = set (split_on (CHR '','') (sf_origins f)) \<and>
    (\<forall>x\<in>set (gt_origins G). \<exists>u. parse_url x = Some u \<and> u_host u \<in> set (gt_hosts G) \<and> u_scheme u \<in> {''http'', ''https''} \<and>
       u_user u = None \<and> u_path u = [] \<and> (u_scheme u = ''https'' \<longrightarrow> gt_secure G)) \<and>
    (r = Inr () \<longrightarrow> (\<exists>mf c. fst (call ''ReadBaseline'' InEmpty h) = Returned (ASnapshot mf c) \<and>
       (\<forall>j\<in>set (lg_jobs (ledger_of (sq_tables (ap_db s)))). \<not> open_state (snd j)) \<and>
       lg_files (ledger_of (sq_tables (ap_db s))) = cf_hashes c))"
proof -
  obtain q d1 where q: "HasAdmin d = (q, d1)" by fastforce
  then have t: "sq_tables d1 = sq_tables d" using reads_basic(5) unfolding HasAdmin_def reads_def by (metis snd_conv)
  obtain a where a: "auth_new A raw dsalt = Inr a" and e: "euid \<noteq> 0" and has: "q = Inr True"
    and G: "api_new parse_url (split_on (CHR '','') (sf_origins f)) = Inr G"
    and B: "Bootstrap call \<lparr>ap_db = d1, ap_auth = a, ap_helper = h, ap_discovery = NewDiscovery, ap_subs = fmempty, ap_slots = 0\<rparr> = (r, s)"
    using assms q by (auto simp: serve_start_def Let_def split: if_splits prod.splits)
  have "does HasAdmin (\<lambda>t b t'. b = (db_user t \<noteq> None))"
    unfolding HasAdmin_def by (rule does_conseq [OF does_query]) auto
  then have user: "db_user (sq_tables d) \<noteq> None" using doesD q has by fastforce
  have "split_on (CHR '','') (sf_origins f) \<noteq> []" by (cases "sf_origins f") (auto split: list.splits)
  then have "gate_of parse_url (split_on (CHR '','') (sf_origins f)) \<lparr>gt_hosts = [], gt_origins = [], gt_secure = False\<rparr> = Inr G"
    using G by (simp add: api_new_def)
  from gate_origins [OF this] have gate: "set (gt_origins G) = set (split_on (CHR '','') (sf_origins f))"
    "\<forall>x\<in>set (gt_origins G). \<exists>u. parse_url x = Some u \<and> u_host u \<in> set (gt_hosts G) \<and> u_scheme u \<in> {''http'', ''https''} \<and>
       u_user u = None \<and> u_path u = [] \<and> (u_scheme u = ''https'' \<longrightarrow> gt_secure G)" by simp_all
  have boot: "r = Inr () \<longrightarrow> (\<exists>mf c. fst (call ''ReadBaseline'' InEmpty h) = Returned (ASnapshot mf c) \<and>
       (\<forall>j\<in>set (lg_jobs (ledger_of (sq_tables (ap_db s)))). \<not> open_state (snd j)) \<and>
       lg_files (ledger_of (sq_tables (ap_db s))) = cf_hashes c)"
  proof
    assume "r = Inr ()"
    then obtain mf c where c: "fst (call ''ReadBaseline'' InEmpty h) = Returned (ASnapshot mf c)"
      and l: "ledger_of (sq_tables (ap_db s)) = book (OpSave mf (cf_revision c) (cf_hashes c)) (book OpInterrupt (ledger_of (sq_tables d)))"
      using Bootstrap_ledger [OF B] t by auto
    have "lg_jobs (ledger_of (sq_tables (ap_db s))) = lg_jobs (book OpInterrupt (ledger_of (sq_tables d)))"
      "lg_files (ledger_of (sq_tables (ap_db s))) = cf_hashes c" using l by simp_all
    then show "\<exists>mf c. fst (call ''ReadBaseline'' InEmpty h) = Returned (ASnapshot mf c) \<and>
       (\<forall>j\<in>set (lg_jobs (ledger_of (sq_tables (ap_db s)))). \<not> open_state (snd j)) \<and>
       lg_files (ledger_of (sq_tables (ap_db s))) = cf_hashes c"
      using c interrupt_closes by metis
  qed
  have "db_user (sq_tables (ap_db s)) = db_user (sq_tables d)" using Bootstrap_ledger [OF B] t by simp
  then show ?thesis using e user gate boot by simp
qed

lemma sample_new: "\<exists>a. auth_new sample_kdf (Inr ''secret'') (Inr []) = Inr a"
  by (simp add: auth_new_def randomToken_def hex_encode_def hex_byte_def hex_char_def byte_of_def HashPassword_def runes_ascii)

lemma serve_started_witness:
  "\<exists>G r s. serve_start (\<lambda>x. Some \<lparr>u_scheme = ''http'', u_user = None, u_host = ''nas'', u_path = [], u_query = [], u_fragment = []\<rparr>)
      sample_kdf (Inr \<lparr>sf_origins = ''http://nas'', sf_args = 0\<rparr>) 1000 (Inr (sample_db [] sample_account)) (Inr ''secret'') (Inr [])
      sample_call () = Inr (G, r, s) \<and>
    set (gt_origins G) = {''http://nas''} \<and> ''nas'' \<in> set (gt_hosts G) \<and> db_user (sq_tables (ap_db s)) = db_user sample_account"
proof -
  let ?u = "\<lparr>u_scheme = ''http'', u_user = None, u_host = ''nas'', u_path = [], u_query = [], u_fragment = []\<rparr>"
  let ?run = "serve_start (\<lambda>x. Some ?u) sample_kdf (Inr \<lparr>sf_origins = ''http://nas'', sf_args = 0\<rparr>) 1000
      (Inr (sample_db [] sample_account)) (Inr ''secret'') (Inr []) sample_call ()"
  obtain a where a: "auth_new sample_kdf (Inr ''secret'') (Inr []) = Inr a" using sample_new by blast
  have "HasAdmin (sample_db [] sample_account) = (Inr True, sample_db [] sample_account)"
    by (simp add: HasAdmin_def query_def faulty_def sample_db_def sample_account_def)
  moreover obtain r s where "Bootstrap sample_call \<lparr>ap_db = sample_db [] sample_account, ap_auth = a, ap_helper = (),
      ap_discovery = NewDiscovery, ap_subs = fmempty, ap_slots = 0\<rparr> = (r, s)" by fastforce
  ultimately obtain G where r: "?run = Inr (G, r, s)"
    using a by (simp add: serve_start_def api_new_def Let_def)
  show ?thesis using serve_started [OF r] r by auto
qed

section \<open>The helper serves one account\<close>

text \<open>Opening the store leaks nothing: it holds all of its handles, or none.\<close>

lemma OpenStore_handles:
  "fst (OpenStore Q) = (if snd (OpenStore Q) = Inr () then {ConfigRoot, BackupRoot, WriterLock} else {})"
  by (auto simp: OpenStore_def Let_def split: sum.splits)

text \<open>
  C20. The helper gets to serve only as root, and only for an account that is not root's: every connection that it
  accepts is a Unix connection of that account. It holds the writer's lock on the store. It takes over exactly one activated Unix socket, or one it has
  bound itself with its owner and mode set, and closes none that it serves.
\<close>

theorem helper_serves_account:
  assumes "helper_setup lookup (Inr f) euid Q K = Inr (uid, l)"
  shows "euid = 0 \<and> 0 < uid \<and> uid < 2 ^ 32 \<and> oe_flock Q = Inr () \<and> WriterLock \<in> fst (OpenStore Q) \<and>
    (\<exists>u. lookup (hf_account f) = Inr u \<and> parse_uint32 (ac_uid u) = Some uid) \<and>
    (so_unix l \<and> ke_activated K = Inr [Some l] \<or> ke_activated K = Inr [] \<and> ke_listen K = Inr l \<and> ke_permit K = Inr ()) \<and>
    l \<notin> set (fst (helper_listener K)) \<and>
    (\<forall>c closed rest. accept uid (so_conns l) = (Inr c, closed, rest) \<longrightarrow> peerUID c = Inr uid \<and> cn_unix c \<and> peerUID c \<noteq> Inr 0)"
proof -
  obtain u where u: "lookup (hf_account f) = Inr u" "parse_uint32 (ac_uid u) = Some uid" "uid \<noteq> 0" "euid = 0" and Q: "snd (OpenStore Q) = Inr ()"
    and l: "snd (helper_listener K) = Inr l"
    using assms by (auto simp: helper_setup_def split: if_splits option.splits)
  have k: "(so_unix l \<and> ke_activated K = Inr [Some l] \<or> ke_activated K = Inr [] \<and> ke_listen K = Inr l \<and> ke_permit K = Inr ()) \<and>
      l \<notin> set (fst (helper_listener K))"
    using l by (auto simp: helper_listener_def length_Suc_conv split: sum.splits if_splits option.splits)
  have "oe_flock Q = Inr ()" "WriterLock \<in> fst (OpenStore Q)"
    using Q OpenStore_handles [of Q] by (auto simp: OpenStore_def Let_def split: sum.splits)
  moreover have "uid < 2 ^ 32" using u(2) by (auto simp: parse_uint32_def split: if_splits)
  ultimately show ?thesis using u k accept_peer by (metis neq0_conv sum.inject(2))
qed

lemma helper_serves_account_witness:
  "peerUID \<lparr>cn_unix = True, cn_cred = Inr 7\<rparr> = Inr 7 \<and> peerUID \<lparr>cn_unix = True, cn_cred = Inr 7\<rparr> \<noteq> Inr 0"
proof -
  let ?l = "\<lparr>so_unix = True, so_conns = [Inr \<lparr>cn_unix = True, cn_cred = Inr 7\<rparr>]\<rparr>"
  have "helper_setup (\<lambda>_. Inr \<lparr>ac_uid = ''7'', ac_gid = ''7''\<rparr>) (Inr \<lparr>hf_account = ''avahi-manager'', hf_args = 0\<rparr>) 0
      \<lparr>oe_root = Inr (), oe_mkdir = Inr (), oe_backups = Inr (), oe_lock = Inr (), oe_flock = Inr ()\<rparr>
      \<lparr>ke_activated = Inr [Some ?l], ke_listen = Inl Fault, ke_permit = Inl Fault\<rparr> = Inr (7, ?l)"
    by (simp add: helper_setup_def helper_listener_def OpenStore_def parse_uint32_def parse_int64_def dec_value_def digit_val_def byte_of_def is_digit_def)
  from helper_serves_account [OF this]
  show ?thesis by (simp add: peerUID_def)
qed

end
