(* ===== verification/Spec2Isabelle.thy ===== *)
theory Spec2Isabelle
  imports Daemon Hosts Service Helper ReadBack Auth Discovery Network Journal Watch Commands
begin

text \<open>
  Avahi Manager: a verification development for the Go sources under \<open>src/\<close>.

  \<^bold>\<open>The program.\<close> A web server that is not root (\<open>cmd/avahi-manager serve\<close>) lets one administrator edit the
  configuration of \<open>avahi-daemon\<close>. It asks a helper that is root (\<open>cmd/avahi-manager helper\<close>) over a Unix
  socket for everything that touches \<open>/etc/avahi\<close> or systemd. The helper replaces the configuration in
  transactions with a journal, snapshots and a pinned baseline. The server keeps sessions, the audit
  log and the accepted hashes in SQLite, follows the configuration directory with a watcher, and shows
  what Avahi discovers on the network.

  \<^bold>\<open>Theories, from the bottom up.\<close>
  \<^item> \<open>Prelude\<close>, \<open>GoStd\<close>, \<open>Netip\<close>, \<open>Sha256\<close>, \<open>Clock\<close>, \<open>Json\<close>: error values and fallible results; what the
    sources use of Go's \<open>strings\<close>, \<open>path\<close>, \<open>strconv\<close>, \<open>unicode/utf8\<close>, \<open>net/netip\<close>, \<open>crypto/sha256\<close>, \<open>time\<close> and
    \<open>encoding/json\<close>. Strings are lists of bytes, machine integers are words, maps are finite maps whose
    order of visit, where it can matter, is an argument.
  \<^item> \<open>Daemon\<close>, \<open>Hosts\<close>, \<open>Service\<close>, \<open>Image\<close> (\<open>internal/config/daemon.go\<close>, \<open>hosts.go\<close>, \<open>service.go\<close> and the pure parts of
    \<open>store.go\<close> and \<open>apply.go\<close>): parsers, validators and printers with their round trips and exact acceptance
    conditions; images, their paths, their revision and the action that a change needs.
  \<^item> \<open>World\<close>, \<open>Store\<close>, \<open>Apply\<close>: a file system with three directories and every operation of \<open>Store\<close>, one system call
    at a time, where each call may fail and the process may die between any two.
  \<^item> \<open>Logic\<close>, \<open>StoreLaws\<close>, \<open>SnapLaws\<close>, \<open>ApplyLaws\<close>, \<open>TxLaws\<close>, \<open>CommitLaws\<close>, \<open>StoreProps\<close>, \<open>Reach\<close>: a Hoare logic for such
    computations (precondition, result, error, death) and what it shows of the store: a save installs the
    new image or restores the old one, also across deaths; a journal blocks everything else; snapshots
    read back; every reachable state is sound, where \<open>sound\<close> means that one recovery makes it whole. The locale
    \<open>server\<close> states what a set of operations owes to that invariant and is interpreted for the
    store's operations and for the helper's requests; the locale \<open>runtime\<close> states what the transaction needs
    of systemd and is interpreted for the controllers of \<open>Systemd\<close>.
  \<^item> \<open>Systemd\<close> (\<open>internal/systemd\<close>, the runtime of \<open>cmd/avahi-manager/helper.go\<close>): jobs and the health check.
  \<^item> \<open>Helper\<close>, \<open>Protocol\<close>, \<open>ReadBack\<close> (\<open>internal/helper\<close>): the method table, strict decoding, the operations, the peer
    check and the client's calls; the process that recovers when it starts, may die in a call and be
    started again; and that what is saved is what is read next.
  \<^item> \<open>Database\<close>, \<open>Auth\<close> (\<open>internal/database\<close>, \<open>internal/auth\<close>): every statement over the tables of the migration, refined to
    a ledger; password hashes, the limit on attempts, sessions and CSRF tokens.
  \<^item> \<open>Discovery\<close>, \<open>Network\<close>, \<open>Journal\<close> (\<open>internal/avahi\<close>, \<open>internal/network\<close>, \<open>internal/detect\<close>, \<open>internal/journal\<close>): the cache of services
    as a state machine over signals and results, the interfaces, the state of the system, and the reading of
    journal entries with its limits.
  \<^item> \<open>Api\<close>, \<open>ApiLaws\<close> (\<open>internal/api\<close>): all routes and event streams behind the checks and the audit. The locale
    \<open>api_frame\<close> carries an invariant of the helper's calls and of the database through every handler;
    it is interpreted for the audit log, which gives the completeness of the audit, and for the
    helper's state, which carries the soundness of the disk up to any sequence of web requests.
  \<^item> \<open>Watch\<close>, \<open>Commands\<close> (\<open>internal/config/watch.go\<close>, \<open>cmd/avahi-manager\<close>): the watcher's loop with its timer, and the
    commands up to where their servers run.

  \<^bold>\<open>Assumptions about what is not under src.\<close> The XML decoder and encoder are the record \<open>xml_codec\<close>, Argon2id is the
  parameter \<open>A\<close> of type \<open>kdf\<close>, \<open>net/url\<close>'s parser the parameter \<open>parse_url\<close>. D-Bus, \<open>journalctl\<close>, netlink and \<open>fsnotify\<close> are
  what the environment answers or sends. A completed system call is durable; files are changed
  by others only where a property says so. A SQL transaction that fails leaves the tables as they were. A
  recovery is shown to succeed in a world where calls run, systemd obliges and random names are fresh.

  \<^bold>\<open>Limits that the code does not check.\<close> \<open>manifest_bound\<close> says that
  the manifest of an image stays under the 1 MiB that \<open>readFile\<close> accepts (\<open>room\<close>, and with it \<open>store_ok\<close> and
  \<open>request_fits\<close>, by a bound on the weight of the manifest's entries), and \<open>canonical\<close> that files are named by
  clean UTF-8 paths: without either, a snapshot just made cannot be loaded. A single image is held to
  \<open>MaxTotalSize\<close> by the code, and nothing more is assumed of its size. But between the renames and the
  removals of \<open>replace\<close> the files of the old and the new image are both on disk, and together they can
  exceed the limit (\<open>oversized\<close>). A recovery from there fails and changes nothing, which the theorems about recovery
  allow for as a case of its own; \<open>oversized_stuck\<close> shows that no request and no restart leads out of it.

  \<^bold>\<open>Bounds.\<close> The health check has no counter: its deadline is \<open>healthy_timeout\<close> (10 s) away, its ticks are
  \<open>tick_period\<close> (200 ms) apart, and \<open>healthy_loop\<close> terminates because the time left shrinks. The time that a round
  itself takes only makes ticks fewer. \<open>prune\<close> keeps 20 snapshots as the
  code does. The JSON reader has the length of the text as fuel, which \<open>fuel_enough\<close> shows to suffice.
  \<open>w_limit\<close> is the number of random names that a world can give; the process dies when they run out, and a
  quiet world has 200, more than a recovery takes. \<open>year_limit\<close> is the year 10000, from which on the layouts of
  time would need a fifth digit.

  \<^bold>\<open>Simplified.\<close> A symbolic link has no target here, so the three checks of \<open>pending.json\<close> by \<open>Stat\<close> count a link as
  present, like the one by \<open>Lstat\<close>; nothing in the program creates a link. The reply of Avahi to a request
  for a service is taken to carry the identity that was asked for, with which the code
  overwrites the fields of the request.

  \<^bold>\<open>Not modelled.\<close> The text of system errors and of most error messages beyond what decides a branch; HTTP
  itself (headers, timeouts, connections, shutdown) and the sending of bytes; the order of concurrent
  requests, which the mutexes make sequential, except for the event streams and the discovery's workers; opening
  and migrating the database; the D-Bus calls behind \<open>internal/avahi/client.go\<close> and the resolution of services; the
  commands \<open>detect\<close>, \<open>interfaces\<close> and \<open>discover\<close>, which print what the modelled functions return; parsing of
  flags; the embedded pages of \<open>frontend\<close>, the TypeScript sources and the packaging.
\<close>

end
